(* ===== verification/ServerPrelude.thy ===== *)
theory ServerPrelude
  imports Main "HOL-Library.Word" "HOL-Library.Char_ord" "HOL-Library.List_Lexorder"
begin

text \<open>
  Shared vocabulary of the development: the integer and string types of
  \<^verbatim>\<open>ServerCore/Utils/Types.h\<close>, the theorem collections the component theories use, and
  generic lemmas on lists of bytes.

  Conventions.  A C++ \<open>int32\<close> is an \<open>int\<close>: overflow of a signed integer is undefined
  behaviour, so the component invariants state that every value stays inside \<open>int32_range\<close>.
  Unsigned integers whose wrap-around is defined are words.  A \<open>std::string\<close> is a
  \<open>string\<close> (a list of 8-bit characters), a \<open>std::wstring\<close> a list of 16-bit units.
\<close>

section \<open>Types\<close>

type_synonym byte = "8 word"
type_synonym uint16 = "16 word"
type_synonym uint32 = "32 word"
type_synonym uint64 = "64 word"
type_synonym wstring = "16 word list"

definition int32_range :: "int \<Rightarrow> bool" where
  "int32_range i \<longleftrightarrow> - (2 ^ 31) \<le> i \<and> i < 2 ^ 31"

named_theorems inv_defs \<open>definitions of the component invariants\<close>
named_theorems op_defs \<open>definitions of the operations\<close>

section \<open>Blocks of a byte array\<close>

text \<open>\<open>block off n xs\<close> reads \<open>n\<close> cells from offset \<open>off\<close>; \<open>blit off ys xs\<close>
  overwrites the cells from \<open>off\<close> on with \<open>ys\<close>, as \<open>memcpy\<close> or the network card does.\<close>

definition block :: "nat \<Rightarrow> nat \<Rightarrow> 'a list \<Rightarrow> 'a list" where
  "block off n xs = take n (drop off xs)"

definition blit :: "nat \<Rightarrow> 'a list \<Rightarrow> 'a list \<Rightarrow> 'a list" where
  "blit off ys xs = take off xs @ ys @ drop (off + length ys) xs"

lemma length_block [simp]: "off + n \<le> length xs \<Longrightarrow> length (block off n xs) = n"
  by (simp add: block_def)

lemma length_blit [simp]: "off + length ys \<le> length xs \<Longrightarrow> length (blit off ys xs) = length xs"
  by (simp add: blit_def)

lemma block_zero [simp]: "block off 0 xs = []"
  by (simp add: block_def)

lemma block_all: "off = 0 \<Longrightarrow> n = length xs \<Longrightarrow> block off n xs = xs"
  by (simp add: block_def)

lemma block_append:
  "off + m \<le> length xs \<Longrightarrow> block off (m + n) xs = block off m xs @ block (off + m) n xs"
  by (simp add: block_def take_add add.commute)

lemma drop_block: "drop k (block off n xs) = block (off + k) (n - k) xs"
  by (simp add: block_def drop_take add.commute)

lemma take_block: "take k (block off n xs) = block off (min k n) xs"
  by (simp add: block_def)

lemma block_blit_same:
  "off \<le> length xs \<Longrightarrow> block off (length ys) (blit off ys xs) = ys"
  by (simp add: block_def blit_def)

lemma block_blit_append:
  assumes "off + n = pos" "pos \<le> length xs"
  shows "block off (n + length ys) (blit pos ys xs) = block off n xs @ ys"
proof -
  from assms have "drop off (take pos xs) = take n (drop off xs)"
    by (simp add: drop_take flip: assms(1))
  with assms show ?thesis by (simp add: block_def blit_def)
qed

section \<open>Options and lists\<close>

lemma bind_Some_cases:
  assumes "Option.bind m f = Some y"
  obtains x where "m = Some x" and "f x = Some y"
  using assms by (cases m) auto

lemma sum_list_map_of_nat_length_concat:
  "length (concat xss) = sum_list (map length xss)"
  by (simp add: length_concat)

lemma filter_False_Nil: "(\<And>x. x \<in> set xs \<Longrightarrow> \<not> P x) \<Longrightarrow> filter P xs = []"
  by (simp add: filter_empty_conv)

section \<open>Words\<close>

lemma unat_word_of_int_small:
  "0 \<le> i \<Longrightarrow> i < 2 ^ LENGTH('a) \<Longrightarrow> unat (word_of_int i :: 'a :: len word) = nat i"
  by (simp add: unsigned_of_int take_bit_int_eq_self)

end
