(* ===== verification/RecvBuf.thy ===== *)
theory RecvBuf
  imports ServerPrelude
begin

text \<open>
  \<^verbatim>\<open>ServerCore/NetWork/RecvBuffer.{h,cpp}\<close>: the receive buffer of a session, a flat array of
  ten times the nominal buffer size with a read and a write cursor.  The socket fills the array
  from \<open>write_pos\<close> on; \<open>on_write\<close> commits what arrived, \<open>on_read\<close> releases what the packet
  parser consumed, \<open>clean\<close> moves the rest to the front.  The abstract view \<open>rb_data\<close> is the
  byte string between the cursors, and the locale \<open>byte_pipe\<close> is the contract the session
  relies on.
\<close>

section \<open>Model\<close>

record RecvBuffer =
  rb_capacity :: int
  rb_Buffer_size :: int
  rb_read_pos :: int
  rb_write_pos :: int
  rb_buffer :: "byte list"

definition RecvBuffer_new :: "int \<Rightarrow> RecvBuffer" where
  "RecvBuffer_new BufferSize =
     \<lparr>rb_capacity = BufferSize * 10, rb_Buffer_size = BufferSize, rb_read_pos = 0,
      rb_write_pos = 0, rb_buffer = replicate (nat (BufferSize * 10)) 0\<rparr>"

definition data_size :: "RecvBuffer \<Rightarrow> int" where
  "data_size rb = rb_write_pos rb - rb_read_pos rb"

definition free_size :: "RecvBuffer \<Rightarrow> int" where
  "free_size rb = rb_capacity rb - rb_write_pos rb"

definition clean :: "RecvBuffer \<Rightarrow> RecvBuffer" where
  "clean rb =
     (let dataSize = data_size rb in
      if dataSize = 0 then rb\<lparr>rb_read_pos := 0, rb_write_pos := 0\<rparr>
      else if free_size rb < rb_Buffer_size rb then
        rb\<lparr>rb_buffer :=
             blit 0 (block (nat (rb_read_pos rb)) (nat dataSize) (rb_buffer rb)) (rb_buffer rb),
           rb_read_pos := 0, rb_write_pos := dataSize\<rparr>
      else rb)"

definition on_read :: "int \<Rightarrow> RecvBuffer \<Rightarrow> bool \<times> RecvBuffer" where
  "on_read numOfBytes rb =
     (if numOfBytes > data_size rb then (False, rb)
      else (True, rb\<lparr>rb_read_pos := rb_read_pos rb + numOfBytes\<rparr>))"

definition on_write :: "int \<Rightarrow> RecvBuffer \<Rightarrow> bool \<times> RecvBuffer" where
  "on_write numOfBytes rb =
     (if numOfBytes > free_size rb then (False, rb)
      else (True, rb\<lparr>rb_write_pos := rb_write_pos rb + numOfBytes\<rparr>))"

text \<open>What the operating system does between \<open>WSARecv\<close> and its completion: it stores the
  received bytes from \<open>write_pos()\<close> on, at most \<open>free_size()\<close> of them.\<close>

definition recv_fill :: "byte list \<Rightarrow> RecvBuffer \<Rightarrow> RecvBuffer" where
  "recv_fill bs rb = rb\<lparr>rb_buffer := blit (nat (rb_write_pos rb)) bs (rb_buffer rb)\<rparr>"

definition rb_data :: "RecvBuffer \<Rightarrow> byte list" where
  "rb_data rb = block (nat (rb_read_pos rb)) (nat (data_size rb)) (rb_buffer rb)"

definition rb_inv :: "RecvBuffer \<Rightarrow> bool" where [inv_defs]:
  "rb_inv rb \<longleftrightarrow>
     0 \<le> rb_read_pos rb \<and> rb_read_pos rb \<le> rb_write_pos rb \<and> rb_write_pos rb \<le> rb_capacity rb \<and>
     0 < rb_Buffer_size rb \<and> rb_capacity rb = rb_Buffer_size rb * 10 \<and>
     int32_range (rb_capacity rb) \<and> int (length (rb_buffer rb)) = rb_capacity rb"

lemmas rb_defs = data_size_def free_size_def clean_def on_read_def on_write_def recv_fill_def
  rb_data_def Let_def

section \<open>Lemmas\<close>

lemma rb_inv_new: "0 < n \<Longrightarrow> n * 10 < 2 ^ 31 \<Longrightarrow> rb_inv (RecvBuffer_new n)"
  by (simp add: rb_inv_def RecvBuffer_new_def int32_range_def)

lemma rb_data_new: "rb_data (RecvBuffer_new n) = []"
  by (simp add: RecvBuffer_new_def rb_defs)

text \<open>The cursors as natural numbers, the form in which the list lemmas apply.\<close>

lemma rb_invE:
  assumes "rb_inv rb"
  obtains r w where "rb_read_pos rb = int r" "rb_write_pos rb = int w" "r \<le> w"
    "w \<le> length (rb_buffer rb)" "rb_capacity rb = int (length (rb_buffer rb))"
    "0 < rb_Buffer_size rb" "rb_capacity rb = rb_Buffer_size rb * 10"
    "int32_range (rb_capacity rb)"
proof -
  from assms obtain r w where "rb_read_pos rb = int r" "rb_write_pos rb = int w"
    by (metis nonneg_int_cases order_trans rb_inv_def)
  with assms show ?thesis by (intro that [of r w]) (auto simp: rb_inv_def)
qed

lemma length_rb_data: "rb_inv rb \<Longrightarrow> int (length (rb_data rb)) = data_size rb"
  by (erule rb_invE) (simp add: rb_defs)

lemma rb_inv_on_write: "rb_inv rb \<Longrightarrow> 0 \<le> n \<Longrightarrow> rb_inv (snd (on_write n rb))"
  by (auto simp: rb_inv_def rb_defs)

lemma rb_inv_on_read: "rb_inv rb \<Longrightarrow> 0 \<le> n \<Longrightarrow> rb_inv (snd (on_read n rb))"
  by (auto simp: rb_inv_def rb_defs)

lemma rb_inv_fill:
  "rb_inv rb \<Longrightarrow> int (length bs) \<le> free_size rb \<Longrightarrow> rb_inv (recv_fill bs rb)"
  by (erule rb_invE) (simp add: rb_inv_def rb_defs)

lemma rb_inv_clean: "rb_inv rb \<Longrightarrow> rb_inv (clean rb)"
  by (erule rb_invE) (auto simp: rb_inv_def rb_defs of_nat_diff)

lemma rb_data_clean:
  assumes "rb_inv rb"
  shows "rb_data (clean rb) = rb_data rb"
  using assms
proof (cases rule: rb_invE)
  case (1 r w)
  then show ?thesis
    by (auto simp: rb_defs block_def blit_def of_nat_diff)
qed

lemma rb_data_on_read:
  assumes "rb_inv rb" "0 \<le> n" "n \<le> data_size rb"
  shows "rb_data (snd (on_read n rb)) = drop (nat n) (rb_data rb)"
  using assms(1)
proof (cases rule: rb_invE)
  case (1 r w)
  obtain m where m: "n = int m" using assms(2) nonneg_int_cases by blast
  from 1 m assms show ?thesis
    by (simp add: rb_defs drop_block nat_add_distrib nat_diff_distrib' add.commute)
qed

lemma rb_data_fill_write:
  assumes "rb_inv rb" "int (length bs) \<le> free_size rb"
  shows "rb_data (snd (on_write (int (length bs)) (recv_fill bs rb))) = rb_data rb @ bs"
  using assms(1)
proof (cases rule: rb_invE)
  case (1 r w)
  then have "block r (w - r + length bs) (blit w bs (rb_buffer rb))
      = block r (w - r) (rb_buffer rb) @ bs"
    by (intro block_blit_append) simp_all
  moreover from 1 have "nat (int w + int (length bs) - int r) = w - r + length bs"
    and "nat (int w - int r) = w - r" by simp_all
  ultimately show ?thesis
    using 1 assms(2) by (simp add: rb_defs del: diff_add_assoc2)
qed

lemma free_size_clean:
  assumes "rb_inv rb" "data_size rb < rb_Buffer_size rb"
  shows "rb_Buffer_size rb \<le> free_size (clean rb)"
  using assms by (auto simp: rb_inv_def rb_defs)

section \<open>The contract towards the session\<close>

text \<open>A byte pipe takes bytes at one end, as long as there is room, and gives them back in order
  at the other.  \<open>fill\<close> is the socket's write, \<open>commit\<close> and \<open>release\<close> are refused, and
  change nothing, when asked for more than the room or the data.\<close>

locale byte_pipe =
  fixes wf :: "'b \<Rightarrow> bool"
    and data :: "'b \<Rightarrow> byte list"
    and room :: "'b \<Rightarrow> int"
    and fill :: "byte list \<Rightarrow> 'b \<Rightarrow> 'b"
    and commit :: "int \<Rightarrow> 'b \<Rightarrow> bool \<times> 'b"
    and release :: "int \<Rightarrow> 'b \<Rightarrow> bool \<times> 'b"
    and compact :: "'b \<Rightarrow> 'b"
  assumes wf_commit: "wf b \<Longrightarrow> int (length bs) \<le> room b \<Longrightarrow>
      wf (snd (commit (int (length bs)) (fill bs b)))"
    and commit_accepts: "wf b \<Longrightarrow> int (length bs) \<le> room b \<Longrightarrow>
      fst (commit (int (length bs)) (fill bs b))"
    and data_commit: "wf b \<Longrightarrow> int (length bs) \<le> room b \<Longrightarrow>
      data (snd (commit (int (length bs)) (fill bs b))) = data b @ bs"
    and commit_refuses: "room b < n \<Longrightarrow> commit n b = (False, b)"
    and wf_release: "wf b \<Longrightarrow> 0 \<le> n \<Longrightarrow> wf (snd (release n b))"
    and release_accepts: "wf b \<Longrightarrow> n \<le> int (length (data b)) \<Longrightarrow> fst (release n b)"
    and data_release: "wf b \<Longrightarrow> 0 \<le> n \<Longrightarrow> n \<le> int (length (data b)) \<Longrightarrow>
      data (snd (release n b)) = drop (nat n) (data b)"
    and release_refuses: "wf b \<Longrightarrow> int (length (data b)) < n \<Longrightarrow> release n b = (False, b)"
    and wf_compact: "wf b \<Longrightarrow> wf (compact b)"
    and data_compact: "wf b \<Longrightarrow> data (compact b) = data b"
begin

text \<open>One receive completion: bytes arrive, the parser consumes \<open>k\<close> of what is then buffered.\<close>

lemma cycle_data:
  assumes "wf b" "int (length bs) \<le> room b" "k \<le> length (data b @ bs)"
    and "b1 = snd (commit (int (length bs)) (fill bs b))"
  shows "wf (compact (snd (release (int k) b1)))"
    and "data (compact (snd (release (int k) b1))) = drop k (data b @ bs)"
  using assms
  by (simp_all add: wf_commit wf_release wf_compact data_compact data_release data_commit)

end

interpretation rb: byte_pipe rb_inv rb_data free_size recv_fill on_write on_read clean
proof unfold_locales
  fix b :: RecvBuffer and bs :: "byte list"
  assume b: "rb_inv b" and bs: "int (length bs) \<le> free_size b"
  have "rb_inv (recv_fill bs b)" using b bs by (rule rb_inv_fill)
  then show "rb_inv (snd (on_write (int (length bs)) (recv_fill bs b)))"
    by (rule rb_inv_on_write) simp
  show "fst (on_write (int (length bs)) (recv_fill bs b))"
    using bs by (simp add: rb_defs)
  show "rb_data (snd (on_write (int (length bs)) (recv_fill bs b))) = rb_data b @ bs"
    using b bs by (rule rb_data_fill_write)
next
  fix b n assume "rb_inv b" "n \<le> int (length (rb_data b))"
  then show "fst (on_read n b)" by (simp add: length_rb_data on_read_def)
next
  fix b n assume "rb_inv b" "0 \<le> n" "n \<le> int (length (rb_data b))"
  then show "rb_data (snd (on_read n b)) = drop (nat n) (rb_data b)"
    by (simp add: length_rb_data rb_data_on_read)
next
  fix b n assume "rb_inv b" "int (length (rb_data b)) < n"
  then show "on_read n b = (False, b)" by (simp add: length_rb_data on_read_def)
qed (simp_all add: on_write_def rb_inv_on_read rb_inv_clean rb_data_clean)

section \<open>Properties\<close>

text \<open>C29: a receive cycle of the session (the socket stores \<open>bs\<close>, \<open>on_write\<close> commits it,
  \<open>on_read\<close> releases \<open>k\<close> bytes, \<open>clean\<close> compacts) keeps the buffer well formed and is
  exactly the FIFO step: what remains is the old content followed by \<open>bs\<close>, less its first
  \<open>k\<close> bytes.  No byte is lost, duplicated or reordered by the move to the front.\<close>

theorem recv_buffer_cycle_fifo:
  assumes "rb_inv b" "int (length bs) \<le> free_size b" "k \<le> length (rb_data b @ bs)"
    and "b' = clean (snd (on_read (int k) (snd (on_write (int (length bs)) (recv_fill bs b)))))"
  shows "rb_inv b' \<and> rb_data b' = drop k (rb_data b @ bs)"
  using rb.cycle_data [OF assms(1-3) refl] assms(4) by simp

theorem recv_buffer_cycle_fifo_witness:
  "rb_inv (RecvBuffer_new 1) \<and>
   (let b' = clean (snd (on_read (int 2) (snd (on_write (int (length [1, 2, 3]))
        (recv_fill [1, 2, 3] (RecvBuffer_new 1))))))
    in rb_inv b' \<and> rb_data b' = [3])"
proof -
  have i: "rb_inv (RecvBuffer_new 1)" by (rule rb_inv_new) simp_all
  have f: "int (length [1, 2, 3 :: byte]) \<le> free_size (RecvBuffer_new 1)"
    by (simp add: RecvBuffer_new_def free_size_def)
  have k: "2 \<le> length (rb_data (RecvBuffer_new 1) @ [1, 2, 3])" by simp
  show ?thesis
    using i recv_buffer_cycle_fifo [OF i f k refl] by (simp add: Let_def rb_data_new)
qed

text \<open>After \<open>clean\<close>, if less than one nominal buffer of data is pending (the parser leaves
  less than one packet behind), the next \<open>WSARecv\<close> is posted with at least a whole nominal
  buffer of room, and the write cursor is a valid index of the array, so \<open>write_pos()\<close> never
  forms an out-of-range address.\<close>

theorem recv_buffer_room_after_clean:
  assumes "rb_inv b" "data_size b < rb_Buffer_size b"
  shows "rb_Buffer_size b \<le> free_size (clean b) \<and> 0 \<le> rb_write_pos (clean b) \<and>
         rb_write_pos (clean b) < int (length (rb_buffer (clean b)))"
proof -
  have r: "rb_Buffer_size b \<le> free_size (clean b)"
    using assms by (rule free_size_clean)
  moreover have "rb_inv (clean b)" using assms(1) by (rule rb_inv_clean)
  moreover have "0 < rb_Buffer_size b" using assms(1) by (simp add: rb_inv_def)
  ultimately show ?thesis by (auto simp: rb_inv_def free_size_def)
qed

theorem recv_buffer_room_after_clean_witness:
  "rb_inv ((RecvBuffer_new 1)\<lparr>rb_write_pos := 10, rb_read_pos := 10\<rparr>) \<and>
   1 \<le> free_size (clean ((RecvBuffer_new 1)\<lparr>rb_write_pos := 10, rb_read_pos := 10\<rparr>))"
proof -
  let ?b = "(RecvBuffer_new 1)\<lparr>rb_write_pos := 10, rb_read_pos := 10\<rparr>"
  have i: "rb_inv ?b" and d: "data_size ?b < rb_Buffer_size ?b"
    by (simp_all add: rb_inv_def RecvBuffer_new_def int32_range_def data_size_def)
  show ?thesis
    using i recv_buffer_room_after_clean [OF i d] by (simp add: RecvBuffer_new_def)
qed

end
