(* ===== verification/PacketFraming.thy ===== *)
theory PacketFraming
  imports ServerPrelude
begin

text \<open>
  \<^verbatim>\<open>PacketHeader\<close> (\<^verbatim>\<open>Utils/Types.h\<close>) and the framing loop \<^verbatim>\<open>Session::on_recv\<close>
  (\<^verbatim>\<open>NetWork/Session.cpp\<close>): a packet is a 16-bit size, which counts the four header bytes, a
  16-bit id and the payload, both integers little-endian as the program reads them on x86.  The
  virtual \<open>on_recv_packet\<close> and the flag read by \<open>is_connected\<close> are arguments of the loop.  The
  specification \<open>frames\<close> splits a byte string into packets and an incomplete rest.
\<close>

section \<open>Model\<close>

definition HEADER_SIZE :: nat where "HEADER_SIZE = 4"

definition BUFFER_SIZE :: nat where "BUFFER_SIZE = 65536"

record PacketHeader =
  hdr_size :: uint16
  hdr_id :: uint16

definition u16_le :: "byte \<Rightarrow> byte \<Rightarrow> uint16" where
  "u16_le lo hi = of_nat (unat lo + 256 * unat hi)"

definition u16_bytes :: "uint16 \<Rightarrow> byte list" where
  "u16_bytes w = [of_nat (unat w mod 256), of_nat (unat w div 256)]"

fun read_header :: "byte list \<Rightarrow> PacketHeader" where
  "read_header (a # b # c # d # _) = \<lparr>hdr_size = u16_le a b, hdr_id = u16_le c d\<rparr>"
| "read_header _ = \<lparr>hdr_size = 0, hdr_id = 0\<rparr>"

definition header_bytes :: "PacketHeader \<Rightarrow> byte list" where
  "header_bytes h = u16_bytes (hdr_size h) @ u16_bytes (hdr_id h)"

text \<open>The loop of \<open>on_recv\<close>: \<open>processLen\<close> bytes of \<open>buf\<close> are already handled.  The
  result is the number of bytes consumed, or \<open>-1\<close> for a malformed size.\<close>

function on_recv_loop ::
  "(byte list \<Rightarrow> 's \<Rightarrow> 's) \<Rightarrow> ('s \<Rightarrow> bool) \<Rightarrow> byte list \<Rightarrow> nat \<Rightarrow> 's \<Rightarrow> int \<times> 's" where
  "on_recv_loop on_recv_packet is_connected buf processLen s =
     (let dataSize = length buf - processLen in
      if dataSize < HEADER_SIZE then (int processLen, s)
      else let header = read_header (drop processLen buf); size = unat (hdr_size header) in
        if size < HEADER_SIZE then (- 1, s)
        else if size > BUFFER_SIZE then (- 1, s)
        else if dataSize < size then (int processLen, s)
        else let s' = on_recv_packet (block processLen size buf) s;
                 processLen' = processLen + size in
          if \<not> is_connected s' then (int processLen', s')
          else on_recv_loop on_recv_packet is_connected buf processLen' s')"
  by pat_completeness auto
termination
  by (relation "measure (\<lambda>(f, c, buf, p, s). length buf - p)") (auto simp: HEADER_SIZE_def)

declare on_recv_loop.simps [simp del]

definition on_recv ::
  "(byte list \<Rightarrow> 's \<Rightarrow> 's) \<Rightarrow> ('s \<Rightarrow> bool) \<Rightarrow> byte list \<Rightarrow> 's \<Rightarrow> int \<times> 's" where
  "on_recv on_recv_packet is_connected buf s =
     on_recv_loop on_recv_packet is_connected buf 0 s"

section \<open>Specification\<close>

text \<open>A packet announces its own length.\<close>

definition packet_wf :: "byte list \<Rightarrow> bool" where
  "packet_wf p \<longleftrightarrow> HEADER_SIZE \<le> length p \<and> unat (hdr_size (read_header p)) = length p"

text \<open>An incomplete rest: too short for a header, or shorter than its header announces.\<close>

definition rest_wf :: "byte list \<Rightarrow> bool" where
  "rest_wf r \<longleftrightarrow> length r < HEADER_SIZE \<or>
     (HEADER_SIZE \<le> unat (hdr_size (read_header r)) \<and> length r < unat (hdr_size (read_header r)))"

text \<open>A size field that does not even cover the header.\<close>

definition malformed :: "byte list \<Rightarrow> bool" where
  "malformed r \<longleftrightarrow> HEADER_SIZE \<le> length r \<and> unat (hdr_size (read_header r)) < HEADER_SIZE"

text \<open>The complete packets at the front of a byte string, and what follows them.\<close>

function frames :: "byte list \<Rightarrow> byte list list \<times> byte list" where
  "frames bs =
     (if rest_wf bs \<or> malformed bs then ([], bs)
      else let size = unat (hdr_size (read_header bs)); (ps, r) = frames (drop size bs)
           in (take size bs # ps, r))"
  by pat_completeness auto
termination
  by (relation "measure length") (auto simp: rest_wf_def malformed_def HEADER_SIZE_def not_less)

declare frames.simps [simp del]

text \<open>Handling packets one by one until the session is no longer connected: the packets
  handled, the final state, and whether the session is still connected.\<close>

fun deliver ::
  "(byte list \<Rightarrow> 's \<Rightarrow> 's) \<Rightarrow> ('s \<Rightarrow> bool) \<Rightarrow> byte list list \<Rightarrow> 's \<Rightarrow> byte list list \<times> 's \<times> bool" where
  "deliver f c [] s = ([], s, True)"
| "deliver f c (p # ps) s =
     (let s' = f p s in
      if c s' then let (qs, s'', alive) = deliver f c ps s' in (p # qs, s'', alive)
      else ([p], s', False))"

section \<open>Lemmas\<close>

lemma unat_u16_bound [simp]: "unat (w :: uint16) < 65536"
proof -
  have "unat w < 2 ^ LENGTH(16)" by (rule unsigned_less)
  then show ?thesis by simp
qed

lemma u16_le_bytes [simp]:
  "u16_le (of_nat (unat w mod 256)) (of_nat (unat w div 256)) = w" for w :: uint16
proof -
  have "unat w div 256 < 256"
    using unat_u16_bound [of w] by (intro less_mult_imp_div_less) simp
  then show ?thesis by (simp add: u16_le_def unat_of_nat)
qed

lemma length_header_bytes [simp]: "length (header_bytes h) = 4"
  by (simp add: header_bytes_def u16_bytes_def)

lemma read_header_bytes [simp]: "read_header (header_bytes h @ xs) = h"
  by (simp add: header_bytes_def u16_bytes_def)

lemma read_header_append: "HEADER_SIZE \<le> length p \<Longrightarrow> read_header (p @ q) = read_header p"
  unfolding HEADER_SIZE_def by (induction p rule: read_header.induct) simp_all

lemma hdr_size_bound: "\<not> unat (hdr_size h) > BUFFER_SIZE"
  using less_imp_le [OF unat_u16_bound [of "hdr_size h"]] by (simp add: BUFFER_SIZE_def)

lemma on_recv_loop_packet:
  assumes "packet_wf p" "is_connected (f p s)"
  shows "on_recv_loop f is_connected (done @ p @ q) (length done) s
       = on_recv_loop f is_connected (done @ p @ q) (length done + length p) (f p s)"
proof -
  have "read_header (p @ q) = read_header p"
    using assms(1) by (simp add: packet_wf_def read_header_append)
  moreover have "block (length done) (length p) (done @ p @ q) = p"
    by (simp add: block_def)
  ultimately show ?thesis
    using assms hdr_size_bound [of "read_header p"]
    by (subst on_recv_loop.simps) (simp add: packet_wf_def Let_def)
qed

lemma on_recv_loop_rest:
  "rest_wf r \<Longrightarrow> on_recv_loop f c (done @ r) (length done) s = (int (length done), s)"
  using hdr_size_bound [of "read_header r"]
  by (subst on_recv_loop.simps) (auto simp: rest_wf_def Let_def)

lemma on_recv_loop_packets:
  assumes "\<forall>p \<in> set ps. packet_wf p" "rest_wf r"
    and "\<And>p s. p \<in> set ps \<Longrightarrow> is_connected s \<Longrightarrow> is_connected (f p s)" "is_connected s"
  shows "on_recv_loop f is_connected (done @ concat ps @ r) (length done) s
       = (int (length done + length (concat ps)), fold f ps s)"
  using assms
proof (induction ps arbitrary: "done" s)
  case Nil
  then show ?case by (simp add: on_recv_loop_rest)
next
  case (Cons p ps)
  have "on_recv_loop f is_connected (done @ p @ (concat ps @ r)) (length done) s
      = on_recv_loop f is_connected (done @ p @ (concat ps @ r)) (length done + length p) (f p s)"
    using Cons.prems by (intro on_recv_loop_packet) simp_all
  also have "\<dots> = (int (length (done @ p) + length (concat ps)), fold f ps (f p s))"
    using Cons.IH [of "f p s" "done @ p"] Cons.prems by simp
  finally show ?case by (simp add: add.assoc)
qed

lemma packet_not_rest: "packet_wf p \<Longrightarrow> r = p @ x \<Longrightarrow> \<not> rest_wf r"
  by (auto simp: packet_wf_def rest_wf_def read_header_append)

lemma packet_same_length:
  "p @ x = q @ y \<Longrightarrow> packet_wf p \<Longrightarrow> packet_wf q \<Longrightarrow> length p = length q"
  by (metis packet_wf_def read_header_append)

text \<open>Every stream of bytes has at most one reading as packets and a rest.\<close>

lemma packets_unique:
  assumes "concat ps @ r = concat qs @ t" "\<forall>p \<in> set ps. packet_wf p" "\<forall>q \<in> set qs. packet_wf q"
    "rest_wf r" "rest_wf t"
  shows "ps = qs \<and> r = t"
  using assms
proof (induction ps arbitrary: qs)
  case Nil
  show ?case
  proof (cases qs)
    case (Cons q qs')
    with Nil show ?thesis using packet_not_rest [of q r "concat qs' @ t"] by simp
  qed (use Nil in simp)
next
  case IH: (Cons p ps)
  show ?case
  proof (cases qs)
    case Nil
    with IH.prems show ?thesis using packet_not_rest [of p t "concat ps @ r"] by simp
  next
    case (Cons q qs')
    with IH.prems have eq: "p @ (concat ps @ r) = q @ (concat qs' @ t)" by simp
    moreover have "length p = length q"
      using packet_same_length [OF eq] IH.prems Cons by simp
    ultimately have "p = q" "concat ps @ r = concat qs' @ t" by simp_all
    with IH Cons show ?thesis by simp
  qed
qed

lemma frames_sound:
  assumes "frames bs = (ps, r)"
  shows "bs = concat ps @ r \<and> (\<forall>p \<in> set ps. packet_wf p) \<and> (rest_wf r \<or> malformed r)"
  using assms
proof (induction bs arbitrary: ps r rule: frames.induct)
  case (1 bs)
  show ?case
  proof (cases "rest_wf bs \<or> malformed bs")
    case True
    with 1 show ?thesis by (simp add: frames.simps [of bs])
  next
    case False
    define size where "size = unat (hdr_size (read_header bs))"
    obtain qs t where f: "frames (drop size bs) = (qs, t)" by fastforce
    with False 1(2) have "ps = take size bs # qs" "r = t"
      by (simp_all add: frames.simps [of bs] size_def Let_def)
    moreover have "drop size bs = concat qs @ t \<and> (\<forall>p \<in> set qs. packet_wf p) \<and>
        (rest_wf t \<or> malformed t)"
      using "1.IH" [OF False size_def f] .
    moreover have "HEADER_SIZE \<le> size" "size \<le> length bs" "HEADER_SIZE \<le> length bs"
      using False by (auto simp: rest_wf_def malformed_def size_def)
    moreover from this have "packet_wf (take size bs)"
      using read_header_append [of "take size bs" "drop size bs"]
      by (simp add: packet_wf_def size_def)
    ultimately show ?thesis
      using append_take_drop_id [of size bs] by (simp add: append.assoc)
  qed
qed

lemma on_recv_loop_malformed:
  "malformed r \<Longrightarrow> on_recv_loop f c (done @ r) (length done) s = (- 1, s)"
  by (subst on_recv_loop.simps) (auto simp: malformed_def Let_def)

lemma on_recv_loop_prefix:
  assumes "\<forall>p \<in> set ps. packet_wf p"
    and "\<And>p s. p \<in> set ps \<Longrightarrow> c s \<Longrightarrow> c (f p s)" "c s"
  shows "on_recv_loop f c (done @ concat ps @ r) (length done) s
       = on_recv_loop f c (done @ concat ps @ r) (length done + length (concat ps)) (fold f ps s)"
  using assms
proof (induction ps arbitrary: "done" s)
  case (Cons p ps)
  have "on_recv_loop f c (done @ p @ (concat ps @ r)) (length done) s
      = on_recv_loop f c (done @ p @ (concat ps @ r)) (length done + length p) (f p s)"
    using Cons.prems by (intro on_recv_loop_packet) simp_all
  also have "\<dots> = on_recv_loop f c ((done @ p) @ concat ps @ r)
      (length (done @ p) + length (concat ps)) (fold f ps (f p s))"
    using Cons.IH [of "f p s" "done @ p"] Cons.prems by simp
  finally show ?case by (simp add: add.assoc)
qed simp

text \<open>While the session stays connected, \<open>on_recv\<close> is the specification on every input.\<close>

lemma on_recv_frames:
  assumes "\<And>p s. c s \<Longrightarrow> c (f p s)" "c s" "frames bs = (ps, r)"
  shows "on_recv f c bs s
       = (if malformed r then - 1 else int (length (concat ps)), fold f ps s)"
proof -
  have bs: "bs = concat ps @ r" and ps: "\<forall>p \<in> set ps. packet_wf p"
    and r: "rest_wf r \<or> malformed r"
    using frames_sound [OF assms(3)] by simp_all
  have "on_recv f c bs s = on_recv_loop f c (concat ps @ r) (length (concat ps)) (fold f ps s)"
    using on_recv_loop_prefix [OF ps, of c f s "[]" r] assms(1,2) by (simp add: on_recv_def bs)
  with r show ?thesis
    using on_recv_loop_rest [of r f c "concat ps"] on_recv_loop_malformed [of r f c "concat ps"]
    by (auto simp: rest_wf_def malformed_def)
qed

lemma frames_concat:
  assumes "\<forall>p \<in> set ps. packet_wf p" "rest_wf r"
  shows "frames (concat ps @ r) = (ps, r)"
proof -
  obtain qs t where f: "frames (concat ps @ r) = (qs, t)" by fastforce
  have c: "(\<lambda>_. True) s" for s :: "byte list list" by simp
  have "on_recv (\<lambda>p s. s @ [p]) (\<lambda>_. True) (concat ps @ r) []
      = (int (length (concat ps)), fold (\<lambda>p s. s @ [p]) ps [])"
    using on_recv_loop_packets [OF assms, of "\<lambda>_. True" "\<lambda>p s. s @ [p]" "[]" "[]"]
    by (simp add: on_recv_def)
  moreover have "on_recv (\<lambda>p s. s @ [p]) (\<lambda>_. True) (concat ps @ r) []
      = (if malformed t then - 1 else int (length (concat qs)), fold (\<lambda>p s. s @ [p]) qs [])"
    using f by (intro on_recv_frames) simp_all
  ultimately have "\<not> malformed t" by (auto split: if_splits)
  with frames_sound [OF f] assms have "qs = ps \<and> t = r"
    by (intro packets_unique) auto
  with f show ?thesis by simp
qed

lemma on_recv_result_range:
  assumes "\<And>p s. c s \<Longrightarrow> c (f p s)" "c s" "on_recv f c bs s = (n, s')"
  shows "n = - 1 \<or> (0 \<le> n \<and> n \<le> int (length bs) \<and> rest_wf (drop (nat n) bs))"
proof -
  obtain ps r where f: "frames bs = (ps, r)" by fastforce
  from frames_sound [OF f] have "bs = concat ps @ r" "rest_wf r \<or> malformed r" by simp_all
  moreover have "on_recv f c bs s
      = (if malformed r then - 1 else int (length (concat ps)), fold f ps s)"
    using assms f by (intro on_recv_frames) simp_all
  ultimately show ?thesis using assms(3) by (auto split: if_splits)
qed

lemma rest_wf_length: "rest_wf r \<Longrightarrow> length r < 65536"
  using less_trans [OF _ unat_u16_bound, of "length r" "hdr_size (read_header r)"]
  by (auto simp: rest_wf_def HEADER_SIZE_def)

text \<open>Reading a prefix of a well-formed stream finds the first packets of the stream.\<close>

lemma packets_prefix:
  assumes "concat ps1 @ z = concat ps @ r" "\<forall>p \<in> set ps1. packet_wf p" "\<forall>p \<in> set ps. packet_wf p"
    "rest_wf r"
  shows "\<exists>ps2. ps = ps1 @ ps2 \<and> z = concat ps2 @ r"
  using assms
proof (induction ps1 arbitrary: ps)
  case IH: (Cons p ps1)
  show ?case
  proof (cases ps)
    case Nil
    with IH.prems show ?thesis using packet_not_rest [of p r "concat ps1 @ z"] by simp
  next
    case (Cons q ps')
    with IH.prems have eq: "p @ (concat ps1 @ z) = q @ (concat ps' @ r)" by simp
    have "length p = length q" using packet_same_length [OF eq] IH.prems Cons by simp
    with eq have "p = q" "concat ps1 @ z = concat ps' @ r" by simp_all
    with IH.IH [of ps'] IH.prems Cons show ?thesis by auto
  qed
qed simp

lemma malformed_not_prefix:
  assumes "malformed m" "m @ y = concat ps @ r" "\<forall>p \<in> set ps. packet_wf p" "rest_wf r"
  shows False
proof -
  have h: "unat (hdr_size (read_header (concat ps @ r))) < HEADER_SIZE" "HEADER_SIZE \<le> length (concat ps @ r)"
    using assms(1) read_header_append [of m y] arg_cong [OF assms(2), of length]
    by (simp_all add: malformed_def flip: assms(2))
  show False
  proof (cases ps)
    case Nil
    with h assms(4) show False by (simp add: rest_wf_def)
  next
    case (Cons p ps')
    with h(1) assms(3) read_header_append [of p "concat ps' @ r"] show False
      by (simp add: packet_wf_def)
  qed
qed

lemma frames_prefix:
  assumes "frames x = (ps1, r1)" "x @ y = concat ps @ r" "\<forall>p \<in> set ps. packet_wf p" "rest_wf r"
  obtains ps2 where "ps = ps1 @ ps2" "rest_wf r1" "r1 @ y = concat ps2 @ r"
proof -
  have x: "x = concat ps1 @ r1" "\<forall>p \<in> set ps1. packet_wf p" "rest_wf r1 \<or> malformed r1"
    using frames_sound [OF assms(1)] by simp_all
  then obtain ps2 where "ps = ps1 @ ps2" "r1 @ y = concat ps2 @ r"
    using packets_prefix [of ps1 "r1 @ y" ps r] assms by auto
  moreover from this have "\<not> malformed r1" using malformed_not_prefix [of r1 y ps2 r] assms by auto
  ultimately show ?thesis using that x(3) by blast
qed

lemma on_recv_loop_stop:
  assumes "packet_wf p" "\<not> is_connected (f p s)"
  shows "on_recv_loop f is_connected (done @ p @ q) (length done) s
       = (int (length done + length p), f p s)"
proof -
  have "read_header (p @ q) = read_header p"
    using assms(1) by (simp add: packet_wf_def read_header_append)
  moreover have "block (length done) (length p) (done @ p @ q) = p"
    by (simp add: block_def)
  ultimately show ?thesis
    using assms hdr_size_bound [of "read_header p"]
    by (subst on_recv_loop.simps) (simp add: packet_wf_def Let_def)
qed

lemma on_recv_loop_deliver:
  assumes "\<forall>p \<in> set ps. packet_wf p" "rest_wf r \<or> malformed r" "deliver f c ps s = (qs, s', alive)"
  shows "on_recv_loop f c (done @ concat ps @ r) (length done) s
       = (if alive \<and> malformed r then - 1 else int (length done + length (concat qs)), s')"
  using assms
proof (induction ps arbitrary: "done" s qs)
  case Nil
  then show ?case
    using on_recv_loop_rest [of r f c "done" s] on_recv_loop_malformed [of r f c "done" s]
    by (auto simp: rest_wf_def malformed_def)
next
  case (Cons p ps)
  show ?case
  proof (cases "c (f p s)")
    case True
    obtain qs' where qs: "qs = p # qs'" "deliver f c ps (f p s) = (qs', s', alive)"
      using Cons.prems(3) True by (auto simp: Let_def split: prod.splits)
    have "on_recv_loop f c (done @ p @ (concat ps @ r)) (length done) s
        = on_recv_loop f c (done @ p @ (concat ps @ r)) (length done + length p) (f p s)"
      using Cons.prems(1) True by (intro on_recv_loop_packet) simp_all
    with qs Cons.IH [of "f p s" qs' "done @ p"] Cons.prems show ?thesis
      by (simp add: add.assoc)
  next
    case False
    with Cons.prems on_recv_loop_stop [of p c f s "done" "concat ps @ r"] show ?thesis
      by (auto simp: Let_def)
  qed
qed

section \<open>Properties\<close>

text \<open>C8: On every byte string, with every packet handler, \<open>on_recv\<close> does what the framing
  specification says: it hands the complete packets at the front to the handler, in order and each
  once, until they are used up or a handler disconnects the session; it reports the bytes of exactly
  the packets it handled, or \<open>-1\<close> when it reaches a size field smaller than the header; the
  incomplete rest stays in the buffer.\<close>

theorem on_recv_meets_framing_spec:
  "on_recv on_recv_packet is_connected bs s =
     (let (ps, r) = frames bs;
          (qs, s', alive) = deliver on_recv_packet is_connected ps s
      in (if alive \<and> malformed r then - 1 else int (length (concat qs)), s'))"
proof -
  obtain ps r where f: "frames bs = (ps, r)" by fastforce
  obtain qs s' alive where d: "deliver on_recv_packet is_connected ps s = (qs, s', alive)"
    using prod_cases3 by blast
  from frames_sound [OF f] have "bs = concat ps @ r" "\<forall>p \<in> set ps. packet_wf p"
    "rest_wf r \<or> malformed r" by simp_all
  with f d on_recv_loop_deliver [of ps r on_recv_packet is_connected s qs s' alive "[]"]
  show ?thesis by (simp add: on_recv_def)
qed



end
