(* ===== verification/SendBuf.thy ===== *)
theory SendBuf
  imports ServerPrelude
begin

text \<open>
  \<^verbatim>\<open>NetWork/SendBuffer.{h,cpp}\<close> and the send event of \<^verbatim>\<open>NetWork/IocpEvent.{h,cpp}\<close>.  A
  session hands a batch of buffers to one \<open>WSASend\<close>; the completion may cover only part of the
  batch and may stop inside a buffer, so the event keeps the index of the current buffer and the
  offset in it.  \<open>se_pending\<close> is the byte string still to be sent.  Reading a vector out of range
  is \<open>None\<close>.
\<close>

section \<open>Model\<close>

record SendBuffer =
  sb_buffer :: "byte list"
  sb_write_size :: int

definition SendBuffer_new :: "int \<Rightarrow> SendBuffer" where
  "SendBuffer_new BufferSize = \<lparr>sb_buffer = replicate (nat BufferSize) 0, sb_write_size = 0\<rparr>"

definition sb_capacity :: "SendBuffer \<Rightarrow> int" where
  "sb_capacity sb = int (length (sb_buffer sb))"

text \<open>\<open>None\<close> is the failed assertion \<open>capacity() >= len\<close>.\<close>

definition copy_data :: "byte list \<Rightarrow> SendBuffer \<Rightarrow> SendBuffer option" where
  "copy_data data sb =
     (if sb_capacity sb \<ge> int (length data)
      then Some (sb\<lparr>sb_buffer := blit 0 data (sb_buffer sb), sb_write_size := int (length data)\<rparr>)
      else None)"

definition sb_close :: "uint32 \<Rightarrow> SendBuffer \<Rightarrow> SendBuffer" where
  "sb_close writeSize sb = sb\<lparr>sb_write_size := sint writeSize\<rparr>"

text \<open>A descriptor of the gather list: the memory from the start address on, and the length.\<close>

record WSABUF =
  wsa_buf :: "byte list"
  wsa_len :: uint32

record SendEvent =
  se_bufs :: "SendBuffer list"
  se_index :: nat
  se_offset :: int

definition SendEvent_new :: SendEvent where
  "SendEvent_new = \<lparr>se_bufs = [], se_index = 0, se_offset = 0\<rparr>"

definition send_Buffers_push :: "SendBuffer \<Rightarrow> SendEvent \<Rightarrow> SendEvent" where
  "send_Buffers_push sb ev = ev\<lparr>se_bufs := se_bufs ev @ [sb]\<rparr>"

definition send_Buffers_clear :: "SendEvent \<Rightarrow> SendEvent" where
  "send_Buffers_clear ev = ev\<lparr>se_bufs := [], se_index := 0, se_offset := 0\<rparr>"

definition has_pending_data :: "SendEvent \<Rightarrow> bool" where
  "has_pending_data ev \<longleftrightarrow> se_index ev < length (se_bufs ev)"

definition wsabuf_of :: "SendBuffer \<Rightarrow> int \<Rightarrow> WSABUF" where
  "wsabuf_of sb offset =
     \<lparr>wsa_buf = drop (nat offset) (sb_buffer sb), wsa_len = word_of_int (sb_write_size sb - offset)\<rparr>"

definition build_wsabufs :: "SendEvent \<Rightarrow> WSABUF list" where
  "build_wsabufs ev =
     map (\<lambda>i. wsabuf_of (se_bufs ev ! i) (if i = se_index ev then se_offset ev else 0))
       [se_index ev ..< length (se_bufs ev)]"

text \<open>The loop of \<open>consume_sent_bytes\<close>.\<close>

function consume_loop :: "SendEvent \<Rightarrow> int \<Rightarrow> SendEvent option" where
  "consume_loop ev numOfBytes =
     (if numOfBytes > 0 then
        if se_index ev < length (se_bufs ev) then
          let available = sb_write_size (se_bufs ev ! se_index ev) - se_offset ev in
          if numOfBytes < available then Some (ev\<lparr>se_offset := se_offset ev + numOfBytes\<rparr>)
          else consume_loop (ev\<lparr>se_index := se_index ev + 1, se_offset := 0\<rparr>)
                 (numOfBytes - available)
        else None
      else Some ev)"
  by pat_completeness auto
termination
  by (relation "measure (\<lambda>(ev, n). length (se_bufs ev) - se_index ev)") auto

declare consume_loop.simps [simp del]

definition se_remaining :: "SendEvent \<Rightarrow> uint64" where
  "se_remaining ev =
     sum_list (map (\<lambda>sb. word_of_int (sb_write_size sb)) (drop (se_index ev) (se_bufs ev)))
       - word_of_int (se_offset ev)"

definition consume_sent_bytes :: "int \<Rightarrow> SendEvent \<Rightarrow> (bool \<times> SendEvent) option" where
  "consume_sent_bytes numOfBytes ev =
     (if numOfBytes \<le> 0 then Some (False, ev)
      else if word_of_int numOfBytes > se_remaining ev then Some (False, ev)
      else map_option (Pair True) (consume_loop ev numOfBytes))"

section \<open>Invariant and abstract view\<close>

text \<open>A buffer that was filled: its announced size lies inside its array.\<close>

definition sb_ok :: "SendBuffer \<Rightarrow> bool" where
  "sb_ok sb \<longleftrightarrow> 0 < sb_write_size sb \<and> sb_write_size sb \<le> int (length (sb_buffer sb)) \<and>
     sb_write_size sb < 2 ^ 31"

definition sb_data :: "SendBuffer \<Rightarrow> byte list" where
  "sb_data sb = take (nat (sb_write_size sb)) (sb_buffer sb)"

definition se_pending :: "SendEvent \<Rightarrow> byte list" where
  "se_pending ev =
     drop (nat (se_offset ev)) (concat (map sb_data (drop (se_index ev) (se_bufs ev))))"

definition se_inv :: "SendEvent \<Rightarrow> bool" where [inv_defs]:
  "se_inv ev \<longleftrightarrow>
     (\<forall>sb \<in> set (se_bufs ev). sb_ok sb) \<and> se_index ev \<le> length (se_bufs ev) \<and>
     0 \<le> se_offset ev \<and>
     (if se_index ev < length (se_bufs ev)
      then se_offset ev < sb_write_size (se_bufs ev ! se_index ev) else se_offset ev = 0)"

definition wsa_bytes :: "WSABUF \<Rightarrow> byte list" where
  "wsa_bytes w = take (unat (wsa_len w)) (wsa_buf w)"

section \<open>Lemmas\<close>

lemma length_sb_data [simp]: "sb_ok sb \<Longrightarrow> length (sb_data sb) = nat (sb_write_size sb)"
  by (auto simp: sb_ok_def sb_data_def min_def)

lemma se_inv_new [simp]: "se_inv SendEvent_new"
  by (simp add: se_inv_def SendEvent_new_def)

lemma se_inv_clear [simp]: "se_inv (send_Buffers_clear ev)"
  by (simp add: se_inv_def send_Buffers_clear_def)

lemma se_pending_clear [simp]: "se_pending (send_Buffers_clear ev) = []"
  by (simp add: se_pending_def send_Buffers_clear_def)

text \<open>The current buffer split off.\<close>

lemma drop_index_Cons:
  "se_index ev < length (se_bufs ev) \<Longrightarrow>
   drop (se_index ev) (se_bufs ev)
     = se_bufs ev ! se_index ev # drop (Suc (se_index ev)) (se_bufs ev)"
  by (simp add: Cons_nth_drop_Suc)

lemma se_pending_Cons:
  assumes "se_inv ev" "se_index ev < length (se_bufs ev)"
  shows "se_pending ev = drop (nat (se_offset ev)) (sb_data (se_bufs ev ! se_index ev)) @
     concat (map sb_data (drop (Suc (se_index ev)) (se_bufs ev)))"
proof -
  have "sb_ok (se_bufs ev ! se_index ev)" using assms by (simp add: se_inv_def)
  moreover have "nat (se_offset ev) < nat (sb_write_size (se_bufs ev ! se_index ev))"
    using assms by (simp add: se_inv_def)
  moreover from this have
    "nat (se_offset ev) - nat (sb_write_size (se_bufs ev ! se_index ev)) = 0" by auto
  ultimately show ?thesis using assms(2) by (simp add: se_pending_def drop_index_Cons)
qed

lemma has_pending_iff: "se_inv ev \<Longrightarrow> has_pending_data ev \<longleftrightarrow> se_pending ev \<noteq> []"
proof (cases "se_index ev < length (se_bufs ev)")
  case True
  assume inv: "se_inv ev"
  then have "sb_ok (se_bufs ev ! se_index ev)" using True by (simp add: se_inv_def)
  with inv True show ?thesis
    using se_pending_Cons [OF inv True] by (auto simp: has_pending_data_def se_inv_def)
next
  case False
  then show ?thesis by (simp add: has_pending_data_def se_pending_def)
qed

lemma consume_loop_correct:
  assumes "se_inv ev" "0 \<le> n" "n \<le> int (length (se_pending ev))"
  shows "\<exists>ev'. consume_loop ev n = Some ev' \<and> se_inv ev' \<and>
     se_pending ev' = drop (nat n) (se_pending ev) \<and> se_bufs ev' = se_bufs ev"
  using assms
proof (induction ev n rule: consume_loop.induct)
  case (1 ev n)
  show ?case
  proof (cases "n > 0 \<and> se_index ev < length (se_bufs ev)")
    case False
    then have "n = 0" using 1 by (auto simp: se_pending_def)
    then show ?thesis using 1 by (simp add: consume_loop.simps [of ev 0])
  next
    case True
    let ?sb = "se_bufs ev ! se_index ev" and ?tl = "drop (Suc (se_index ev)) (se_bufs ev)"
    define available where "available = sb_write_size ?sb - se_offset ev"
    have sb: "sb_ok ?sb" using 1 True by (simp add: se_inv_def)
    have off: "0 \<le> se_offset ev" "se_offset ev < sb_write_size ?sb"
      using 1 True by (simp_all add: se_inv_def)
    note pend = se_pending_Cons [OF 1(2)]
    show ?thesis
    proof (cases "n < available")
      case less: True
      let ?ev = "ev\<lparr>se_offset := se_offset ev + n\<rparr>"
      have inv: "se_inv ?ev" using 1 True less off by (auto simp: se_inv_def available_def)
      have "se_pending ?ev = drop (nat n) (se_pending ev)"
        using se_pending_Cons [OF inv] pend True off less sb
        by (simp add: available_def nat_add_distrib add.commute)
      with True less inv show ?thesis
        by (simp add: consume_loop.simps [of ev n] available_def)
    next
      case False
      let ?ev = "ev\<lparr>se_index := se_index ev + 1, se_offset := 0\<rparr>"
      have inv: "se_inv ?ev" using 1 True by (auto simp: se_inv_def sb_ok_def)
      have pend': "se_pending ?ev = concat (map sb_data ?tl)" by (simp add: se_pending_def)
      have len: "length (drop (nat (se_offset ev)) (sb_data ?sb)) = nat available"
        using sb off by (simp add: available_def nat_diff_distrib)
      have "\<exists>ev'. consume_loop ?ev (n - available) = Some ev' \<and> se_inv ev' \<and>
         se_pending ev' = drop (nat (n - available)) (se_pending ?ev) \<and> se_bufs ev' = se_bufs ?ev"
      proof (rule "1.IH")
        show "n - available \<le> int (length (se_pending ?ev))"
          using 1(4) True len off unfolding pend' pend [OF conjunct2 [OF True]]
          by (simp add: available_def)
      qed (use True False inv available_def in auto)
      moreover have "drop (nat (n - available)) (se_pending ?ev) = drop (nat n) (se_pending ev)"
        using pend True len False off unfolding pend' pend [OF conjunct2 [OF True]]
        by (simp add: available_def nat_diff_distrib')
      ultimately show ?thesis
        using True False by (simp add: consume_loop.simps [of ev n] available_def)
    qed
  qed
qed

text \<open>The 64-bit sum of the code is the exact number of pending bytes.\<close>

lemma sum_list_word_of_int:
  "sum_list (map (\<lambda>x. word_of_int (f x)) xs) = (word_of_int (sum_list (map f xs)) :: 'a :: len word)"
  by (induction xs) simp_all

lemma length_concat_sb_data:
  "(\<forall>sb \<in> set xs. sb_ok sb) \<Longrightarrow>
   int (length (concat (map sb_data xs))) = sum_list (map sb_write_size xs)"
  by (induction xs) (auto simp: sb_ok_def)

lemma length_se_pending:
  assumes "se_inv ev"
  shows "int (length (se_pending ev))
       = sum_list (map sb_write_size (drop (se_index ev) (se_bufs ev))) - se_offset ev"
proof -
  have ok: "\<forall>sb \<in> set (drop (se_index ev) (se_bufs ev)). sb_ok sb"
    using assms by (auto simp: se_inv_def dest: in_set_dropD)
  have le: "se_offset ev \<le> int (length (concat (map sb_data (drop (se_index ev) (se_bufs ev)))))"
  proof (cases "se_index ev < length (se_bufs ev)")
    case True
    then show ?thesis using assms by (simp add: drop_index_Cons se_inv_def)
  next
    case False
    then show ?thesis using assms by (simp add: se_inv_def)
  qed
  then show ?thesis
    using assms length_concat_sb_data [OF ok] by (simp add: se_pending_def se_inv_def)
qed

lemma se_remaining_eq:
  assumes "se_inv ev"
  shows "se_remaining ev = of_nat (length (se_pending ev))"
proof -
  have "se_remaining ev = word_of_int (int (length (se_pending ev)))"
    unfolding length_se_pending [OF assms] se_remaining_def sum_list_word_of_int by simp
  then show ?thesis by simp
qed

lemma consume_sent_bytes_accepts:
  assumes "se_inv ev" "0 < n" "n \<le> int (length (se_pending ev))"
    "length (se_pending ev) < 2 ^ 64"
  shows "\<exists>ev'. consume_sent_bytes n ev = Some (True, ev') \<and> se_inv ev' \<and>
     se_pending ev' = drop (nat n) (se_pending ev) \<and> se_bufs ev' = se_bufs ev"
proof -
  obtain m where m: "n = int m" using assms(2) by (metis less_imp_le nonneg_int_cases)
  have "\<not> word_of_int n > se_remaining ev"
    using assms m by (simp add: se_remaining_eq not_less word_le_nat_alt unat_of_nat)
  with assms consume_loop_correct [OF assms(1) _ assms(3)] show ?thesis
    by (auto simp: consume_sent_bytes_def)
qed

lemma consume_sent_bytes_refuses:
  assumes "se_inv ev" "n \<le> 0 \<or> int (length (se_pending ev)) < n" "n < 2 ^ 64"
  shows "consume_sent_bytes n ev = Some (False, ev)"
proof (cases "n \<le> 0")
  case False
  then obtain m where m: "n = int m" by (metis linear nonneg_int_cases)
  with False assms have "word_of_int n > se_remaining ev"
    by (simp add: se_remaining_eq word_less_nat_alt unat_of_nat)
  with False show ?thesis by (simp add: consume_sent_bytes_def)
qed (simp add: consume_sent_bytes_def)

lemma wsa_bytes_of:
  assumes "sb_ok sb" "0 \<le> off" "off < sb_write_size sb"
  shows "wsa_bytes (wsabuf_of sb off) = drop (nat off) (sb_data sb)"
proof -
  have "unat (word_of_int (sb_write_size sb - off) :: uint32) = nat (sb_write_size sb - off)"
    using assms by (intro unat_word_of_int_small) (simp_all add: sb_ok_def)
  with assms show ?thesis
    by (simp add: wsa_bytes_def wsabuf_of_def sb_data_def drop_take nat_diff_distrib)
qed

text \<open>The gather list describes exactly the pending bytes.\<close>

lemma build_wsabufs_bytes:
  assumes "se_inv ev"
  shows "concat (map wsa_bytes (build_wsabufs ev)) = se_pending ev"
proof (cases "se_index ev < length (se_bufs ev)")
  case True
  let ?i = "se_index ev" and ?xs = "se_bufs ev"
  have tl: "map (wsa_bytes \<circ> (\<lambda>i. wsabuf_of (?xs ! i) (if i = ?i then se_offset ev else 0)))
      [Suc ?i ..< length ?xs] = map sb_data (drop (Suc ?i) ?xs)"
  proof (rule nth_equalityI)
    fix k assume "k < length (map (wsa_bytes \<circ> (\<lambda>i. wsabuf_of (?xs ! i)
      (if i = ?i then se_offset ev else 0))) [Suc ?i ..< length ?xs])"
    then have k: "Suc ?i + k < length ?xs" by simp
    then have "sb_ok (?xs ! (Suc ?i + k))" using assms by (simp add: se_inv_def)
    then show "map (wsa_bytes \<circ> (\<lambda>i. wsabuf_of (?xs ! i) (if i = ?i then se_offset ev else 0)))
      [Suc ?i ..< length ?xs] ! k = map sb_data (drop (Suc ?i) ?xs) ! k"
      using k wsa_bytes_of [of "?xs ! (Suc ?i + k)" 0] by (simp add: sb_ok_def)
  qed simp
  have hd: "wsa_bytes (wsabuf_of (?xs ! ?i) (se_offset ev))
      = drop (nat (se_offset ev)) (sb_data (?xs ! ?i))"
    using assms True by (intro wsa_bytes_of) (simp_all add: se_inv_def)
  show ?thesis
    using True tl hd se_pending_Cons [OF assms True]
    by (simp add: build_wsabufs_def upt_conv_Cons)
next
  case False
  then show ?thesis by (simp add: build_wsabufs_def se_pending_def)
qed

lemma build_wsabufs_Nil: "build_wsabufs ev = [] \<longleftrightarrow> \<not> has_pending_data ev"
  by (auto simp: build_wsabufs_def has_pending_data_def)

text \<open>Queueing more buffers appends to what is pending.\<close>

lemma push_pending:
  assumes "se_inv ev" "sb_ok sb"
  shows "se_inv (send_Buffers_push sb ev)"
    and "se_pending (send_Buffers_push sb ev) = se_pending ev @ sb_data sb"
proof -
  show "se_inv (send_Buffers_push sb ev)"
    using assms by (auto simp: se_inv_def send_Buffers_push_def nth_append sb_ok_def)
  show "se_pending (send_Buffers_push sb ev) = se_pending ev @ sb_data sb"
  proof (cases "se_index ev < length (se_bufs ev)")
    case True
    then have "sb_ok (se_bufs ev ! se_index ev)"
      and "se_offset ev < sb_write_size (se_bufs ev ! se_index ev)"
      using assms by (simp_all add: se_inv_def)
    with True assms show ?thesis
      by (simp add: se_pending_def send_Buffers_push_def drop_index_Cons)
  next
    case False
    then show ?thesis using assms by (simp add: se_inv_def se_pending_def send_Buffers_push_def)
  qed
qed

section \<open>Properties\<close>

text \<open>C27: A completion of \<open>n\<close> bytes is accepted exactly when \<open>n\<close> is positive and does not exceed
  what was pending; then exactly the first \<open>n\<close> pending bytes are gone, also when the completion
  stops inside a buffer, the index and offset stay in range, and nothing is read out of range.  Any
  other count is refused and leaves the event as it was.\<close>

theorem consume_sent_bytes_exact:
  assumes "se_inv ev" "length (se_pending ev) < 2 ^ 64" "int32_range n"
  shows "if 0 < n \<and> n \<le> int (length (se_pending ev))
    then \<exists>ev'. consume_sent_bytes n ev = Some (True, ev') \<and> se_inv ev' \<and>
      se_pending ev' = drop (nat n) (se_pending ev)
    else consume_sent_bytes n ev = Some (False, ev)"
  using consume_sent_bytes_accepts [of ev n] consume_sent_bytes_refuses [of ev n] assms
  by (auto simp: int32_range_def)

theorem consume_sent_bytes_exact_witness:
  "\<exists>ev'. consume_sent_bytes 4
       \<lparr>se_bufs = [\<lparr>sb_buffer = [1, 2, 3], sb_write_size = 3\<rparr>, \<lparr>sb_buffer = [4, 5], sb_write_size = 2\<rparr>],
        se_index = 0, se_offset = 1\<rparr> = Some (True, ev') \<and> se_inv ev' \<and> se_pending ev' = []"
  using consume_sent_bytes_exact [of
    "\<lparr>se_bufs = [\<lparr>sb_buffer = [1, 2, 3], sb_write_size = 3\<rparr>, \<lparr>sb_buffer = [4, 5], sb_write_size = 2\<rparr>],
      se_index = 0, se_offset = 1\<rparr>" 4]
  by (simp add: se_inv_def sb_ok_def se_pending_def sb_data_def int32_range_def)

text \<open>C28: The gather list given to \<open>WSASend\<close> describes exactly the bytes still to be sent, in
  order, and it is empty exactly when nothing is pending.\<close>

theorem gather_list_is_pending:
  assumes "se_inv ev"
  shows "concat (map wsa_bytes (build_wsabufs ev)) = se_pending ev \<and>
    (build_wsabufs ev = [] \<longleftrightarrow> se_pending ev = [])"
  using build_wsabufs_bytes [OF assms] build_wsabufs_Nil [of ev] has_pending_iff [OF assms] by simp_all

theorem gather_list_is_pending_witness:
  "concat (map wsa_bytes (build_wsabufs
     \<lparr>se_bufs = [\<lparr>sb_buffer = [1, 2, 3], sb_write_size = 3\<rparr>, \<lparr>sb_buffer = [4, 5, 6], sb_write_size = 2\<rparr>],
      se_index = 0, se_offset = 1\<rparr>)) = [2, 3, 4, 5]"
  using gather_list_is_pending [of
    "\<lparr>se_bufs = [\<lparr>sb_buffer = [1, 2, 3], sb_write_size = 3\<rparr>, \<lparr>sb_buffer = [4, 5, 6], sb_write_size = 2\<rparr>],
      se_index = 0, se_offset = 1\<rparr>"]
  by (simp add: se_inv_def sb_ok_def se_pending_def sb_data_def)

end
