(* ===== verification/OrdContainers.thy ===== *)
theory OrdContainers
  imports ServerPrelude
begin

text \<open>
  The containers of the C++ standard library the program uses.  A \<open>std::map\<close> is an association
  list with strictly increasing keys (its iteration order), a \<open>std::set\<close> a strictly increasing
  list, a \<open>std::queue\<close> and a \<open>std::vector\<close> are lists.  \<open>om_put\<close> is assignment through
  \<open>operator[]\<close>, \<open>om_emplace\<close> is \<open>emplace\<close> or \<open>insert\<close> (which keep an existing entry).  The
  locale \<open>ordered_map\<close> is the contract the components use.
\<close>

section \<open>Maps\<close>

type_synonym ('k, 'v) std_map = "('k \<times> 'v) list"
type_synonym 'k std_set = "'k list"

abbreviation om_find :: "('k, 'v) std_map \<Rightarrow> 'k \<Rightarrow> 'v option" where
  "om_find \<equiv> map_of"

fun om_put :: "'k :: linorder \<Rightarrow> 'v \<Rightarrow> ('k, 'v) std_map \<Rightarrow> ('k, 'v) std_map" where
  "om_put k v [] = [(k, v)]"
| "om_put k v (e # m) =
     (if fst e < k then e # om_put k v m
      else if k < fst e then (k, v) # e # m
      else (k, v) # m)"

definition om_emplace :: "'k :: linorder \<Rightarrow> 'v \<Rightarrow> ('k, 'v) std_map \<Rightarrow> ('k, 'v) std_map" where
  "om_emplace k v m = (if om_find m k = None then om_put k v m else m)"

definition om_erase :: "'k \<Rightarrow> ('k, 'v) std_map \<Rightarrow> ('k, 'v) std_map" where
  "om_erase k m = filter (\<lambda>e. fst e \<noteq> k) m"

definition om_wf :: "('k :: linorder, 'v) std_map \<Rightarrow> bool" where
  "om_wf m \<longleftrightarrow> sorted_wrt (<) (map fst m)"

definition om_keys :: "('k, 'v) std_map \<Rightarrow> 'k list" where
  "om_keys m = map fst m"

lemma om_wf_Nil [simp]: "om_wf []"
  by (simp add: om_wf_def)

lemma om_find_put [simp]: "om_find (om_put k v m) = (om_find m)(k \<mapsto> v)"
  by (induction m) (auto simp: fun_eq_iff)

lemma om_find_erase [simp]: "om_find (om_erase k m) = (om_find m)(k := None)"
  by (induction m) (auto simp: om_erase_def fun_eq_iff)

lemma om_find_emplace:
  "om_find (om_emplace k v m) = (if om_find m k = None then (om_find m)(k \<mapsto> v) else om_find m)"
  by (simp add: om_emplace_def)

lemma set_om_keys_put: "set (om_keys (om_put k v m)) = insert k (set (om_keys m))"
  by (induction m) (auto simp: om_keys_def)

lemma om_wf_put: "om_wf m \<Longrightarrow> om_wf (om_put k v m)"
proof (induction m)
  case (Cons e m)
  have "set (map fst (om_put k v m)) = insert k (set (map fst m))"
    using set_om_keys_put [of k v m] by (simp add: om_keys_def)
  with Cons show ?case by (auto simp: om_wf_def)
qed (simp add: om_wf_def)

lemma om_wf_emplace: "om_wf m \<Longrightarrow> om_wf (om_emplace k v m)"
  by (simp add: om_emplace_def om_wf_put)

lemma om_wf_erase: "om_wf m \<Longrightarrow> om_wf (om_erase k m)"
  unfolding om_wf_def om_erase_def
  by (metis (no_types, lifting) filter_map o_def sorted_wrt_filter sorted_wrt_map)

lemma om_wf_distinct: "om_wf m \<Longrightarrow> distinct (map fst m)"
  by (simp add: om_wf_def strict_sorted_iff)

lemma om_find_in_set: "om_wf m \<Longrightarrow> (k, v) \<in> set m \<longleftrightarrow> om_find m k = Some v"
  by (simp add: om_wf_distinct)

lemma om_keys_dom: "set (om_keys m) = dom (om_find m)"
  by (simp add: om_keys_def dom_map_of_conv_image_fst)

lemma length_om_card: "om_wf m \<Longrightarrow> length m = card (dom (om_find m))"
  by (metis dom_map_of_conv_image_fst distinct_card length_map list.set_map om_wf_distinct)

lemma length_om_emplace:
  "om_wf m \<Longrightarrow> length (om_emplace k v m) = (if om_find m k = None then Suc (length m) else length m)"
  by (simp add: length_om_card om_wf_emplace om_find_emplace finite_dom_map_of card_insert_if domIff)

lemma length_om_erase:
  "om_wf m \<Longrightarrow> length (om_erase k m) = (if om_find m k = None then length m else length m - 1)"
  by (auto simp: length_om_card om_wf_erase domIff Diff_insert0 simp del: dom_fun_upd)
     (simp_all add: domIff Diff_insert0 dom_fun_upd split: option.splits)

section \<open>Sets\<close>

fun os_insert :: "'k :: linorder \<Rightarrow> 'k std_set \<Rightarrow> 'k std_set" where
  "os_insert k [] = [k]"
| "os_insert k (x # xs) =
     (if x < k then x # os_insert k xs else if k < x then k # x # xs else x # xs)"

definition os_erase :: "'k \<Rightarrow> 'k std_set \<Rightarrow> 'k std_set" where
  "os_erase k xs = filter (\<lambda>x. x \<noteq> k) xs"

abbreviation os_wf :: "'k :: linorder std_set \<Rightarrow> bool" where
  "os_wf xs \<equiv> sorted_wrt (<) xs"

lemma set_os_insert [simp]: "set (os_insert k xs) = insert k (set xs)"
  by (induction xs) auto

lemma set_os_erase [simp]: "set (os_erase k xs) = set xs - {k}"
  by (auto simp: os_erase_def)

lemma os_wf_insert: "os_wf xs \<Longrightarrow> os_wf (os_insert k xs)"
  by (induction xs) auto

lemma os_wf_erase: "os_wf xs \<Longrightarrow> os_wf (os_erase k xs)"
  by (simp add: os_erase_def sorted_wrt_filter)

lemma length_os_card: "os_wf xs \<Longrightarrow> length xs = card (set xs)"
  by (simp add: distinct_card strict_sorted_iff)

lemma length_os_insert:
  "os_wf xs \<Longrightarrow> length (os_insert k xs) = (if k \<in> set xs then length xs else Suc (length xs))"
  by (simp add: length_os_card os_wf_insert insert_absorb)

lemma length_os_erase:
  "os_wf xs \<Longrightarrow> length (os_erase k xs) = (if k \<in> set xs then length xs - 1 else length xs)"
  by (simp add: length_os_card os_wf_erase)

section \<open>The contract of a map\<close>

text \<open>The lookup laws, and the two client patterns of the server: registering an entry under a
  key, and withdrawing it only if it still belongs to the caller.\<close>

locale ordered_map =
  fixes wf :: "'m \<Rightarrow> bool"
    and lookup :: "'m \<Rightarrow> 'k \<Rightarrow> 'v option"
    and put :: "'k \<Rightarrow> 'v \<Rightarrow> 'm \<Rightarrow> 'm"
    and erase :: "'k \<Rightarrow> 'm \<Rightarrow> 'm"
  assumes lookup_put: "lookup (put k v m) = (lookup m)(k \<mapsto> v)"
    and lookup_erase: "lookup (erase k m) = (lookup m)(k := None)"
    and wf_put: "wf m \<Longrightarrow> wf (put k v m)"
    and wf_erase: "wf m \<Longrightarrow> wf (erase k m)"
begin

lemma withdraw_own:
  "lookup m k = Some v \<Longrightarrow> lookup (if lookup m k = Some v then erase k m else m) k = None"
  by (simp add: lookup_erase)

lemma withdraw_foreign:
  "lookup m k = Some w \<Longrightarrow> w \<noteq> v \<Longrightarrow> (if lookup m k = Some v then erase k m else m) = m"
  by simp

lemma withdraw_lookup:
  "lookup (if lookup m k = Some v then erase k m else m) j =
     (if j = k \<and> lookup m k = Some v then None else lookup m j)"
  by (simp add: lookup_erase)

lemma withdraw_wf: "wf m \<Longrightarrow> wf (if lookup m k = Some v then erase k m else m)"
  by (simp add: wf_erase)

lemma put_withdraw: "lookup (if lookup (put k v m) k = Some v then erase k (put k v m) else put k v m)
    = (lookup m)(k := None)"
  by (simp add: lookup_put lookup_erase)

end

interpretation om: ordered_map "om_wf :: ('k :: linorder, 'v) std_map \<Rightarrow> bool" om_find om_put om_erase
  by unfold_locales (simp_all add: om_wf_put om_wf_erase)

end
