(* ===== verification/LoginDb.thy ===== *)
theory LoginDb
  imports OrdContainers
begin

text \<open>
  \<^verbatim>\<open>GameServer/Login/Login.{h,cpp}\<close> and \<^verbatim>\<open>Struct_info/AccountInfo.h\<close>: the in-memory account
  table, the set of taken user names, the 64-bit account id counter and the list of accounts that
  are logged in.  Every operation runs under the lock of the object, so it is one atomic function
  of the state.  The \<open>OUT\<close> parameters are passed in and returned.
\<close>

section \<open>Model\<close>

record AccountInfo =
  ai_account_id :: uint64
  ai_id :: string
  ai_pw :: string
  ai_user_name :: wstring

datatype LOGIN_ERROR =
    LOGIN_NONE | LOGIN_FAILE | LOGIN_ID_NONE | LOGIN_PW_NONE | LOGIN_CREATE_FAILE
  | LOGIN_CREATE_HAS_ACCOUNT | LOGIN_ALREADY_LOGIN | LOGIN_USER_DUPLICATION | LOGIN_SUCCESS

record Login =
  lg_memory_login_info_db :: "(string, AccountInfo) std_map"
  lg_name_sessions_info_db :: "wstring std_set"
  lg_account_id :: uint64
  lg_login_list :: "uint64 std_set"

definition Login_new :: Login where
  "Login_new = \<lparr>lg_memory_login_info_db = [], lg_name_sessions_info_db = [], lg_account_id = 1,
     lg_login_list = []\<rparr>"

definition create_account ::
  "string \<Rightarrow> string \<Rightarrow> wstring \<Rightarrow> uint64 \<Rightarrow> Login \<Rightarrow> LOGIN_ERROR \<times> uint64 \<times> Login" where
  "create_account uid pw user_name account_id lg =
     (if lg_memory_login_info_db lg \<noteq> [] \<and> om_find (lg_memory_login_info_db lg) uid \<noteq> None
      then (LOGIN_CREATE_HAS_ACCOUNT, account_id, lg)
      else if lg_memory_login_info_db lg \<noteq> [] \<and> user_name \<in> set (lg_name_sessions_info_db lg)
      then (LOGIN_USER_DUPLICATION, account_id, lg)
      else let idx = lg_account_id lg;
               account_info = \<lparr>ai_account_id = idx, ai_id = uid, ai_pw = pw,
                               ai_user_name = user_name\<rparr>
           in (LOGIN_SUCCESS, idx,
               lg\<lparr>lg_account_id := idx + 1,
                  lg_memory_login_info_db :=
                    om_emplace uid account_info (lg_memory_login_info_db lg),
                  lg_name_sessions_info_db := os_insert user_name (lg_name_sessions_info_db lg),
                  lg_login_list := os_insert idx (lg_login_list lg)\<rparr>))"

definition login ::
  "string \<Rightarrow> string \<Rightarrow> wstring \<Rightarrow> uint64 \<Rightarrow> Login \<Rightarrow> LOGIN_ERROR \<times> wstring \<times> uint64 \<times> Login"
  where
  "login uid pw user_name account_id lg =
     (if lg_memory_login_info_db lg = [] then (LOGIN_ID_NONE, user_name, account_id, lg)
      else case om_find (lg_memory_login_info_db lg) uid of
        None \<Rightarrow> (LOGIN_ID_NONE, user_name, account_id, lg)
      | Some account_info \<Rightarrow>
          if ai_pw account_info \<noteq> pw then (LOGIN_PW_NONE, user_name, account_id, lg)
          else if ai_account_id account_info \<in> set (lg_login_list lg)
          then (LOGIN_ALREADY_LOGIN, user_name, account_id, lg)
          else (LOGIN_SUCCESS, ai_user_name account_info, ai_account_id account_info,
                lg\<lparr>lg_login_list :=
                     os_insert (ai_account_id account_info) (lg_login_list lg)\<rparr>))"

definition logout :: "uint64 \<Rightarrow> Login \<Rightarrow> bool \<times> Login" where
  "logout account_id lg =
     (if lg_login_list lg = [] then (False, lg)
      else if account_id \<notin> set (lg_login_list lg) then (False, lg)
      else (True, lg\<lparr>lg_login_list := os_erase account_id (lg_login_list lg)\<rparr>))"

section \<open>Invariant\<close>

abbreviation db :: "Login \<Rightarrow> string \<Rightarrow> AccountInfo option" where
  "db lg \<equiv> om_find (lg_memory_login_info_db lg)"

text \<open>The next id counts the accounts, so ids are never reused while fewer than
  \<open>2 ^ 64 - 1\<close> accounts exist.\<close>

definition ids_inv :: "Login \<Rightarrow> bool" where
  "ids_inv lg \<longleftrightarrow>
     lg_account_id lg = of_nat (Suc (length (lg_memory_login_info_db lg))) \<and>
     length (lg_memory_login_info_db lg) < 2 ^ 64 - 1 \<and>
     (\<forall>i a. db lg i = Some a \<longrightarrow> ai_id a = i \<and> 1 \<le> unat (ai_account_id a) \<and>
        unat (ai_account_id a) \<le> length (lg_memory_login_info_db lg)) \<and>
     (\<forall>i j a b. db lg i = Some a \<and> db lg j = Some b \<and> ai_account_id a = ai_account_id b \<longrightarrow> i = j)"

text \<open>The name set is exactly the set of user names, each of one account.\<close>

definition names_inv :: "Login \<Rightarrow> bool" where
  "names_inv lg \<longleftrightarrow>
     set (lg_name_sessions_info_db lg) = ai_user_name ` ran (db lg) \<and>
     (\<forall>i j a b. db lg i = Some a \<and> db lg j = Some b \<and> ai_user_name a = ai_user_name b \<longrightarrow> i = j)"

definition list_inv :: "Login \<Rightarrow> bool" where
  "list_inv lg \<longleftrightarrow> set (lg_login_list lg) \<subseteq> ai_account_id ` ran (db lg)"

definition login_inv :: "Login \<Rightarrow> bool" where [inv_defs]:
  "login_inv lg \<longleftrightarrow>
     om_wf (lg_memory_login_info_db lg) \<and> os_wf (lg_name_sessions_info_db lg) \<and>
     os_wf (lg_login_list lg) \<and> ids_inv lg \<and> names_inv lg \<and> list_inv lg"

lemma login_inv_new: "login_inv Login_new"
  by (simp add: login_inv_def Login_new_def ids_inv_def names_inv_def list_inv_def)

lemma ids_inv_next:
  "ids_inv lg \<Longrightarrow> unat (lg_account_id lg) = Suc (length (lg_memory_login_info_db lg))"
  by (simp add: ids_inv_def unat_of_nat del: of_nat_Suc)

lemma ids_inv_fresh: "ids_inv lg \<Longrightarrow> db lg i = Some a \<Longrightarrow> ai_account_id a \<noteq> lg_account_id lg"
  using ids_inv_next [of lg] by (force simp: ids_inv_def)

text \<open>In a well-formed state the emptiness shortcut of the code decides nothing.\<close>

definition new_account :: "string \<Rightarrow> string \<Rightarrow> wstring \<Rightarrow> Login \<Rightarrow> AccountInfo" where
  "new_account uid pw user_name lg =
     \<lparr>ai_account_id = lg_account_id lg, ai_id = uid, ai_pw = pw, ai_user_name = user_name\<rparr>"

definition add_account :: "AccountInfo \<Rightarrow> Login \<Rightarrow> Login" where
  "add_account a lg =
     lg\<lparr>lg_account_id := lg_account_id lg + 1,
        lg_memory_login_info_db := om_put (ai_id a) a (lg_memory_login_info_db lg),
        lg_name_sessions_info_db := os_insert (ai_user_name a) (lg_name_sessions_info_db lg),
        lg_login_list := os_insert (ai_account_id a) (lg_login_list lg)\<rparr>"

lemma create_account_cases:
  assumes "login_inv lg"
  shows "create_account uid pw user_name account_id lg =
     (if db lg uid \<noteq> None then (LOGIN_CREATE_HAS_ACCOUNT, account_id, lg)
      else if user_name \<in> set (lg_name_sessions_info_db lg)
      then (LOGIN_USER_DUPLICATION, account_id, lg)
      else (LOGIN_SUCCESS, lg_account_id lg, add_account (new_account uid pw user_name lg) lg))"
proof -
  have "user_name \<in> set (lg_name_sessions_info_db lg) \<Longrightarrow> lg_memory_login_info_db lg \<noteq> []"
    using assms by (auto simp: login_inv_def names_inv_def)
  then show ?thesis
    by (auto simp: create_account_def om_emplace_def add_account_def new_account_def Let_def)
qed

lemma login_cases:
  "login uid pw user_name account_id lg =
     (case db lg uid of
        None \<Rightarrow> (LOGIN_ID_NONE, user_name, account_id, lg)
      | Some a \<Rightarrow>
          if ai_pw a \<noteq> pw then (LOGIN_PW_NONE, user_name, account_id, lg)
          else if ai_account_id a \<in> set (lg_login_list lg)
          then (LOGIN_ALREADY_LOGIN, user_name, account_id, lg)
          else (LOGIN_SUCCESS, ai_user_name a, ai_account_id a,
                lg\<lparr>lg_login_list := os_insert (ai_account_id a) (lg_login_list lg)\<rparr>))"
  by (simp add: login_def)

lemma logout_cases:
  "logout k lg =
     (if k \<in> set (lg_login_list lg)
      then (True, lg\<lparr>lg_login_list := os_erase k (lg_login_list lg)\<rparr>) else (False, lg))"
  by (auto simp: logout_def)

lemma length_add_account:
  "om_wf (lg_memory_login_info_db lg) \<Longrightarrow> db lg (ai_id a) = None \<Longrightarrow>
   length (om_put (ai_id a) a (lg_memory_login_info_db lg))
     = Suc (length (lg_memory_login_info_db lg))"
  using length_om_emplace [of "lg_memory_login_info_db lg" "ai_id a" a]
  by (simp add: om_emplace_def)

lemma ids_inv_add:
  assumes "ids_inv lg" "om_wf (lg_memory_login_info_db lg)" "db lg uid = None"
    "length (lg_memory_login_info_db lg) < 2 ^ 64 - 2"
  shows "ids_inv (add_account (new_account uid pw name lg) lg)"
proof -
  let ?a = "new_account uid pw name lg"
  have len: "length (om_put uid ?a (lg_memory_login_info_db lg))
      = Suc (length (lg_memory_login_info_db lg))"
    using length_add_account [of lg ?a] assms by (simp add: new_account_def)
  have nxt: "unat (lg_account_id lg) = Suc (length (lg_memory_login_info_db lg))"
    using assms(1) by (rule ids_inv_next)
  have fresh: "db lg i = Some a \<Longrightarrow> ai_account_id a \<noteq> lg_account_id lg" for i a
    using assms(1) by (rule ids_inv_fresh)
  have db': "db (add_account ?a lg) = (db lg)(uid \<mapsto> ?a)"
    by (simp add: add_account_def new_account_def)
  have len': "length (lg_memory_login_info_db (add_account ?a lg))
      = Suc (length (lg_memory_login_info_db lg))"
    using len by (simp add: add_account_def new_account_def)
  show ?thesis
    unfolding ids_inv_def db' len'
  proof (intro conjI allI impI)
    show "lg_account_id (add_account ?a lg)
        = of_nat (Suc (Suc (length (lg_memory_login_info_db lg))))"
      using assms(1) by (simp add: add_account_def ids_inv_def)
    show "Suc (length (lg_memory_login_info_db lg)) < 2 ^ 64 - 1" using assms(4) by simp
  next
    fix i a assume "((db lg)(uid \<mapsto> ?a)) i = Some a"
    then have "db lg i = Some a \<or> i = uid \<and> a = ?a" by (auto split: if_splits)
    then show "ai_id a = i" "1 \<le> unat (ai_account_id a)"
      "unat (ai_account_id a) \<le> Suc (length (lg_memory_login_info_db lg))"
      using assms(1) nxt by (auto simp: ids_inv_def new_account_def intro: le_SucI)
  next
    fix i j a b
    assume "((db lg)(uid \<mapsto> ?a)) i = Some a \<and> ((db lg)(uid \<mapsto> ?a)) j = Some b \<and>
      ai_account_id a = ai_account_id b"
    then show "i = j"
      using assms(1) fresh [of i a] fresh [of j b]
      by (auto simp: ids_inv_def new_account_def split: if_splits)
  qed
qed

lemma names_inv_add:
  assumes "names_inv lg" "db lg uid = None" "name \<notin> set (lg_name_sessions_info_db lg)"
  shows "names_inv (add_account (new_account uid pw name lg) lg)"
proof -
  have "db lg i = Some a \<Longrightarrow> ai_user_name a \<noteq> name" for i a
    using assms by (auto simp: names_inv_def ran_def)
  with assms show ?thesis
    unfolding names_inv_def add_account_def by (auto simp: new_account_def split: if_splits)
qed

lemma list_inv_add:
  "list_inv lg \<Longrightarrow> db lg uid = None \<Longrightarrow> list_inv (add_account (new_account uid pw name lg) lg)"
  unfolding list_inv_def add_account_def by (auto simp: new_account_def)

lemma login_inv_create:
  assumes "login_inv lg" "length (lg_memory_login_info_db lg) < 2 ^ 64 - 2"
  shows "login_inv (snd (snd (create_account uid pw user_name account_id lg)))"
proof -
  have "login_inv (add_account (new_account uid pw user_name lg) lg)"
    if "db lg uid = None" "user_name \<notin> set (lg_name_sessions_info_db lg)"
    using that assms ids_inv_add [of lg uid pw user_name] names_inv_add [of lg uid user_name pw]
      list_inv_add [of lg uid pw user_name]
    by (simp add: login_inv_def add_account_def om_wf_put os_wf_insert)
  with assms show ?thesis by (simp add: create_account_cases)
qed

lemma login_inv_list_update:
  "login_inv lg \<Longrightarrow> os_wf xs \<Longrightarrow> set xs \<subseteq> ai_account_id ` ran (db lg) \<Longrightarrow>
   login_inv (lg\<lparr>lg_login_list := xs\<rparr>)"
  by (simp add: login_inv_def ids_inv_def names_inv_def list_inv_def)

lemma login_inv_login:
  assumes "login_inv lg"
  shows "login_inv (snd (snd (snd (login uid pw user_name account_id lg))))"
proof (cases "db lg uid")
  case (Some a)
  have "login_inv (lg\<lparr>lg_login_list := os_insert (ai_account_id a) (lg_login_list lg)\<rparr>)"
    using assms Some
    by (intro login_inv_list_update) (auto simp: login_inv_def list_inv_def os_wf_insert ranI)
  with assms Some show ?thesis by (simp add: login_cases)
qed (use assms in \<open>simp add: login_cases\<close>)

lemma login_inv_logout:
  assumes "login_inv lg"
  shows "login_inv (snd (logout k lg))"
proof -
  have "login_inv (lg\<lparr>lg_login_list := os_erase k (lg_login_list lg)\<rparr>)"
    using assms
    by (intro login_inv_list_update) (auto simp: login_inv_def list_inv_def os_wf_erase)
  with assms show ?thesis by (simp add: logout_cases)
qed

section \<open>Sequences of operations\<close>

datatype login_op = OpCreate string string wstring | OpLogin string string | OpLogout uint64

text \<open>One call, in the order in which callers obtain the lock, with the account it hands out
  (\<open>Inl\<close>) or gives back (\<open>Inr\<close>).\<close>

fun login_step :: "login_op \<Rightarrow> Login \<Rightarrow> (uint64 + uint64) option \<times> Login" where
  "login_step (OpCreate uid pw name) lg =
     (let (r, k, lg') = create_account uid pw name 0 lg
      in (if r = LOGIN_SUCCESS then Some (Inl k) else None, lg'))"
| "login_step (OpLogin uid pw) lg =
     (let (r, n, k, lg') = login uid pw [] 0 lg
      in (if r = LOGIN_SUCCESS then Some (Inl k) else None, lg'))"
| "login_step (OpLogout k) lg =
     (let (ok, lg') = logout k lg in (if ok then Some (Inr k) else None, lg'))"

fun login_run :: "login_op list \<Rightarrow> Login \<Rightarrow> (uint64 + uint64) list \<times> Login" where
  "login_run [] lg = ([], lg)"
| "login_run (x # xs) lg =
     (let (e, lg') = login_step x lg; (es, lg'') = login_run xs lg'
      in (case e of None \<Rightarrow> es | Some a \<Rightarrow> a # es, lg''))"

lemma login_step_length:
  "login_inv lg \<Longrightarrow> length (lg_memory_login_info_db (snd (login_step x lg)))
     \<le> Suc (length (lg_memory_login_info_db lg))"
  by (cases x)
     (auto simp: create_account_cases login_cases logout_cases add_account_def new_account_def
        length_om_card om_wf_put login_inv_def finite_dom_map_of card_insert_le_m1 card_insert_if
        split: option.splits)

lemma login_step_inv:
  assumes "login_inv lg" "length (lg_memory_login_info_db lg) < 2 ^ 64 - 2"
  shows "login_inv (snd (login_step x lg))"
proof (cases x)
  case (OpCreate uid pw name)
  then show ?thesis using login_inv_create [OF assms, of uid pw name 0] by (simp add: case_prod_beta Let_def)
next
  case (OpLogin uid pw)
  then show ?thesis using login_inv_login [OF assms(1), of uid pw "[]" 0] by (simp add: case_prod_beta Let_def)
next
  case (OpLogout k)
  then show ?thesis using login_inv_logout [OF assms(1), of k] by (simp add: case_prod_beta Let_def)
qed

lemma login_run_inv:
  assumes "login_inv lg" "length (lg_memory_login_info_db lg) + length xs < 2 ^ 64 - 1"
  shows "login_inv (snd (login_run xs lg))"
  using assms
proof (induction xs arbitrary: lg)
  case (Cons x xs)
  let ?lg = "snd (login_step x lg)"
  have "login_inv ?lg" using Cons.prems by (intro login_step_inv) simp_all
  moreover have "length (lg_memory_login_info_db ?lg) + length xs < 2 ^ 64 - 1"
    using login_step_length [of lg x] Cons.prems by simp
  ultimately show ?case using Cons.IH [of ?lg] by (simp add: case_prod_beta Let_def)
qed simp

text \<open>How often an account was handed out, less how often it was given back.\<close>

definition held :: "uint64 \<Rightarrow> (uint64 + uint64) list \<Rightarrow> int" where
  "held k es = int (count_list es (Inl k)) - int (count_list es (Inr k))"

lemma login_step_held:
  assumes "login_inv lg"
  shows "of_bool (k \<in> set (lg_login_list (snd (login_step x lg))))
       = of_bool (k \<in> set (lg_login_list lg))
         + held k (case fst (login_step x lg) of None \<Rightarrow> [] | Some e \<Rightarrow> [e])"
proof -
  have "lg_account_id lg \<notin> set (lg_login_list lg)"
    using assms ids_inv_fresh [of lg] by (fastforce simp: login_inv_def list_inv_def ran_def)
  then show ?thesis
    using assms
    by (cases x)
       (auto simp: create_account_cases login_cases logout_cases add_account_def new_account_def
         held_def split: option.splits)
qed

lemma login_run_held:
  assumes "login_inv lg" "length (lg_memory_login_info_db lg) + length xs < 2 ^ 64 - 1"
  shows "of_bool (k \<in> set (lg_login_list (snd (login_run xs lg))))
       = of_bool (k \<in> set (lg_login_list lg)) + held k (fst (login_run xs lg))"
  using assms
proof (induction xs arbitrary: lg)
  case (Cons x xs)
  let ?lg = "snd (login_step x lg)"
  have "login_inv ?lg" using Cons.prems by (intro login_step_inv) simp_all
  moreover have "length (lg_memory_login_info_db ?lg) + length xs < 2 ^ 64 - 1"
    using login_step_length [of lg x] Cons.prems by simp
  ultimately have "of_bool (k \<in> set (lg_login_list (snd (login_run xs ?lg))))
       = of_bool (k \<in> set (lg_login_list ?lg)) + held k (fst (login_run xs ?lg))"
    by (rule Cons.IH)
  then show ?case
    using login_step_held [OF Cons.prems(1), of k x]
    by (auto simp: case_prod_beta Let_def held_def split: option.splits)
qed (simp add: held_def)

section \<open>Properties\<close>

text \<open>C30: whatever calls are made, and in whatever order they take the lock, the account table
  stays consistent: account ids and user names identify one account each, the name set is exactly
  the set of user names in use, the ids handed out are \<open>1, 2, \<dots>\<close> without reuse, and only existing
  accounts are logged in.  (The counter is 64 bits wide; the bound excludes its wrap-around.)\<close>

theorem login_db_invariant:
  "length xs < 2 ^ 64 - 1 \<Longrightarrow> login_inv (snd (login_run xs Login_new))"
  by (rule login_run_inv [OF login_inv_new]) (simp add: Login_new_def)

theorem login_db_invariant_witness:
  "length [OpCreate ''a'' ''p'' [97], OpLogout 1, OpLogin ''a'' ''p''] < (2 :: nat) ^ 64 - 1 \<and>
   login_inv (snd (login_run [OpCreate ''a'' ''p'' [97], OpLogout 1, OpLogin ''a'' ''p''] Login_new))"
proof -
  have l: "length [OpCreate ''a'' ''p'' [97], OpLogout 1, OpLogin ''a'' ''p''] < (2 :: nat) ^ 64 - 1"
    by simp
  from l login_db_invariant [OF l] show ?thesis by blast
qed

text \<open>C31: one session per account.  At any time an account has been handed out by a successful
  \<open>create_account\<close> or \<open>login\<close> exactly once more than it has been given back by a successful
  \<open>logout\<close> if it is in the login list, and equally often if it is not; in particular it is never
  handed out twice without a logout in between.\<close>

theorem login_account_exclusive:
  assumes "length xs < 2 ^ 64 - 1"
  shows "held k (fst (login_run xs Login_new))
       = of_bool (k \<in> set (lg_login_list (snd (login_run xs Login_new))))"
  using login_run_held [OF login_inv_new, of xs k] assms by (simp add: Login_new_def)

theorem login_account_exclusive_witness:
  "held 1 (fst (login_run [OpCreate ''a'' ''p'' [97], OpLogin ''a'' ''p'', OpLogout 1,
      OpLogin ''a'' ''p''] Login_new)) = 1"
proof -
  have l: "length [OpCreate ''a'' ''p'' [97], OpLogin ''a'' ''p'', OpLogout 1,
      OpLogin ''a'' ''p''] < (2 :: nat) ^ 64 - 1" by simp
  show ?thesis
    using login_account_exclusive [OF l, of 1]
    by (simp add: Login_new_def create_account_def login_def logout_def om_emplace_def os_erase_def
        Let_def)
qed

text \<open>C32: account creation.  In a consistent state \<open>create_account\<close> succeeds exactly when
  neither the login id nor the user name belongs to an existing account; a taken id is reported
  before a taken name, and a refusal leaves the table and the \<open>OUT\<close> parameter untouched.  On
  success the new account is stored under a fresh id, is logged in, and no other account changes.\<close>

theorem create_account_result:
  assumes "login_inv lg" "create_account uid pw user_name account_id lg = (r, k, lg')"
  shows "(r = LOGIN_SUCCESS \<longleftrightarrow> db lg uid = None \<and> (\<forall>i a. db lg i = Some a \<longrightarrow> ai_user_name a \<noteq> user_name))
     \<and> (r = LOGIN_CREATE_HAS_ACCOUNT \<longleftrightarrow> db lg uid \<noteq> None)
     \<and> (r \<noteq> LOGIN_SUCCESS \<longrightarrow> r \<in> {LOGIN_CREATE_HAS_ACCOUNT, LOGIN_USER_DUPLICATION} \<and>
          k = account_id \<and> lg' = lg)
     \<and> (r = LOGIN_SUCCESS \<longrightarrow>
          (\<forall>i a. db lg i = Some a \<longrightarrow> ai_account_id a \<noteq> k) \<and>
          set (lg_login_list lg') = insert k (set (lg_login_list lg)) \<and>
          db lg' = (db lg)(uid \<mapsto> \<lparr>ai_account_id = k, ai_id = uid, ai_pw = pw,
                                 ai_user_name = user_name\<rparr>))"
proof -
  have "user_name \<in> set (lg_name_sessions_info_db lg) \<longleftrightarrow>
      (\<exists>i a. db lg i = Some a \<and> ai_user_name a = user_name)"
    using assms(1) by (auto simp: login_inv_def names_inv_def ran_def)
  moreover have "db lg i = Some a \<Longrightarrow> ai_account_id a \<noteq> lg_account_id lg" for i a
    using assms(1) ids_inv_fresh by (auto simp: login_inv_def)
  ultimately show ?thesis
    using assms(2) unfolding create_account_cases [OF assms(1)]
    by (auto simp: add_account_def new_account_def split: if_splits)
qed

theorem create_account_result_witness:
  "login_inv Login_new \<and>
   (\<exists>lg'. create_account ''a'' ''p'' [97] 0 Login_new = (LOGIN_SUCCESS, 1, lg') \<and>
     set (lg_login_list lg') = {1})"
proof -
  obtain lg' where c: "create_account ''a'' ''p'' [97] 0 Login_new = (LOGIN_SUCCESS, 1, lg')"
    by (simp add: create_account_def Login_new_def Let_def)
  from login_inv_new c create_account_result [OF login_inv_new c] show ?thesis
    by (auto simp: Login_new_def)
qed

text \<open>Round trip.  An account that was created can be logged out and logged in again with the
  same credentials, and gets back the id and the user name it was created with; with another
  password it is refused.\<close>

theorem create_logout_login:
  assumes "login_inv lg" "create_account uid pw user_name 0 lg = (LOGIN_SUCCESS, k, lg1)"
  shows "\<exists>lg2. logout k lg1 = (True, lg2) \<and>
     fst (login uid pw [] 0 lg2) = LOGIN_SUCCESS \<and>
     fst (snd (login uid pw [] 0 lg2)) = user_name \<and>
     fst (snd (snd (login uid pw [] 0 lg2))) = k \<and>
     (\<forall>pw'. pw' \<noteq> pw \<longrightarrow> login uid pw' [] 0 lg2 = (LOGIN_PW_NONE, [], 0, lg2))"
proof -
  have "lg1 = add_account (new_account uid pw user_name lg) lg" "k = lg_account_id lg"
    using assms by (auto simp: create_account_cases split: if_splits)
  then show ?thesis
    by (auto simp: logout_cases login_cases add_account_def new_account_def)
qed

theorem create_logout_login_witness:
  "login_inv Login_new \<and>
   (\<exists>lg1. create_account ''a'' ''p'' [97] 0 Login_new = (LOGIN_SUCCESS, 1, lg1) \<and>
     (\<exists>lg2. logout 1 lg1 = (True, lg2) \<and> fst (snd (login ''a'' ''p'' [] 0 lg2)) = [97]))"
proof -
  obtain lg1 where c: "create_account ''a'' ''p'' [97] 0 Login_new = (LOGIN_SUCCESS, 1, lg1)"
    by (simp add: create_account_def Login_new_def Let_def)
  from login_inv_new c create_logout_login [OF login_inv_new c] show ?thesis by blast
qed

end
