(* ===== verification/Rooms.thy ===== *)
theory Rooms
  imports OrdContainers
begin

text \<open>
  \<^verbatim>\<open>GameServer/Room/Room.{h,cpp}\<close> and \<^verbatim>\<open>RoomManager.{h,cpp}\<close>: ten rooms of a hundred users,
  created once.  A session is named by its address (\<open>sid\<close>), a null pointer is \<open>None\<close>.  The
  entries of the room table come from \<open>make_shared\<close> and are never null, so the table holds the
  rooms themselves.
\<close>

section \<open>Model\<close>

type_synonym sid = nat

record Room =
  rm_room_max_count :: int
  rm_room_cur_count :: int
  rm_room_id :: byte
  rm_session_list :: "(uint64, sid) std_map"

definition Room_new :: "byte \<Rightarrow> int \<Rightarrow> Room" where
  "Room_new room_id room_max_count =
     \<lparr>rm_room_max_count = room_max_count, rm_room_cur_count = 0, rm_room_id = room_id,
      rm_session_list = []\<rparr>"

definition enter_user :: "uint64 \<Rightarrow> sid option \<Rightarrow> Room \<Rightarrow> bool \<times> Room" where
  "enter_user account_id session room =
     (case session of
        None \<Rightarrow> (False, room)
      | Some s \<Rightarrow>
          if account_id < 0 then (False, room)
          else if rm_room_max_count room \<le> rm_room_cur_count room then (False, room)
          else if om_find (rm_session_list room) account_id \<noteq> None then (False, room)
          else (True, room\<lparr>rm_session_list := om_emplace account_id s (rm_session_list room),
                           rm_room_cur_count := rm_room_cur_count room + 1\<rparr>))"

definition exit_user :: "uint64 \<Rightarrow> Room \<Rightarrow> bool \<times> Room" where
  "exit_user account_id room =
     (if om_find (rm_session_list room) account_id = None then (False, room)
      else (True, room\<lparr>rm_session_list := om_erase account_id (rm_session_list room),
                       rm_room_cur_count := rm_room_cur_count room - 1\<rparr>))"

record RoomManager =
  rmg_room_list :: "(int, Room) std_map"
  rmg_room_size :: int
  rmg_max_room_count :: int

definition create_room :: "RoomManager \<Rightarrow> RoomManager" where
  "create_room rm =
     rm\<lparr>rmg_room_list :=
          fold (\<lambda>room_id. om_emplace room_id (Room_new (word_of_int room_id) (rmg_room_size rm)))
            [0 .. rmg_max_room_count rm - 1] (rmg_room_list rm)\<rparr>"

definition RoomManager_new :: RoomManager where
  "RoomManager_new =
     create_room \<lparr>rmg_room_list = [], rmg_room_size = 100, rmg_max_room_count = 10\<rparr>"

definition enter_room ::
  "int \<Rightarrow> uint64 \<Rightarrow> sid option \<Rightarrow> RoomManager \<Rightarrow> bool \<times> RoomManager" where
  "enter_room enter_room_id account_idx session rm =
     (if session = None then (False, rm)
      else case om_find (rmg_room_list rm) enter_room_id of
        None \<Rightarrow> (False, rm)
      | Some room \<Rightarrow>
          (let (ok, room') = enter_user account_idx session room
           in (ok, rm\<lparr>rmg_room_list := om_put enter_room_id room' (rmg_room_list rm)\<rparr>)))"

definition exit_room :: "int \<Rightarrow> uint64 \<Rightarrow> RoomManager \<Rightarrow> bool \<times> RoomManager" where
  "exit_room exit_room_id account_id rm =
     (case om_find (rmg_room_list rm) exit_room_id of
        None \<Rightarrow> (False, rm)
      | Some room \<Rightarrow>
          (let (ok, room') = exit_user account_id room
           in (ok, rm\<lparr>rmg_room_list := om_put exit_room_id room' (rmg_room_list rm)\<rparr>)))"

section \<open>Invariant\<close>

definition room_inv :: "Room \<Rightarrow> bool" where [inv_defs]:
  "room_inv room \<longleftrightarrow> om_wf (rm_session_list room) \<and>
     rm_room_cur_count room = int (length (rm_session_list room)) \<and>
     rm_room_cur_count room \<le> rm_room_max_count room"

definition rooms_inv :: "RoomManager \<Rightarrow> bool" where [inv_defs]:
  "rooms_inv rm \<longleftrightarrow> om_wf (rmg_room_list rm) \<and>
     dom (om_find (rmg_room_list rm)) = {0 ..< 10} \<and>
     (\<forall>i room. om_find (rmg_room_list rm) i = Some room \<longrightarrow>
        room_inv room \<and> rm_room_max_count room = 100 \<and> uint (rm_room_id room) = i)"

text \<open>The occupants of a room.\<close>

definition occupant :: "RoomManager \<Rightarrow> int \<Rightarrow> uint64 \<Rightarrow> sid option" where
  "occupant rm i =
     (case om_find (rmg_room_list rm) i of
        None \<Rightarrow> Map.empty | Some room \<Rightarrow> om_find (rm_session_list room))"

section \<open>Lemmas\<close>

lemma room_inv_enter: "room_inv room \<Longrightarrow> room_inv (snd (enter_user k s room))"
  by (auto simp: enter_user_def room_inv_def om_wf_emplace length_om_emplace split: option.splits)

lemma room_inv_exit: "room_inv room \<Longrightarrow> room_inv (snd (exit_user k room))"
proof (cases "om_find (rm_session_list room) k")
  case (Some s)
  assume inv: "room_inv room"
  then have "rm_session_list room \<noteq> []" using Some by auto
  then show ?thesis
    using inv Some
    by (auto simp: exit_user_def room_inv_def om_wf_erase length_om_erase Suc_leI of_nat_diff)
qed (simp add: exit_user_def)

lemma enter_user_frame [simp]:
  "rm_room_max_count (snd (enter_user k s room)) = rm_room_max_count room"
  "rm_room_id (snd (enter_user k s room)) = rm_room_id room"
  by (auto simp: enter_user_def split: option.splits)

lemma exit_user_frame [simp]:
  "rm_room_max_count (snd (exit_user k room)) = rm_room_max_count room"
  "rm_room_id (snd (exit_user k room)) = rm_room_id room"
  by (auto simp: exit_user_def)

lemma rooms_inv_room: "rooms_inv rm \<Longrightarrow> om_find (rmg_room_list rm) i = Some room \<Longrightarrow> room_inv room"
  by (simp add: rooms_inv_def)

lemma rooms_inv_count:
  assumes "rooms_inv rm" "om_find (rmg_room_list rm) i = Some room"
  shows "rm_room_cur_count room = int (card (dom (om_find (rm_session_list room)))) \<and>
    rm_room_cur_count room \<le> 100 \<and> rm_room_max_count room = 100"
proof -
  have "room_inv room" "rm_room_max_count room = 100" using assms by (simp_all add: rooms_inv_def)
  moreover from this have "card (dom (om_find (rm_session_list room))) = length (rm_session_list room)"
    by (simp add: room_inv_def length_om_card)
  ultimately show ?thesis unfolding room_inv_def by metis
qed

lemma rooms_inv_update:
  assumes "rooms_inv rm" "om_find (rmg_room_list rm) i = Some room" "room_inv room'"
    "rm_room_max_count room' = rm_room_max_count room" "rm_room_id room' = rm_room_id room"
  shows "rooms_inv (rm\<lparr>rmg_room_list := om_put i room' (rmg_room_list rm)\<rparr>)"
  using assms by (auto simp: rooms_inv_def om_wf_put)

lemma rooms_inv_enter: "rooms_inv rm \<Longrightarrow> rooms_inv (snd (enter_room i k s rm))"
  by (auto simp: enter_room_def case_prod_beta Let_def room_inv_enter rooms_inv_room
      intro: rooms_inv_update split: option.splits)

lemma rooms_inv_exit: "rooms_inv rm \<Longrightarrow> rooms_inv (snd (exit_room i k rm))"
  by (auto simp: exit_room_def case_prod_beta Let_def room_inv_exit rooms_inv_room
      intro: rooms_inv_update split: option.splits)

lemma rooms_inv_new: "rooms_inv RoomManager_new"
proof -
  have "[0 .. 10 - 1 :: int] = [0, 1, 2, 3, 4, 5, 6, 7, 8, 9]" by (simp add: upto.simps)
  then have l: "rmg_room_list RoomManager_new =
      map (\<lambda>i. (i, Room_new (word_of_int i) 100)) [0, 1, 2, 3, 4, 5, 6, 7, 8, 9]"
    by (simp add: RoomManager_new_def create_room_def om_emplace_def)
  have "om_find (rmg_room_list RoomManager_new) i =
      (if i \<in> {0 ..< 10} then Some (Room_new (word_of_int i) 100) else None)" for i
    unfolding l by (simp add: map_of_map_restrict restrict_map_def) presburger
  then show ?thesis
    by (auto simp: rooms_inv_def l om_wf_def room_inv_def Room_new_def dom_def
        unsigned_of_int take_bit_int_eq_self split: if_splits)
qed

lemma enter_room_ok:
  "fst (enter_room i k (Some s) rm) \<longleftrightarrow>
     (\<exists>room. om_find (rmg_room_list rm) i = Some room \<and>
        rm_room_cur_count room < rm_room_max_count room \<and> om_find (rm_session_list room) k = None)"
  by (auto simp: enter_room_def enter_user_def case_prod_beta Let_def split: option.splits)

lemma occupant_enter:
  "occupant (snd (enter_room i k (Some s) rm)) =
     (if fst (enter_room i k (Some s) rm)
      then (occupant rm)(i := (occupant rm i)(k \<mapsto> s)) else occupant rm)"
  by (auto simp: enter_room_def enter_user_def occupant_def case_prod_beta Let_def fun_eq_iff
      om_find_emplace split: option.splits)

lemma exit_room_ok: "fst (exit_room i k rm) \<longleftrightarrow> occupant rm i k \<noteq> None"
  by (auto simp: exit_room_def exit_user_def occupant_def case_prod_beta Let_def
      split: option.splits)

lemma occupant_exit:
  "occupant (snd (exit_room i k rm)) = (occupant rm)(i := (occupant rm i)(k := None))"
  by (auto simp: exit_room_def exit_user_def occupant_def case_prod_beta Let_def fun_eq_iff
      split: option.splits)

section \<open>Properties\<close>

datatype room_op = OpEnter int uint64 sid | OpExit int uint64

fun room_step :: "room_op \<Rightarrow> RoomManager \<Rightarrow> RoomManager" where
  "room_step (OpEnter i k s) rm = snd (enter_room i k (Some s) rm)"
| "room_step (OpExit i k) rm = snd (exit_room i k rm)"

lemma room_run_inv: "rooms_inv rm \<Longrightarrow> rooms_inv (fold room_step xs rm)"
proof (induction xs arbitrary: rm)
  case (Cons x xs)
  then show ?case by (cases x) (simp_all add: rooms_inv_enter rooms_inv_exit)
qed simp

text \<open>C33: whatever enter and exit requests are made, in any order, there are exactly the ten
  rooms \<open>0 .. 9\<close>, the user counter that \<open>ACK_GET_ROOM_INFO\<close> reports is the number of users in
  the room, and it never exceeds the hundred of the room.\<close>

theorem rooms_count_and_capacity:
  assumes "rm = fold room_step xs RoomManager_new"
  shows "dom (om_find (rmg_room_list rm)) = {0 ..< 10} \<and>
    (\<forall>room \<in> ran (om_find (rmg_room_list rm)).
       rm_room_cur_count room = int (card (dom (om_find (rm_session_list room)))) \<and>
       0 \<le> rm_room_cur_count room \<and> rm_room_cur_count room \<le> 100)"
proof -
  have "rooms_inv rm" unfolding assms by (rule room_run_inv [OF rooms_inv_new])
  then show ?thesis using rooms_inv_count [of rm] by (fastforce simp: rooms_inv_def ran_def)
qed

theorem rooms_count_and_capacity_witness:
  "dom (om_find (rmg_room_list (fold room_step [OpEnter 3 7 1, OpEnter 12 7 1, OpExit 3 7]
      RoomManager_new))) = {0 ..< 10}"
  using rooms_count_and_capacity [OF refl, of "[OpEnter 3 7 1, OpEnter 12 7 1, OpExit 3 7]"] by blast

text \<open>Entering and leaving.  A session enters a room exactly when the room exists, is not full
  and does not already hold its account; entering adds just that occupant, leaving succeeds just
  for an occupant and removes it, and a successful entry followed by the exit restores the
  occupants of every room.\<close>

theorem enter_exit_room:
  assumes "rooms_inv rm"
  shows "(fst (enter_room i k (Some s) rm) \<longleftrightarrow>
        0 \<le> i \<and> i < 10 \<and> card (dom (occupant rm i)) < 100 \<and> occupant rm i k = None) \<and>
    (fst (enter_room i k (Some s) rm) \<longrightarrow>
       occupant (snd (enter_room i k (Some s) rm)) = (occupant rm)(i := (occupant rm i)(k \<mapsto> s)) \<and>
       fst (exit_room i k (snd (enter_room i k (Some s) rm))) \<and>
       occupant (snd (exit_room i k (snd (enter_room i k (Some s) rm)))) = occupant rm)"
proof -
  have dom: "dom (om_find (rmg_room_list rm)) = {0 ..< 10}" using assms by (simp add: rooms_inv_def)
  note room = rooms_inv_count [OF assms, of i]
  have "om_find (rmg_room_list rm) i \<noteq> None \<longleftrightarrow> 0 \<le> i \<and> i < 10"
    using dom by (auto simp: domIff [symmetric])
  then have ok: "fst (enter_room i k (Some s) rm) \<longleftrightarrow>
      0 \<le> i \<and> i < 10 \<and> card (dom (occupant rm i)) < 100 \<and> occupant rm i k = None"
    using room by (auto simp: enter_room_ok occupant_def)
  then show ?thesis
    by (auto simp: occupant_enter occupant_exit exit_room_ok fun_eq_iff)
qed

theorem enter_exit_room_witness:
  "rooms_inv RoomManager_new \<and>
   (fst (enter_room 3 7 (Some 1) RoomManager_new) \<longleftrightarrow>
      card (dom (occupant RoomManager_new 3)) < 100 \<and> occupant RoomManager_new 3 7 = None)"
  using rooms_inv_new enter_exit_room [OF rooms_inv_new, of 3 7 1] by simp

end
