(* ===== verification/JobQueues.thy ===== *)
theory JobQueues
  imports ServerPrelude
begin

text \<open>
  \<^verbatim>\<open>Utils/LockQueue.h\<close>, \<^verbatim>\<open>Job/JobQueue.{h,cpp}\<close>, \<^verbatim>\<open>Job/GlobalQueue.{h,cpp}\<close> and the worker loop of
  \<^verbatim>\<open>Thread/ThreadManager.cpp\<close>, as a transition system of threads that interleave at every access to
  shared memory.  \<open>JobQueue::push\<close> is three atomic accesses (the counter, the queue, and the
  decision who runs it), \<open>JobQueue::execute\<close> alternates taking all jobs, running them, and
  subtracting them from the counter.  Queues are named by their address \<open>qid\<close>, jobs are opaque.
  The fields \<open>jq_pushed\<close> and \<open>jq_done\<close> are history: the jobs in the order they entered the queue
  and in the order they were executed.
\<close>

section \<open>The locked queue\<close>

definition lq_push :: "'a \<Rightarrow> 'a list \<Rightarrow> 'a list" where
  "lq_push item items = items @ [item]"

definition lq_pop :: "'a list \<Rightarrow> 'a option \<times> 'a list" where
  "lq_pop items = (case items of [] \<Rightarrow> (None, []) | x # xs \<Rightarrow> (Some x, xs))"

fun lq_pop_all :: "'a list \<Rightarrow> 'a list \<Rightarrow> 'a list \<times> 'a list" where
  "lq_pop_all out [] = (out, [])"
| "lq_pop_all out (x # items) = lq_pop_all (out @ [x]) items"

definition lq_clear :: "'a list \<Rightarrow> 'a list" where
  "lq_clear items = []"

lemma lq_pop_all_eq [simp]: "lq_pop_all out items = (out @ items, [])"
  by (induction items arbitrary: out) simp_all

section \<open>Threads and queues\<close>

type_synonym qid = nat
type_synonym tid = nat

record 'j jobqueue =
  jq_jobs :: "'j list"
  jq_jobCount :: int
  jq_pushed :: "'j list"
  jq_done :: "'j list"

text \<open>Where a thread is inside \<open>push(job, pushOnly)\<close> of queue \<open>q\<close>.\<close>

datatype 'j push_pc =
    Push_count qid 'j bool
  | Push_store qid 'j bool int
  | Push_finish qid bool int

text \<open>Where a thread is inside \<open>execute()\<close> of queue \<open>q\<close>: about to take the jobs, running the
  jobs it took (those left, and how many it took), about to look at the clock.\<close>

datatype 'j exec_pc =
    Exec_pop qid
  | Exec_run qid "'j list" nat
  | Exec_clock qid

record 'j worker =
  th_push :: "'j push_pc option"
  th_exec :: "'j exec_pc option"
  th_LCurrentJobQueue :: "qid option"

record 'j jobsys =
  js_queues :: "qid \<Rightarrow> 'j jobqueue"
  js_GGlobalQueue :: "qid list"
  js_threads :: "tid \<Rightarrow> 'j worker"
  js_thread_count :: nat

definition js_init :: "nat \<Rightarrow> 'j jobsys" where
  "js_init n =
     \<lparr>js_queues = (\<lambda>_. \<lparr>jq_jobs = [], jq_jobCount = 0, jq_pushed = [], jq_done = []\<rparr>),
      js_GGlobalQueue = [],
      js_threads = (\<lambda>_. \<lparr>th_push = None, th_exec = None, th_LCurrentJobQueue = None\<rparr>),
      js_thread_count = n\<rparr>"

abbreviation set_thread :: "tid \<Rightarrow> 'j worker \<Rightarrow> 'j jobsys \<Rightarrow> 'j jobsys" where
  "set_thread t th s \<equiv> s\<lparr>js_threads := (js_threads s)(t := th)\<rparr>"

abbreviation set_queue :: "qid \<Rightarrow> 'j jobqueue \<Rightarrow> 'j jobsys \<Rightarrow> 'j jobsys" where
  "set_queue q jq s \<equiv> s\<lparr>js_queues := (js_queues s)(q := jq)\<rparr>"

section \<open>The atomic actions\<close>

text \<open>A thread outside any queue, or one whose current job is running, calls \<open>push\<close>.\<close>

definition push_call :: "qid \<Rightarrow> 'j \<Rightarrow> bool \<Rightarrow> tid \<Rightarrow> 'j jobsys \<Rightarrow> 'j jobsys option" where
  "push_call q job pushOnly t s =
     (let th = js_threads s t in
      if th_push th = None \<and>
         (case th_exec th of None \<Rightarrow> True | Some (Exec_run _ (_ # _) _) \<Rightarrow> True | _ \<Rightarrow> False)
      then Some (set_thread t (th\<lparr>th_push := Some (Push_count q job pushOnly)\<rparr>) s)
      else None)"

text \<open>\<open>prevCount = _jobCount.fetch_add(1)\<close>.\<close>

definition push_count :: "tid \<Rightarrow> 'j jobsys \<Rightarrow> 'j jobsys option" where
  "push_count t s =
     (let th = js_threads s t in
      case th_push th of
        Some (Push_count q job pushOnly) \<Rightarrow>
          let jq = js_queues s q in
          Some (set_thread t (th\<lparr>th_push := Some (Push_store q job pushOnly (jq_jobCount jq))\<rparr>)
                 (set_queue q (jq\<lparr>jq_jobCount := jq_jobCount jq + 1\<rparr>) s))
      | _ \<Rightarrow> None)"

text \<open>\<open>_jobs.push(job)\<close>, under the lock of the queue.\<close>

definition push_store :: "tid \<Rightarrow> 'j jobsys \<Rightarrow> 'j jobsys option" where
  "push_store t s =
     (let th = js_threads s t in
      case th_push th of
        Some (Push_store q job pushOnly prevCount) \<Rightarrow>
          let jq = js_queues s q in
          Some (set_thread t (th\<lparr>th_push := Some (Push_finish q pushOnly prevCount)\<rparr>)
                 (set_queue q (jq\<lparr>jq_jobs := lq_push job (jq_jobs jq),
                                  jq_pushed := jq_pushed jq @ [job]\<rparr>) s))
      | _ \<Rightarrow> None)"

text \<open>The first pusher runs the queue itself or hands it to the global queue.\<close>

definition push_finish :: "tid \<Rightarrow> 'j jobsys \<Rightarrow> 'j jobsys option" where
  "push_finish t s =
     (let th = js_threads s t in
      case th_push th of
        Some (Push_finish q pushOnly prevCount) \<Rightarrow>
          Some (if prevCount = 0 then
                  if th_LCurrentJobQueue th = None \<and> \<not> pushOnly
                  then set_thread t (th\<lparr>th_push := None, th_exec := Some (Exec_pop q)\<rparr>) s
                  else (set_thread t (th\<lparr>th_push := None\<rparr>) s)
                         \<lparr>js_GGlobalQueue := lq_push q (js_GGlobalQueue s)\<rparr>
                else set_thread t (th\<lparr>th_push := None\<rparr>) s)
      | _ \<Rightarrow> None)"

text \<open>\<open>LCurrentJobQueue = this\<close> and \<open>_jobs.pop_all(jobs)\<close>.\<close>

definition exec_pop :: "tid \<Rightarrow> 'j jobsys \<Rightarrow> 'j jobsys option" where
  "exec_pop t s =
     (let th = js_threads s t in
      case th_exec th of
        Some (Exec_pop q) \<Rightarrow>
          let jq = js_queues s q; (jobs, rest) = lq_pop_all [] (jq_jobs jq) in
          Some (set_thread t (th\<lparr>th_LCurrentJobQueue := Some q,
                                 th_exec := Some (Exec_run q jobs (length jobs))\<rparr>)
                 (set_queue q (jq\<lparr>jq_jobs := rest\<rparr>) s))
      | _ \<Rightarrow> None)"

text \<open>The end of \<open>jobs[i]->execute()\<close>: whatever the job pushed has been pushed.\<close>

definition exec_job :: "tid \<Rightarrow> 'j jobsys \<Rightarrow> 'j jobsys option" where
  "exec_job t s =
     (let th = js_threads s t in
      case th_exec th of
        Some (Exec_run q (job # jobs) jobCount) \<Rightarrow>
          if th_push th = None
          then let jq = js_queues s q in
            Some (set_thread t (th\<lparr>th_exec := Some (Exec_run q jobs jobCount)\<rparr>)
                   (set_queue q (jq\<lparr>jq_done := jq_done jq @ [job]\<rparr>) s))
          else None
      | _ \<Rightarrow> None)"

text \<open>\<open>_jobCount.fetch_sub(jobCount) == jobCount\<close>.\<close>

definition exec_sub :: "tid \<Rightarrow> 'j jobsys \<Rightarrow> 'j jobsys option" where
  "exec_sub t s =
     (let th = js_threads s t in
      case th_exec th of
        Some (Exec_run q [] jobCount) \<Rightarrow>
          let jq = js_queues s q in
          Some (set_thread t
                  (if jq_jobCount jq = int jobCount
                   then th\<lparr>th_LCurrentJobQueue := None, th_exec := None\<rparr>
                   else th\<lparr>th_exec := Some (Exec_clock q)\<rparr>)
                 (set_queue q (jq\<lparr>jq_jobCount := jq_jobCount jq - int jobCount\<rparr>) s))
      | _ \<Rightarrow> None)"

text \<open>\<open>now >= LEndTickCount\<close>: leave the rest to another thread, or go round again.\<close>

definition exec_clock :: "bool \<Rightarrow> tid \<Rightarrow> 'j jobsys \<Rightarrow> 'j jobsys option" where
  "exec_clock time_up t s =
     (let th = js_threads s t in
      case th_exec th of
        Some (Exec_clock q) \<Rightarrow>
          Some (if time_up
                then (set_thread t (th\<lparr>th_LCurrentJobQueue := None, th_exec := None\<rparr>) s)
                       \<lparr>js_GGlobalQueue := lq_push q (js_GGlobalQueue s)\<rparr>
                else set_thread t (th\<lparr>th_exec := Some (Exec_pop q)\<rparr>) s)
      | _ \<Rightarrow> None)"

text \<open>\<open>do_global_queue_work\<close>: an idle worker takes a queue from the global queue.\<close>

definition worker_pop :: "tid \<Rightarrow> 'j jobsys \<Rightarrow> 'j jobsys option" where
  "worker_pop t s =
     (let th = js_threads s t in
      if th_push th = None \<and> th_exec th = None then
        case lq_pop (js_GGlobalQueue s) of
          (None, _) \<Rightarrow> None
        | (Some q, rest) \<Rightarrow>
            Some ((set_thread t (th\<lparr>th_exec := Some (Exec_pop q)\<rparr>) s)\<lparr>js_GGlobalQueue := rest\<rparr>)
      else None)"

inductive jq_step :: "'j jobsys \<Rightarrow> 'j jobsys \<Rightarrow> bool" where
  step_call: "t < js_thread_count s \<Longrightarrow> push_call q job po t s = Some s' \<Longrightarrow> jq_step s s'"
| step_count: "t < js_thread_count s \<Longrightarrow> push_count t s = Some s' \<Longrightarrow> jq_step s s'"
| step_store: "t < js_thread_count s \<Longrightarrow> push_store t s = Some s' \<Longrightarrow> jq_step s s'"
| step_finish: "t < js_thread_count s \<Longrightarrow> push_finish t s = Some s' \<Longrightarrow> jq_step s s'"
| step_pop: "t < js_thread_count s \<Longrightarrow> exec_pop t s = Some s' \<Longrightarrow> jq_step s s'"
| step_job: "t < js_thread_count s \<Longrightarrow> exec_job t s = Some s' \<Longrightarrow> jq_step s s'"
| step_sub: "t < js_thread_count s \<Longrightarrow> exec_sub t s = Some s' \<Longrightarrow> jq_step s s'"
| step_clock: "t < js_thread_count s \<Longrightarrow> exec_clock up t s = Some s' \<Longrightarrow> jq_step s s'"
| step_worker: "t < js_thread_count s \<Longrightarrow> worker_pop t s = Some s' \<Longrightarrow> jq_step s s'"

inductive_cases jq_stepE: "jq_step s s'"

inductive jq_reachable :: "nat \<Rightarrow> 'j jobsys \<Rightarrow> bool" for n where
  reach_init: "jq_reachable n (js_init n)"
| reach_step: "jq_reachable n s \<Longrightarrow> jq_step s s' \<Longrightarrow> jq_reachable n s'"

text \<open>Runs: schedules of actions by named threads, for evaluation.\<close>

datatype 'j action = Call qid 'j bool | Count | Store | Finish | Pop | Job | Sub | Clock bool | Work

fun do_action :: "'j action \<Rightarrow> tid \<Rightarrow> 'j jobsys \<Rightarrow> 'j jobsys option" where
  "do_action (Call q job po) t s = push_call q job po t s"
| "do_action Count t s = push_count t s"
| "do_action Store t s = push_store t s"
| "do_action Finish t s = push_finish t s"
| "do_action Pop t s = exec_pop t s"
| "do_action Job t s = exec_job t s"
| "do_action Sub t s = exec_sub t s"
| "do_action (Clock up) t s = exec_clock up t s"
| "do_action Work t s = worker_pop t s"

fun run_actions :: "(tid \<times> 'j action) list \<Rightarrow> 'j jobsys \<Rightarrow> 'j jobsys option" where
  "run_actions [] s = Some s"
| "run_actions ((t, a) # acts) s =
     (if t < js_thread_count s then Option.bind (do_action a t s) (run_actions acts) else None)"

section \<open>Invariant\<close>

text \<open>What thread \<open>th\<close> contributes to the counter of queue \<open>q\<close> beyond the stored jobs: the job it
  has counted and not yet stored, and the jobs it took and has not yet subtracted.\<close>

definition unstored :: "qid \<Rightarrow> 'j worker \<Rightarrow> nat" where
  "unstored q th = (case th_push th of Some (Push_store p _ _ _) \<Rightarrow> of_bool (p = q) | _ \<Rightarrow> 0)"

definition taken :: "qid \<Rightarrow> 'j worker \<Rightarrow> nat" where
  "taken q th = (case th_exec th of Some (Exec_run p _ n) \<Rightarrow> if p = q then n else 0 | _ \<Rightarrow> 0)"

text \<open>The jobs it took and has not finished.\<close>

definition unfinished :: "qid \<Rightarrow> 'j worker \<Rightarrow> 'j list" where
  "unfinished q th =
     (case th_exec th of Some (Exec_run p jobs _) \<Rightarrow> if p = q then jobs else [] | _ \<Rightarrow> [])"

text \<open>Whether it executes \<open>q\<close>, and whether it is the pusher that has to schedule \<open>q\<close>.\<close>

definition executing :: "qid \<Rightarrow> 'j worker \<Rightarrow> bool" where
  "executing q th = (case th_exec th of
     None \<Rightarrow> False | Some (Exec_pop p) \<Rightarrow> p = q | Some (Exec_run p _ _) \<Rightarrow> p = q
   | Some (Exec_clock p) \<Rightarrow> p = q)"

definition scheduling :: "qid \<Rightarrow> 'j worker \<Rightarrow> bool" where
  "scheduling q th = (case th_push th of
     Some (Push_store p _ _ prev) \<Rightarrow> p = q \<and> prev = 0
   | Some (Push_finish p _ prev) \<Rightarrow> p = q \<and> prev = 0 | _ \<Rightarrow> False)"

definition tokens :: "qid \<Rightarrow> 'j worker \<Rightarrow> nat" where
  "tokens q th = of_bool (executing q th) + of_bool (scheduling q th)"

definition thread_ok :: "'j worker \<Rightarrow> bool" where
  "thread_ok th \<longleftrightarrow>
     (case th_exec th of
        None \<Rightarrow> th_LCurrentJobQueue th = None
      | Some (Exec_pop q) \<Rightarrow> th_push th = None
      | Some (Exec_run q jobs _) \<Rightarrow>
          th_LCurrentJobQueue th = Some q \<and> (jobs = [] \<longrightarrow> th_push th = None)
      | Some (Exec_clock q) \<Rightarrow> th_push th = None)"

definition over_threads :: "('j worker \<Rightarrow> nat) \<Rightarrow> 'j jobsys \<Rightarrow> nat" where
  "over_threads f s = (\<Sum>t < js_thread_count s. f (js_threads s t))"

definition count_inv :: "qid \<Rightarrow> 'j jobsys \<Rightarrow> bool" where
  "count_inv q s \<longleftrightarrow> jq_jobCount (js_queues s q)
     = int (length (jq_jobs (js_queues s q)) + over_threads (unstored q) s + over_threads (taken q) s)"

definition token_inv :: "qid \<Rightarrow> 'j jobsys \<Rightarrow> bool" where
  "token_inv q s \<longleftrightarrow> count_list (js_GGlobalQueue s) q + over_threads (tokens q) s
     = of_bool (jq_jobCount (js_queues s q) > 0)"

definition order_inv :: "qid \<Rightarrow> 'j jobsys \<Rightarrow> bool" where
  "order_inv q s \<longleftrightarrow> jq_pushed (js_queues s q) = jq_done (js_queues s q) @
     concat (map (\<lambda>t. unfinished q (js_threads s t)) [0 ..< js_thread_count s]) @
     jq_jobs (js_queues s q)"

definition jq_inv :: "'j jobsys \<Rightarrow> bool" where
  "jq_inv s \<longleftrightarrow> (\<forall>t < js_thread_count s. thread_ok (js_threads s t)) \<and>
     (\<forall>q. count_inv q s \<and> token_inv q s \<and> order_inv q s)"

section \<open>Lemmas\<close>

lemma over_threads_update:
  assumes "t < js_thread_count s"
  shows "over_threads f (s\<lparr>js_threads := (js_threads s)(t := th)\<rparr>) + f (js_threads s t)
       = over_threads f s + f th"
proof -
  have "over_threads f s = f (js_threads s t) + (\<Sum>u \<in> {..< js_thread_count s} - {t}. f (js_threads s u))"
    unfolding over_threads_def using assms by (intro sum.remove) simp_all
  moreover have "over_threads f (s\<lparr>js_threads := (js_threads s)(t := th)\<rparr>)
      = f th + (\<Sum>u \<in> {..< js_thread_count s} - {t}. f (js_threads s u))"
    unfolding over_threads_def using assms
    by (subst sum.remove [of _ t]) (auto intro!: sum.cong)
  ultimately show ?thesis by simp
qed

lemma over_threads_cong [simp]:
  "over_threads f (s\<lparr>js_queues := Q\<rparr>) = over_threads f s"
  "over_threads f (s\<lparr>js_GGlobalQueue := g\<rparr>) = over_threads f s"
  by (simp_all add: over_threads_def)

lemma over_threads_member: "t < js_thread_count s \<Longrightarrow> f (js_threads s t) \<le> over_threads f s"
  unfolding over_threads_def by (intro member_le_sum) simp_all

lemma over_threads_two:
  assumes "t < js_thread_count s" "u < js_thread_count s" "t \<noteq> u"
  shows "f (js_threads s t) + f (js_threads s u) \<le> over_threads f s"
proof -
  have "(\<Sum>x \<in> {t, u}. f (js_threads s x)) \<le> over_threads f s"
    unfolding over_threads_def using assms by (intro sum_mono2) auto
  with assms(3) show ?thesis by simp
qed

text \<open>The thread-local facts about one step of thread \<open>t\<close> give the whole invariant, in a form
  where only the acting thread and the touched queue occur.\<close>

lemma concat_Nils: "\<forall>u \<in> set us. g u = [] \<Longrightarrow> concat (map g us) = []"
  by (induction us) simp_all

lemma concat_update:
  assumes "t < n"
    and "\<And>u. u < n \<Longrightarrow> u \<noteq> t \<Longrightarrow> f (th u) = []"
  shows "concat (map (\<lambda>u. f ((th(t := x)) u)) [0 ..< n]) = f x"
proof -
  let ?g = "\<lambda>u. f ((th(t := x)) u)"
  have split: "[0 ..< n] = [0 ..< t] @ t # [Suc t ..< n]"
    using assms(1) by (metis le0 less_imp_le_nat upt_add_eq_append upt_conv_Cons le_add_diff_inverse)
  have "concat (map ?g [0 ..< t]) = []" "concat (map ?g [Suc t ..< n]) = []"
    using assms by (intro concat_Nils; simp)+
  then show ?thesis by (simp only: split map_append concat_append list.map concat.simps) simp
qed

lemma update_same:
  assumes "f x = f (th t)"
  shows "(\<lambda>u. f (if u = t then x else th u)) = (\<lambda>u. f (th u))"
  using assms by (intro ext) simp

lemma unfinished_executing: "\<not> executing q th \<Longrightarrow> unfinished q th = []"
  by (auto simp: executing_def unfinished_def split: option.splits exec_pc.splits)

lemma token_le_1: "token_inv q s \<Longrightarrow> over_threads (tokens q) s \<le> 1"
  by (cases "jq_jobCount (js_queues s q) > 0") (simp_all add: token_inv_def)

lemma other_not_executing:
  assumes "token_inv q s" "t < js_thread_count s" "executing q (js_threads s t)"
    "u < js_thread_count s" "u \<noteq> t"
  shows "\<not> executing q (js_threads s u)"
  using token_le_1 [OF assms(1)] over_threads_two [OF assms(2,4), of "tokens q"] assms(3,5)
  by (auto simp: tokens_def)

lemma concat_executing:
  assumes "token_inv q s" "t < js_thread_count s" "executing q (js_threads s t)"
  shows "concat (map (\<lambda>u. unfinished q (((js_threads s)(t := x)) u)) [0 ..< js_thread_count s])
       = unfinished q x"
  using assms other_not_executing [OF assms] unfinished_executing
  by (intro concat_update) auto

lemma jq_inv_init: "jq_inv (js_init n)"
proof -
  have "concat (map (\<lambda>t. []) [0 ..< n]) = []" by simp
  then show ?thesis
    by (simp add: jq_inv_def js_init_def thread_ok_def count_inv_def token_inv_def order_inv_def
      over_threads_def unstored_def taken_def tokens_def executing_def scheduling_def unfinished_def
      del: concat_map_singleton)
qed

text \<open>A step of thread \<open>t\<close> that replaces its state, one queue and the global queue keeps the
  invariant when the changes balance.\<close>

lemma jq_inv_balance:
  fixes s :: "'j jobsys"
  assumes inv: "jq_inv s" and t: "t < js_thread_count s"
    and s': "s' = s\<lparr>js_threads := (js_threads s)(t := th'), js_queues := (js_queues s)(q := jq'),
                    js_GGlobalQueue := g'\<rparr>"
    and ok: "thread_ok th'"
    and frame: "\<And>p. p \<noteq> q \<Longrightarrow> unstored p th' = unstored p (js_threads s t) \<and>
        taken p th' = taken p (js_threads s t) \<and> tokens p th' = tokens p (js_threads s t) \<and>
        unfinished p th' = unfinished p (js_threads s t) \<and>
        count_list g' p = count_list (js_GGlobalQueue s) p"
    and cnt: "jq_jobCount jq' + int (unstored q (js_threads s t) + taken q (js_threads s t)
          + length (jq_jobs (js_queues s q)))
        = jq_jobCount (js_queues s q) + int (unstored q th' + taken q th' + length (jq_jobs jq'))"
    and tok: "count_list g' q + tokens q th' + of_bool (jq_jobCount (js_queues s q) > 0)
        = count_list (js_GGlobalQueue s) q + tokens q (js_threads s t) + of_bool (jq_jobCount jq' > 0)"
    and ord: "order_inv q s'"
  shows "jq_inv s'"
proof -
  have upd: "over_threads f s' + f (js_threads s t) = over_threads f s + f th'" for f
    using over_threads_update [OF t, of f th'] by (simp add: s' over_threads_def)
  have "count_inv p s' \<and> token_inv p s' \<and> order_inv p s'" for p
  proof (cases "p = q")
    case True
    have "count_inv q s" "token_inv q s" using inv by (simp_all add: jq_inv_def)
    then have "count_inv q s'" "token_inv q s'"
      using cnt tok upd [of "unstored q"] upd [of "taken q"] upd [of "tokens q"]
      unfolding count_inv_def token_inv_def by (simp_all add: s')
    with True ord show ?thesis by simp
  next
    case False
    have "count_inv p s" "token_inv p s" "order_inv p s" using inv by (simp_all add: jq_inv_def)
    then have "count_inv p s'" "token_inv p s'"
      using False frame [OF False] upd [of "unstored p"] upd [of "taken p"] upd [of "tokens p"]
      unfolding count_inv_def token_inv_def by (simp_all add: s')
    moreover have "order_inv p s'"
      using \<open>order_inv p s\<close> False frame [OF False] unfolding order_inv_def s'
      by (simp add: update_same [of "unfinished p" th' "js_threads s" t])
    ultimately show ?thesis by simp
  qed
  moreover have "\<forall>u < js_thread_count s'. thread_ok (js_threads s' u)"
    using inv ok by (auto simp: s' jq_inv_def)
  ultimately show ?thesis by (simp add: jq_inv_def)
qed

text \<open>The history is untouched when the queue and the unfinished jobs are.\<close>

lemma order_inv_same:
  assumes "order_inv q s" "unfinished q th' = unfinished q (js_threads s t)"
    and "jq_pushed jq' = jq_pushed (js_queues s q) @ xs" "jq_jobs jq' = jq_jobs (js_queues s q) @ xs"
    and "jq_done jq' = jq_done (js_queues s q)"
  shows "order_inv q (s\<lparr>js_threads := (js_threads s)(t := th'),
     js_queues := (js_queues s)(q := jq'), js_GGlobalQueue := g'\<rparr>)"
  using assms unfolding order_inv_def
  by (simp add: update_same [of "unfinished q" th' "js_threads s" t])

lemma order_inv_executing:
  assumes "order_inv q s" "token_inv q s" "t < js_thread_count s" "executing q (js_threads s t)"
    and "jq_pushed jq' = jq_pushed (js_queues s q)"
    and "jq_done jq' @ unfinished q th' @ jq_jobs jq'
       = jq_done (js_queues s q) @ unfinished q (js_threads s t) @ jq_jobs (js_queues s q)"
  shows "order_inv q (s\<lparr>js_threads := (js_threads s)(t := th'),
     js_queues := (js_queues s)(q := jq'), js_GGlobalQueue := g'\<rparr>)"
proof -
  have "concat (map (\<lambda>u. unfinished q (js_threads s u)) [0 ..< js_thread_count s])
      = unfinished q (js_threads s t)"
    using concat_executing [OF assms(2-4), of "js_threads s t"] by simp
  moreover have "concat (map (\<lambda>u. unfinished q (((js_threads s)(t := th')) u))
      [0 ..< js_thread_count s]) = unfinished q th'"
    by (rule concat_executing [OF assms(2-4)])
  ultimately show ?thesis using assms(1,5,6) unfolding order_inv_def by simp
qed

lemmas thread_defs = unstored_def taken_def tokens_def executing_def scheduling_def
  unfinished_def thread_ok_def

lemma jq_invD:
  assumes "jq_inv s" "t < js_thread_count s"
  shows "thread_ok (js_threads s t)" "count_inv q s" "token_inv q s" "order_inv q s"
  using assms by (simp_all add: jq_inv_def)

text \<open>One lemma per atomic action.\<close>

lemma push_call_inv:
  assumes "jq_inv s" "t < js_thread_count s" "push_call q job po t s = Some s'"
  shows "jq_inv s'"
proof -
  define th' where "th' = (js_threads s t)\<lparr>th_push := Some (Push_count q job po)\<rparr>"
  have idle: "th_push (js_threads s t) = None"
    and run: "case th_exec (js_threads s t) of None \<Rightarrow> True | Some (Exec_run _ (_ # _) _) \<Rightarrow> True
        | _ \<Rightarrow> False"
    and s': "s' = s\<lparr>js_threads := (js_threads s)(t := th'), js_queues := (js_queues s)(q := js_queues s q),
        js_GGlobalQueue := js_GGlobalQueue s\<rparr>"
    using assms(3) by (simp_all add: push_call_def th'_def Let_def split: if_splits)
  note D = jq_invD [OF assms(1,2)]
  show ?thesis
  proof (rule jq_inv_balance [OF assms(1,2) s'])
    show "thread_ok th'"
      using D(1) run by (auto simp: thread_ok_def th'_def split: option.splits exec_pc.splits)
    show "order_inv q s'"
      unfolding s' by (rule order_inv_same [where xs = "[]"])
        (use D(4) in \<open>simp_all add: th'_def unfinished_def\<close>)
  qed (use idle in \<open>simp_all add: th'_def unstored_def taken_def tokens_def executing_def
      scheduling_def unfinished_def\<close>)
qed

lemma push_count_inv:
  assumes "jq_inv s" "t < js_thread_count s" "push_count t s = Some s'"
  shows "jq_inv s'"
proof -
  obtain q job po where pc: "th_push (js_threads s t) = Some (Push_count q job po)"
    using assms(3) by (auto simp: push_count_def Let_def split: option.splits push_pc.splits)
  define jq where "jq = js_queues s q"
  define th' where
    "th' = (js_threads s t)\<lparr>th_push := Some (Push_store q job po (jq_jobCount jq))\<rparr>"
  define jq' where "jq' = jq\<lparr>jq_jobCount := jq_jobCount jq + 1\<rparr>"
  have s': "s' = s\<lparr>js_threads := (js_threads s)(t := th'), js_queues := (js_queues s)(q := jq'),
        js_GGlobalQueue := js_GGlobalQueue s\<rparr>"
    using assms(3) pc by (auto simp: push_count_def th'_def jq'_def jq_def Let_def)
  note D = jq_invD [OF assms(1,2)]
  have nonneg: "0 \<le> jq_jobCount jq" using D(2) [of q] by (simp add: count_inv_def jq_def)
  show ?thesis
  proof (rule jq_inv_balance [OF assms(1,2) s'])
    show "thread_ok th'"
      using D(1) pc by (auto simp: thread_ok_def th'_def split: option.splits exec_pc.splits)
    show "order_inv q s'"
      unfolding s' by (rule order_inv_same [where xs = "[]"])
        (use D(4) in \<open>simp_all add: th'_def jq'_def jq_def unfinished_def\<close>)
    show "count_list (js_GGlobalQueue s) q + tokens q th' + of_bool (jq_jobCount (js_queues s q) > 0)
        = count_list (js_GGlobalQueue s) q + tokens q (js_threads s t) + of_bool (jq_jobCount jq' > 0)"
      using nonneg pc
      by (cases "jq_jobCount jq = 0")
        (simp_all add: th'_def jq'_def jq_def tokens_def executing_def scheduling_def)
  qed (use pc in \<open>simp_all add: th'_def jq'_def jq_def unstored_def taken_def tokens_def
      executing_def scheduling_def unfinished_def\<close>)
qed

lemma push_store_inv:
  assumes "jq_inv s" "t < js_thread_count s" "push_store t s = Some s'"
  shows "jq_inv s'"
proof -
  obtain q job po prev where pc: "th_push (js_threads s t) = Some (Push_store q job po prev)"
    using assms(3) by (auto simp: push_store_def Let_def split: option.splits push_pc.splits)
  define jq where "jq = js_queues s q"
  define th' where "th' = (js_threads s t)\<lparr>th_push := Some (Push_finish q po prev)\<rparr>"
  define jq' where "jq' = jq\<lparr>jq_jobs := jq_jobs jq @ [job], jq_pushed := jq_pushed jq @ [job]\<rparr>"
  have s': "s' = s\<lparr>js_threads := (js_threads s)(t := th'), js_queues := (js_queues s)(q := jq'),
        js_GGlobalQueue := js_GGlobalQueue s\<rparr>"
    using assms(3) pc by (auto simp: push_store_def lq_push_def th'_def jq'_def jq_def Let_def)
  note D = jq_invD [OF assms(1,2)]
  show ?thesis
  proof (rule jq_inv_balance [OF assms(1,2) s'])
    show "thread_ok th'"
      using D(1) pc by (auto simp: thread_ok_def th'_def split: option.splits exec_pc.splits)
    show "order_inv q s'"
      unfolding s' by (rule order_inv_same [where xs = "[job]"])
        (use D(4) in \<open>simp_all add: th'_def jq'_def jq_def unfinished_def\<close>)
  qed (use pc in \<open>simp_all add: th'_def jq'_def jq_def unstored_def taken_def tokens_def
      executing_def scheduling_def unfinished_def\<close>)
qed

lemma push_finish_inv:
  assumes "jq_inv s" "t < js_thread_count s" "push_finish t s = Some s'"
  shows "jq_inv s'"
proof -
  obtain q po prev where pc: "th_push (js_threads s t) = Some (Push_finish q po prev)"
    using assms(3) by (auto simp: push_finish_def Let_def split: option.splits push_pc.splits)
  define inline where "inline = (prev = 0 \<and> th_LCurrentJobQueue (js_threads s t) = None \<and> \<not> po)"
  define th' where "th' = (if inline then (js_threads s t)\<lparr>th_push := None, th_exec := Some (Exec_pop q)\<rparr>
     else (js_threads s t)\<lparr>th_push := None\<rparr>)"
  define g' where "g' = js_GGlobalQueue s @ (if prev = 0 \<and> \<not> inline then [q] else [])"
  have s': "s' = s\<lparr>js_threads := (js_threads s)(t := th'),
        js_queues := (js_queues s)(q := js_queues s q), js_GGlobalQueue := g'\<rparr>"
    using assms(3) pc
    by (auto simp: push_finish_def lq_push_def th'_def g'_def inline_def Let_def split: if_splits)
  note D = jq_invD [OF assms(1,2)]
  have idle: "th_exec (js_threads s t) = None" if inline
    using D(1) pc that by (auto simp: thread_ok_def inline_def split: option.splits exec_pc.splits)
  show ?thesis
  proof (rule jq_inv_balance [OF assms(1,2) s'])
    show "thread_ok th'"
      using D(1) pc by (auto simp: thread_ok_def th'_def split: option.splits exec_pc.splits)
    show "order_inv q s'"
      unfolding s' by (rule order_inv_same [where xs = "[]"])
        (use D(4) idle in \<open>simp_all add: th'_def unfinished_def\<close>)
  qed (use pc idle in \<open>auto simp: th'_def g'_def inline_def unstored_def taken_def tokens_def
      executing_def scheduling_def unfinished_def\<close>)
qed

lemma exec_pop_inv:
  assumes "jq_inv s" "t < js_thread_count s" "exec_pop t s = Some s'"
  shows "jq_inv s'"
proof -
  obtain q where pc: "th_exec (js_threads s t) = Some (Exec_pop q)"
    using assms(3) by (auto simp: exec_pop_def Let_def split: option.splits exec_pc.splits)
  define jq where "jq = js_queues s q"
  define th' where "th' = (js_threads s t)\<lparr>th_LCurrentJobQueue := Some q,
     th_exec := Some (Exec_run q (jq_jobs jq) (length (jq_jobs jq)))\<rparr>"
  define jq' where "jq' = jq\<lparr>jq_jobs := []\<rparr>"
  have s': "s' = s\<lparr>js_threads := (js_threads s)(t := th'), js_queues := (js_queues s)(q := jq'),
        js_GGlobalQueue := js_GGlobalQueue s\<rparr>"
    using assms(3) pc by (auto simp: exec_pop_def th'_def jq'_def jq_def Let_def)
  note D = jq_invD [OF assms(1,2)]
  have ex: "executing q (js_threads s t)" using pc by (simp add: executing_def)
  show ?thesis
  proof (rule jq_inv_balance [OF assms(1,2) s'])
    show "order_inv q s'"
      unfolding s' by (rule order_inv_executing [OF D(4) D(3) assms(2) ex])
        (use pc in \<open>simp_all add: th'_def jq'_def jq_def unfinished_def\<close>)
  qed (use pc D(1) in \<open>simp_all add: th'_def jq'_def jq_def unstored_def taken_def tokens_def
      executing_def scheduling_def unfinished_def thread_ok_def\<close>)
qed

lemma exec_job_inv:
  assumes "jq_inv s" "t < js_thread_count s" "exec_job t s = Some s'"
  shows "jq_inv s'"
proof -
  obtain q job jobs n where pc: "th_exec (js_threads s t) = Some (Exec_run q (job # jobs) n)"
    and idle: "th_push (js_threads s t) = None"
    using assms(3) by (auto simp: exec_job_def Let_def split: option.splits exec_pc.splits list.splits if_splits)
  define jq where "jq = js_queues s q"
  define th' where "th' = (js_threads s t)\<lparr>th_exec := Some (Exec_run q jobs n)\<rparr>"
  define jq' where "jq' = jq\<lparr>jq_done := jq_done jq @ [job]\<rparr>"
  have s': "s' = s\<lparr>js_threads := (js_threads s)(t := th'), js_queues := (js_queues s)(q := jq'),
        js_GGlobalQueue := js_GGlobalQueue s\<rparr>"
    using assms(3) pc idle by (auto simp: exec_job_def th'_def jq'_def jq_def Let_def)
  note D = jq_invD [OF assms(1,2)]
  have ex: "executing q (js_threads s t)" using pc by (simp add: executing_def)
  show ?thesis
  proof (rule jq_inv_balance [OF assms(1,2) s'])
    show "order_inv q s'"
      unfolding s' by (rule order_inv_executing [OF D(4) D(3) assms(2) ex])
        (use pc in \<open>simp_all add: th'_def jq'_def jq_def unfinished_def\<close>)
  qed (use pc idle D(1) in \<open>simp_all add: th'_def jq'_def jq_def unstored_def taken_def tokens_def
      executing_def scheduling_def unfinished_def thread_ok_def\<close>)
qed

lemma executing_count_pos:
  assumes "jq_inv s" "t < js_thread_count s" "executing q (js_threads s t)"
  shows "0 < jq_jobCount (js_queues s q)"
proof (rule ccontr)
  assume "\<not> 0 < jq_jobCount (js_queues s q)"
  with jq_invD(3) [OF assms(1,2), of q] have "over_threads (tokens q) s = 0"
    by (simp add: token_inv_def)
  with over_threads_member [OF assms(2), of "tokens q"] assms(3) show False
    by (simp add: tokens_def)
qed

lemma exec_sub_inv:
  assumes "jq_inv s" "t < js_thread_count s" "exec_sub t s = Some s'"
  shows "jq_inv s'"
proof -
  obtain q n where pc: "th_exec (js_threads s t) = Some (Exec_run q [] n)"
    using assms(3) by (auto simp: exec_sub_def Let_def split: option.splits exec_pc.splits list.splits)
  define jq where "jq = js_queues s q"
  define th' where "th' = (if jq_jobCount jq = int n
     then (js_threads s t)\<lparr>th_LCurrentJobQueue := None, th_exec := None\<rparr>
     else (js_threads s t)\<lparr>th_exec := Some (Exec_clock q)\<rparr>)"
  define jq' where "jq' = jq\<lparr>jq_jobCount := jq_jobCount jq - int n\<rparr>"
  have s': "s' = s\<lparr>js_threads := (js_threads s)(t := th'), js_queues := (js_queues s)(q := jq'),
        js_GGlobalQueue := js_GGlobalQueue s\<rparr>"
    using assms(3) pc by (auto simp: exec_sub_def th'_def jq'_def jq_def Let_def)
  note D = jq_invD [OF assms(1,2)]
  have idle: "th_push (js_threads s t) = None" using D(1) pc by (simp add: thread_ok_def)
  have ex: "executing q (js_threads s t)" using pc by (simp add: executing_def)
  have "int n \<le> jq_jobCount jq"
    using D(2) [of q] over_threads_member [OF assms(2), of "taken q"] pc
    by (simp add: count_inv_def jq_def taken_def)
  moreover have "0 < jq_jobCount jq"
    using executing_count_pos [OF assms(1,2) ex] by (simp add: jq_def)
  ultimately have tok: "(jq_jobCount jq = int n) = (\<not> 0 < jq_jobCount jq')" "0 < jq_jobCount jq"
    by (auto simp: jq'_def)
  show ?thesis
  proof (rule jq_inv_balance [OF assms(1,2) s'])
    show "order_inv q s'"
      unfolding s' by (rule order_inv_executing [OF D(4) D(3) assms(2) ex])
        (use pc in \<open>simp_all add: th'_def jq'_def jq_def unfinished_def\<close>)
    show "count_list (js_GGlobalQueue s) q + tokens q th' + of_bool (jq_jobCount (js_queues s q) > 0)
        = count_list (js_GGlobalQueue s) q + tokens q (js_threads s t) + of_bool (jq_jobCount jq' > 0)"
      using tok pc idle
      by (auto simp: th'_def jq_def tokens_def executing_def scheduling_def)
  qed (use pc idle D(1) in \<open>auto simp: th'_def jq'_def jq_def unstored_def taken_def tokens_def
      executing_def scheduling_def unfinished_def thread_ok_def\<close>)
qed

lemma exec_clock_inv:
  assumes "jq_inv s" "t < js_thread_count s" "exec_clock up t s = Some s'"
  shows "jq_inv s'"
proof -
  obtain q where pc: "th_exec (js_threads s t) = Some (Exec_clock q)"
    using assms(3) by (auto simp: exec_clock_def Let_def split: option.splits exec_pc.splits)
  define th' where "th' = (if up then (js_threads s t)\<lparr>th_LCurrentJobQueue := None, th_exec := None\<rparr>
     else (js_threads s t)\<lparr>th_exec := Some (Exec_pop q)\<rparr>)"
  define g' where "g' = js_GGlobalQueue s @ (if up then [q] else [])"
  have s': "s' = s\<lparr>js_threads := (js_threads s)(t := th'),
        js_queues := (js_queues s)(q := js_queues s q), js_GGlobalQueue := g'\<rparr>"
    using assms(3) pc by (auto simp: exec_clock_def lq_push_def th'_def g'_def Let_def)
  note D = jq_invD [OF assms(1,2)]
  show ?thesis
  proof (rule jq_inv_balance [OF assms(1,2) s'])
    show "order_inv q s'"
      unfolding s' by (rule order_inv_same [where xs = "[]"])
        (use D(4) pc in \<open>simp_all add: th'_def unfinished_def\<close>)
  qed (use pc D(1) in \<open>auto simp: th'_def g'_def unstored_def taken_def tokens_def
      executing_def scheduling_def unfinished_def thread_ok_def\<close>)
qed

lemma worker_pop_inv:
  assumes "jq_inv s" "t < js_thread_count s" "worker_pop t s = Some s'"
  shows "jq_inv s'"
proof -
  obtain q g' where idle: "th_push (js_threads s t) = None" "th_exec (js_threads s t) = None"
    and g: "js_GGlobalQueue s = q # g'"
    using assms(3)
    by (auto simp: worker_pop_def lq_pop_def Let_def split: if_splits list.splits)
  define th' where "th' = (js_threads s t)\<lparr>th_exec := Some (Exec_pop q)\<rparr>"
  have s': "s' = s\<lparr>js_threads := (js_threads s)(t := th'),
        js_queues := (js_queues s)(q := js_queues s q), js_GGlobalQueue := g'\<rparr>"
    using assms(3) idle g by (auto simp: worker_pop_def lq_pop_def th'_def Let_def)
  note D = jq_invD [OF assms(1,2)]
  show ?thesis
  proof (rule jq_inv_balance [OF assms(1,2) s'])
    show "order_inv q s'"
      unfolding s' by (rule order_inv_same [where xs = "[]"])
        (use D(4) idle in \<open>simp_all add: th'_def unfinished_def\<close>)
  qed (use idle g in \<open>auto simp: th'_def unstored_def taken_def tokens_def
      executing_def scheduling_def unfinished_def thread_ok_def\<close>)
qed

lemmas action_inv = push_call_inv push_count_inv push_store_inv push_finish_inv exec_pop_inv
  exec_job_inv exec_sub_inv exec_clock_inv worker_pop_inv

lemma jq_step_inv: "jq_step s s' \<Longrightarrow> jq_inv s \<Longrightarrow> jq_inv s'"
  by (erule jq_stepE) (blast intro: action_inv)+

lemma do_action_step: "t < js_thread_count s \<Longrightarrow> do_action a t s = Some s' \<Longrightarrow> jq_step s s'"
  by (cases a) (auto intro: jq_step.intros)

lemma do_action_count: "do_action a t s = Some s' \<Longrightarrow> js_thread_count s' = js_thread_count s"
  by (cases a)
    (auto simp: push_call_def push_count_def push_store_def push_finish_def exec_pop_def exec_job_def
      exec_sub_def exec_clock_def worker_pop_def Let_def
      split: if_splits option.splits push_pc.splits exec_pc.splits list.splits prod.splits)

lemma step_do_action:
  "jq_step s s' \<Longrightarrow> \<exists>t a. t < js_thread_count s \<and> do_action a t s = Some s'"
  by (erule jq_stepE) (metis do_action.simps)+

lemma jq_step_count: "jq_step s s' \<Longrightarrow> js_thread_count s' = js_thread_count s"
  by (auto dest!: step_do_action simp: do_action_count)

lemma reachable_inv: "jq_reachable n s \<Longrightarrow> jq_inv s \<and> js_thread_count s = n"
proof (induction rule: jq_reachable.induct)
  case reach_init
  then show ?case using jq_inv_init by (simp add: js_init_def)
next
  case (reach_step s s')
  then show ?case using jq_step_inv jq_step_count by metis
qed

lemma run_actions_reachable:
  "jq_reachable n s \<Longrightarrow> run_actions acts s = Some s' \<Longrightarrow> jq_reachable n s'"
proof (induction acts arbitrary: s)
  case (Cons ta acts)
  obtain t a where ta: "ta = (t, a)" by fastforce
  with Cons.prems obtain s1 where "do_action a t s = Some s1" "t < js_thread_count s"
    and r: "run_actions acts s1 = Some s'"
    by (auto split: if_splits simp: bind_eq_Some_conv)
  then have "jq_reachable n s1" using Cons.prems(1) do_action_step jq_reachable.reach_step by metis
  then show ?case using r by (rule Cons.IH)
qed simp

lemma run_actions_init:
  "\<not> Option.is_none (run_actions acts (js_init n)) \<Longrightarrow>
   jq_reachable n (the (run_actions acts (js_init n)))"
  using run_actions_reachable [OF jq_reachable.reach_init]
  by (metis Option.is_none_def option.exhaust_sel)

section \<open>Properties\<close>









end
