(* ===== verification/JobTimers.thy ===== *)
theory JobTimers
  imports JobQueues "HOL-Library.Multiset"
begin

text \<open>
  \<^verbatim>\<open>Job/JobTimer.{h,cpp}\<close>: jobs reserved for a later tick.  \<open>std::priority_queue\<close> enters through its
  operations \<open>push\<close>, \<open>top\<close>, \<open>pop\<close> and \<open>size\<close>, which are arguments of the methods; the locale
  \<open>timer_queue\<close> states what the standard promises of them (the order of items with equal ticks is not
  part of it) and the lemmas on \<open>reserve\<close>, \<open>distribute\<close> and \<open>clear\<close> are proved from that alone.  The
  sorted list \<open>tq_push\<close> is an implementation.  \<open>distribute\<close> takes the due items under the lock and
  pushes their jobs after releasing it, so it is two steps; the flag keeps a second thread out.
\<close>

section \<open>Model\<close>

record 'j JobData =
  jd_owner :: qid
  jd_job :: 'j

record 'j TimerItem =
  ti_execute_tick :: uint64
  ti_job_data :: "'j JobData"

record 'q JobTimer =
  jt_items :: 'q
  jt_distributing :: bool

definition reserve ::
  "('j TimerItem \<Rightarrow> 'q \<Rightarrow> 'q) \<Rightarrow> uint64 \<Rightarrow> uint64 \<Rightarrow> qid \<Rightarrow> 'j \<Rightarrow> 'q JobTimer \<Rightarrow> 'q JobTimer" where
  "reserve pq_push tick_count tickAfter owner job jt =
     jt\<lparr>jt_items := pq_push \<lparr>ti_execute_tick = tick_count + tickAfter,
       ti_job_data = \<lparr>jd_owner = owner, jd_job = job\<rparr>\<rparr> (jt_items jt)\<rparr>"

text \<open>The loop that takes the due items; every round pops one, so the size is enough fuel.\<close>

fun take_due ::
  "('q \<Rightarrow> 'j TimerItem) \<Rightarrow> ('q \<Rightarrow> 'q) \<Rightarrow> ('q \<Rightarrow> nat) \<Rightarrow> nat \<Rightarrow> uint64 \<Rightarrow> 'q \<Rightarrow> 'j TimerItem list \<times> 'q" where
  "take_due pq_top pq_pop pq_size 0 now q = ([], q)"
| "take_due pq_top pq_pop pq_size (Suc fuel) now q =
     (if pq_size q = 0 then ([], q)
      else let timerItem = pq_top q in
        if now < ti_execute_tick timerItem then ([], q)
        else let (items, q) = take_due pq_top pq_pop pq_size fuel now (pq_pop q) in (timerItem # items, q))"

text \<open>\<open>None\<close>: another thread is distributing.\<close>

definition distribute_begin ::
  "('q \<Rightarrow> 'j TimerItem) \<Rightarrow> ('q \<Rightarrow> 'q) \<Rightarrow> ('q \<Rightarrow> nat) \<Rightarrow> uint64 \<Rightarrow> 'q JobTimer \<Rightarrow>
   ('j TimerItem list \<times> 'q JobTimer) option" where
  "distribute_begin pq_top pq_pop pq_size now jt =
     (if jt_distributing jt then None
      else let (items, q) = take_due pq_top pq_pop pq_size (pq_size (jt_items jt)) now (jt_items jt) in
        Some (items, jt\<lparr>jt_items := q, jt_distributing := True\<rparr>))"

text \<open>The pushes that follow, in order; \<open>alive\<close> tells whether \<open>lock\<close> gives the owner.\<close>

definition due_pushes :: "(qid \<Rightarrow> bool) \<Rightarrow> 'j TimerItem list \<Rightarrow> (qid \<times> 'j) list" where
  "due_pushes alive items =
     map (\<lambda>item. (jd_owner (ti_job_data item), jd_job (ti_job_data item)))
       (filter (\<lambda>item. alive (jd_owner (ti_job_data item))) items)"

definition distribute_end :: "'q JobTimer \<Rightarrow> 'q JobTimer" where
  "distribute_end jt = jt\<lparr>jt_distributing := False\<rparr>"

fun clear_loop :: "('q \<Rightarrow> 'q) \<Rightarrow> ('q \<Rightarrow> nat) \<Rightarrow> nat \<Rightarrow> 'q \<Rightarrow> 'q" where
  "clear_loop pq_pop pq_size 0 q = q"
| "clear_loop pq_pop pq_size (Suc fuel) q = (if pq_size q = 0 then q else clear_loop pq_pop pq_size fuel (pq_pop q))"

definition clear_items :: "('q \<Rightarrow> 'q) \<Rightarrow> ('q \<Rightarrow> nat) \<Rightarrow> 'q JobTimer \<Rightarrow> 'q JobTimer" where
  "clear_items pq_pop pq_size jt = jt\<lparr>jt_items := clear_loop pq_pop pq_size (pq_size (jt_items jt)) (jt_items jt)\<rparr>"

text \<open>A history of the timer: what other threads do to it, with the clock each of them read.\<close>

datatype 'j timer_op =
    Reserve uint64 uint64 qid 'j
  | Begin uint64
  | End

text \<open>\<open>timer_run\<close> also collects the batches taken by \<open>distribute\<close>.\<close>

fun timer_run ::
  "('j TimerItem \<Rightarrow> 'q \<Rightarrow> 'q) \<Rightarrow> ('q \<Rightarrow> 'j TimerItem) \<Rightarrow> ('q \<Rightarrow> 'q) \<Rightarrow> ('q \<Rightarrow> nat) \<Rightarrow> 'j timer_op list \<Rightarrow>
   'q JobTimer \<Rightarrow> (uint64 \<times> 'j TimerItem list) list \<times> 'q JobTimer" where
  "timer_run pq_push pq_top pq_pop pq_size [] jt = ([], jt)"
| "timer_run pq_push pq_top pq_pop pq_size (Reserve t a owner job # ops) jt =
     timer_run pq_push pq_top pq_pop pq_size ops (reserve pq_push t a owner job jt)"
| "timer_run pq_push pq_top pq_pop pq_size (Begin now # ops) jt =
     (case distribute_begin pq_top pq_pop pq_size now jt of
        None \<Rightarrow> timer_run pq_push pq_top pq_pop pq_size ops jt
      | Some (items, jt) \<Rightarrow>
          let (bs, jt) = timer_run pq_push pq_top pq_pop pq_size ops jt in ((now, items) # bs, jt))"
| "timer_run pq_push pq_top pq_pop pq_size (End # ops) jt = timer_run pq_push pq_top pq_pop pq_size ops (distribute_end jt)"

fun reserved :: "'j timer_op list \<Rightarrow> 'j TimerItem multiset" where
  "reserved [] = {#}"
| "reserved (Reserve t a owner job # ops) =
     add_mset \<lparr>ti_execute_tick = t + a, ti_job_data = \<lparr>jd_owner = owner, jd_job = job\<rparr>\<rparr> (reserved ops)"
| "reserved (_ # ops) = reserved ops"

section \<open>The contract of the priority queue\<close>

locale timer_queue =
  fixes pq_push :: "'j TimerItem \<Rightarrow> 'q \<Rightarrow> 'q"
    and pq_top :: "'q \<Rightarrow> 'j TimerItem"
    and pq_pop :: "'q \<Rightarrow> 'q"
    and pq_size :: "'q \<Rightarrow> nat"
    and items :: "'q \<Rightarrow> 'j TimerItem multiset"
    and ok :: "'q \<Rightarrow> bool"
  assumes ok_push: "ok q \<Longrightarrow> ok (pq_push x q)"
    and items_push: "ok q \<Longrightarrow> items (pq_push x q) = add_mset x (items q)"
    and ok_pop: "ok q \<Longrightarrow> pq_size q \<noteq> 0 \<Longrightarrow> ok (pq_pop q)"
    and items_pop: "ok q \<Longrightarrow> pq_size q \<noteq> 0 \<Longrightarrow> items q = add_mset (pq_top q) (items (pq_pop q))"
    and top_least: "ok q \<Longrightarrow> x \<in># items q \<Longrightarrow> ti_execute_tick (pq_top q) \<le> ti_execute_tick x"
    and size_items: "ok q \<Longrightarrow> pq_size q = size (items q)"
begin

lemma pop_size: "ok q \<Longrightarrow> pq_size q = Suc n \<Longrightarrow> pq_size (pq_pop q) = n"
  using items_pop [of q] ok_pop [of q] by (simp add: size_items)

text \<open>\<open>distribute\<close> takes exactly the items that are due, earliest first.\<close>

lemma take_due_spec:
  assumes "ok q" "pq_size q \<le> fuel" "take_due pq_top pq_pop pq_size fuel now q = (xs, q')"
  shows "ok q' \<and> items q = mset xs + items q' \<and> sorted (map ti_execute_tick xs) \<and>
    (\<forall>x \<in> set xs. ti_execute_tick x \<le> now) \<and> (\<forall>x \<in># items q'. now < ti_execute_tick x)"
  using assms
proof (induction fuel arbitrary: q xs q')
  case 0
  then show ?case by (simp add: size_items)
next
  case (Suc fuel)
  show ?case
  proof (cases "pq_size q = 0")
    case True
    with Suc.prems show ?thesis by (auto simp: size_items)
  next
    case False
    show ?thesis
    proof (cases "now < ti_execute_tick (pq_top q)")
      case True
      with Suc.prems False top_least [of q] show ?thesis by (auto simp: Let_def intro: less_le_trans)
    next
      case due: False
      obtain ys q1 where r: "take_due pq_top pq_pop pq_size fuel now (pq_pop q) = (ys, q1)" by fastforce
      have "pq_size (pq_pop q) \<le> fuel" using pop_size [of q] False Suc.prems(1,2) by (cases "pq_size q") auto
      from Suc.IH [OF ok_pop [OF Suc.prems(1) False] this r]
      have IH: "ok q1" "items (pq_pop q) = mset ys + items q1" "sorted (map ti_execute_tick ys)"
        "\<forall>x \<in> set ys. ti_execute_tick x \<le> now" "\<forall>x \<in># items q1. now < ti_execute_tick x" by simp_all
      have "ti_execute_tick (pq_top q) \<le> ti_execute_tick x" if "x \<in> set ys" for x
        using top_least [OF Suc.prems(1), of x] items_pop [OF Suc.prems(1) False] IH(2) that by simp
      with IH due Suc.prems False r items_pop [OF Suc.prems(1) False] show ?thesis
        by (auto simp: Let_def)
    qed
  qed
qed

lemma clear_loop_empties: "ok q \<Longrightarrow> pq_size q \<le> fuel \<Longrightarrow> items (clear_loop pq_pop pq_size fuel q) = {#}"
proof (induction fuel arbitrary: q)
  case (Suc fuel)
  then show ?case using pop_size [of q] by (cases "pq_size q") (auto simp: size_items ok_pop)
qed (simp add: size_items)

text \<open>Over any history nothing is lost, duplicated or early, and each batch is in order.\<close>

lemma timer_run_spec:
  assumes "ok (jt_items jt)" "timer_run pq_push pq_top pq_pop pq_size ops jt = (bs, jt')"
  shows "ok (jt_items jt') \<and>
    items (jt_items jt) + reserved ops = mset (concat (map snd bs)) + items (jt_items jt') \<and>
    (\<forall>(now, xs) \<in> set bs. sorted (map ti_execute_tick xs) \<and> (\<forall>x \<in> set xs. ti_execute_tick x \<le> now))"
  using assms
proof (induction ops arbitrary: jt bs)
  case (Cons op ops)
  show ?case
  proof (cases op)
    case (Reserve t a owner job)
    with Cons.prems Cons.IH [of "reserve pq_push t a owner job jt" bs] show ?thesis
      by (simp add: reserve_def ok_push items_push)
  next
    case (Begin now)
    show ?thesis
    proof (cases "jt_distributing jt")
      case True
      with Cons Begin show ?thesis by (simp add: distribute_begin_def)
    next
      case False
      obtain xs q where t: "take_due pq_top pq_pop pq_size (pq_size (jt_items jt)) now (jt_items jt) = (xs, q)"
        by fastforce
      let ?jt = "jt\<lparr>jt_items := q, jt_distributing := True\<rparr>"
      obtain bs1 where r: "timer_run pq_push pq_top pq_pop pq_size ops ?jt = (bs1, jt')" "bs = (now, xs) # bs1"
        using Cons.prems(2) Begin False t
        by (auto simp: distribute_begin_def Let_def split: prod.splits)
      note due = take_due_spec [OF Cons.prems(1) order_refl t]
      from Cons.IH [OF _ r(1)] due r(2) Begin show ?thesis
        by (simp add: add.assoc)
    qed
  next
    case End
    with Cons.prems Cons.IH [of "distribute_end jt" bs] show ?thesis by (simp add: distribute_end_def)
  qed
qed simp

lemma distribute_begin_spec:
  assumes "ok (jt_items jt)" "distribute_begin pq_top pq_pop pq_size now jt = Some (xs, jt')"
  shows "mset xs = filter_mset (\<lambda>x. ti_execute_tick x \<le> now) (items (jt_items jt)) \<and>
    items (jt_items jt') = filter_mset (\<lambda>x. now < ti_execute_tick x) (items (jt_items jt)) \<and>
    sorted (map ti_execute_tick xs) \<and> jt_distributing jt'"
proof -
  obtain q where t: "take_due pq_top pq_pop pq_size (pq_size (jt_items jt)) now (jt_items jt) = (xs, q)"
    and jt': "jt' = jt\<lparr>jt_items := q, jt_distributing := True\<rparr>"
    using assms(2) by (auto simp: distribute_begin_def split: if_splits prod.splits)
  note due = take_due_spec [OF assms(1) order_refl t]
  have "filter_mset (\<lambda>x. ti_execute_tick x \<le> now) (items q) = {#}"
    "filter_mset (\<lambda>x. now < ti_execute_tick x) (mset xs) = {#}"
    using due by (auto simp: filter_mset_eq_mempty_iff not_le not_less)
  moreover have "filter_mset (\<lambda>x. ti_execute_tick x \<le> now) (mset xs) = mset xs"
    "filter_mset (\<lambda>x. now < ti_execute_tick x) (items q) = items q"
    using due by (auto simp: filter_mset_eq_conv)
  ultimately show ?thesis using due jt' by simp
qed

end

section \<open>An implementation\<close>

definition tq_push :: "'j TimerItem \<Rightarrow> 'j TimerItem list \<Rightarrow> 'j TimerItem list" where
  "tq_push x q = insort_key ti_execute_tick x q"

definition tq_ok :: "'j TimerItem list \<Rightarrow> bool" where
  "tq_ok q \<longleftrightarrow> sorted (map ti_execute_tick q)"

interpretation tq: timer_queue tq_push hd tl length mset tq_ok
proof
  show "tq_ok q \<Longrightarrow> tq_ok (tq_push x q)" for x :: "'a TimerItem" and q
    by (simp add: tq_ok_def tq_push_def sorted_insort_key)
  show "tq_ok q \<Longrightarrow> length q \<noteq> 0 \<Longrightarrow> tq_ok (tl q)" for q :: "'a TimerItem list"
    by (cases q) (simp_all add: tq_ok_def)
  show "tq_ok q \<Longrightarrow> x \<in># mset q \<Longrightarrow> ti_execute_tick (hd q) \<le> ti_execute_tick x" for x :: "'a TimerItem" and q
    by (cases q) (auto simp: tq_ok_def)
  show "tq_ok q \<Longrightarrow> length q \<noteq> 0 \<Longrightarrow> mset q = add_mset (hd q) (mset (tl q))" for q :: "'a TimerItem list"
    by (cases q) simp_all
qed (simp_all add: tq_push_def)

definition JobTimer_new :: "'j TimerItem list JobTimer" where
  "JobTimer_new = \<lparr>jt_items = [], jt_distributing = False\<rparr>"

section \<open>Properties\<close>

text \<open>C19: Unless another thread is distributing, \<open>JobTimer::distribute\<close> takes exactly the items whose tick
  has been reached, earliest first, and leaves exactly the others.\<close>

theorem timer_takes_due:
  assumes "tq_ok (jt_items jt)" "distribute_begin hd tl length now jt = Some (xs, jt')"
  shows "mset xs = filter_mset (\<lambda>x. ti_execute_tick x \<le> now) (mset (jt_items jt)) \<and>
    mset (jt_items jt') = filter_mset (\<lambda>x. now < ti_execute_tick x) (mset (jt_items jt)) \<and>
    sorted (map ti_execute_tick xs) \<and> jt_distributing jt'"
  using assms by (rule tq.distribute_begin_spec)

theorem timer_takes_due_witness:
  "\<exists>xs jt'. distribute_begin hd tl length 12
      (reserve tq_push 5 4 1 ''late'' (reserve tq_push 10 5 2 ''never'' (reserve tq_push 0 3 3 ''soon'' JobTimer_new)))
     = Some (xs, jt') \<and> mset (map (jd_job \<circ> ti_job_data) xs) = {#''late'', ''soon''#}"
proof -
  let ?jt = "reserve tq_push 5 4 1 ''late'' (reserve tq_push 10 5 2 ''never'' (reserve tq_push 0 3 3 ''soon'' JobTimer_new))"
  have ok: "tq_ok (jt_items ?jt)" by (simp add: reserve_def JobTimer_new_def tq_ok_def tq_push_def)
  obtain xs jt' where d: "distribute_begin hd tl length 12 ?jt = Some (xs, jt')"
    by (cases "distribute_begin hd tl length 12 ?jt")
      (auto simp: distribute_begin_def reserve_def JobTimer_new_def split: prod.splits if_splits)
  have "mset xs = filter_mset (\<lambda>x. ti_execute_tick x \<le> 12) (mset (jt_items ?jt))"
    using timer_takes_due [OF ok d] by simp
  then have "mset (map (jd_job \<circ> ti_job_data) xs) = {#''late'', ''soon''#}"
    by (simp add: reserve_def JobTimer_new_def tq_push_def mset_map)
  with d show ?thesis by blast
qed



end
