(* ===== verification/SessionCore.thy ===== *)
theory SessionCore
  imports RecvBuf PacketFraming SendBuf
begin

text \<open>
  \<^verbatim>\<open>NetWork/Session.{h,cpp}\<close>, \<^verbatim>\<open>NetWork/IocpObject.h\<close>, \<^verbatim>\<open>NetWork/IocpEvent.h\<close> and the dispatch of
  \<^verbatim>\<open>NetWork/IocpCore.cpp\<close>: one connection of the server.  Every method is a function on the
  session's record; the results of \<open>WSARecv\<close>, \<open>WSASend\<close> and \<open>DisconnectEx\<close> are read from an
  environment \<open>io_env\<close> (a method calls each of them at most once), and the virtual
  \<open>on_recv_packet\<close> is an argument.  A failed \<open>ASSERT_CRASH\<close> is \<open>None\<close>.  The record is extensible:
  \<open>GameSession\<close> adds its own fields as the subclass does.  Closures pushed to the logic queue are
  named: \<open>Callback j\<close> for the jobs of \<open>post_logic\<close> and \<open>Cleanup\<close> for the one of
  \<open>process_disconnect\<close>.  Methods are atomic here; the interleaving of the logic jobs is the subject
  of \<open>JobQueues\<close>.
\<close>

section \<open>Outstanding operations of an IOCP object\<close>

definition begin_io :: "uint32 \<Rightarrow> uint32" where
  "begin_io pending = pending + 1"

definition finish_io :: "uint32 \<Rightarrow> uint32 option" where
  "finish_io pending = (if pending > 0 then Some (pending - 1) else None)"

definition wait_for_io :: "uint32 \<Rightarrow> bool" where
  "wait_for_io pending \<longleftrightarrow> pending = 0"

datatype EventType = Ev_connect | Ev_disconnect | Ev_Accept | Ev_Recv | Ev_send

section \<open>State\<close>

text \<open>The result of an overlapped call: success, or \<open>SOCKET_ERROR\<close> with \<open>WSAGetLastError\<close>.\<close>

datatype io_result = IO_OK | IO_ERR int

definition WSA_IO_PENDING :: int where "WSA_IO_PENDING = 997"

definition io_failed :: "io_result \<Rightarrow> bool" where
  "io_failed r = (case r of IO_OK \<Rightarrow> False | IO_ERR e \<Rightarrow> e \<noteq> WSA_IO_PENDING)"

record io_env =
  env_WSARecv :: io_result
  env_WSASend :: io_result
  env_DisconnectEx :: io_result

datatype 'j logic_job = Callback 'j | Cleanup

definition MAX_SEND_QUEUE_SIZE :: nat where "MAX_SEND_QUEUE_SIZE = 1000"

record 'j Session =
  ss_pending_io :: uint32
  ss_shutdown_started :: bool
  ss_was_connected :: bool
  ss_pending_jobs :: uint32
  ss_logic_stopped :: bool
  ss_cleanup_done :: bool
  ss_socket_open :: bool
  ss_is_connect :: bool
  ss_is_disconnect :: bool
  ss_close_after_send :: bool
  ss_logic_queue :: "'j logic_job list"
  ss_account_idx :: uint64
  ss_enter_room_id :: int
  ss_user_name :: wstring
  ss_recv_buffer :: RecvBuffer
  ss_send_queue :: "SendBuffer list"
  ss_is_send_register :: bool
  ss_disconnect_owner :: bool
  ss_recv_owner :: bool
  ss_send_owner :: bool
  ss_send_event :: SendEvent
  ss_last_pong_tick :: uint64
  ss_last_ping_tick :: uint64
  ss_waiting_pong :: bool

text \<open>The constructor; \<open>sock\<close> tells whether \<open>create_socket\<close> succeeded.\<close>

definition Session_new :: "bool \<Rightarrow> 'j Session" where
  "Session_new sock =
     \<lparr>ss_pending_io = 0, ss_shutdown_started = False, ss_was_connected = False, ss_pending_jobs = 0,
      ss_logic_stopped = False, ss_cleanup_done = False, ss_socket_open = sock,
      ss_is_connect = False, ss_is_disconnect = False, ss_close_after_send = False,
      ss_logic_queue = [], ss_account_idx = 0, ss_enter_room_id = - 1, ss_user_name = [],
      ss_recv_buffer = RecvBuffer_new (int BUFFER_SIZE), ss_send_queue = [],
      ss_is_send_register = False, ss_disconnect_owner = False, ss_recv_owner = False,
      ss_send_owner = False, ss_send_event = SendEvent_new, ss_last_pong_tick = 0,
      ss_last_ping_tick = 0, ss_waiting_pong = False\<rparr>"

section \<open>Logic queue and shutdown\<close>

definition queue_logic ::
  "'j logic_job \<Rightarrow> bool \<Rightarrow> ('j, 'x) Session_scheme \<Rightarrow> ('j, 'x) Session_scheme" where
  "queue_logic job cleanup s =
     (if ss_logic_stopped s \<and> \<not> cleanup then s
      else s\<lparr>ss_pending_jobs := ss_pending_jobs s + 1, ss_logic_queue := ss_logic_queue s @ [job]\<rparr>)"

definition post_logic :: "'j \<Rightarrow> ('j, 'x) Session_scheme \<Rightarrow> ('j, 'x) Session_scheme" where
  "post_logic callback s = queue_logic (Callback callback) False s"

text \<open>What a job does after its callback returned.\<close>

definition logic_done :: "('j, 'x) Session_scheme \<Rightarrow> ('j, 'x) Session_scheme option" where
  "logic_done s =
     (if ss_pending_jobs s > 0 then Some (s\<lparr>ss_pending_jobs := ss_pending_jobs s - 1\<rparr>) else None)"

text \<open>The next job leaves the queue to be executed.\<close>

definition logic_pop ::
  "('j, 'x) Session_scheme \<Rightarrow> ('j logic_job \<times> ('j, 'x) Session_scheme) option" where
  "logic_pop s = (case ss_logic_queue s of
     [] \<Rightarrow> None | job # jobs \<Rightarrow> Some (job, s\<lparr>ss_logic_queue := jobs\<rparr>))"

definition process_disconnect :: "('j, 'x) Session_scheme \<Rightarrow> ('j, 'x) Session_scheme" where
  "process_disconnect s =
     (if ss_is_disconnect s then s
      else queue_logic Cleanup True
             (s\<lparr>ss_is_disconnect := True, ss_is_connect := False, ss_is_send_register := False\<rparr>))"

text \<open>The end of the cleanup job: the session forgets its account.\<close>

definition cleanup_fields :: "('j, 'x) Session_scheme \<Rightarrow> ('j, 'x) Session_scheme" where
  "cleanup_fields s = s\<lparr>ss_account_idx := 0, ss_user_name := [], ss_enter_room_id := - 1,
     ss_cleanup_done := True\<rparr>"

definition begin_shutdown :: "('j, 'x) Session_scheme \<Rightarrow> ('j, 'x) Session_scheme" where
  "begin_shutdown s =
     (if ss_shutdown_started s then s
      else process_disconnect (s\<lparr>ss_shutdown_started := True, ss_logic_stopped := True,
             ss_is_connect := False, ss_socket_open := False\<rparr>))"

text \<open>\<open>None\<close> while the caller is still blocked.\<close>

definition wait_for_shutdown :: "('j, 'x) Session_scheme \<Rightarrow> ('j, 'x) Session_scheme option" where
  "wait_for_shutdown s =
     (if wait_for_io (ss_pending_io s) \<and> ss_cleanup_done s \<and> ss_pending_jobs s = 0
      then Some (s\<lparr>ss_send_queue := [], ss_send_event := send_Buffers_clear (ss_send_event s)\<rparr>)
      else None)"

section \<open>Disconnecting\<close>

definition session_finish_io :: "('j, 'x) Session_scheme \<Rightarrow> ('j, 'x) Session_scheme option" where
  "session_finish_io s = map_option (\<lambda>n. s\<lparr>ss_pending_io := n\<rparr>) (finish_io (ss_pending_io s))"

definition register_disconnect ::
  "io_env \<Rightarrow> ('j, 'x) Session_scheme \<Rightarrow> (bool \<times> ('j, 'x) Session_scheme) option" where
  "register_disconnect env s =
     (if ss_shutdown_started s then Some (False, s)
      else let s = s\<lparr>ss_disconnect_owner := True, ss_pending_io := begin_io (ss_pending_io s)\<rparr> in
        if io_failed (env_DisconnectEx env)
        then map_option (Pair False) (session_finish_io (s\<lparr>ss_disconnect_owner := False\<rparr>))
        else Some (True, s))"

definition disconnect ::
  "io_env \<Rightarrow> ('j, 'x) Session_scheme \<Rightarrow> ('j, 'x) Session_scheme option" where
  "disconnect env s =
     (if \<not> ss_is_connect s then Some s
      else map_option (\<lambda>(registered, s). if registered then s else process_disconnect s)
             (register_disconnect env (s\<lparr>ss_is_connect := False\<rparr>)))"

section \<open>Receiving\<close>

definition handle_error ::
  "io_env \<Rightarrow> ('j, 'x) Session_scheme \<Rightarrow> ('j, 'x) Session_scheme option" where
  "handle_error env s = disconnect env s"

definition register_recv ::
  "io_env \<Rightarrow> ('j, 'x) Session_scheme \<Rightarrow> ('j, 'x) Session_scheme option" where
  "register_recv env s =
     (if ss_shutdown_started s \<or> \<not> ss_is_connect s then Some s
      else let s = s\<lparr>ss_recv_owner := True, ss_pending_io := begin_io (ss_pending_io s)\<rparr> in
        if io_failed (env_WSARecv env)
        then Option.bind (session_finish_io (s\<lparr>ss_recv_owner := False\<rparr>)) (handle_error env)
        else Some s)"

definition process_connect ::
  "io_env \<Rightarrow> ('j, 'x) Session_scheme \<Rightarrow> ('j, 'x) Session_scheme option" where
  "process_connect env s =
     register_recv env (s\<lparr>ss_was_connected := True, ss_is_connect := True\<rparr>)"

definition process_recv ::
  "io_env \<Rightarrow> (byte list \<Rightarrow> ('j, 'x) Session_scheme \<Rightarrow> ('j, 'x) Session_scheme) \<Rightarrow> int \<Rightarrow>
   ('j, 'x) Session_scheme \<Rightarrow> ('j, 'x) Session_scheme option" where
  "process_recv env on_recv_packet numOfBytes s =
     (let s = s\<lparr>ss_recv_owner := False\<rparr> in
      if \<not> ss_is_connect s then Some s
      else if numOfBytes = 0 then disconnect env s
      else let (written, rb) = on_write numOfBytes (ss_recv_buffer s) in
        if \<not> written then disconnect env s
        else let s = s\<lparr>ss_recv_buffer := rb\<rparr>;
                 dataSize = data_size rb;
                 (processLen, s) = on_recv on_recv_packet ss_is_connect (rb_data rb) s in
          if processLen < 0 \<or> dataSize < processLen then disconnect env s
          else let (taken, rb) = on_read processLen (ss_recv_buffer s) in
            if \<not> taken then disconnect env s
            else register_recv env (s\<lparr>ss_recv_buffer := clean rb\<rparr>))"

section \<open>Sending\<close>

definition register_send ::
  "io_env \<Rightarrow> ('j, 'x) Session_scheme \<Rightarrow> ('j, 'x) Session_scheme option" where
  "register_send env s =
     (if ss_shutdown_started s then Some s
      else if \<not> ss_is_connect s then Some s
      else
        let s = s\<lparr>ss_send_owner := True\<rparr>;
            s = (if has_pending_data (ss_send_event s) then s
                 else s\<lparr>ss_send_event := fold send_Buffers_push (ss_send_queue s) (ss_send_event s),
                        ss_send_queue := []\<rparr>) in
        if build_wsabufs (ss_send_event s) = [] then
          let s = s\<lparr>ss_send_owner := False, ss_send_event := send_Buffers_clear (ss_send_event s),
                    ss_is_send_register := False\<rparr> in
          if ss_close_after_send s then disconnect env s else Some s
        else
          let s = s\<lparr>ss_pending_io := begin_io (ss_pending_io s)\<rparr> in
          if io_failed (env_WSASend env) then
            Option.bind
              (session_finish_io (s\<lparr>ss_send_owner := False,
                 ss_send_event := send_Buffers_clear (ss_send_event s), ss_is_send_register := False\<rparr>))
              (disconnect env)
          else Some s)"

definition send ::
  "io_env \<Rightarrow> SendBuffer \<Rightarrow> ('j, 'x) Session_scheme \<Rightarrow> ('j, 'x) Session_scheme option" where
  "send env sendBuffer s =
     (if \<not> ss_is_connect s then Some s
      else if length (ss_send_queue s) \<ge> MAX_SEND_QUEUE_SIZE then disconnect env s
      else
        let registerSend = (\<not> ss_is_send_register s);
            s = s\<lparr>ss_send_queue := ss_send_queue s @ [sendBuffer], ss_is_send_register := True\<rparr> in
        if registerSend then register_send env s else Some s)"

definition process_send ::
  "io_env \<Rightarrow> int \<Rightarrow> ('j, 'x) Session_scheme \<Rightarrow> ('j, 'x) Session_scheme option" where
  "process_send env numOfBytes s =
     (let s = s\<lparr>ss_send_owner := False\<rparr> in
      if \<not> ss_is_connect s
      then Some (s\<lparr>ss_send_event := send_Buffers_clear (ss_send_event s)\<rparr>)
      else Option.bind (consume_sent_bytes numOfBytes (ss_send_event s)) (\<lambda>(accepted, ev).
        if \<not> accepted then
          disconnect env (s\<lparr>ss_send_event := send_Buffers_clear ev, ss_is_send_register := False\<rparr>)
        else if has_pending_data ev then register_send env (s\<lparr>ss_send_event := ev\<rparr>)
        else
          let s = s\<lparr>ss_send_event := send_Buffers_clear ev\<rparr> in
          if ss_close_after_send s then disconnect env (s\<lparr>ss_is_send_register := False\<rparr>)
          else if ss_send_queue s = [] then Some (s\<lparr>ss_is_send_register := False\<rparr>)
          else register_send env s))"

text \<open>\<open>notice\<close> is the result of the virtual \<open>make_server_full_notice\<close>.\<close>

definition reject_connection ::
  "io_env \<Rightarrow> SendBuffer option \<Rightarrow> ('j, 'x) Session_scheme \<Rightarrow> ('j, 'x) Session_scheme option" where
  "reject_connection env notice s =
     (if ss_is_connect s then Some s
      else let s = s\<lparr>ss_is_connect := True, ss_was_connected := True, ss_close_after_send := True\<rparr> in
        case notice of None \<Rightarrow> disconnect env s | Some sb \<Rightarrow> send env sb s)"

section \<open>Completions\<close>

definition session_dispatch ::
  "io_env \<Rightarrow> (byte list \<Rightarrow> ('j, 'x) Session_scheme \<Rightarrow> ('j, 'x) Session_scheme) \<Rightarrow> EventType \<Rightarrow> int \<Rightarrow>
   ('j, 'x) Session_scheme \<Rightarrow> ('j, 'x) Session_scheme option" where
  "session_dispatch env on_recv_packet iocpEvent numOfBytes s =
     (case iocpEvent of
        Ev_connect \<Rightarrow> process_connect env s
      | Ev_disconnect \<Rightarrow> Some (process_disconnect (s\<lparr>ss_disconnect_owner := False\<rparr>))
      | Ev_Recv \<Rightarrow> process_recv env on_recv_packet numOfBytes s
      | Ev_send \<Rightarrow> process_send env numOfBytes s
      | Ev_Accept \<Rightarrow> Some s)"

text \<open>Whether the event's owner is set; the server never starts a connect or accept on a session.\<close>

definition get_owner :: "EventType \<Rightarrow> ('j, 'x) Session_scheme \<Rightarrow> bool" where
  "get_owner ev s = (case ev of Ev_disconnect \<Rightarrow> ss_disconnect_owner s | Ev_Recv \<Rightarrow> ss_recv_owner s
     | Ev_send \<Rightarrow> ss_send_owner s | _ \<Rightarrow> False)"

text \<open>\<open>IocpCore::dispatch\<close> for a dequeued completion of one of the session's events: a failed
  operation is dispatched with zero bytes, and the operation is finished after its handler.\<close>

definition iocp_dispatch ::
  "io_env \<Rightarrow> (byte list \<Rightarrow> ('j, 'x) Session_scheme \<Rightarrow> ('j, 'x) Session_scheme) \<Rightarrow> EventType \<Rightarrow> bool \<Rightarrow>
   int \<Rightarrow> ('j, 'x) Session_scheme \<Rightarrow> (bool \<times> ('j, 'x) Session_scheme) option" where
  "iocp_dispatch env on_recv_packet ev result numOfBytes s =
     (let numOfBytes = (if result then numOfBytes else 0) in
      if \<not> get_owner ev s then Some (False, s)
      else Option.bind (session_dispatch env on_recv_packet ev numOfBytes s)
             (\<lambda>s. map_option (Pair True) (session_finish_io s)))"

section \<open>Invariant\<close>

definition owners :: "('j, 'x) Session_scheme \<Rightarrow> nat" where
  "owners s = of_bool (ss_recv_owner s) + of_bool (ss_send_owner s) + of_bool (ss_disconnect_owner s)"

text \<open>\<open>io\<close> completions are being dispatched and \<open>jobs\<close> logic jobs are running.  The counters count
  exactly the outstanding operations and the unfinished jobs; a session that was connected and no
  longer is has been handed to \<open>DisconnectEx\<close> or to the cleanup job; the cleanup job is queued
  exactly once.\<close>

definition sess_base :: "nat \<Rightarrow> nat \<Rightarrow> ('j, 'x) Session_scheme \<Rightarrow> bool" where
  "sess_base io jobs s \<longleftrightarrow>
     rb_inv (ss_recv_buffer s) \<and> rb_Buffer_size (ss_recv_buffer s) = int BUFFER_SIZE \<and>
     se_inv (ss_send_event s) \<and> (\<forall>sb \<in> set (ss_send_queue s). sb_ok sb) \<and>
     length (ss_send_queue s) \<le> MAX_SEND_QUEUE_SIZE \<and>
     length (se_bufs (ss_send_event s)) \<le> MAX_SEND_QUEUE_SIZE \<and>
     ss_pending_io s = of_nat (owners s + io) \<and>
     ss_pending_jobs s = of_nat (length (ss_logic_queue s) + jobs) \<and>
     (ss_is_connect s \<longrightarrow> ss_was_connected s \<and> \<not> ss_is_disconnect s \<and> \<not> ss_disconnect_owner s \<and>
        \<not> ss_shutdown_started s) \<and>
     (ss_was_connected s \<and> \<not> ss_is_connect s \<longrightarrow> ss_is_disconnect s \<or> ss_disconnect_owner s) \<and>
     (ss_shutdown_started s \<longrightarrow> ss_is_disconnect s) \<and> ss_logic_stopped s = ss_shutdown_started s \<and>
     count_list (ss_logic_queue s) Cleanup = of_bool (ss_is_disconnect s \<and> \<not> ss_cleanup_done s) \<and>
     (ss_cleanup_done s \<longrightarrow> ss_is_disconnect s)"

text \<open>While connected, exactly one send is outstanding if anything is to be sent and none
  otherwise.\<close>

definition send_ok :: "('j, 'x) Session_scheme \<Rightarrow> bool" where
  "send_ok s \<longleftrightarrow> (ss_is_connect s \<longrightarrow> ss_is_send_register s = ss_send_owner s \<and>
     (if ss_send_owner s then has_pending_data (ss_send_event s)
      else ss_send_queue s = [] \<and> se_bufs (ss_send_event s) = []))"

text \<open>While connected and not being rejected, a receive is outstanding, with room for a maximal
  packet, and what is buffered is an incomplete packet.\<close>

definition recv_ok :: "('j, 'x) Session_scheme \<Rightarrow> bool" where
  "recv_ok s \<longleftrightarrow> (ss_is_connect s \<longrightarrow> ss_close_after_send s \<or>
     ss_recv_owner s \<and> rest_wf (rb_data (ss_recv_buffer s)) \<and>
     int BUFFER_SIZE \<le> free_size (ss_recv_buffer s))"

definition sess_inv :: "nat \<Rightarrow> nat \<Rightarrow> ('j, 'x) Session_scheme \<Rightarrow> bool" where
  "sess_inv io jobs s \<longleftrightarrow> sess_base io jobs s \<and> send_ok s \<and> recv_ok s"

section \<open>Lemmas on disconnecting\<close>

lemma finish_io_of_nat:
  "k < 2 ^ 32 - 1 \<Longrightarrow> finish_io (of_nat (Suc k)) = Some (of_nat k)"
proof -
  assume "k < 2 ^ 32 - 1"
  then have "(of_nat (Suc k) :: uint32) > 0"
    by (simp add: word_less_nat_alt unat_of_nat del: of_nat_Suc)
  then show ?thesis by (simp add: finish_io_def)
qed

lemma owners_le_3: "owners s \<le> 3"
  by (simp add: owners_def)

lemma session_finish_io_of_nat:
  assumes "ss_pending_io s = of_nat (Suc k)" "k < 2 ^ 32 - 1"
  shows "session_finish_io s = Some (s\<lparr>ss_pending_io := of_nat k\<rparr>)"
  unfolding session_finish_io_def assms(1) finish_io_of_nat [OF assms(2)] by simp

lemma base_process_disconnect:
  assumes "sess_base io jobs s"
  shows "sess_base io jobs (process_disconnect (s\<lparr>ss_is_connect := False\<rparr>))"
proof (cases "ss_is_disconnect s")
  case True
  then have "\<not> ss_is_connect s" using assms by (simp add: sess_base_def)
  with True assms show ?thesis by (simp add: process_disconnect_def sess_base_def owners_def)
next
  case False
  with assms show ?thesis
    by (simp add: process_disconnect_def queue_logic_def sess_base_def owners_def)
qed

lemma process_disconnect_frame [simp]:
  "ss_send_event (process_disconnect s) = ss_send_event s"
  "ss_send_queue (process_disconnect s) = ss_send_queue s"
  "ss_recv_buffer (process_disconnect s) = ss_recv_buffer s"
  "ss_recv_owner (process_disconnect s) = ss_recv_owner s"
  "ss_send_owner (process_disconnect s) = ss_send_owner s"
  "ss_disconnect_owner (process_disconnect s) = ss_disconnect_owner s"
  "ss_shutdown_started (process_disconnect s) = ss_shutdown_started s"
  "ss_was_connected (process_disconnect s) = ss_was_connected s"
  "ss_pending_io (process_disconnect s) = ss_pending_io s"
  "ss_is_disconnect (process_disconnect s)"
  "ss_cleanup_done (process_disconnect s) = ss_cleanup_done s"
  "ss_account_idx (process_disconnect s) = ss_account_idx s"
  "ss_enter_room_id (process_disconnect s) = ss_enter_room_id s"
  "ss_user_name (process_disconnect s) = ss_user_name s"
  "ss_close_after_send (process_disconnect s) = ss_close_after_send s"
  by (simp_all add: process_disconnect_def queue_logic_def)

text \<open>\<open>disconnect\<close> in closed form: it never fails an assertion, and the session is not connected
  afterwards.\<close>

lemma disconnect_eq:
  assumes "sess_base io jobs s" "io \<le> 1"
  shows "disconnect env s = Some
    (if \<not> ss_is_connect s then s
     else if io_failed (env_DisconnectEx env) then process_disconnect (s\<lparr>ss_is_connect := False\<rparr>)
     else s\<lparr>ss_is_connect := False, ss_disconnect_owner := True, ss_pending_io := ss_pending_io s + 1\<rparr>)"
proof (cases "ss_is_connect s")
  case True
  then have shut: "\<not> ss_shutdown_started s" "\<not> ss_disconnect_owner s"
    and pend: "ss_pending_io s = of_nat (owners s + io)"
    using assms by (simp_all add: sess_base_def)
  have "owners s + io < 2 ^ 32 - 1" using owners_le_3 [of s] assms(2) by simp
  then have "session_finish_io (s\<lparr>ss_is_connect := False, ss_pending_io := ss_pending_io s + 1,
        ss_disconnect_owner := False\<rparr>)
      = Some (s\<lparr>ss_is_connect := False, ss_disconnect_owner := False, ss_pending_io := ss_pending_io s\<rparr>)"
    unfolding pend by (subst session_finish_io_of_nat [of _ "owners s + io"]) simp_all
  also have "s\<lparr>ss_is_connect := False, ss_disconnect_owner := False, ss_pending_io := ss_pending_io s\<rparr>
      = s\<lparr>ss_is_connect := False\<rparr>"
    using shut by (cases s) simp
  finally have fin: "session_finish_io (s\<lparr>ss_is_connect := False, ss_pending_io := ss_pending_io s + 1,
        ss_disconnect_owner := False\<rparr>) = Some (s\<lparr>ss_is_connect := False\<rparr>)" .
  show ?thesis
  proof (cases "io_failed (env_DisconnectEx env)")
    case failed: True
    have "register_disconnect env (s\<lparr>ss_is_connect := False\<rparr>)
        = Some (False, s\<lparr>ss_is_connect := False\<rparr>)"
      using shut failed fin
      by (simp add: register_disconnect_def begin_io_def Let_def)
    with True failed show ?thesis by (simp add: disconnect_def)
  next
    case False
    with True shut show ?thesis
      by (simp add: disconnect_def register_disconnect_def begin_io_def Let_def)
  qed
qed (simp add: disconnect_def)

lemma disconnect_base:
  assumes "sess_base io jobs s" "io \<le> 1" "disconnect env s = Some s'"
  shows "sess_base io jobs s' \<and> \<not> ss_is_connect s'"
proof (cases "ss_is_connect s")
  case True
  show ?thesis
  proof (cases "io_failed (env_DisconnectEx env)")
    case failed: True
    have "sess_base io jobs (process_disconnect (s\<lparr>ss_is_connect := False\<rparr>))"
      using base_process_disconnect assms(1) .
    moreover have "\<not> ss_is_connect (process_disconnect (s\<lparr>ss_is_connect := False\<rparr>))"
      by (simp add: process_disconnect_def queue_logic_def)
    ultimately show ?thesis
      using assms(3) True failed unfolding disconnect_eq [OF assms(1,2)] by auto
  next
    case False
    then have "s' = s\<lparr>ss_is_connect := False, ss_disconnect_owner := True,
        ss_pending_io := ss_pending_io s + 1\<rparr>"
      using assms(3) True unfolding disconnect_eq [OF assms(1,2)] by simp
    moreover have "\<not> ss_cleanup_done s" "\<not> ss_disconnect_owner s"
      using True assms(1) by (auto simp: sess_base_def)
    ultimately show ?thesis using True assms(1) by (simp add: sess_base_def owners_def)
  qed
next
  case False
  then show ?thesis using assms unfolding disconnect_eq [OF assms(1,2)] by simp
qed

lemma disconnect_total:
  assumes "sess_base io jobs s" "io \<le> 1"
  obtains s' where "disconnect env s = Some s'" "sess_base io jobs s'" "\<not> ss_is_connect s'"
  using disconnect_eq [OF assms] disconnect_base [OF assms] by blast

lemma not_connected_ok: "\<not> ss_is_connect s \<Longrightarrow> send_ok s \<and> recv_ok s"
  by (simp add: send_ok_def recv_ok_def)

lemma disconnect_inv:
  assumes "sess_base io jobs s" "io \<le> 1"
  shows "\<exists>s'. disconnect env s = Some s' \<and> sess_inv io jobs s' \<and> \<not> ss_is_connect s'"
  using disconnect_total [OF assms] not_connected_ok unfolding sess_inv_def by metis

section \<open>Lemmas on sending\<close>

text \<open>The bytes accepted from the callers of \<open>send\<close> and not yet confirmed.\<close>

definition send_stream :: "('j, 'x) Session_scheme \<Rightarrow> byte list" where
  "send_stream s = se_pending (ss_send_event s) @ concat (map sb_data (ss_send_queue s))"

lemma se_bufs_push_all: "se_bufs (fold send_Buffers_push q ev) = se_bufs ev @ q"
  by (induction q arbitrary: ev) (simp_all add: send_Buffers_push_def)

lemma push_all_pending:
  assumes "se_inv ev" "\<forall>sb \<in> set q. sb_ok sb"
  shows "se_inv (fold send_Buffers_push q ev)"
    and "se_pending (fold send_Buffers_push q ev) = se_pending ev @ concat (map sb_data q)"
  using assms by (induction q arbitrary: ev) (simp_all add: push_pending)

lemma se_pending_bound:
  assumes "sess_base io jobs s"
  shows "length (se_pending (ss_send_event s)) < 2 ^ 64"
proof -
  let ?bufs = "se_bufs (ss_send_event s)"
  have "length (concat (map sb_data xs)) \<le> length xs * 2 ^ 31" if "\<forall>sb \<in> set xs. sb_ok sb" for xs
    using that
  proof (induction xs)
    case (Cons x xs)
    then have "length (sb_data x) \<le> 2 ^ 31" by (simp add: sb_ok_def nat_le_iff)
    with Cons show ?case by simp
  qed simp
  from this [of "drop (se_index (ss_send_event s)) ?bufs"]
  have "length (se_pending (ss_send_event s)) \<le> length ?bufs * 2 ^ 31"
    using assms by (fastforce simp: se_pending_def sess_base_def se_inv_def dest: in_set_dropD)
  also have "\<dots> \<le> 1000 * 2 ^ 31"
    using assms by (simp add: sess_base_def MAX_SEND_QUEUE_SIZE_def)
  finally show ?thesis by simp
qed

text \<open>A failed \<open>WSASend\<close> or \<open>WSARecv\<close> takes back the operation it had begun.\<close>

lemma begin_finish_io:
  assumes "sess_base io jobs s" "io \<le> 1" "ss_pending_io t = begin_io (ss_pending_io s)"
  shows "session_finish_io t = Some (t\<lparr>ss_pending_io := ss_pending_io s\<rparr>)"
proof -
  have "ss_pending_io s = of_nat (owners s + io)" using assms(1) by (simp add: sess_base_def)
  moreover have "owners s + io < 2 ^ 32 - 1" using owners_le_3 [of s] assms(2) by simp
  ultimately show ?thesis
    using assms(3) by (subst session_finish_io_of_nat [of _ "owners s + io"]) (simp_all add: begin_io_def)
qed

lemma base_clear_send:
  assumes "sess_base io jobs s" "\<not> ss_send_owner s"
  shows "sess_base io jobs (s\<lparr>ss_send_queue := q, ss_send_owner := False,
     ss_send_event := send_Buffers_clear ev, ss_is_send_register := r\<rparr>) \<longleftrightarrow>
     (\<forall>sb \<in> set q. sb_ok sb) \<and> length q \<le> MAX_SEND_QUEUE_SIZE"
  using assms by (auto simp: sess_base_def owners_def send_Buffers_clear_def se_inv_def)

lemma register_send_eq:
  assumes base: "sess_base io jobs s" and io: "io \<le> 1" and own: "\<not> ss_send_owner s"
    and conn: "ss_is_connect s"
  defines "ev \<equiv> (if has_pending_data (ss_send_event s) then ss_send_event s
       else fold send_Buffers_push (ss_send_queue s) (ss_send_event s))"
    and "q \<equiv> (if has_pending_data (ss_send_event s) then ss_send_queue s else [])"
  shows "register_send env s =
    (let cleared = s\<lparr>ss_send_queue := q, ss_send_owner := False,
                     ss_send_event := send_Buffers_clear ev, ss_is_send_register := False\<rparr> in
     if \<not> has_pending_data ev then if ss_close_after_send s then disconnect env cleared else Some cleared
     else if io_failed (env_WSASend env) then disconnect env cleared
     else Some (s\<lparr>ss_send_owner := True, ss_send_event := ev, ss_send_queue := q,
                  ss_pending_io := ss_pending_io s + 1\<rparr>))"
proof -
  have shut: "\<not> ss_shutdown_started s" using base conn by (simp add: sess_base_def)
  define t where "t = s\<lparr>ss_send_owner := True, ss_send_event := ev, ss_send_queue := q\<rparr>"
  have "session_finish_io (t\<lparr>ss_pending_io := begin_io (ss_pending_io s), ss_send_owner := False,
      ss_send_event := send_Buffers_clear ev, ss_is_send_register := False\<rparr>)
    = Some (s\<lparr>ss_send_queue := q, ss_send_owner := False,
                     ss_send_event := send_Buffers_clear ev, ss_is_send_register := False\<rparr>)"
    by (subst begin_finish_io [OF base io]) (simp_all add: t_def)
  note fin = this [unfolded t_def]
  show ?thesis
  proof (cases "has_pending_data (ss_send_event s)")
    case True
    then have "ev = ss_send_event s" "q = ss_send_queue s" by (simp_all add: ev_def q_def)
    with shut conn own fin True show ?thesis
      by (simp add: register_send_def build_wsabufs_Nil begin_io_def Let_def)
  next
    case False
    then have "ev = fold send_Buffers_push (ss_send_queue s) (ss_send_event s)" "q = []"
      by (simp_all add: ev_def q_def)
    with shut conn own fin False show ?thesis
      by (simp add: register_send_def build_wsabufs_Nil begin_io_def Let_def)
  qed
qed

lemma register_send_inv:
  assumes base: "sess_base io jobs s" and io: "io \<le> 1" and own: "\<not> ss_send_owner s"
    and flag: "ss_is_connect s \<Longrightarrow> ss_is_send_register s"
    and ev: "ss_is_connect s \<Longrightarrow>
      has_pending_data (ss_send_event s) \<or> se_bufs (ss_send_event s) = []"
    and recv: "recv_ok s"
  shows "\<exists>s'. register_send env s = Some s' \<and> sess_inv io jobs s' \<and>
     (ss_is_connect s' \<longrightarrow> ss_is_connect s \<and> send_stream s' = send_stream s)"
proof (cases "ss_is_connect s")
  case False
  then have "register_send env s = Some s" by (simp add: register_send_def)
  with False base show ?thesis by (simp add: sess_inv_def not_connected_ok)
next
  case True
  define ev' where "ev' = (if has_pending_data (ss_send_event s) then ss_send_event s
       else fold send_Buffers_push (ss_send_queue s) (ss_send_event s))"
  define q where "q = (if has_pending_data (ss_send_event s) then ss_send_queue s else [])"
  define cleared where "cleared = s\<lparr>ss_send_queue := q, ss_send_owner := False,
     ss_send_event := send_Buffers_clear ev', ss_is_send_register := False\<rparr>"
  note eq = register_send_eq [OF base io own True, of env, folded ev'_def q_def,
      unfolded Let_def, folded cleared_def]
  have se: "se_inv (ss_send_event s)" and ok: "\<forall>sb \<in> set (ss_send_queue s). sb_ok sb"
    and len: "length (ss_send_queue s) \<le> MAX_SEND_QUEUE_SIZE"
    using base by (simp_all add: sess_base_def)
  have cb: "sess_base io jobs cleared"
    unfolding cleared_def base_clear_send [OF base own] using ok len by (simp add: q_def)
  have bufs: "se_bufs ev' = (if has_pending_data (ss_send_event s) then se_bufs (ss_send_event s)
      else ss_send_queue s)"
    using ev [OF True] by (auto simp: ev'_def se_bufs_push_all)
  have inv': "se_inv ev'" and stream: "se_pending ev' @ concat (map sb_data q) = send_stream s"
    using push_all_pending [OF se ok] se by (auto simp: ev'_def q_def send_stream_def)
  show ?thesis
  proof (cases "has_pending_data ev'")
    case False
    then have "se_pending ev' = []" "q = []"
      using has_pending_iff [OF inv'] by (auto simp: ev'_def q_def split: if_splits)
    then have c: "send_stream cleared = send_stream s" "send_ok cleared" "recv_ok cleared"
      using stream recv
      by (simp_all add: cleared_def send_stream_def send_ok_def recv_ok_def send_Buffers_clear_def
          se_pending_def)
    show ?thesis
    proof (cases "ss_close_after_send s")
      case True
      with False eq disconnect_inv [OF cb io, of env] show ?thesis by auto
    next
      case close: False
      with False eq c cb True show ?thesis by (simp add: sess_inv_def)
    qed
  next
    case pend: True
    show ?thesis
    proof (cases "io_failed (env_WSASend env)")
      case failed: True
      with pend eq disconnect_inv [OF cb io, of env] show ?thesis by auto
    next
      case False
      define s' where "s' = s\<lparr>ss_send_owner := True, ss_send_event := ev', ss_send_queue := q,
         ss_pending_io := ss_pending_io s + 1\<rparr>"
      have "length (se_bufs ev') \<le> MAX_SEND_QUEUE_SIZE"
        using bufs len base by (simp add: sess_base_def)
      then have "sess_base io jobs s'"
        using base own inv' ok len by (auto simp: sess_base_def s'_def owners_def q_def)
      moreover have "send_ok s'" using flag [OF True] pend by (simp add: send_ok_def s'_def)
      moreover have "recv_ok s'" using recv by (simp add: recv_ok_def s'_def)
      moreover have "send_stream s' = send_stream s" using stream by (simp add: send_stream_def s'_def)
      moreover have "register_send env s = Some s'" using pend False eq by (simp add: s'_def)
      ultimately show ?thesis using True by (auto simp: sess_inv_def)
    qed
  qed
qed

lemma send_inv:
  assumes inv: "sess_inv io jobs s" and io: "io \<le> 1" and sb: "sb_ok sb"
  shows "\<exists>s'. send env sb s = Some s' \<and> sess_inv io jobs s' \<and>
     (ss_is_connect s' \<longrightarrow> ss_is_connect s \<and> length (ss_send_queue s) < MAX_SEND_QUEUE_SIZE \<and>
        send_stream s' = send_stream s @ sb_data sb)"
proof (cases "ss_is_connect s \<and> length (ss_send_queue s) < MAX_SEND_QUEUE_SIZE")
  case False
  have base: "sess_base io jobs s" using inv by (simp add: sess_inv_def)
  from False inv disconnect_inv [OF base io, of env] show ?thesis
    by (cases "ss_is_connect s") (auto simp: send_def)
next
  case True
  have base: "sess_base io jobs s" and sok: "send_ok s" and recv: "recv_ok s"
    using inv by (simp_all add: sess_inv_def)
  define t where "t = s\<lparr>ss_send_queue := ss_send_queue s @ [sb], ss_is_send_register := True\<rparr>"
  have send: "send env sb s = (if ss_is_send_register s then Some t else register_send env t)"
    using True by (simp add: send_def t_def Let_def)
  have tb: "sess_base io jobs t" using base True sb by (auto simp: sess_base_def t_def owners_def)
  have tr: "recv_ok t" using recv by (simp add: recv_ok_def t_def)
  have stream: "send_stream t = send_stream s @ sb_data sb" by (simp add: send_stream_def t_def)
  show ?thesis
  proof (cases "ss_is_send_register s")
    case reg: True
    then have "send_ok t" using sok True by (auto simp: send_ok_def t_def)
    with reg send tb tr stream True show ?thesis by (auto simp: sess_inv_def t_def)
  next
    case False
    then have "\<not> ss_send_owner t" "se_bufs (ss_send_event t) = []" "ss_is_send_register t"
      using sok True by (auto simp: send_ok_def t_def)
    then have "\<exists>s'. register_send env t = Some s' \<and> sess_inv io jobs s' \<and>
        (ss_is_connect s' \<longrightarrow> ss_is_connect t \<and> send_stream s' = send_stream t)"
      by (intro register_send_inv [OF tb io _ _ _ tr]) simp_all
    with False send stream True show ?thesis by auto
  qed
qed

text \<open>A completion: its owner is cleared and the operation is finished after the handler.\<close>

lemma base_clear_send_owner:
  "sess_base 0 jobs s \<Longrightarrow> ss_send_owner s \<Longrightarrow> sess_base 1 jobs (s\<lparr>ss_send_owner := False\<rparr>)"
  by (simp add: sess_base_def owners_def)

lemma base_clear_recv_owner:
  "sess_base 0 jobs s \<Longrightarrow> ss_recv_owner s \<Longrightarrow> sess_base 1 jobs (s\<lparr>ss_recv_owner := False\<rparr>)"
  by (simp add: sess_base_def owners_def)

lemma finish_inv:
  assumes "sess_inv 1 jobs s"
  shows "\<exists>s'. session_finish_io s = Some s' \<and> sess_inv 0 jobs s' \<and>
     s' = s\<lparr>ss_pending_io := of_nat (owners s)\<rparr>"
proof -
  have "ss_pending_io s = of_nat (Suc (owners s))" using assms by (simp add: sess_inv_def sess_base_def)
  then have "session_finish_io s = Some (s\<lparr>ss_pending_io := of_nat (owners s)\<rparr>)"
    using owners_le_3 [of s] by (intro session_finish_io_of_nat) simp_all
  moreover have "sess_inv 0 jobs (s\<lparr>ss_pending_io := of_nat (owners s)\<rparr>)"
    using assms by (simp add: sess_inv_def sess_base_def send_ok_def recv_ok_def owners_def)
  ultimately show ?thesis by simp
qed

lemma base_send_event:
  assumes "sess_base io jobs s" "se_inv ev" "length (se_bufs ev) \<le> MAX_SEND_QUEUE_SIZE"
  shows "sess_base io jobs (s\<lparr>ss_send_event := ev\<rparr>)"
    and "sess_base io jobs (s\<lparr>ss_send_event := ev, ss_is_send_register := r\<rparr>)"
  using assms by (simp_all add: sess_base_def owners_def)

lemma clear_bufs [simp]: "se_bufs (send_Buffers_clear ev) = []"
  by (simp add: send_Buffers_clear_def)

text \<open>The state in which a send completion is handled.\<close>

lemma send_completion:
  assumes "sess_inv 0 jobs s" "ss_send_owner s"
  shows "sess_base 1 jobs (s\<lparr>ss_send_owner := False\<rparr>)"
    and "sess_base 1 jobs (s\<lparr>ss_send_owner := False, ss_send_event := send_Buffers_clear ev\<rparr>)"
    and "sess_base 1 jobs (s\<lparr>ss_send_owner := False, ss_send_event := send_Buffers_clear ev,
      ss_is_send_register := r\<rparr>)"
proof -
  show base: "sess_base 1 jobs (s\<lparr>ss_send_owner := False\<rparr>)"
    using assms base_clear_send_owner by (auto simp: sess_inv_def)
  show "sess_base 1 jobs (s\<lparr>ss_send_owner := False, ss_send_event := send_Buffers_clear ev\<rparr>)"
    "sess_base 1 jobs (s\<lparr>ss_send_owner := False, ss_send_event := send_Buffers_clear ev,
      ss_is_send_register := r\<rparr>)"
    using base_send_event [OF base, of "send_Buffers_clear ev"] by simp_all
qed

lemma process_send_more:
  assumes inv: "sess_inv 0 jobs s" and own: "ss_send_owner s" and conn: "ss_is_connect s"
    and ev: "consume_sent_bytes n (ss_send_event s) = Some (True, ev)" "se_inv ev"
      "se_bufs ev = se_bufs (ss_send_event s)"
    and more: "has_pending_data ev"
  shows "\<exists>s'. process_send env n s = Some s' \<and> sess_inv 1 jobs s' \<and>
     (ss_is_connect s' \<longrightarrow> send_stream s' = se_pending ev @ concat (map sb_data (ss_send_queue s)))"
proof -
  let ?u = "s\<lparr>ss_send_owner := False, ss_send_event := ev\<rparr>"
  have "length (se_bufs ev) \<le> MAX_SEND_QUEUE_SIZE"
    using inv ev(3) by (simp add: sess_inv_def sess_base_def)
  then have ub: "sess_base 1 jobs ?u" using base_send_event(1) [OF send_completion(1) [OF inv own] ev(2)] by simp
  have "process_send env n s = register_send env ?u"
    using conn ev(1) more by (simp add: process_send_def)
  moreover have "\<exists>s'. register_send env ?u = Some s' \<and> sess_inv 1 jobs s' \<and>
      (ss_is_connect s' \<longrightarrow> ss_is_connect ?u \<and> send_stream s' = send_stream ?u)"
    by (rule register_send_inv [OF ub])
      (use conn more inv own in \<open>simp_all add: sess_inv_def send_ok_def recv_ok_def\<close>)
  moreover have "send_stream ?u = se_pending ev @ concat (map sb_data (ss_send_queue s))"
    by (simp add: send_stream_def)
  ultimately show ?thesis by auto
qed

lemma process_send_drained:
  assumes inv: "sess_inv 0 jobs s" and own: "ss_send_owner s" and conn: "ss_is_connect s"
    and ev: "consume_sent_bytes n (ss_send_event s) = Some (True, ev)"
    and none: "\<not> has_pending_data ev"
  shows "\<exists>s'. process_send env n s = Some s' \<and> sess_inv 1 jobs s' \<and>
     (ss_is_connect s' \<longrightarrow> send_stream s' = concat (map sb_data (ss_send_queue s)))"
proof -
  let ?u = "s\<lparr>ss_send_owner := False, ss_send_event := send_Buffers_clear ev\<rparr>"
  let ?v = "?u\<lparr>ss_is_send_register := False\<rparr>"
  note clr = send_completion(2,3) [OF inv own]
  have u: "process_send env n s = (if ss_close_after_send s then disconnect env ?v
      else if ss_send_queue s = [] then Some ?v else register_send env ?u)"
    using conn ev none by (simp add: process_send_def Let_def)
  have su: "send_stream ?u = concat (map sb_data (ss_send_queue s))" "send_stream ?v = send_stream ?u"
    by (simp_all add: send_stream_def)
  have ru: "recv_ok ?u" "recv_ok ?v" using inv by (simp_all add: sess_inv_def recv_ok_def)
  consider "ss_close_after_send s" | "\<not> ss_close_after_send s" "ss_send_queue s = []"
    | "\<not> ss_close_after_send s" "ss_send_queue s \<noteq> []" by blast
  then show ?thesis
  proof cases
    case 1
    with u disconnect_inv [OF clr(2) [where ev = ev and r = False], of env] show ?thesis by auto
  next
    case 2
    then have "sess_inv 1 jobs ?v"
      using clr(2) [where ev = ev and r = False] ru by (simp add: sess_inv_def send_ok_def)
    with 2 u su show ?thesis by simp
  next
    case 3
    have "\<exists>s'. register_send env ?u = Some s' \<and> sess_inv 1 jobs s' \<and>
        (ss_is_connect s' \<longrightarrow> ss_is_connect ?u \<and> send_stream s' = send_stream ?u)"
      by (rule register_send_inv [OF clr(1) [where ev = ev]])
        (use conn inv own ru in \<open>simp_all add: sess_inv_def send_ok_def\<close>)
    with 3 u su show ?thesis by auto
  qed
qed

lemma process_send_inv:
  assumes inv: "sess_inv 0 jobs s" and own: "ss_send_owner s" and n: "int32_range n"
  shows "\<exists>s'. process_send env n s = Some s' \<and> sess_inv 1 jobs s' \<and>
     (ss_is_connect s' \<longrightarrow> ss_is_connect s \<and> 0 < n \<and> n \<le> int (length (se_pending (ss_send_event s))) \<and>
        send_stream s' = drop (nat n) (send_stream s))"
proof -
  let ?ev = "ss_send_event s"
  have se: "se_inv ?ev" using inv by (simp add: sess_inv_def sess_base_def)
  have n64: "n < 2 ^ 64" using n by (simp add: int32_range_def)
  have bound: "length (se_pending ?ev) < 2 ^ 64"
    using se_pending_bound [of 0 jobs s] inv by (simp add: sess_inv_def)
  note clr = send_completion(2,3) [OF inv own]
  consider (off) "\<not> ss_is_connect s"
    | (bad) "ss_is_connect s" "n \<le> 0 \<or> int (length (se_pending ?ev)) < n"
    | (ok) "ss_is_connect s" "0 < n" "n \<le> int (length (se_pending ?ev))" by linarith
  then show ?thesis
  proof cases
    case off
    then have "process_send env n s
        = Some (s\<lparr>ss_send_owner := False, ss_send_event := send_Buffers_clear ?ev\<rparr>)"
      by (simp add: process_send_def)
    with off clr show ?thesis by (simp add: sess_inv_def not_connected_ok)
  next
    case bad
    then have "consume_sent_bytes n ?ev = Some (False, ?ev)"
      using consume_sent_bytes_refuses [OF se _ n64] by auto
    with bad have "process_send env n s = disconnect env (s\<lparr>ss_send_owner := False,
        ss_send_event := send_Buffers_clear ?ev, ss_is_send_register := False\<rparr>)"
      by (simp add: process_send_def)
    with disconnect_inv [OF clr(2), of env] show ?thesis by auto
  next
    case ok
    then obtain ev where ev: "consume_sent_bytes n ?ev = Some (True, ev)" "se_inv ev"
      "se_pending ev = drop (nat n) (se_pending ?ev)" "se_bufs ev = se_bufs ?ev"
      using consume_sent_bytes_accepts [OF se _ _ bound] by blast
    have "nat n \<le> length (se_pending ?ev)" using ok by simp
    then have "drop (nat n) (send_stream s) = se_pending ev @ concat (map sb_data (ss_send_queue s))"
      using ev(3) by (simp add: send_stream_def)
    moreover have "se_pending ev = []" if "\<not> has_pending_data ev"
      using has_pending_iff [OF ev(2)] that by simp
    ultimately show ?thesis
      using process_send_more [OF inv own ok(1) ev(1,2,4), of env] ok
        process_send_drained [OF inv own ok(1) ev(1), of env]
      by (cases "has_pending_data ev") auto
  qed
qed

end
