(* ===== verification/SessionFlow.thy ===== *)
theory SessionFlow
  imports SessionCore
begin

text \<open>
  The life of a session as a sequence of its operations: receiving in arbitrary segments, sending
  with partial completions, logic jobs, disconnecting and shutdown.  The virtual
  \<open>on_recv_packet\<close> enters through the locale \<open>packet_sink\<close>, whose law says that it does nothing but
  post the job of a packet.
\<close>

section \<open>Receiving\<close>

lemma register_recv_eq:
  assumes base: "sess_base io jobs s" and io: "io \<le> 1" and own: "\<not> ss_recv_owner s"
  shows "register_recv env s =
    (if \<not> ss_is_connect s then Some s
     else if io_failed (env_WSARecv env) then disconnect env s
     else Some (s\<lparr>ss_recv_owner := True, ss_pending_io := ss_pending_io s + 1\<rparr>))"
proof (cases "ss_is_connect s")
  case True
  then have shut: "\<not> ss_shutdown_started s" using base by (simp add: sess_base_def)
  have "session_finish_io (s\<lparr>ss_pending_io := begin_io (ss_pending_io s), ss_recv_owner := False\<rparr>)
      = Some (s\<lparr>ss_recv_owner := False, ss_pending_io := ss_pending_io s\<rparr>)"
    by (subst begin_finish_io [OF base io]) simp_all
  also have "s\<lparr>ss_recv_owner := False, ss_pending_io := ss_pending_io s\<rparr> = s"
    using own by (cases s) simp
  finally show ?thesis
    using True shut by (simp add: register_recv_def handle_error_def begin_io_def Let_def)
qed (simp add: register_recv_def)

lemma register_recv_inv:
  assumes base: "sess_base io jobs s" and io: "io \<le> 1" and own: "\<not> ss_recv_owner s"
    and send: "send_ok s"
    and rest: "ss_is_connect s \<Longrightarrow> ss_close_after_send s \<or> rest_wf (rb_data (ss_recv_buffer s)) \<and>
       int BUFFER_SIZE \<le> free_size (ss_recv_buffer s)"
  shows "\<exists>s'. register_recv env s = Some s' \<and> sess_inv io jobs s'"
proof -
  consider "\<not> ss_is_connect s" | "ss_is_connect s" "io_failed (env_WSARecv env)"
    | "ss_is_connect s" "\<not> io_failed (env_WSARecv env)" by blast
  then show ?thesis
  proof cases
    case 1
    with base show ?thesis
      by (simp add: register_recv_eq [OF base io own] sess_inv_def not_connected_ok)
  next
    case 2
    with disconnect_inv [OF base io, of env] show ?thesis
      by (auto simp: register_recv_eq [OF base io own])
  next
    case 3
    let ?s = "s\<lparr>ss_recv_owner := True, ss_pending_io := ss_pending_io s + 1\<rparr>"
    have "sess_base io jobs ?s" using base own by (simp add: sess_base_def owners_def)
    moreover have "send_ok ?s" using send by (simp add: send_ok_def)
    moreover have "recv_ok ?s" using rest [OF 3(1)] by (simp add: recv_ok_def)
    ultimately show ?thesis using 3 by (simp add: register_recv_eq [OF base io own] sess_inv_def)
  qed
qed

text \<open>The constructor, and a connection accepted by the session manager.\<close>

lemma base_new: "sess_base 0 0 (Session_new sock)"
  by (simp add: sess_base_def Session_new_def owners_def BUFFER_SIZE_def rb_inv_new
      SendEvent_new_def se_inv_def RecvBuffer_new_def rb_inv_def int32_range_def)

text \<open>A session before its connection: nothing has happened to it but, possibly, shutdown.\<close>

definition unconnected :: "('j, 'x) Session_scheme \<Rightarrow> bool" where
  "unconnected s \<longleftrightarrow> \<not> ss_was_connected s \<and> \<not> ss_is_connect s \<and> \<not> ss_shutdown_started s \<and>
     \<not> ss_is_disconnect s \<and> owners s = 0 \<and> \<not> ss_is_send_register s \<and> ss_send_queue s = [] \<and>
     se_bufs (ss_send_event s) = [] \<and> rb_data (ss_recv_buffer s) = [] \<and>
     int BUFFER_SIZE \<le> free_size (ss_recv_buffer s)"

lemma process_connect_inv:
  assumes base: "sess_base 0 jobs s" and new: "unconnected s"
  shows "\<exists>s'. process_connect env s = Some s' \<and> sess_inv 0 jobs s'"
proof -
  let ?s = "s\<lparr>ss_was_connected := True, ss_is_connect := True\<rparr>"
  have own: "\<not> ss_recv_owner s" "\<not> ss_send_owner s" "\<not> ss_disconnect_owner s"
    using new by (auto simp: unconnected_def owners_def)
  have "sess_base 0 jobs ?s"
    using base new own by (simp add: sess_base_def unconnected_def owners_def)
  then show ?thesis
    unfolding process_connect_def using new own
    by (intro register_recv_inv)
      (simp_all add: send_ok_def unconnected_def rest_wf_def HEADER_SIZE_def)
qed

lemma reject_connection_inv:
  assumes base: "sess_base 0 jobs s" and new: "unconnected s"
    and sb: "\<And>sb. notice = Some sb \<Longrightarrow> sb_ok sb"
  shows "\<exists>s'. reject_connection env notice s = Some s' \<and> sess_inv 0 jobs s'"
proof -
  let ?s = "s\<lparr>ss_is_connect := True, ss_was_connected := True, ss_close_after_send := True\<rparr>"
  have own: "\<not> ss_recv_owner s" "\<not> ss_send_owner s" "\<not> ss_disconnect_owner s"
    using new by (auto simp: unconnected_def owners_def)
  have b: "sess_base 0 jobs ?s"
    using base new own by (simp add: sess_base_def unconnected_def owners_def)
  then have i: "sess_inv 0 jobs ?s"
    using new own by (simp add: sess_inv_def send_ok_def recv_ok_def unconnected_def)
  have r: "reject_connection env notice s
      = (case notice of None \<Rightarrow> disconnect env ?s | Some sb \<Rightarrow> send env sb ?s)"
    using new by (simp add: reject_connection_def unconnected_def Let_def)
  show ?thesis
  proof (cases notice)
    case None
    with r disconnect_inv [OF b, of env] show ?thesis by auto
  next
    case (Some sb')
    with r send_inv [OF i _ sb [OF Some], of env] show ?thesis by auto
  qed
qed

section \<open>Logic jobs\<close>

lemma post_logic_fields [simp]:
  "ss_is_connect (post_logic j s) = ss_is_connect s"
  "ss_recv_buffer (post_logic j s) = ss_recv_buffer s"
  by (simp_all add: post_logic_def queue_logic_def)

lemma post_logic_base:
  assumes "sess_base io jobs s"
  shows "sess_base io jobs (post_logic j s)"
proof (cases "ss_logic_stopped s")
  case False
  then have "\<not> ss_shutdown_started s" using assms by (simp add: sess_base_def)
  with False assms show ?thesis
    by (simp add: sess_base_def post_logic_def queue_logic_def owners_def)
qed (use assms in \<open>simp add: post_logic_def queue_logic_def\<close>)

lemma post_logic_inv: "sess_inv io jobs s \<Longrightarrow> sess_inv io jobs (post_logic j s)"
  using post_logic_base [of io jobs s j]
  by (simp add: sess_inv_def send_ok_def recv_ok_def post_logic_def queue_logic_def)

lemma fold_post_connected:
  assumes "\<not> ss_logic_stopped s"
  shows "fold post_logic js s = s\<lparr>ss_logic_queue := ss_logic_queue s @ map Callback js,
     ss_pending_jobs := ss_pending_jobs s + of_nat (length js)\<rparr>"
  using assms by (induction js arbitrary: s) (simp_all add: post_logic_def queue_logic_def add.assoc)

text \<open>Taking a callback to execute, and finishing it.\<close>

lemma logic_pop_Some:
  assumes "logic_pop s = Some (job, s')"
  obtains jobs where "ss_logic_queue s = job # jobs" "s' = s\<lparr>ss_logic_queue := jobs\<rparr>"
  using assms by (cases "ss_logic_queue s") (simp_all add: logic_pop_def)

lemma logic_pop_inv:
  assumes "sess_inv 0 0 s" "logic_pop s = Some (Callback j, s')"
  shows "sess_inv 0 1 s'"
proof -
  obtain jobs where "ss_logic_queue s = Callback j # jobs" "s' = s\<lparr>ss_logic_queue := jobs\<rparr>"
    using assms(2) by (rule logic_pop_Some)
  with assms(1) show ?thesis
    by (simp add: sess_inv_def sess_base_def send_ok_def recv_ok_def owners_def)
qed

lemma logic_done_inv:
  assumes "sess_inv 0 1 s" "length (ss_logic_queue s) < 2 ^ 32 - 1"
  shows "\<exists>s'. logic_done s = Some s' \<and> sess_inv 0 0 s' \<and> s' = s\<lparr>ss_pending_jobs := of_nat (length (ss_logic_queue s))\<rparr>"
proof -
  have pend: "ss_pending_jobs s = of_nat (Suc (length (ss_logic_queue s)))"
    using assms(1) by (simp add: sess_inv_def sess_base_def)
  then have "ss_pending_jobs s > 0"
    using assms(2) by (simp add: word_less_nat_alt unat_of_nat del: of_nat_Suc)
  with pend have "logic_done s = Some (s\<lparr>ss_pending_jobs := of_nat (length (ss_logic_queue s))\<rparr>)"
    by (simp add: logic_done_def)
  moreover have "sess_inv 0 0 (s\<lparr>ss_pending_jobs := of_nat (length (ss_logic_queue s))\<rparr>)"
    using assms(1) by (simp add: sess_inv_def sess_base_def send_ok_def recv_ok_def owners_def)
  ultimately show ?thesis by simp
qed

lemma logic_done_keeps:
  assumes "sess_inv 0 1 s" "logic_done s = Some s'"
  shows "sess_inv 0 0 s'"
proof -
  have s': "s' = s\<lparr>ss_pending_jobs := ss_pending_jobs s - 1\<rparr>"
    using assms(2) by (simp add: logic_done_def split: if_splits)
  show ?thesis
    using assms(1) unfolding s'
    by (simp add: sess_inv_def sess_base_def send_ok_def recv_ok_def owners_def)
qed

text \<open>The cleanup job.\<close>

lemma cleanup_fields_inv:
  assumes "sess_inv 0 0 s" "logic_pop s = Some (Cleanup, s1)"
  shows "sess_inv 0 1 (cleanup_fields s1)"
proof -
  obtain jobs where q: "ss_logic_queue s = Cleanup # jobs" "s1 = s\<lparr>ss_logic_queue := jobs\<rparr>"
    using assms(2) by (rule logic_pop_Some)
  have "Suc (count_list jobs Cleanup) = of_bool (ss_is_disconnect s \<and> \<not> ss_cleanup_done s)"
    using assms(1) q(1) by (simp add: sess_inv_def sess_base_def)
  then have d: "ss_is_disconnect s" "\<not> ss_cleanup_done s" "count_list jobs Cleanup = 0"
    by (simp_all split: if_splits add: of_bool_def)
  moreover from this have "\<not> ss_is_connect s" using assms(1) by (simp add: sess_inv_def sess_base_def)
  ultimately show ?thesis
    using assms(1) q
    by (simp add: sess_inv_def sess_base_def send_ok_def recv_ok_def owners_def cleanup_fields_def)
qed

lemma cleanup_job_inv:
  assumes "sess_inv 0 0 s" "logic_pop s = Some (Cleanup, s1)" "length (ss_logic_queue s) < 2 ^ 32"
  shows "\<exists>s'. logic_done (cleanup_fields s1) = Some s' \<and> sess_inv 0 0 s' \<and> ss_cleanup_done s'"
proof -
  obtain jobs where q: "ss_logic_queue s = Cleanup # jobs" "s1 = s\<lparr>ss_logic_queue := jobs\<rparr>"
    using assms(2) by (rule logic_pop_Some)
  have "length (ss_logic_queue (cleanup_fields s1)) < 2 ^ 32 - 1"
    using assms(3) q by (simp add: cleanup_fields_def)
  then obtain s' where "logic_done (cleanup_fields s1) = Some s'" "sess_inv 0 0 s'"
    "s' = (cleanup_fields s1)\<lparr>ss_pending_jobs := of_nat (length (ss_logic_queue (cleanup_fields s1)))\<rparr>"
    using logic_done_inv [OF cleanup_fields_inv [OF assms(1,2)]] by blast
  then show ?thesis by (simp add: cleanup_fields_def)
qed

lemma begin_shutdown_inv:
  assumes "sess_inv 0 jobs s"
  shows "sess_inv 0 jobs (begin_shutdown s) \<and> ss_shutdown_started (begin_shutdown s)"
proof (cases "ss_shutdown_started s")
  case False
  let ?s = "s\<lparr>ss_shutdown_started := True, ss_logic_stopped := True, ss_is_connect := False,
    ss_socket_open := False\<rparr>"
  have conn: "\<not> ss_is_connect (process_disconnect ?s)"
    by (simp add: process_disconnect_def queue_logic_def)
  have "sess_base 0 jobs (process_disconnect ?s)"
  proof (cases "ss_is_disconnect s")
    case True
    then have "\<not> ss_is_connect s" using assms by (simp add: sess_inv_def sess_base_def)
    with True assms show ?thesis
      by (simp add: process_disconnect_def sess_inv_def sess_base_def owners_def)
  next
    case nd: False
    with assms show ?thesis
      by (simp add: process_disconnect_def queue_logic_def sess_inv_def sess_base_def owners_def)
  qed
  with False conn show ?thesis by (simp add: begin_shutdown_def sess_inv_def not_connected_ok)
qed (use assms in \<open>simp add: begin_shutdown_def\<close>)

section \<open>The packet sink\<close>

lemma fold_post_fields [simp]:
  "ss_is_connect (fold post_logic js s) = ss_is_connect s"
  "ss_recv_buffer (fold post_logic js s) = ss_recv_buffer s"
  by (induction js arbitrary: s) simp_all

lemma fold_post_base: "sess_base io jobs s \<Longrightarrow> sess_base io jobs (fold post_logic js s)"
  by (induction js arbitrary: s) (simp_all add: post_logic_base)

lemma post_logic_frame:
  "ss_send_queue (post_logic j s) = ss_send_queue s"
  "ss_send_event (post_logic j s) = ss_send_event s"
  "ss_send_owner (post_logic j s) = ss_send_owner s"
  "ss_recv_owner (post_logic j s) = ss_recv_owner s"
  "ss_is_send_register (post_logic j s) = ss_is_send_register s"
  by (simp_all add: post_logic_def queue_logic_def)

lemma fold_post_frame:
  "ss_send_queue (fold post_logic js s) = ss_send_queue s"
  "ss_send_event (fold post_logic js s) = ss_send_event s"
  "ss_send_owner (fold post_logic js s) = ss_send_owner s"
  "ss_recv_owner (fold post_logic js s) = ss_recv_owner s"
  "ss_is_send_register (fold post_logic js s) = ss_is_send_register s"
  by (induction js arbitrary: s) (simp_all add: post_logic_frame)

text \<open>The receive buffer after the packets were taken out of it.\<close>

lemma received_buffer:
  assumes rb: "rb_inv rb" "rb_Buffer_size rb = int BUFFER_SIZE" and f: "frames (rb_data rb) = (ps, r)"
  defines "rb' \<equiv> clean (snd (on_read (int (length (concat ps))) rb))"
  shows "rb_inv rb'" "rb_Buffer_size rb' = int BUFFER_SIZE" "rb_data rb' = r"
    "rest_wf r \<Longrightarrow> int BUFFER_SIZE \<le> free_size rb'"
proof -
  let ?n = "int (length (concat ps))" and ?rd = "snd (on_read (int (length (concat ps))) rb)"
  have bs: "rb_data rb = concat ps @ r" using frames_sound [OF f] by simp
  then have le: "?n \<le> data_size rb" using length_rb_data [OF rb(1)] by simp
  have inv: "rb_inv ?rd" using rb(1) by (intro rb_inv_on_read) simp_all
  have data: "rb_data ?rd = r" using rb_data_on_read [OF rb(1) _ le] bs by simp
  have size: "rb_Buffer_size ?rd = int BUFFER_SIZE" using rb(2) by (simp add: on_read_def)
  show "rb_inv rb'" unfolding rb'_def using inv by (rule rb_inv_clean)
  show "rb_Buffer_size rb' = int BUFFER_SIZE" using size by (simp add: rb'_def clean_def Let_def)
  show "rb_data rb' = r" unfolding rb'_def using rb_data_clean [OF inv] data by simp
  show "int BUFFER_SIZE \<le> free_size rb'" if "rest_wf r"
    using free_size_clean [OF inv] size length_rb_data [OF inv] rest_wf_length [OF that] data
    by (simp add: rb'_def BUFFER_SIZE_def)
qed

lemma received_base:
  fixes packet_job :: "byte list \<Rightarrow> 'j option" and s :: "('j, 'x) Session_scheme"
  assumes base: "sess_base 1 jobs (s\<lparr>ss_recv_owner := False\<rparr>)"
    and rb: "rb_inv (ss_recv_buffer s)" "rb_Buffer_size (ss_recv_buffer s) = int BUFFER_SIZE"
    and n: "0 \<le> n" and f: "frames (rb_data (snd (on_write n (ss_recv_buffer s)))) = (ps, r)"
  defines "rb1 \<equiv> snd (on_write n (ss_recv_buffer s))"
  defines "t \<equiv> fold post_logic (List.map_filter packet_job ps)
     (s\<lparr>ss_recv_owner := False, ss_recv_buffer := rb1\<rparr>)"
    and "rb' \<equiv> clean (snd (on_read (int (length (concat ps))) rb1))"
  shows "sess_base 1 jobs t" "sess_base 1 jobs (t\<lparr>ss_recv_buffer := rb'\<rparr>)"
    "rb_data rb' = r" "rest_wf r \<or> malformed r" "rest_wf r \<Longrightarrow> int BUFFER_SIZE \<le> free_size rb'"
proof -
  have rb1: "rb_inv rb1" "rb_Buffer_size rb1 = int BUFFER_SIZE"
    using rb_inv_on_write [OF rb(1) n] rb(2) by (simp_all add: rb1_def on_write_def)
  note rec = received_buffer [OF rb1 f [folded rb1_def], folded rb'_def]
  have "sess_base 1 jobs (s\<lparr>ss_recv_owner := False, ss_recv_buffer := rb1\<rparr>)"
    using base rb1 by (simp add: sess_base_def owners_def)
  then show t: "sess_base 1 jobs t" unfolding t_def by (rule fold_post_base)
  then show "sess_base 1 jobs (t\<lparr>ss_recv_buffer := rb'\<rparr>)"
    using rec(1,2) by (simp add: sess_base_def owners_def)
  show "rb_data rb' = r" "rest_wf r \<Longrightarrow> int BUFFER_SIZE \<le> free_size rb'" by (fact rec)+
  show "rest_wf r \<or> malformed r" using frames_sound [OF f] by simp
qed

lemma disconnected_inv:
  assumes "sess_inv 0 jobs s" "ss_disconnect_owner s"
  shows "sess_inv 1 jobs (process_disconnect (s\<lparr>ss_disconnect_owner := False\<rparr>))"
proof -
  let ?t = "s\<lparr>ss_disconnect_owner := False\<rparr>"
  have conn: "\<not> ss_is_connect s" using assms by (auto simp: sess_inv_def sess_base_def)
  then have "\<not> ss_is_connect (process_disconnect ?t)"
    by (simp add: process_disconnect_def queue_logic_def)
  moreover have "sess_base 1 jobs (process_disconnect ?t)"
  proof (cases "ss_is_disconnect s")
    case True
    with assms conn show ?thesis
      by (simp add: process_disconnect_def sess_inv_def sess_base_def owners_def)
  next
    case False
    with assms conn show ?thesis
      by (simp add: process_disconnect_def queue_logic_def sess_inv_def sess_base_def owners_def)
  qed
  ultimately show ?thesis by (simp add: sess_inv_def not_connected_ok)
qed

text \<open>The operating system delivers a segment, and then its completion is dispatched.\<close>

definition feed ::
  "io_env \<Rightarrow> (byte list \<Rightarrow> ('j, 'x) Session_scheme \<Rightarrow> ('j, 'x) Session_scheme) \<Rightarrow> byte list \<Rightarrow>
   ('j, 'x) Session_scheme \<Rightarrow> (bool \<times> ('j, 'x) Session_scheme) option" where
  "feed env on_recv_packet bs s =
     iocp_dispatch env on_recv_packet Ev_Recv True (int (length bs))
       (s\<lparr>ss_recv_buffer := recv_fill bs (ss_recv_buffer s)\<rparr>)"

fun feed_all ::
  "io_env \<Rightarrow> (byte list \<Rightarrow> ('j, 'x) Session_scheme \<Rightarrow> ('j, 'x) Session_scheme) \<Rightarrow> byte list list \<Rightarrow>
   ('j, 'x) Session_scheme \<Rightarrow> ('j, 'x) Session_scheme option" where
  "feed_all env on_recv_packet [] s = Some s"
| "feed_all env on_recv_packet (bs # bss) s =
     Option.bind (feed env on_recv_packet bs s) (\<lambda>(_, s). feed_all env on_recv_packet bss s)"

lemma rb_data_fill: "rb_inv rb \<Longrightarrow> rb_data (recv_fill bs rb) = rb_data rb"
  by (erule rb_invE) (simp add: rb_defs block_def blit_def min_def drop_take nat_diff_distrib')

lemma fill_inv:
  assumes "sess_inv 0 jobs s" "int (length bs) \<le> free_size (ss_recv_buffer s)"
  shows "sess_inv 0 jobs (s\<lparr>ss_recv_buffer := recv_fill bs (ss_recv_buffer s)\<rparr>)"
    and "rb_inv (recv_fill bs (ss_recv_buffer s))"
    and "rb_Buffer_size (recv_fill bs (ss_recv_buffer s)) = int BUFFER_SIZE"
    and "free_size (recv_fill bs (ss_recv_buffer s)) = free_size (ss_recv_buffer s)"
proof -
  have rb: "rb_inv (ss_recv_buffer s)" "rb_Buffer_size (ss_recv_buffer s) = int BUFFER_SIZE"
    using assms(1) by (simp_all add: sess_inv_def sess_base_def)
  show i: "rb_inv (recv_fill bs (ss_recv_buffer s))" by (rule rb_inv_fill [OF rb(1) assms(2)])
  show b: "rb_Buffer_size (recv_fill bs (ss_recv_buffer s)) = int BUFFER_SIZE"
    using rb(2) by (simp add: recv_fill_def)
  show f: "free_size (recv_fill bs (ss_recv_buffer s)) = free_size (ss_recv_buffer s)"
    by (simp add: recv_fill_def free_size_def)
  show "sess_inv 0 jobs (s\<lparr>ss_recv_buffer := recv_fill bs (ss_recv_buffer s)\<rparr>)"
    using assms(1) i b f rb_data_fill [OF rb(1), of bs]
    by (simp add: sess_inv_def sess_base_def send_ok_def recv_ok_def owners_def)
qed

lemma map_filter_append: "List.map_filter f (xs @ ys) = List.map_filter f xs @ List.map_filter f ys"
  by (simp add: List.map_filter_def)

section \<open>Sequences of operations\<close>

text \<open>The head of the logic queue is executed; the effect of callbacks on the session is that of the
  operations they call, so here they only come and go.\<close>

definition run_job :: "('j, 'x) Session_scheme \<Rightarrow> ('j, 'x) Session_scheme option" where
  "run_job s = (case logic_pop s of
     None \<Rightarrow> Some s
   | Some (Callback _, s) \<Rightarrow> logic_done s
   | Some (Cleanup, s) \<Rightarrow> logic_done (cleanup_fields s))"

datatype 'j sess_op =
    Op_send SendBuffer
  | Op_sent bool int
  | Op_received "byte list"
  | Op_recv_failed
  | Op_disconnected bool
  | Op_disconnect
  | Op_shutdown
  | Op_post 'j
  | Op_job

text \<open>Events of the operating system occur only for operations that are outstanding, and a receive
  delivers at most what fits.\<close>

fun sess_step ::
  "(byte list \<Rightarrow> ('j, 'x) Session_scheme \<Rightarrow> ('j, 'x) Session_scheme) \<Rightarrow> io_env \<Rightarrow> 'j sess_op \<Rightarrow>
   ('j, 'x) Session_scheme \<Rightarrow> ('j, 'x) Session_scheme option" where
  "sess_step h env (Op_send sb) s = send env sb s"
| "sess_step h env (Op_sent ok n) s = map_option snd (iocp_dispatch env h Ev_send ok n s)"
| "sess_step h env (Op_received bs) s =
     (if ss_recv_owner s \<and> int (length bs) \<le> free_size (ss_recv_buffer s)
      then map_option snd (feed env h bs s) else Some s)"
| "sess_step h env Op_recv_failed s = map_option snd (iocp_dispatch env h Ev_Recv False 0 s)"
| "sess_step h env (Op_disconnected ok) s = map_option snd (iocp_dispatch env h Ev_disconnect ok 0 s)"
| "sess_step h env Op_disconnect s = disconnect env s"
| "sess_step h env Op_shutdown s = Some (begin_shutdown s)"
| "sess_step h env (Op_post j) s = Some (post_logic j s)"
| "sess_step h env Op_job s = run_job s"

definition op_ok :: "'j sess_op \<Rightarrow> bool" where
  "op_ok op = (case op of Op_send sb \<Rightarrow> sb_ok sb | Op_sent _ n \<Rightarrow> 0 \<le> n \<and> int32_range n | _ \<Rightarrow> True)"

text \<open>What an operation adds to the bytes accepted from callers, and to those confirmed as sent.\<close>

definition newly_accepted :: "'j sess_op \<Rightarrow> ('j, 'x) Session_scheme \<Rightarrow> byte list" where
  "newly_accepted op s = (case op of
     Op_send sb \<Rightarrow> if ss_is_connect s \<and> length (ss_send_queue s) < MAX_SEND_QUEUE_SIZE
                    then sb_data sb else []
   | _ \<Rightarrow> [])"

definition newly_confirmed :: "'j sess_op \<Rightarrow> ('j, 'x) Session_scheme \<Rightarrow> byte list" where
  "newly_confirmed op s = (case op of
     Op_sent True n \<Rightarrow> if ss_send_owner s \<and> ss_is_connect s \<and> 0 < n \<and>
                            n \<le> int (length (se_pending (ss_send_event s)))
                        then take (nat n) (se_pending (ss_send_event s)) else []
   | _ \<Rightarrow> [])"

fun sess_run ::
  "(byte list \<Rightarrow> ('j, 'x) Session_scheme \<Rightarrow> ('j, 'x) Session_scheme) \<Rightarrow> (io_env \<times> 'j sess_op) list \<Rightarrow>
   ('j, 'x) Session_scheme \<Rightarrow> byte list \<Rightarrow> byte list \<Rightarrow>
   (('j, 'x) Session_scheme \<times> byte list \<times> byte list) option" where
  "sess_run h [] s acc conf = Some (s, acc, conf)"
| "sess_run h ((env, op) # ops) s acc conf =
     Option.bind (sess_step h env op s) (\<lambda>s'.
       sess_run h ops s' (acc @ newly_accepted op s) (conf @ newly_confirmed op s))"

lemma run_job_inv:
  assumes inv: "sess_inv 0 0 s" and len: "length (ss_logic_queue s) < 2 ^ 32"
  shows "\<exists>s'. run_job s = Some s' \<and> sess_inv 0 0 s'"
proof (cases "ss_logic_queue s")
  case Nil
  with inv show ?thesis by (simp add: run_job_def logic_pop_def)
next
  case (Cons job jobs)
  then have pop: "logic_pop s = Some (job, s\<lparr>ss_logic_queue := jobs\<rparr>)" by (simp add: logic_pop_def)
  show ?thesis
  proof (cases job)
    case (Callback j)
    with logic_pop_inv [OF inv] pop have "sess_inv 0 1 (s\<lparr>ss_logic_queue := jobs\<rparr>)" by simp
    from logic_done_inv [OF this] pop Callback Cons len show ?thesis by (auto simp: run_job_def)
  next
    case Cleanup
    with cleanup_job_inv [OF inv _ len] pop show ?thesis by (auto simp: run_job_def)
  qed
qed

lemma run_job_keeps:
  assumes inv: "sess_inv 0 0 s" and r: "run_job s = Some s'"
  shows "sess_inv 0 0 s'"
proof (cases "logic_pop s")
  case (Some p)
  obtain job s1 where p: "p = (job, s1)" by fastforce
  show ?thesis
    using r Some p logic_done_keeps [OF logic_pop_inv [OF inv]]
      logic_done_keeps [OF cleanup_fields_inv [OF inv]]
    by (cases job) (auto simp: run_job_def)
qed (use assms in \<open>simp add: run_job_def\<close>)

lemma run_job_connected: "run_job s = Some s' \<Longrightarrow> ss_is_connect s' = ss_is_connect s \<and> send_stream s' = send_stream s"
  by (auto simp: run_job_def logic_pop_def logic_done_def cleanup_fields_def send_stream_def
      split: option.splits list.splits logic_job.splits if_splits)

text \<open>Shutdown: the outstanding operations are cancelled and complete, then the queued jobs run.\<close>

definition cancel_io ::
  "io_env \<Rightarrow> (byte list \<Rightarrow> ('j, 'x) Session_scheme \<Rightarrow> ('j, 'x) Session_scheme) \<Rightarrow> EventType \<Rightarrow>
   ('j, 'x) Session_scheme \<Rightarrow> ('j, 'x) Session_scheme option" where
  "cancel_io env h ev s = map_option snd (iocp_dispatch env h ev False 0 s)"

fun run_jobs :: "nat \<Rightarrow> ('j, 'x) Session_scheme \<Rightarrow> ('j, 'x) Session_scheme option" where
  "run_jobs 0 s = Some s"
| "run_jobs (Suc n) s = Option.bind (run_job s) (run_jobs n)"

definition drain ::
  "io_env \<Rightarrow> (byte list \<Rightarrow> ('j, 'x) Session_scheme \<Rightarrow> ('j, 'x) Session_scheme) \<Rightarrow>
   ('j, 'x) Session_scheme \<Rightarrow> ('j, 'x) Session_scheme option" where
  "drain env h s =
     Option.bind (cancel_io env h Ev_Recv s) (\<lambda>s.
     Option.bind (cancel_io env h Ev_send s) (\<lambda>s.
     Option.bind (cancel_io env h Ev_disconnect s) (\<lambda>s. run_jobs (length (ss_logic_queue s)) s)))"

text \<open>A session that is being shut down.\<close>

definition closing :: "('j, 'x) Session_scheme \<Rightarrow> bool" where
  "closing s \<longleftrightarrow> sess_inv 0 0 s \<and> ss_shutdown_started s"

lemma closing_disconnected: "closing s \<Longrightarrow> \<not> ss_is_connect s \<and> ss_is_disconnect s"
  by (auto simp: closing_def sess_inv_def sess_base_def)

lemma closing_finish:
  assumes "sess_inv 1 0 t" "ss_shutdown_started t"
  shows "\<exists>s'. session_finish_io t = Some s' \<and> closing s' \<and> owners s' = owners t \<and>
     ss_recv_owner s' = ss_recv_owner t \<and> ss_send_owner s' = ss_send_owner t \<and>
     ss_disconnect_owner s' = ss_disconnect_owner t \<and> ss_logic_queue s' = ss_logic_queue t"
  using finish_inv [OF assms(1)] assms(2) by (auto simp: closing_def owners_def)

lemma cancel_recv:
  assumes "closing s"
  shows "\<exists>s'. cancel_io env h Ev_Recv s = Some s' \<and> closing s' \<and> \<not> ss_recv_owner s' \<and>
     ss_logic_queue s' = ss_logic_queue s"
proof (cases "ss_recv_owner s")
  case True
  let ?t = "s\<lparr>ss_recv_owner := False\<rparr>"
  have "sess_inv 1 0 ?t"
    using assms True base_clear_recv_owner [of 0 s] closing_disconnected [OF assms]
    by (simp add: closing_def sess_inv_def not_connected_ok)
  with closing_finish [of ?t] assms closing_disconnected [OF assms] True show ?thesis
    by (auto simp: cancel_io_def iocp_dispatch_def get_owner_def session_dispatch_def
        process_recv_def closing_def)
qed (use assms in \<open>simp add: cancel_io_def iocp_dispatch_def get_owner_def\<close>)

lemma cancel_send:
  assumes "closing s" "\<not> ss_recv_owner s"
  shows "\<exists>s'. cancel_io env h Ev_send s = Some s' \<and> closing s' \<and> \<not> ss_recv_owner s' \<and>
     \<not> ss_send_owner s' \<and> ss_logic_queue s' = ss_logic_queue s"
proof (cases "ss_send_owner s")
  case True
  let ?t = "s\<lparr>ss_send_owner := False, ss_send_event := send_Buffers_clear (ss_send_event s)\<rparr>"
  have "sess_inv 1 0 ?t"
    using assms True send_completion(2) [of 0 s] closing_disconnected [OF assms(1)]
    by (simp add: closing_def sess_inv_def not_connected_ok)
  with closing_finish [of ?t] assms closing_disconnected [OF assms(1)] True show ?thesis
    by (auto simp: cancel_io_def iocp_dispatch_def get_owner_def session_dispatch_def
        process_send_def closing_def)
qed (use assms in \<open>simp add: cancel_io_def iocp_dispatch_def get_owner_def\<close>)

lemma cancel_disconnect:
  assumes "closing s" "\<not> ss_recv_owner s" "\<not> ss_send_owner s"
  shows "\<exists>s'. cancel_io env h Ev_disconnect s = Some s' \<and> closing s' \<and> owners s' = 0 \<and>
     ss_logic_queue s' = ss_logic_queue s"
proof (cases "ss_disconnect_owner s")
  case True
  let ?t = "s\<lparr>ss_disconnect_owner := False\<rparr>"
  have t: "process_disconnect ?t = ?t"
    using closing_disconnected [OF assms(1)] by (simp add: process_disconnect_def)
  then have "sess_inv 1 0 ?t" using assms True disconnected_inv [of 0 s] by (simp add: closing_def)
  with closing_finish [of ?t] assms True t show ?thesis
    by (auto simp: cancel_io_def iocp_dispatch_def get_owner_def session_dispatch_def
        closing_def owners_def)
qed (use assms in \<open>simp add: cancel_io_def iocp_dispatch_def get_owner_def owners_def\<close>)

lemma run_jobs_closing:
  assumes "closing s" "owners s = 0" "length (ss_logic_queue s) = n" "n < 2 ^ 32"
  shows "\<exists>s'. run_jobs n s = Some s' \<and> closing s' \<and> owners s' = 0 \<and> ss_logic_queue s' = []"
  using assms
proof (induction n arbitrary: s)
  case (Suc n)
  then obtain job jobs where q: "ss_logic_queue s = job # jobs" by (cases "ss_logic_queue s") auto
  obtain s1 where s1: "run_job s = Some s1" "sess_inv 0 0 s1"
    using run_job_inv [of s] Suc.prems by (auto simp: closing_def)
  have "ss_logic_queue s1 = jobs \<and> ss_shutdown_started s1 \<and> owners s1 = 0"
    using s1(1) q Suc.prems(1,2)
    by (auto simp: run_job_def logic_pop_def logic_done_def cleanup_fields_def owners_def closing_def
        split: logic_job.splits if_splits)
  with Suc.IH [of s1] Suc.prems q s1 show ?case by (simp add: closing_def)
qed simp

lemma drain_shutdown:
  assumes "closing s" "length (ss_logic_queue s) < 2 ^ 32"
  shows "\<exists>s' s''. drain env h s = Some s' \<and> wait_for_shutdown s' = Some s''"
proof -
  obtain s1 where s1: "cancel_io env h Ev_Recv s = Some s1" "closing s1" "\<not> ss_recv_owner s1"
    "ss_logic_queue s1 = ss_logic_queue s" using cancel_recv [OF assms(1)] by blast
  obtain s2 where s2: "cancel_io env h Ev_send s1 = Some s2" "closing s2" "\<not> ss_recv_owner s2"
    "\<not> ss_send_owner s2" "ss_logic_queue s2 = ss_logic_queue s" using cancel_send [OF s1(2,3)] s1(4) by metis
  obtain s3 where s3: "cancel_io env h Ev_disconnect s2 = Some s3" "closing s3" "owners s3 = 0"
    "ss_logic_queue s3 = ss_logic_queue s" using cancel_disconnect [OF s2(2-4)] s2(5) by metis
  obtain s4 where s4: "run_jobs (length (ss_logic_queue s3)) s3 = Some s4" "closing s4"
    "owners s4 = 0" "ss_logic_queue s4 = []"
    using run_jobs_closing [OF s3(2,3) refl] s3(4) assms(2) by auto
  then have "ss_pending_io s4 = 0" "ss_pending_jobs s4 = 0" "ss_cleanup_done s4"
    using closing_disconnected [OF s4(2)]
    by (auto simp: closing_def sess_inv_def sess_base_def)
  moreover have "drain env h s = Some s4" using s1(1) s2(1) s3(1) s4(1) by (simp add: drain_def)
  ultimately show ?thesis by (simp add: wait_for_shutdown_def wait_for_io_def)
qed

text \<open>Disconnecting and receiving do not touch what is to be sent.\<close>

lemma disconnect_stream:
  "disconnect env s = Some s' \<Longrightarrow> send_stream s' = send_stream s \<and> \<not> ss_is_connect s'"
  by (auto simp: disconnect_def register_disconnect_def session_finish_io_def send_stream_def
      process_disconnect_def queue_logic_def Let_def split: if_splits)

lemma register_recv_stream:
  "register_recv env s = Some s' \<Longrightarrow>
   send_stream s' = send_stream s \<and> (ss_is_connect s' \<longrightarrow> ss_is_connect s)"
  by (auto simp: register_recv_def handle_error_def session_finish_io_def Let_def bind_eq_Some_conv
      split: if_splits dest!: disconnect_stream) (auto simp: send_stream_def)

lemma fold_post_stream [simp]: "send_stream (fold post_logic js s) = send_stream s"
  by (simp add: send_stream_def fold_post_frame)

lemma send_stream_update [simp]:
  "send_stream (s\<lparr>ss_recv_owner := b\<rparr>) = send_stream s"
  "send_stream (s\<lparr>ss_recv_buffer := rb\<rparr>) = send_stream s"
  "send_stream (s\<lparr>ss_pending_io := n\<rparr>) = send_stream s"
  by (simp_all add: send_stream_def)

lemma session_finish_io_stream:
  "session_finish_io s = Some s' \<Longrightarrow>
   send_stream s' = send_stream s \<and> ss_is_connect s' = ss_is_connect s"
  by (auto simp: session_finish_io_def)

lemma begin_shutdown_connected:
  "sess_inv 0 jobs s \<Longrightarrow> \<not> ss_is_connect (begin_shutdown s)"
  by (auto simp: begin_shutdown_def process_disconnect_def queue_logic_def sess_inv_def sess_base_def)

lemma process_disconnect_connected: "\<not> ss_is_connect s \<Longrightarrow> \<not> ss_is_connect (process_disconnect s)"
  by (simp add: process_disconnect_def queue_logic_def)

lemma process_recv_refused:
  assumes "ss_is_connect s" "n = 0 \<or> n > free_size (ss_recv_buffer s)"
  shows "process_recv env h n s = disconnect env (s\<lparr>ss_recv_owner := False\<rparr>)"
  using assms by (auto simp: process_recv_def on_write_def Let_def)

locale packet_sink =
  fixes on_recv_packet :: "byte list \<Rightarrow> ('j, 'x) Session_scheme \<Rightarrow> ('j, 'x) Session_scheme"
    and packet_job :: "byte list \<Rightarrow> 'j option"
  assumes posts: "on_recv_packet p s = (case packet_job p of None \<Rightarrow> s | Some j \<Rightarrow> post_logic j s)"
begin

lemma sink_fold: "fold on_recv_packet ps s = fold post_logic (List.map_filter packet_job ps) s"
  by (induction ps arbitrary: s) (simp_all add: posts map_filter_simps split: option.splits)

lemma sink_connected: "ss_is_connect (on_recv_packet p s) = ss_is_connect s"
  by (simp add: posts split: option.splits)

lemma sink_on_recv:
  assumes "ss_is_connect s" "frames bs = (ps, r)"
  shows "on_recv on_recv_packet ss_is_connect bs s
       = (if malformed r then - 1 else int (length (concat ps)),
          fold post_logic (List.map_filter packet_job ps) s)"
  using assms by (subst on_recv_frames [where ps = ps and r = r]) (simp_all add: sink_connected sink_fold)

text \<open>One completion of a receive, with the packets and the rest its bytes complete.\<close>

lemma process_recv_eq:
  assumes conn: "ss_is_connect s" and n: "0 < n" "n \<le> free_size (ss_recv_buffer s)"
    and rb: "rb_inv (ss_recv_buffer s)"
    and w: "snd (on_write n (ss_recv_buffer s)) = rb1" and f: "frames (rb_data rb1) = (ps, r)"
  defines "t \<equiv> fold post_logic (List.map_filter packet_job ps)
     (s\<lparr>ss_recv_owner := False, ss_recv_buffer := rb1\<rparr>)"
  shows "process_recv env on_recv_packet n s
       = (if malformed r then disconnect env t
          else register_recv env (t\<lparr>ss_recv_buffer :=
                 clean (snd (on_read (int (length (concat ps))) rb1))\<rparr>))"
proof -
  have w': "on_write n (ss_recv_buffer s) = (True, rb1)"
    using w n(2) by (simp add: on_write_def)
  have "rb_inv rb1" using rb_inv_on_write [OF rb] n(1) w by auto
  then have "int (length (concat ps)) \<le> data_size rb1"
    using frames_sound [OF f] length_rb_data [of rb1] by simp
  then show ?thesis
    using conn n(1) w' sink_on_recv [OF _ f, of "s\<lparr>ss_recv_owner := False, ss_recv_buffer := rb1\<rparr>"]
    by (auto simp: process_recv_def t_def on_read_def)
qed

lemma process_recv_inv:
  assumes inv: "sess_inv 0 jobs s" and own: "ss_recv_owner s" and n: "0 \<le> n"
  shows "\<exists>s'. process_recv env on_recv_packet n s = Some s' \<and> sess_inv 1 jobs s'"
proof -
  let ?t = "s\<lparr>ss_recv_owner := False\<rparr>" and ?rb = "ss_recv_buffer s"
  have base: "sess_base 1 jobs ?t" using inv own base_clear_recv_owner by (auto simp: sess_inv_def)
  have rb: "rb_inv ?rb" "rb_Buffer_size ?rb = int BUFFER_SIZE"
    using inv by (simp_all add: sess_inv_def sess_base_def)
  consider "\<not> ss_is_connect s" | "ss_is_connect s" "n = 0 \<or> n > free_size ?rb"
    | "ss_is_connect s" "0 < n" "n \<le> free_size ?rb" using n by linarith
  then show ?thesis
  proof cases
    case 1
    with base show ?thesis by (simp add: process_recv_def sess_inv_def not_connected_ok)
  next
    case 2
    then have "process_recv env on_recv_packet n s = disconnect env ?t"
      by (rule process_recv_refused)
    with disconnect_inv [OF base, of env] show ?thesis by auto
  next
    case 3
    obtain ps r where f: "frames (rb_data (snd (on_write n ?rb))) = (ps, r)" by fastforce
    note eq = process_recv_eq [OF 3(1-3) rb(1) refl f, of env]
    note rec = received_base(1,2) [OF base rb n f, where packet_job = packet_job]
      received_base(3-5) [OF base rb n f]
    show ?thesis
    proof (cases "malformed r")
      case True
      with eq disconnect_inv [OF rec(1), of env] show ?thesis by auto
    next
      case False
      have "\<exists>s'. register_recv env (fold post_logic (List.map_filter packet_job ps)
           (?t\<lparr>ss_recv_buffer := snd (on_write n ?rb)\<rparr>)\<lparr>ss_recv_buffer :=
             clean (snd (on_read (int (length (concat ps))) (snd (on_write n ?rb))))\<rparr>) = Some s' \<and>
           sess_inv 1 jobs s'"
        by (rule register_recv_inv [OF rec(2)])
          (use rec False inv in \<open>simp_all add: fold_post_frame sess_inv_def send_ok_def\<close>)
      with eq False show ?thesis by simp
    qed
  qed
qed

lemma dispatch_inv:
  assumes inv: "sess_inv 0 jobs s" and own: "get_owner ev s" and n: "0 \<le> n" "int32_range n"
  shows "\<exists>s'. session_dispatch env on_recv_packet ev n s = Some s' \<and> sess_inv 1 jobs s'"
proof -
  consider "ev = Ev_disconnect" "ss_disconnect_owner s" | "ev = Ev_Recv" "ss_recv_owner s"
    | "ev = Ev_send" "ss_send_owner s"
    using own by (cases ev) (simp_all add: get_owner_def)
  then show ?thesis
  proof cases
    case 1
    with disconnected_inv [OF inv] show ?thesis by (simp add: session_dispatch_def)
  next
    case 2
    with process_recv_inv [OF inv _ n(1)] show ?thesis by (simp add: session_dispatch_def)
  next
    case 3
    with process_send_inv [OF inv _ n(2)] show ?thesis by (simp add: session_dispatch_def) blast
  qed
qed

lemma iocp_dispatch_inv:
  assumes "sess_inv 0 jobs s" "0 \<le> n" "int32_range n"
  shows "\<exists>b s'. iocp_dispatch env on_recv_packet ev ok n s = Some (b, s') \<and> sess_inv 0 jobs s'"
proof (cases "get_owner ev s")
  case True
  have "0 \<le> (if ok then n else 0)" "int32_range (if ok then n else 0)"
    using assms(2,3) by (simp_all add: int32_range_def)
  from dispatch_inv [OF assms(1) True this, of env] obtain s1 where
    "session_dispatch env on_recv_packet ev (if ok then n else 0) s = Some s1" "sess_inv 1 jobs s1"
    by blast
  with True finish_inv [of jobs s1] show ?thesis by (auto simp: iocp_dispatch_def Let_def)
qed (use assms(1) in \<open>auto simp: iocp_dispatch_def\<close>)

text \<open>One segment of a well-formed stream.\<close>

lemma feed_step:
  assumes inv: "sess_inv 0 jobs s" and conn: "ss_is_connect s" and close: "\<not> ss_close_after_send s"
    and ok: "\<not> io_failed (env_WSARecv env)"
    and bs: "bs \<noteq> []" "int (length bs) \<le> free_size (ss_recv_buffer s)"
    and f: "frames (rb_data (ss_recv_buffer s) @ bs) = (ps, r)" and r: "rest_wf r"
  shows "\<exists>s'. feed env on_recv_packet bs s = Some (True, s') \<and> sess_inv 0 jobs s' \<and>
     ss_is_connect s' \<and> \<not> ss_close_after_send s' \<and> rb_data (ss_recv_buffer s') = r \<and>
     ss_logic_queue s' = ss_logic_queue s @ map Callback (List.map_filter packet_job ps)"
proof -
  let ?rb = "recv_fill bs (ss_recv_buffer s)" and ?n = "int (length bs)"
  let ?s = "s\<lparr>ss_recv_buffer := ?rb\<rparr>" and ?js = "List.map_filter packet_job ps"
  define rb1 where "rb1 = snd (on_write ?n ?rb)"
  define t where "t = fold post_logic ?js (?s\<lparr>ss_recv_owner := False, ss_recv_buffer := rb1\<rparr>)"
  define u where "u = t\<lparr>ss_recv_buffer := clean (snd (on_read (int (length (concat ps))) rb1))\<rparr>"
  have own: "ss_recv_owner s" and stop: "\<not> ss_logic_stopped s"
    using inv conn close by (auto simp: sess_inv_def recv_ok_def sess_base_def)
  have inv': "sess_inv 0 jobs ?s" and rb: "rb_inv ?rb" "rb_Buffer_size ?rb = int BUFFER_SIZE"
    and fs: "free_size ?rb = free_size (ss_recv_buffer s)"
    using fill_inv [OF inv bs(2)] by simp_all
  have data: "rb_data rb1 = rb_data (ss_recv_buffer s) @ bs"
    using rb_data_fill_write [OF _ bs(2)] inv by (simp add: rb1_def sess_inv_def sess_base_def)
  have base: "sess_base 1 jobs (?s\<lparr>ss_recv_owner := False\<rparr>)"
    using inv' own base_clear_recv_owner [of jobs ?s] by (simp add: sess_inv_def)
  have f1: "frames (rb_data (snd (on_write ?n (ss_recv_buffer ?s)))) = (ps, r)"
    using f data by (simp add: rb1_def)
  have nm: "\<not> malformed r" using r by (auto simp: rest_wf_def malformed_def)
  have proc: "process_recv env on_recv_packet ?n ?s = register_recv env u"
    using process_recv_eq [of ?s ?n rb1 ps r env] conn bs fs rb(1) f1 nm
    by (simp add: u_def t_def rb1_def)
  have rb': "rb_inv (ss_recv_buffer ?s)" "rb_Buffer_size (ss_recv_buffer ?s) = int BUFFER_SIZE"
    and n0: "0 \<le> ?n" using rb by simp_all
  have rec: "sess_base 1 jobs u" "rb_data (ss_recv_buffer u) = r"
    "int BUFFER_SIZE \<le> free_size (ss_recv_buffer u)"
    using received_base(2) [OF base rb' n0 f1, where packet_job = packet_job]
      received_base(3,5) [OF base rb' n0 f1] r
    by (simp_all add: u_def t_def rb1_def)
  have tq: "t = ?s\<lparr>ss_recv_owner := False, ss_recv_buffer := rb1,
      ss_logic_queue := ss_logic_queue s @ map Callback ?js,
      ss_pending_jobs := ss_pending_jobs s + of_nat (length ?js)\<rparr>"
    using stop by (simp add: t_def fold_post_connected)
  note ub = rec(1)
  let ?v = "u\<lparr>ss_recv_owner := True, ss_pending_io := ss_pending_io u + 1\<rparr>"
  have reg: "register_recv env u = Some ?v"
    using register_recv_eq [OF ub] conn ok by (simp add: u_def tq)
  have "\<not> ss_recv_owner u" "send_ok u"
    using inv by (simp_all add: u_def tq sess_inv_def send_ok_def)
  then have "\<exists>s'. register_recv env u = Some s' \<and> sess_inv 1 jobs s'"
    using rec r by (intro register_recv_inv [OF ub]) simp_all
  with reg have "sess_inv 1 jobs ?v" by simp
  then obtain s' where s': "session_finish_io ?v = Some s'" "sess_inv 0 jobs s'"
    "s' = ?v\<lparr>ss_pending_io := of_nat (owners ?v)\<rparr>" using finish_inv by blast
  have "feed env on_recv_packet bs s = Some (True, s')"
    using own proc reg s'(1)
    by (simp add: feed_def iocp_dispatch_def session_dispatch_def get_owner_def)
  with s' conn close rec(2) show ?thesis by (simp add: u_def tq)
qed

lemma feed_all_packets:
  assumes "sess_inv 0 jobs s" "ss_is_connect s" "\<not> ss_close_after_send s"
    and "\<not> io_failed (env_WSARecv env)"
    and "\<forall>bs \<in> set bss. bs \<noteq> [] \<and> length bs \<le> BUFFER_SIZE"
    and "rb_data (ss_recv_buffer s) @ concat bss = concat ps @ r"
    and "\<forall>p \<in> set ps. packet_wf p" "rest_wf r"
  shows "\<exists>s'. feed_all env on_recv_packet bss s = Some s' \<and> sess_inv 0 jobs s' \<and>
     ss_is_connect s' \<and> rb_data (ss_recv_buffer s') = r \<and>
     ss_logic_queue s' = ss_logic_queue s @ map Callback (List.map_filter packet_job ps)"
  using assms
proof (induction bss arbitrary: s ps)
  case Nil
  then have "rest_wf (rb_data (ss_recv_buffer s))" by (simp add: sess_inv_def recv_ok_def)
  with Nil have "ps = [] \<and> r = rb_data (ss_recv_buffer s)"
    using packets_unique [of ps r "[]" "rb_data (ss_recv_buffer s)"] by simp
  with Nil show ?case by (simp add: map_filter_simps)
next
  case (Cons bs bss)
  obtain ps1 r1 where f: "frames (rb_data (ss_recv_buffer s) @ bs) = (ps1, r1)" by fastforce
  have "(rb_data (ss_recv_buffer s) @ bs) @ concat bss = concat ps @ r" using Cons.prems by simp
  then obtain ps2 where ps: "ps = ps1 @ ps2" "rest_wf r1" "r1 @ concat bss = concat ps2 @ r"
    using frames_prefix [OF f _ Cons.prems(7,8)] by blast
  have "int (length bs) \<le> free_size (ss_recv_buffer s)"
    using Cons.prems by (simp add: sess_inv_def recv_ok_def)
  then obtain s1 where s1: "feed env on_recv_packet bs s = Some (True, s1)" "sess_inv 0 jobs s1"
    "ss_is_connect s1" "\<not> ss_close_after_send s1" "rb_data (ss_recv_buffer s1) = r1"
    "ss_logic_queue s1 = ss_logic_queue s @ map Callback (List.map_filter packet_job ps1)"
    using feed_step [OF Cons.prems(1-4) _ _ f ps(2)] Cons.prems(5) by auto
  have "\<exists>s'. feed_all env on_recv_packet bss s1 = Some s' \<and> sess_inv 0 jobs s' \<and>
     ss_is_connect s' \<and> rb_data (ss_recv_buffer s') = r \<and>
     ss_logic_queue s' = ss_logic_queue s1 @ map Callback (List.map_filter packet_job ps2)"
    by (rule Cons.IH) (use s1 ps Cons.prems in simp_all)
  with s1 ps(1) show ?case by (auto simp: map_filter_append)
qed

lemma sess_step_other:
  assumes inv: "sess_inv 0 0 s" and op: "op_ok op" and job: "op \<noteq> Op_job"
  shows "\<exists>s'. sess_step on_recv_packet env op s = Some s' \<and> sess_inv 0 0 s'"
proof (cases op)
  case (Op_send sb)
  with send_inv [OF inv, of sb env] op show ?thesis by (auto simp: op_ok_def)
next
  case (Op_sent ok n)
  with iocp_dispatch_inv [OF inv, of n env Ev_send ok] op show ?thesis by (auto simp: op_ok_def)
next
  case (Op_received bs)
  show ?thesis
  proof (cases "ss_recv_owner s \<and> int (length bs) \<le> free_size (ss_recv_buffer s)")
    case True
    have "free_size (ss_recv_buffer s) < 2 ^ 31"
      using inv by (auto simp: sess_inv_def sess_base_def rb_inv_def int32_range_def free_size_def)
    then have "int32_range (int (length bs))" using True by (simp add: int32_range_def)
    with Op_received True iocp_dispatch_inv [OF fill_inv(1) [OF inv], of bs "int (length bs)" env Ev_Recv True]
    show ?thesis by (auto simp: feed_def)
  qed (use inv Op_received in auto)
next
  case Op_recv_failed
  with iocp_dispatch_inv [OF inv, of 0 env Ev_Recv False] show ?thesis
    by (auto simp: int32_range_def)
next
  case (Op_disconnected ok)
  with iocp_dispatch_inv [OF inv, of 0 env Ev_disconnect ok] show ?thesis
    by (auto simp: int32_range_def)
next
  case Op_disconnect
  with disconnect_inv [of 0 0 s env] inv show ?thesis by (auto simp: sess_inv_def)
next
  case Op_shutdown
  with begin_shutdown_inv [OF inv] show ?thesis by simp
next
  case (Op_post j)
  with post_logic_inv [OF inv] show ?thesis by simp
qed (use job in simp)

lemma sess_step_inv:
  assumes inv: "sess_inv 0 0 s" and len: "length (ss_logic_queue s) < 2 ^ 32" and op: "op_ok op"
  shows "\<exists>s'. sess_step on_recv_packet env op s = Some s' \<and> sess_inv 0 0 s'"
  using sess_step_other [OF inv op] run_job_inv [OF inv len] by (cases "op = Op_job") auto

lemma process_recv_stream:
  assumes inv: "sess_inv 0 jobs s" and n: "0 \<le> n" and p: "process_recv env on_recv_packet n s = Some s'"
  shows "send_stream s' = send_stream s \<and> (ss_is_connect s' \<longrightarrow> ss_is_connect s)"
proof -
  have rb: "rb_inv (ss_recv_buffer s)" using inv by (simp add: sess_inv_def sess_base_def)
  consider "\<not> ss_is_connect s" | "ss_is_connect s" "n = 0 \<or> n > free_size (ss_recv_buffer s)"
    | "ss_is_connect s" "0 < n" "n \<le> free_size (ss_recv_buffer s)" using n by linarith
  then show ?thesis
  proof cases
    case 1
    with p show ?thesis by (auto simp: process_recv_def)
  next
    case 2
    then have "disconnect env (s\<lparr>ss_recv_owner := False\<rparr>) = Some s'"
      using p process_recv_refused [of s n env on_recv_packet] by simp
    then show ?thesis by (auto dest: disconnect_stream)
  next
    case 3
    obtain ps r where f: "frames (rb_data (snd (on_write n (ss_recv_buffer s)))) = (ps, r)" by fastforce
    with p process_recv_eq [OF 3 rb refl f, of env] 3 show ?thesis
      by (auto split: if_splits dest!: disconnect_stream register_recv_stream)
  qed
qed

lemma dispatch_recv_stream:
  assumes inv: "sess_inv 0 jobs s" and n: "0 \<le> n"
    and p: "iocp_dispatch env on_recv_packet Ev_Recv ok n s = Some (b, s')"
  shows "send_stream s' = send_stream s \<and> (ss_is_connect s' \<longrightarrow> ss_is_connect s)"
proof (cases "get_owner Ev_Recv s")
  case True
  then obtain s1 where "process_recv env on_recv_packet (if ok then n else 0) s = Some s1"
    "session_finish_io s1 = Some s'"
    using p by (auto simp: iocp_dispatch_def session_dispatch_def bind_eq_Some_conv)
  with process_recv_stream [OF inv, of "if ok then n else 0" env s1] n show ?thesis
    by (auto dest: session_finish_io_stream)
qed (use p in \<open>auto simp: iocp_dispatch_def\<close>)

lemma dispatch_sent_stream:
  assumes inv: "sess_inv 0 jobs s" and n: "0 \<le> n" "int32_range n"
    and p: "iocp_dispatch env on_recv_packet Ev_send ok n s = Some (b, s')" and c: "ss_is_connect s'"
  shows "ss_is_connect s \<and> send_stream s = newly_confirmed (Op_sent ok n) s @ send_stream s'"
proof (cases "ss_send_owner s")
  case True
  then obtain s1 where s1: "process_send env (if ok then n else 0) s = Some s1"
    "session_finish_io s1 = Some s'"
    using p by (auto simp: iocp_dispatch_def session_dispatch_def get_owner_def bind_eq_Some_conv)
  have "int32_range (if ok then n else 0)" using n(2) by (simp add: int32_range_def)
  from process_send_inv [OF inv True this, of env] s1 c
  have ok: "ok" "ss_is_connect s" "0 < n" "n \<le> int (length (se_pending (ss_send_event s)))"
    and st: "send_stream s' = drop (nat n) (send_stream s)"
    by (auto dest: session_finish_io_stream split: if_splits)
  have "take (nat n) (send_stream s) = take (nat n) (se_pending (ss_send_event s))"
    using ok(4) by (simp add: send_stream_def)
  then have "send_stream s = take (nat n) (se_pending (ss_send_event s)) @ send_stream s'"
    using st by (metis append_take_drop_id)
  with ok True show ?thesis by (simp add: newly_confirmed_def)
next
  case False
  with p c show ?thesis by (auto simp: iocp_dispatch_def get_owner_def newly_confirmed_def split: bool.splits)
qed

lemma sess_step_keeps:
  assumes inv: "sess_inv 0 0 s" and op: "op_ok op"
    and s': "sess_step on_recv_packet env op s = Some s'"
  shows "sess_inv 0 0 s'"
proof (cases "op = Op_job")
  case True
  with s' run_job_keeps [OF inv] show ?thesis by simp
next
  case False
  with inv op s' sess_step_other [OF inv op, of env] show ?thesis by auto
qed

lemma step_stream:
  assumes inv: "sess_inv 0 0 s" and op: "op_ok op"
    and p: "sess_step on_recv_packet env op s = Some s'" and c: "ss_is_connect s'"
  shows "ss_is_connect s \<and> send_stream s @ newly_accepted op s = newly_confirmed op s @ send_stream s'"
proof (cases op)
  case (Op_send sb)
  then have "send env sb s = Some s'" "sb_ok sb" using p op by (simp_all add: op_ok_def)
  with send_inv [OF inv, of sb env] c have "ss_is_connect s"
    "length (ss_send_queue s) < MAX_SEND_QUEUE_SIZE" "send_stream s' = send_stream s @ sb_data sb"
    by auto
  with Op_send show ?thesis by (simp add: newly_accepted_def newly_confirmed_def)
next
  case (Op_sent ok n)
  then obtain b where "iocp_dispatch env on_recv_packet Ev_send ok n s = Some (b, s')" using p by auto
  with dispatch_sent_stream [OF inv _ _ this c] op Op_sent show ?thesis
    by (simp add: op_ok_def newly_accepted_def)
next
  case (Op_received bs)
  show ?thesis
  proof (cases "ss_recv_owner s \<and> int (length bs) \<le> free_size (ss_recv_buffer s)")
    case True
    then obtain b where "iocp_dispatch env on_recv_packet Ev_Recv True (int (length bs))
        (s\<lparr>ss_recv_buffer := recv_fill bs (ss_recv_buffer s)\<rparr>) = Some (b, s')"
      using p Op_received by (auto simp: feed_def)
    with dispatch_recv_stream [OF fill_inv(1) [OF inv] _ this] True c Op_received show ?thesis
      by (simp add: newly_accepted_def newly_confirmed_def)
  qed (use p c Op_received in \<open>auto simp: newly_accepted_def newly_confirmed_def\<close>)
next
  case Op_recv_failed
  then obtain b where "iocp_dispatch env on_recv_packet Ev_Recv False 0 s = Some (b, s')" using p by auto
  with dispatch_recv_stream [OF inv _ this] c Op_recv_failed show ?thesis
    by (simp add: newly_accepted_def newly_confirmed_def)
next
  case (Op_disconnected ok)
  have "s' = s"
  proof (cases "ss_disconnect_owner s")
    case True
    then have "\<not> ss_is_connect s" using inv by (auto simp: sess_inv_def sess_base_def)
    then have "\<not> ss_is_connect s'"
      using p Op_disconnected True
      by (auto simp: iocp_dispatch_def session_dispatch_def get_owner_def process_disconnect_connected
          dest!: session_finish_io_stream)
    with c show ?thesis by simp
  qed (use p Op_disconnected in \<open>auto simp: iocp_dispatch_def get_owner_def\<close>)
  with c Op_disconnected show ?thesis by (simp add: newly_accepted_def newly_confirmed_def)
next
  case Op_disconnect
  with p c show ?thesis by (auto dest: disconnect_stream)
next
  case Op_shutdown
  with p c begin_shutdown_connected [OF inv] show ?thesis by auto
next
  case (Op_post j)
  with p c show ?thesis
    by (auto simp: newly_accepted_def newly_confirmed_def send_stream_def post_logic_frame)
next
  case Op_job
  with p c show ?thesis
    by (auto simp: newly_accepted_def newly_confirmed_def dest: run_job_connected)
qed

lemma newly_confirmed_prefix:
  "ss_is_connect s \<Longrightarrow> \<exists>ys. send_stream s = newly_confirmed op s @ ys"
proof -
  have "\<exists>ys. send_stream s = take n (se_pending (ss_send_event s)) @ ys" for n
    by (metis append.assoc append_take_drop_id send_stream_def)
  then show ?thesis by (auto simp: newly_confirmed_def split: sess_op.splits bool.splits)
qed

lemma newly_disconnected:
  "\<not> ss_is_connect s \<Longrightarrow> newly_accepted op s = [] \<and> newly_confirmed op s = []"
  by (auto simp: newly_accepted_def newly_confirmed_def split: sess_op.splits bool.splits)

lemma step_accounting:
  assumes inv: "sess_inv 0 0 s" and op: "op_ok op"
    and s': "sess_step on_recv_packet env op s = Some s'"
    and rest: "ss_is_connect s \<longrightarrow> rest = send_stream s"
  shows "\<exists>rest'. rest @ newly_accepted op s = newly_confirmed op s @ rest' \<and>
     (ss_is_connect s' \<longrightarrow> rest' = send_stream s')"
proof (cases "ss_is_connect s'")
  case True
  with step_stream [OF inv op s' True] rest show ?thesis by auto
next
  case off: False
  show ?thesis
  proof (cases "ss_is_connect s")
    case True
    with newly_confirmed_prefix [OF True, of op] rest off show ?thesis by auto
  next
    case False
    with newly_disconnected [OF False, of op] off show ?thesis by auto
  qed
qed

text \<open>Over any run: the confirmed bytes are a prefix of the accepted ones, and while the session is
  connected the difference is exactly what it still holds.\<close>

lemma run_stream:
  assumes "sess_run on_recv_packet ops s acc conf = Some (s', acc', conf')"
    and "\<forall>(env, op) \<in> set ops. op_ok op" "sess_inv 0 0 s"
    and "acc = conf @ rest" "ss_is_connect s \<longrightarrow> rest = send_stream s"
  shows "\<exists>rest'. acc' = conf' @ rest' \<and> (ss_is_connect s' \<longrightarrow> rest' = send_stream s') "
  using assms
proof (induction ops arbitrary: s acc conf rest)
  case (Cons eo ops)
  obtain env op where eo: "eo = (env, op)" by fastforce
  with Cons.prems obtain s1 where s1: "sess_step on_recv_packet env op s = Some s1"
    and r: "sess_run on_recv_packet ops s1 (acc @ newly_accepted op s) (conf @ newly_confirmed op s)
      = Some (s', acc', conf')"
    by (auto simp: bind_eq_Some_conv)
  have inv: "sess_inv 0 0 s" and ok: "op_ok op" using Cons.prems eo by auto
  obtain rest1 where "acc @ newly_accepted op s = (conf @ newly_confirmed op s) @ rest1"
    "ss_is_connect s1 \<longrightarrow> rest1 = send_stream s1"
    using step_accounting [OF inv ok s1 Cons.prems(5)] Cons.prems(4) by auto
  with Cons.IH [OF r _ sess_step_keeps [OF inv ok s1], of rest1] Cons.prems(2) show ?case by auto
qed auto

end

end
