(* ===== verification/WireFormat.thy ===== *)
theory WireFormat
  imports ServerPrelude
begin

text \<open>
  The protobuf wire format as the generated code uses it, from the headers
  \<^verbatim>\<open>google/protobuf/io/coded_stream.h\<close>, \<^verbatim>\<open>wire_format_lite.h\<close> and \<^verbatim>\<open>parse_context.h\<close>: writing
  and measuring varints and fields, the inline part of reading them, and the loop of a generated
  parser.  The functions of the library that the headers only declare are the fields of the record
  \<open>pb_lib\<close>; the locale \<open>pb_runtime\<close> states what is documented of them, and \<open>ref_lib\<close> is an instance.
  A message is parsed from an array, so a read past its end makes the parse fail (\<open>None\<close>).  Fields
  with unknown numbers are skipped by the library; what it keeps of them is read by nobody and is
  not part of the messages here.
\<close>

unbundle bit_operations_syntax

section \<open>Writing varints\<close>

lemma unat_shift_7: "unat (drop_bit 7 v) = unat v div 128"
  unfolding unat_drop_bit_eq by (simp add: drop_bit_eq_div)

text \<open>The loop of \<open>UnsafeVarint\<close> after its two unrolled bytes; \<open>bs\<close> is what has been written.\<close>

function unsafe_varint_do :: "byte list \<Rightarrow> 'a :: len word \<Rightarrow> byte list" where
  "unsafe_varint_do bs value =
     (let bs = butlast bs @ [last bs OR 0x80];
          value = drop_bit 7 value;
          bs = bs @ [ucast value] in
      if unat value \<ge> 128 then unsafe_varint_do bs value else bs)"
  by pat_completeness auto
termination
proof (relation "measure (\<lambda>(bs, v). unat v)")
  fix bs :: "byte list" and v :: "'a word" and x xa xb
  assume "xa = drop_bit 7 v" "128 \<le> unat xa"
  then show "((xb, xa), bs, v) \<in> measure (\<lambda>(bs, v). unat v)"
    by (simp add: unat_shift_7)
qed simp

declare unsafe_varint_do.simps [simp del]

definition UnsafeVarint :: "'a :: len word \<Rightarrow> byte list" where
  "UnsafeVarint value =
     (if unat value < 128 then [ucast value]
      else let value' = drop_bit 7 value; bs = [ucast value OR 0x80, ucast value'] in
        if unat value' < 128 then bs else unsafe_varint_do bs value')"

text \<open>The encoding, seven bits at a time.\<close>

fun varint :: "nat \<Rightarrow> byte list" where
  "varint n = (if n < 128 then [of_nat n] else of_nat (n mod 128 + 128) # varint (n div 128))"

declare varint.simps [simp del]

section \<open>Sizes\<close>

text \<open>\<open>_BitScanReverse\<close>: the index of the highest set bit.\<close>

fun Log2FloorNonZero :: "nat \<Rightarrow> nat" where
  "Log2FloorNonZero n = (if n < 2 then 0 else Suc (Log2FloorNonZero (n div 2)))"

declare Log2FloorNonZero.simps [simp del]

definition VarintSize32 :: "uint32 \<Rightarrow> nat" where
  "VarintSize32 value = (Log2FloorNonZero (unat (value OR 1)) * 9 + 73) div 64"

definition VarintSize64 :: "uint64 \<Rightarrow> nat" where
  "VarintSize64 value = (Log2FloorNonZero (unat (value OR 1)) * 9 + 73) div 64"

definition VarintSize32PlusOne :: "uint32 \<Rightarrow> nat" where
  "VarintSize32PlusOne value = (Log2FloorNonZero (unat (value OR 1)) * 9 + 73 + 64) div 64"

definition VarintSize64PlusOne :: "uint64 \<Rightarrow> nat" where
  "VarintSize64PlusOne value = (Log2FloorNonZero (unat (value OR 1)) * 9 + 73 + 64) div 64"

definition VarintSize32SignExtended :: "int \<Rightarrow> nat" where
  "VarintSize32SignExtended value = VarintSize64 (word_of_int value)"

definition VarintSize32SignExtendedPlusOne :: "int \<Rightarrow> nat" where
  "VarintSize32SignExtendedPlusOne value = VarintSize64PlusOne (word_of_int value)"

definition LengthDelimitedSize :: "nat \<Rightarrow> nat" where
  "LengthDelimitedSize len = len + VarintSize32 (of_nat len)"

definition StringSize :: "byte list \<Rightarrow> nat" where
  "StringSize s = LengthDelimitedSize (length s)"

section \<open>Writing fields\<close>

definition MakeTag :: "nat \<Rightarrow> nat \<Rightarrow> uint32" where
  "MakeTag field_number wire_type = push_bit 3 (of_nat field_number) OR of_nat wire_type"

definition WriteTagToArray :: "nat \<Rightarrow> nat \<Rightarrow> byte list" where
  "WriteTagToArray field_number wire_type = UnsafeVarint (MakeTag field_number wire_type)"

definition WriteUInt64ToArray :: "nat \<Rightarrow> uint64 \<Rightarrow> byte list" where
  "WriteUInt64ToArray num value = WriteTagToArray num 0 @ UnsafeVarint value"

definition WriteUInt32ToArray :: "nat \<Rightarrow> uint32 \<Rightarrow> byte list" where
  "WriteUInt32ToArray num value = WriteTagToArray num 0 @ UnsafeVarint value"

definition WriteInt32ToArray :: "nat \<Rightarrow> int \<Rightarrow> byte list" where
  "WriteInt32ToArray num value = WriteTagToArray num 0 @ UnsafeVarint (word_of_int value :: uint64)"

definition WriteEnumToArray :: "nat \<Rightarrow> int \<Rightarrow> byte list" where
  "WriteEnumToArray num value = WriteTagToArray num 0 @ UnsafeVarint (word_of_int value :: uint64)"

definition WriteBoolToArray :: "nat \<Rightarrow> bool \<Rightarrow> byte list" where
  "WriteBoolToArray num value =
     WriteTagToArray num 0 @ UnsafeVarint (if value then 1 else 0 :: uint32)"

section \<open>The library behind the headers\<close>

record pb_lib =
  lib_VarintParseSlow32 :: "byte list \<Rightarrow> uint32 \<Rightarrow> (uint32 \<times> byte list) option"
  lib_VarintParseSlow64 :: "byte list \<Rightarrow> uint32 \<Rightarrow> (uint64 \<times> byte list) option"
  lib_ReadTagFallback :: "byte list \<Rightarrow> uint32 \<Rightarrow> (uint32 \<times> byte list) option"
  lib_InlineGreedyStringParser :: "byte list \<Rightarrow> (byte list \<times> byte list) option"
  lib_ReadSizeAndPushLimit :: "byte list \<Rightarrow> (byte list \<times> byte list) option"
  lib_VerifyUTF8 :: "byte list \<Rightarrow> bool"
  lib_UnknownFieldParse :: "uint32 \<Rightarrow> byte list \<Rightarrow> byte list option"
  lib_WriteStringOutline :: "nat \<Rightarrow> byte list \<Rightarrow> byte list"
  lib_InternalWriteMessage :: "nat \<Rightarrow> byte list \<Rightarrow> nat \<Rightarrow> byte list"
  lib_ZeroFieldsParse :: "byte list \<Rightarrow> bool"
  lib_SerializeToArray :: "nat \<Rightarrow> byte list \<Rightarrow> nat \<Rightarrow> byte list option"

text \<open>\<open>room\<close> is the space left before the end of the output buffer and its slop.\<close>

definition WriteStringMaybeAliased :: "pb_lib \<Rightarrow> nat \<Rightarrow> nat \<Rightarrow> byte list \<Rightarrow> byte list" where
  "WriteStringMaybeAliased L room num s =
     (if length s \<ge> 128 \<or> room < length s then lib_WriteStringOutline L num s
      else UnsafeVarint (MakeTag num 2) @ [of_nat (length s)] @ s)"

section \<open>Reading\<close>

text \<open>The first two bytes of a varint, as \<open>VarintParse\<close> and \<open>ReadTag\<close> combine them.\<close>

definition two_bytes :: "byte \<Rightarrow> byte \<Rightarrow> uint32" where
  "two_bytes b0 b1 = ucast b0 + push_bit 7 (ucast b1 - 1)"

fun VarintParse32 :: "pb_lib \<Rightarrow> byte list \<Rightarrow> (uint32 \<times> byte list) option" where
  "VarintParse32 L [] = None"
| "VarintParse32 L (b0 # p) =
     (if b0 AND 0x80 = 0 then Some (ucast b0, p)
      else case p of [] \<Rightarrow> None
        | b1 # p' \<Rightarrow> if b1 AND 0x80 = 0 then Some (two_bytes b0 b1, p')
                      else lib_VarintParseSlow32 L (b0 # p) (two_bytes b0 b1))"

fun VarintParse64 :: "pb_lib \<Rightarrow> byte list \<Rightarrow> (uint64 \<times> byte list) option" where
  "VarintParse64 L [] = None"
| "VarintParse64 L (b0 # p) =
     (if b0 AND 0x80 = 0 then Some (ucast b0, p)
      else case p of [] \<Rightarrow> None
        | b1 # p' \<Rightarrow> if b1 AND 0x80 = 0 then Some (ucast (two_bytes b0 b1), p')
                      else lib_VarintParseSlow64 L (b0 # p) (two_bytes b0 b1))"

fun ReadTag :: "pb_lib \<Rightarrow> byte list \<Rightarrow> (uint32 \<times> byte list) option" where
  "ReadTag L [] = None"
| "ReadTag L (b0 # p) =
     (if unat b0 < 128 then Some (ucast b0, p)
      else case p of [] \<Rightarrow> None
        | b1 # p' \<Rightarrow> if unat b1 < 128 then Some (two_bytes b0 b1, p')
                      else lib_ReadTagFallback L (b0 # p) (two_bytes b0 b1))"

text \<open>What the code of one field does with the bytes after the tag.\<close>

datatype 'm field_result = Handled 'm "byte list" | Unusual | Failed

definition on_tag :: "byte \<Rightarrow> uint32 \<Rightarrow> 'm field_result \<Rightarrow> 'm field_result" where
  "on_tag expected tag r = (if ucast tag = expected then r else Unusual)"

definition read_uint64 :: "pb_lib \<Rightarrow> (uint64 \<Rightarrow> 'm) \<Rightarrow> byte list \<Rightarrow> 'm field_result" where
  "read_uint64 L upd p = (case VarintParse64 L p of None \<Rightarrow> Failed | Some (v, p') \<Rightarrow> Handled (upd v) p')"

definition read_uint32 :: "pb_lib \<Rightarrow> (uint32 \<Rightarrow> 'm) \<Rightarrow> byte list \<Rightarrow> 'm field_result" where
  "read_uint32 L upd p = (case VarintParse32 L p of None \<Rightarrow> Failed | Some (v, p') \<Rightarrow> Handled (upd v) p')"

definition read_int32 :: "pb_lib \<Rightarrow> (int \<Rightarrow> 'm) \<Rightarrow> byte list \<Rightarrow> 'm field_result" where
  "read_int32 L upd p =
     (case VarintParse32 L p of None \<Rightarrow> Failed | Some (v, p') \<Rightarrow> Handled (upd (sint v)) p')"

definition read_enum :: "pb_lib \<Rightarrow> (int \<Rightarrow> 'm) \<Rightarrow> byte list \<Rightarrow> 'm field_result" where
  "read_enum L upd p =
     (case VarintParse64 L p of None \<Rightarrow> Failed
      | Some (v, p') \<Rightarrow> Handled (upd (sint (ucast v :: uint32))) p')"

definition read_bool :: "pb_lib \<Rightarrow> (bool \<Rightarrow> 'm) \<Rightarrow> byte list \<Rightarrow> 'm field_result" where
  "read_bool L upd p =
     (case VarintParse64 L p of None \<Rightarrow> Failed | Some (v, p') \<Rightarrow> Handled (upd (v \<noteq> 0)) p')"

definition read_string :: "pb_lib \<Rightarrow> (byte list \<Rightarrow> 'm) \<Rightarrow> byte list \<Rightarrow> 'm field_result" where
  "read_string L upd p =
     (case lib_InlineGreedyStringParser L p of None \<Rightarrow> Failed
      | Some (s, p') \<Rightarrow> if lib_VerifyUTF8 L s then Handled (upd s) p' else Failed)"

text \<open>The loop of a generated \<open>_InternalParse\<close>; \<open>field\<close> is its \<open>switch\<close>.  A zero tag or an end-group
  tag leaves the loop before the end of the array, and then the parse fails.  Every round consumes
  at least the tag, so the length of the array is enough fuel.\<close>

fun parse_loop ::
  "pb_lib \<Rightarrow> (uint32 \<Rightarrow> byte list \<Rightarrow> 'm \<Rightarrow> 'm field_result) \<Rightarrow> nat \<Rightarrow> byte list \<Rightarrow> 'm \<Rightarrow> 'm option" where
  "parse_loop L field fuel [] m = Some m"
| "parse_loop L field 0 (b # p) m = None"
| "parse_loop L field (Suc fuel) (b # p) m =
     (case ReadTag L (b # p) of
        None \<Rightarrow> None
      | Some (tag, p) \<Rightarrow>
          (case field tag p m of
             Handled m p \<Rightarrow> parse_loop L field fuel p m
           | Failed \<Rightarrow> None
           | Unusual \<Rightarrow>
               if tag = 0 \<or> tag AND 7 = 4 then None
               else case lib_UnknownFieldParse L tag p of
                 None \<Rightarrow> None
               | Some p \<Rightarrow> parse_loop L field fuel p m))"

definition parse_message ::
  "pb_lib \<Rightarrow> (uint32 \<Rightarrow> byte list \<Rightarrow> 'm \<Rightarrow> 'm field_result) \<Rightarrow> byte list \<Rightarrow> 'm \<Rightarrow> 'm option" where
  "parse_message L field bs m = parse_loop L field (length bs) bs m"

section \<open>Varints: the routine is the encoding\<close>

lemma or_80: "of_nat n OR 0x80 = (of_nat (n mod 128 + 128) :: byte)"
proof -
  have "take_bit 7 n + push_bit 7 1 = take_bit 7 n OR push_bit 7 1"
    by (rule disjunctive_add) (auto simp only: bit_take_bit_iff bit_push_bit_iff bit_1_iff)
  moreover have "take_bit 7 n + push_bit 7 1 = n mod 128 + 128" by (simp add: take_bit_eq_mod)
  ultimately have "(of_nat (n mod 128 + 128) :: byte) = take_bit 7 (of_nat n) OR push_bit 7 1"
    by (metis of_nat_or_eq of_nat_take_bit of_nat_push_bit of_nat_1)
  also have "\<dots> = of_nat n OR push_bit 7 1"
  proof (rule bit_word_eqI)
    fix i :: nat assume "i < LENGTH(8)"
    then have "i < 7 \<or> i = 7" by auto
    then show "bit (take_bit 7 (of_nat n) OR push_bit 7 1 :: byte) i = bit (of_nat n OR push_bit 7 1 :: byte) i"
      by (auto simp only: bit_or_iff bit_take_bit_iff bit_push_bit_iff bit_1_iff) auto
  qed
  finally show ?thesis by simp
qed

lemma varint_Suc: "128 \<le> n \<Longrightarrow> varint n = of_nat (n mod 128 + 128) # varint (n div 128)"
  by (subst varint.simps) simp

lemma varint_small: "n < 128 \<Longrightarrow> varint n = [of_nat n]"
  by (subst varint.simps) simp

lemma varint_word:
  "unat v < 128 \<Longrightarrow> varint (unat v) = [ucast v]"
  "128 \<le> unat v \<Longrightarrow> varint (unat v) = (ucast v OR 0x80) # varint (unat (drop_bit 7 v))"
  using or_80 [of "unat v"] by (simp_all add: varint_small varint_Suc unat_shift_7)

lemma unsafe_varint_do_eq:
  "128 \<le> unat v \<Longrightarrow> unsafe_varint_do (bs @ [ucast v]) v = bs @ varint (unat v)"
proof (induction "unat v" arbitrary: v bs rule: less_induct)
  case less
  let ?v = "drop_bit 7 v" and ?bs = "bs @ [ucast v OR 0x80]"
  have step: "unsafe_varint_do (bs @ [ucast v]) v
      = (if unat ?v \<ge> 128 then unsafe_varint_do (?bs @ [ucast ?v]) ?v else ?bs @ [ucast ?v])"
    by (subst unsafe_varint_do.simps) (simp add: Let_def)
  show ?case
  proof (cases "unat ?v \<ge> 128")
    case True
    have "unat ?v < unat v" using less.prems by (simp add: unat_shift_7)
    then have "unsafe_varint_do (?bs @ [ucast ?v]) ?v = ?bs @ varint (unat ?v)"
      using True by (rule less.hyps)
    with True step less.prems show ?thesis by (simp add: varint_word(2))
  next
    case False
    with step less.prems show ?thesis by (simp add: varint_word)
  qed
qed

lemma UnsafeVarint_eq: "UnsafeVarint v = varint (unat v)"
proof (cases "unat v < 128")
  case True
  then show ?thesis by (simp add: UnsafeVarint_def varint_word)
next
  case big: False
  show ?thesis
  proof (cases "unat (drop_bit 7 v) < 128")
    case True
    with big show ?thesis by (simp add: UnsafeVarint_def varint_word Let_def)
  next
    case False
    with big unsafe_varint_do_eq [of "drop_bit 7 v" "[ucast v OR 0x80]"] show ?thesis
      by (simp add: UnsafeVarint_def varint_word(2) [of v] Let_def)
  qed
qed

section \<open>Sizes: the formula is the length\<close>

lemma log2_step: "2 \<le> m \<Longrightarrow> Log2FloorNonZero m = Suc (Log2FloorNonZero (m div 2))"
  by (subst Log2FloorNonZero.simps) simp

lemma log2_div: "128 \<le> n \<Longrightarrow> Log2FloorNonZero n = Log2FloorNonZero (n div 128) + 7"
  using log2_step [of n] log2_step [of "n div 2"] log2_step [of "n div 4"] log2_step [of "n div 8"]
    log2_step [of "n div 16"] log2_step [of "n div 32"] log2_step [of "n div 64"]
  by (simp add: div_mult2_eq [symmetric])

lemma log2_bound: "n < 2 ^ k \<Longrightarrow> 0 < k \<Longrightarrow> Log2FloorNonZero n < k"
proof (induction k arbitrary: n)
  case (Suc k)
  show ?case
  proof (cases "n < 2")
    case True
    then show ?thesis by (simp add: Log2FloorNonZero.simps)
  next
    case False
    then have "0 < k" using Suc.prems(1) by (cases k) simp_all
    moreover have "n div 2 < 2 ^ k" using Suc.prems(1) by simp
    ultimately show ?thesis using Suc.IH [of "n div 2"] log2_step [of n] False by simp
  qed
qed simp

lemma log2_small: "n < 128 \<Longrightarrow> Log2FloorNonZero n div 7 = 0"
  using log2_bound [of n 7] by simp

lemma length_varint: "length (varint n) = Log2FloorNonZero n div 7 + 1"
proof (induction n rule: less_induct)
  case (less n)
  show ?case
  proof (cases "n < 128")
    case True
    then show ?thesis by (simp add: varint_small log2_small)
  next
    case False
    then have "length (varint (n div 128)) = Log2FloorNonZero (n div 128) div 7 + 1"
      by (intro less) simp
    with False varint_Suc [of n] log2_div [of n] show ?thesis by simp
  qed
qed

lemma log2_or_1: "Log2FloorNonZero (unat (v OR 1)) = Log2FloorNonZero (unat v)"
  for v :: "'a :: len word"
proof -
  have "unat (v OR 1) = unat v OR 1" unfolding unsigned_or_eq by simp
  then have "unat (v OR 1) = unat v + of_bool (even (unat v))" by (simp only: or_one_eq)
  moreover have "Log2FloorNonZero (n + of_bool (even n)) = Log2FloorNonZero n" for n
    by (subst (1 2) Log2FloorNonZero.simps) auto
  ultimately show ?thesis by simp
qed

lemma size_formula: "(l * 9 + 73) div 64 = l div 7 + 1" if "l < 64" for l :: nat
proof -
  have "list_all (\<lambda>l. (l * 9 + 73) div 64 = l div 7 + 1) [0 ..< 64 :: nat]" by code_simp
  then show ?thesis using that by (auto simp: list_all_iff)
qed

lemma log2_word_bound: "Log2FloorNonZero (unat v) < LENGTH('a)" for v :: "'a :: len word"
  by (rule log2_bound) simp_all

lemma VarintSize_eq:
  "VarintSize32 v = length (varint (unat v))" "VarintSize64 w = length (varint (unat w))"
  "VarintSize32PlusOne v = 1 + length (varint (unat v))"
  "VarintSize64PlusOne w = 1 + length (varint (unat w))"
  using log2_word_bound [of v] log2_word_bound [of w]
  by (simp_all add: VarintSize32_def VarintSize64_def VarintSize32PlusOne_def VarintSize64PlusOne_def
      log2_or_1 length_varint size_formula)

section \<open>Reading what was written\<close>

lemma byte_continues: "b AND 0x80 = 0 \<longleftrightarrow> unat b < 128" for b :: byte
proof -
  have "b AND 2 ^ 7 = 0 \<longleftrightarrow> \<not> bit b 7" by (rule and_exp_eq_0_iff_not_bit)
  moreover have "bit b 7 \<longleftrightarrow> bit (unat b) 7" by (simp add: bit_unsigned_iff)
  moreover have "bit (unat b) 7 \<longleftrightarrow> odd (unat b div 128)" by (simp add: bit_iff_odd)
  moreover have "unat b < 2 ^ LENGTH(8)" by (rule unsigned_less)
  ultimately show ?thesis by (auto simp: odd_iff_mod_2_eq_one)
qed

lemma two_bytes_eq:
  assumes "128 \<le> n" "n < 2 ^ 14"
  shows "two_bytes (of_nat (n mod 128 + 128)) (of_nat (n div 128)) = of_nat n"
proof -
  have small: "(ucast (of_nat k :: byte) :: uint32) = of_nat k" if "k < 256" for k
    using that by (simp add: unsigned_of_nat take_bit_nat_eq_self)
  have "n div 128 < 256" using assms by simp
  then have "two_bytes (of_nat (n mod 128 + 128)) (of_nat (n div 128))
      = of_nat (n mod 128 + 128) + (of_nat (n div 128) - 1) * 128"
    using small [of "n mod 128 + 128"] small [of "n div 128"]
    by (simp add: two_bytes_def push_bit_eq_mult del: of_nat_add)
  also have "\<dots> = of_nat (n mod 128 + 128 * (n div 128))"
    by (simp only: of_nat_add of_nat_mult) (simp add: algebra_simps)
  also have "n mod 128 + 128 * (n div 128) = n" by simp
  finally show ?thesis .
qed

text \<open>What the wire format documents of the library's functions, and that reading makes
  progress.\<close>

locale pb_runtime =
  fixes L :: pb_lib
  assumes slow64: "2 ^ 14 \<le> n \<Longrightarrow> n < 2 ^ 64 \<Longrightarrow> varint n = b0 # b1 # bs \<Longrightarrow>
      lib_VarintParseSlow64 L (varint n @ rest) (two_bytes b0 b1) = Some (of_nat n, rest)"
    and slow32: "2 ^ 14 \<le> n \<Longrightarrow> n < 2 ^ 64 \<Longrightarrow> varint n = b0 # b1 # bs \<Longrightarrow>
      lib_VarintParseSlow32 L (varint n @ rest) (two_bytes b0 b1) = Some (of_nat n, rest)"
    and greedy: "length s < 2 ^ 31 \<Longrightarrow>
      lib_InlineGreedyStringParser L (varint (length s) @ s @ rest) = Some (s, rest)"
    and limit: "length s < 2 ^ 31 \<Longrightarrow>
      lib_ReadSizeAndPushLimit L (varint (length s) @ s @ rest) = Some (s, rest)"
    and outline: "length s < 2 ^ 31 \<Longrightarrow>
      lib_WriteStringOutline L num s = UnsafeVarint (MakeTag num 2) @ varint (length s) @ s"
    and submessage: "length s < 2 ^ 31 \<Longrightarrow>
      lib_InternalWriteMessage L num s (length s) = UnsafeVarint (MakeTag num 2) @ varint (length s) @ s"
    and zero_fields: "lib_ZeroFieldsParse L []"
    and to_array: "length s = k \<Longrightarrow>
      lib_SerializeToArray L k s n = (if k \<le> n then Some s else None)"
    and progress:
      "lib_VarintParseSlow64 L p r = Some (v, p') \<Longrightarrow> length p' < length p"
      "lib_VarintParseSlow32 L p r = Some (w, p') \<Longrightarrow> length p' < length p"
      "lib_ReadTagFallback L p r = Some (w, p') \<Longrightarrow> length p' < length p"
      "lib_InlineGreedyStringParser L p = Some (s, p') \<Longrightarrow> length p' < length p"
      "lib_ReadSizeAndPushLimit L p = Some (s, p') \<Longrightarrow> length p' < length p"
      "lib_UnknownFieldParse L w p = Some p' \<Longrightarrow> length p' \<le> length p"
begin

lemma varint_cases:
  assumes "128 \<le> n"
  obtains bs where "varint n = of_nat (n mod 128 + 128) # varint (n div 128)"
    "varint (n div 128) = (if n < 2 ^ 14 then [of_nat (n div 128)]
       else of_nat (n div 128 mod 128 + 128) # bs)"
proof (cases "n < 2 ^ 14")
  case True
  then show ?thesis using that assms by (simp add: varint_Suc varint_small)
next
  case False
  then have "128 \<le> n div 128" by simp
  then show ?thesis using that [of "varint (n div 128 div 128)"] assms False
    by (simp add: varint_Suc [of n] varint_Suc [of "n div 128"])
qed

lemma unat_small: "n < 256 \<Longrightarrow> unat (of_nat n :: byte) = n"
  by (simp add: unat_of_nat)

lemma parse_varint64:
  assumes "n < 2 ^ 64"
  shows "VarintParse64 L (varint n @ rest) = Some (of_nat n, rest)"
proof (cases "n < 128")
  case True
  then show ?thesis
    by (simp add: varint_small byte_continues unat_small unsigned_of_nat take_bit_nat_eq_self)
next
  case False
  then obtain bs where v: "varint n = of_nat (n mod 128 + 128) # varint (n div 128)"
    "varint (n div 128) = (if n < 2 ^ 14 then [of_nat (n div 128)]
       else of_nat (n div 128 mod 128 + 128) # bs)"
    using varint_cases [of n] by auto
  show ?thesis
  proof (cases "n < 2 ^ 14")
    case True
    then have "n div 128 < 128" by simp
    moreover have "(ucast (of_nat n :: uint32) :: uint64) = of_nat n"
      using True by (simp add: unsigned_of_nat take_bit_nat_eq_self)
    ultimately show ?thesis
      using v True False two_bytes_eq [of n]
      by (simp add: byte_continues unat_small flip: of_nat_add)
  next
    case big: False
    let ?b0 = "of_nat (n mod 128 + 128)" and ?b1 = "of_nat (n div 128 mod 128 + 128)"
    have vn: "varint n = ?b0 # ?b1 # bs" using v big by simp
    have "lib_VarintParseSlow64 L (varint n @ rest) (two_bytes ?b0 ?b1) = Some (of_nat n, rest)"
      using slow64 [OF _ assms vn] big by simp
    then show ?thesis
      unfolding vn by (simp add: byte_continues unat_small flip: of_nat_add)
  qed
qed

lemma parse_varint32:
  assumes "n < 2 ^ 64"
  shows "VarintParse32 L (varint n @ rest) = Some (of_nat n, rest)"
proof (cases "n < 128")
  case True
  then show ?thesis
    by (simp add: varint_small byte_continues unat_small unsigned_of_nat take_bit_nat_eq_self)
next
  case False
  then obtain bs where v: "varint n = of_nat (n mod 128 + 128) # varint (n div 128)"
    "varint (n div 128) = (if n < 2 ^ 14 then [of_nat (n div 128)]
       else of_nat (n div 128 mod 128 + 128) # bs)"
    using varint_cases [of n] by auto
  show ?thesis
  proof (cases "n < 2 ^ 14")
    case True
    then have "n div 128 < 128" by simp
    then show ?thesis
      using v True False two_bytes_eq [of n]
      by (simp add: byte_continues unat_small flip: of_nat_add)
  next
    case big: False
    let ?b0 = "of_nat (n mod 128 + 128)" and ?b1 = "of_nat (n div 128 mod 128 + 128)"
    have vn: "varint n = ?b0 # ?b1 # bs" using v big by simp
    have "lib_VarintParseSlow32 L (varint n @ rest) (two_bytes ?b0 ?b1) = Some (of_nat n, rest)"
      using slow32 [OF _ assms vn] big by simp
    then show ?thesis
      unfolding vn by (simp add: byte_continues unat_small flip: of_nat_add)
  qed
qed

text \<open>\<open>parses field bs m m'\<close>: with any sufficient fuel the loop reads \<open>bs\<close> and turns \<open>m\<close> into
  \<open>m'\<close>.\<close>

definition parses ::
  "(uint32 \<Rightarrow> byte list \<Rightarrow> 'm \<Rightarrow> 'm field_result) \<Rightarrow> byte list \<Rightarrow> 'm \<Rightarrow> 'm \<Rightarrow> bool" where
  "parses field bs m m' \<longleftrightarrow> (\<forall>k \<ge> length bs. parse_loop L field k bs m = Some m')"

lemma parses_Nil: "parses field [] m m"
  by (simp add: parses_def)

lemma parses_message: "parses field bs m m' \<Longrightarrow> parse_message L field bs m = Some m'"
  by (simp add: parses_def parse_message_def)

lemma parses_field:
  assumes tag: "UnsafeVarint tag = [of_nat t]" "t < 128" "tag = of_nat t"
    and handled: "field tag (payload @ rest) m = Handled m1 rest"
    and rest: "parses field rest m1 m2"
  shows "parses field ((UnsafeVarint tag @ payload) @ rest) m m2"
  unfolding parses_def
proof (intro allI impI)
  fix k assume k: "length ((UnsafeVarint tag @ payload) @ rest) \<le> k"
  then obtain k' where k': "k = Suc k'" "length rest \<le> k'" using tag(1) by (cases k) auto
  have "ReadTag L (of_nat t # payload @ rest) = Some (tag, payload @ rest)"
    using tag(2,3) by (simp add: unat_small unsigned_of_nat take_bit_nat_eq_self)
  with k' handled rest show "parse_loop L field k ((UnsafeVarint tag @ payload) @ rest) m = Some m2"
    by (simp add: tag(1) parses_def)
qed

end

text \<open>The tags of the messages: field numbers one to four as varints and strings.\<close>

lemma MakeTag_values [simp]:
  "MakeTag (Suc 0) 0 = 8" "MakeTag 2 0 = 16" "MakeTag 3 0 = 24"
  "MakeTag (Suc 0) 2 = 10" "MakeTag 2 2 = 18" "MakeTag 3 2 = 26" "MakeTag 4 2 = 34"
  by (simp_all add: MakeTag_def)

lemma UnsafeVarint_tag [simp]: "unat v < 128 \<Longrightarrow> UnsafeVarint v = [ucast v]"
  by (simp add: UnsafeVarint_def)

text \<open>One rule per kind of field: what the writer of the field puts down, its reader takes up; a
  default value is not written, and the message already has it.\<close>

context pb_runtime
begin

lemma parses_tagged:
  assumes "unat tag < 128" "field tag (payload @ rest) m = Handled m1 rest" "parses field rest m1 m2"
  shows "parses field ((UnsafeVarint tag @ payload) @ rest) m m2"
  using assms by (intro parses_field [of tag "unat tag"]) simp_all

lemma parses_uint64:
  assumes "\<And>p. field (MakeTag num 0) p m = read_uint64 L upd p" "unat (MakeTag num 0) < 128"
    and "parses field rest (if v \<noteq> 0 then upd v else m) m2"
  shows "parses field ((if v \<noteq> 0 then WriteUInt64ToArray num v else []) @ rest) m m2"
proof (cases "v = 0")
  case False
  have "unat v < 2 ^ LENGTH(64)" by (rule unsigned_less)
  then have "VarintParse64 L (UnsafeVarint v @ rest) = Some (v, rest)"
    using parse_varint64 [of "unat v" rest] by (simp add: UnsafeVarint_eq)
  then have "field (MakeTag num 0) (UnsafeVarint v @ rest) m = Handled (upd v) rest"
    using assms(1) by (simp add: read_uint64_def)
  from parses_tagged [of "MakeTag num 0" field "UnsafeVarint v", OF assms(2) this, of m2] assms(3) False
  show ?thesis by (simp add: WriteUInt64ToArray_def WriteTagToArray_def)
qed (use assms in simp)

lemma parses_uint32:
  assumes "\<And>p. field (MakeTag num 0) p m = read_uint32 L upd p" "unat (MakeTag num 0) < 128"
    and "parses field rest (if v \<noteq> 0 then upd v else m) m2"
  shows "parses field ((if v \<noteq> 0 then WriteUInt32ToArray num v else []) @ rest) m m2"
proof (cases "v = 0")
  case False
  have "unat v < 2 ^ LENGTH(32)" by (rule unsigned_less)
  then have "VarintParse32 L (UnsafeVarint v @ rest) = Some (v, rest)"
    using parse_varint32 [of "unat v" rest] by (simp add: UnsafeVarint_eq)
  then have "field (MakeTag num 0) (UnsafeVarint v @ rest) m = Handled (upd v) rest"
    using assms(1) by (simp add: read_uint32_def)
  from parses_tagged [of "MakeTag num 0" field "UnsafeVarint v", OF assms(2) this, of m2] assms(3) False
  show ?thesis by (simp add: WriteUInt32ToArray_def WriteTagToArray_def)
qed (use assms in simp)

text \<open>A signed value is written sign-extended to 64 bits and read back from its low 32.\<close>

lemma sign_extended:
  assumes "int32_range v"
  shows "sint (of_nat (unat (word_of_int v :: uint64)) :: uint32) = v"
proof -
  have "(of_nat (unat (word_of_int v :: uint64)) :: uint32) = word_of_int v"
    by (simp add: unsigned_of_int word_of_int_eq_iff)
  then show ?thesis using assms by (simp add: int32_range_def signed_of_int signed_take_bit_int_eq_self)
qed

lemma parses_int32:
  assumes "\<And>p. field (MakeTag num 0) p m = read_int32 L upd p" "unat (MakeTag num 0) < 128"
    and "int32_range v" "parses field rest (if v \<noteq> 0 then upd v else m) m2"
  shows "parses field ((if v \<noteq> 0 then WriteInt32ToArray num v else []) @ rest) m m2"
proof (cases "v = 0")
  case False
  let ?w = "word_of_int v :: uint64"
  have "unat ?w < 2 ^ LENGTH(64)" by (rule unsigned_less)
  then have "VarintParse32 L (UnsafeVarint ?w @ rest) = Some (of_nat (unat ?w), rest)"
    using parse_varint32 [of "unat ?w" rest] by (simp only: UnsafeVarint_eq len_num0 len_num1) simp
  then have "field (MakeTag num 0) (UnsafeVarint ?w @ rest) m = Handled (upd v) rest"
    using assms(1) sign_extended [OF assms(3)] by (simp add: read_int32_def)
  from parses_tagged [of "MakeTag num 0" field "UnsafeVarint ?w", OF assms(2) this, of m2] assms(4) False
  show ?thesis by (simp add: WriteInt32ToArray_def WriteTagToArray_def)
qed (use assms in simp)

lemma parses_enum:
  assumes "\<And>p. field (MakeTag num 0) p m = read_enum L upd p" "unat (MakeTag num 0) < 128"
    and "int32_range v" "parses field rest (if v \<noteq> 0 then upd v else m) m2"
  shows "parses field ((if v \<noteq> 0 then WriteEnumToArray num v else []) @ rest) m m2"
proof (cases "v = 0")
  case False
  let ?w = "word_of_int v :: uint64"
  have "unat ?w < 2 ^ LENGTH(64)" by (rule unsigned_less)
  then have "VarintParse64 L (UnsafeVarint ?w @ rest) = Some (?w, rest)"
    using parse_varint64 [of "unat ?w" rest] by (simp add: UnsafeVarint_eq)
  then have "field (MakeTag num 0) (UnsafeVarint ?w @ rest) m = Handled (upd v) rest"
    using assms(1) sign_extended [OF assms(3)] by (simp add: read_enum_def)
  from parses_tagged [of "MakeTag num 0" field "UnsafeVarint ?w", OF assms(2) this, of m2] assms(4) False
  show ?thesis by (simp add: WriteEnumToArray_def WriteTagToArray_def)
qed (use assms in simp)

lemma parses_bool:
  assumes "\<And>p. field (MakeTag num 0) p m = read_bool L upd p" "unat (MakeTag num 0) < 128"
    and "parses field rest (if v then upd v else m) m2"
  shows "parses field ((if v then WriteBoolToArray num v else []) @ rest) m m2"
proof (cases v)
  case True
  have "VarintParse64 L (UnsafeVarint (1 :: uint32) @ rest) = Some (1, rest)"
    using parse_varint64 [of 1 rest] by (simp add: UnsafeVarint_eq)
  then have "field (MakeTag num 0) (UnsafeVarint (1 :: uint32) @ rest) m = Handled (upd v) rest"
    using assms(1) True by (simp add: read_bool_def)
  from parses_tagged [of "MakeTag num 0" field "UnsafeVarint (1 :: uint32)", OF assms(2) this, of m2] assms(3)
    True
  show ?thesis by (simp add: WriteBoolToArray_def WriteTagToArray_def)
qed (use assms in simp)

lemma WriteString_eq:
  assumes "length s < 2 ^ 31"
  shows "WriteStringMaybeAliased L room num s = UnsafeVarint (MakeTag num 2) @ varint (length s) @ s"
  using outline [OF assms] by (simp add: WriteStringMaybeAliased_def varint_small not_le)

lemma parses_string:
  assumes "\<And>p. field (MakeTag num 2) p m = read_string L upd p" "unat (MakeTag num 2) < 128"
    and "length s < 2 ^ 31" "lib_VerifyUTF8 L s" "parses field rest (if s \<noteq> [] then upd s else m) m2"
  shows "parses field ((if s \<noteq> [] then WriteStringMaybeAliased L room num s else []) @ rest) m m2"
proof (cases "s = []")
  case False
  have "field (MakeTag num 2) ((varint (length s) @ s) @ rest) m = Handled (upd s) rest"
    using assms(1,4) greedy [OF assms(3), of rest] by (simp add: read_string_def)
  from parses_tagged [of "MakeTag num 2" field "varint (length s) @ s", OF assms(2) this, of m2] assms(5) False
  show ?thesis by (simp add: WriteString_eq [OF assms(3)])
qed (use assms in simp)

text \<open>The fuel is enough: with readers that never move backwards, more fuel changes nothing.\<close>

lemma ReadTag_progress: "ReadTag L p = Some (tag, p') \<Longrightarrow> length p' < length p"
proof (cases p)
  case (Cons b0 q)
  assume tag: "ReadTag L p = Some (tag, p')"
  show ?thesis
  proof (cases q)
    case Nil
    with tag Cons show ?thesis by (simp split: if_splits)
  next
    case q: (Cons b1 q')
    with tag Cons progress(3) [of "b0 # b1 # q'" "two_bytes b0 b1" tag p'] show ?thesis
      by (auto split: if_splits)
  qed
qed simp

lemma VarintParse_progress:
  "VarintParse64 L p = Some (v, p') \<Longrightarrow> length p' < length p"
  "VarintParse32 L p = Some (w, p') \<Longrightarrow> length p' < length p"
proof -
  show "VarintParse64 L p = Some (v, p') \<Longrightarrow> length p' < length p"
    by (cases p; cases "tl p") (auto split: if_splits dest: progress(1))
  show "VarintParse32 L p = Some (w, p') \<Longrightarrow> length p' < length p"
    by (cases p; cases "tl p") (auto split: if_splits dest: progress(2))
qed

lemma read_progress:
  "read_uint64 L u1 p = Handled m p' \<Longrightarrow> length p' \<le> length p"
  "read_uint32 L u2 p = Handled m p' \<Longrightarrow> length p' \<le> length p"
  "read_int32 L u3 p = Handled m p' \<Longrightarrow> length p' \<le> length p"
  "read_enum L u4 p = Handled m p' \<Longrightarrow> length p' \<le> length p"
  "read_bool L u5 p = Handled m p' \<Longrightarrow> length p' \<le> length p"
  "read_string L u6 p = Handled m p' \<Longrightarrow> length p' \<le> length p"
  by (auto simp: read_uint64_def read_uint32_def read_int32_def read_enum_def read_bool_def read_string_def
      split: option.splits if_splits dest: VarintParse_progress progress(4))

lemma parse_fuel:
  assumes "\<And>tag p m m' p'. field tag p m = Handled m' p' \<Longrightarrow> length p' \<le> length p"
    and "length bs \<le> k" "length bs \<le> k'"
  shows "parse_loop L field k bs m = parse_loop L field k' bs m"
  using assms(2,3)
proof (induction k arbitrary: k' bs m)
  case (Suc k)
  show ?case
  proof (cases bs)
    case (Cons b p)
    then obtain j where j: "k' = Suc j" using Suc.prems(2) by (cases k') auto
    have rec: "parse_loop L field k q n = parse_loop L field j q n" if "length q < length bs" for q n
      using Suc.IH [of q j n] Suc.prems j that by simp
    show ?thesis
    proof (cases "ReadTag L (b # p)")
      case (Some tq)
      obtain t q where tq: "tq = (t, q)" by fastforce
      have q: "length q < length bs" using ReadTag_progress [of "b # p" t q] Some tq Cons by simp
      show ?thesis
      proof (cases "field t q m")
        case (Handled m1 q1)
        then have "length q1 < length bs" using assms(1) q by (meson le_less_trans)
        with Some tq Handled Cons j rec show ?thesis by simp
      next
        case Unusual
        have "length q1 < length bs" if "lib_UnknownFieldParse L t q = Some q1" for q1
          using progress(6) [OF that] q by simp
        with Some tq Unusual Cons j rec show ?thesis by (simp split: option.splits)
      qed (use Some tq Cons j in simp)
    qed (use Cons j in simp)
  qed simp
qed simp

lemma length_field:
  assumes "unat (MakeTag num 0) < 128"
  shows "length (WriteUInt64ToArray num v) = VarintSize64PlusOne v"
    and "length (WriteUInt32ToArray num u) = VarintSize32PlusOne u"
    and "length (WriteInt32ToArray num i) = VarintSize32SignExtendedPlusOne i"
    and "length (WriteEnumToArray num i) = 1 + VarintSize32SignExtended i"
    and "length (WriteBoolToArray num b) = 1 + 1"
  using assms
  by (simp_all add: WriteUInt64ToArray_def WriteUInt32ToArray_def WriteInt32ToArray_def
      WriteEnumToArray_def WriteBoolToArray_def WriteTagToArray_def VarintSize_eq
      VarintSize32SignExtended_def VarintSize32SignExtendedPlusOne_def UnsafeVarint_eq
      varint_small)

lemma length_string_field:
  assumes "unat (MakeTag num 2) < 128" "length s < 2 ^ 31"
  shows "length (WriteStringMaybeAliased L room num s) = 1 + StringSize s"
  using assms
  by (simp add: WriteString_eq StringSize_def LengthDelimitedSize_def VarintSize_eq unat_of_nat)

end

section \<open>A reference library\<close>

text \<open>The wire format's own algorithms: a varint of at most ten bytes, a length prefix, skipping a
  field by its wire type.\<close>

fun ref_varint :: "nat \<Rightarrow> byte list \<Rightarrow> (nat \<times> byte list) option" where
  "ref_varint 0 p = None"
| "ref_varint (Suc k) [] = None"
| "ref_varint (Suc k) (b # p) =
     (if unat b < 128 then Some (unat b, p)
      else case ref_varint k p of None \<Rightarrow> None
        | Some (v, p) \<Rightarrow> Some (unat b - 128 + 128 * v, p))"

definition ref_delimited :: "byte list \<Rightarrow> (byte list \<times> byte list) option" where
  "ref_delimited p = (case ref_varint 5 p of None \<Rightarrow> None
     | Some (n, p) \<Rightarrow> if n \<le> length p then Some (take n p, drop n p) else None)"

definition ref_skip :: "uint32 \<Rightarrow> byte list \<Rightarrow> byte list option" where
  "ref_skip tag p = (let wt = unat (tag AND 7) in
     if wt = 0 then map_option snd (ref_varint 10 p)
     else if wt = 1 then if length p \<ge> 8 then Some (drop 8 p) else None
     else if wt = 2 then map_option snd (ref_delimited p)
     else if wt = 5 then if length p \<ge> 4 then Some (drop 4 p) else None
     else None)"

definition ref_lib :: pb_lib where
  "ref_lib = \<lparr>
     lib_VarintParseSlow32 = (\<lambda>p _. map_option (map_prod of_nat id) (ref_varint 10 p)),
     lib_VarintParseSlow64 = (\<lambda>p _. map_option (map_prod of_nat id) (ref_varint 10 p)),
     lib_ReadTagFallback = (\<lambda>p _. map_option (map_prod of_nat id) (ref_varint 5 p)),
     lib_InlineGreedyStringParser = ref_delimited,
     lib_ReadSizeAndPushLimit = ref_delimited,
     lib_VerifyUTF8 = (\<lambda>s. \<forall>b \<in> set s. unat b < 128),
     lib_UnknownFieldParse = ref_skip,
     lib_WriteStringOutline = (\<lambda>num s. UnsafeVarint (MakeTag num 2) @ varint (length s) @ s),
     lib_InternalWriteMessage =
       (\<lambda>num s size. UnsafeVarint (MakeTag num 2) @ varint size @ s),
     lib_ZeroFieldsParse = (\<lambda>p. p = []),
     lib_SerializeToArray = (\<lambda>k s n. if k \<le> n then Some s else None)\<rparr>"

lemma ref_varint_encode:
  "n < 128 ^ k \<Longrightarrow> 0 < k \<Longrightarrow> ref_varint k (varint n @ rest) = Some (n, rest)"
proof (induction k arbitrary: n)
  case (Suc k)
  show ?case
  proof (cases "n < 128")
    case True
    then show ?thesis by (simp add: varint_small unat_of_nat)
  next
    case False
    then have "0 < k" using Suc.prems(1) by (cases k) simp_all
    moreover have "n div 128 < 128 ^ k" using Suc.prems(1) by (simp add: less_mult_imp_div_less)
    ultimately have "ref_varint k (varint (n div 128) @ rest) = Some (n div 128, rest)"
      by (rule Suc.IH [rotated])
    with False show ?thesis
      by (simp add: varint_Suc [of n] unat_of_nat flip: of_nat_add)
  qed
qed simp

lemma ref_varint_progress: "ref_varint k p = Some (v, p') \<Longrightarrow> length p' < length p"
  by (induction k p arbitrary: v p' rule: ref_varint.induct)
    (auto split: if_splits option.splits simp: less_Suc_eq)

lemma ref_delimited_encode:
  "length s < 2 ^ 31 \<Longrightarrow> ref_delimited (varint (length s) @ s @ rest) = Some (s, rest)"
  using ref_varint_encode [of "length s" 5 "s @ rest"] by (simp add: ref_delimited_def)

lemma ref_delimited_progress: "ref_delimited p = Some (s, p') \<Longrightarrow> length p' < length p"
  by (auto simp: ref_delimited_def split: option.splits if_splits dest!: ref_varint_progress)

interpretation ref: pb_runtime ref_lib
proof
  show "lib_VarintParseSlow64 ref_lib (varint n @ rest) r = Some (of_nat n, rest)"
    "lib_VarintParseSlow32 ref_lib (varint n @ rest) r = Some (of_nat n, rest)"
    if "n < 2 ^ 64" for n rest r
    using ref_varint_encode [of n 10 rest] that by (simp_all add: ref_lib_def)
qed (auto simp: ref_lib_def ref_delimited_encode ref_skip_def Let_def split: if_splits
    dest: ref_varint_progress ref_delimited_progress)

end
