(* ===== verification/Messages.thy ===== *)
theory Messages
  imports WireFormat
begin

text \<open>
  The messages of \<^verbatim>\<open>Protobuf/Protocol.pb.cc\<close> and \<^verbatim>\<open>Protobuf/Struct.pb.cc\<close>, as the generated code
  stores, copies, parses, serializes and measures them.  For a message \<open>M\<close>: the record \<open>M\<close>, the
  constructors \<open>M_new\<close> and \<open>M_copy\<close>, \<open>M_Clear\<close>, \<open>M_MergeImpl\<close>, \<open>M_CopyFrom\<close> (\<open>same\<close> tells whether the two
  references are the same object), \<open>M_InternalSwap\<close>, the \<open>switch\<close> of its parser \<open>M_field\<close>,
  \<open>M_InternalParse\<close>, \<open>M_InternalSerialize\<close> (\<open>room k\<close> is the space in the output buffer at field \<open>k\<close>) and
  \<open>M_ByteSizeLong\<close>.  Enumerations are open, so an enum field is the 32-bit integer on the wire.  The
  two messages without fields are \<open>ZeroFieldsBase\<close>, whose parser is the library's.  \<open>M_valid\<close> bounds the
  fields by their C++ types.  The lemmas \<open>M_laws\<close> show that clearing resets every field and that the
  copies are copies.
\<close>

section \<open>Model\<close>

subsection \<open>SessionInfo\<close>

record SessionInfo =
  session_info_session_id :: uint64

definition SessionInfo_new :: SessionInfo where
  "SessionInfo_new = \<lparr>session_info_session_id = 0\<rparr>"

definition SessionInfo_copy :: "SessionInfo \<Rightarrow> SessionInfo" where
  "SessionInfo_copy from = SessionInfo_new
     \<lparr>session_info_session_id := session_info_session_id from\<rparr>"

definition SessionInfo_Clear :: "SessionInfo \<Rightarrow> SessionInfo" where
  "SessionInfo_Clear m = m\<lparr>session_info_session_id := 0\<rparr>"

definition SessionInfo_MergeImpl :: "SessionInfo \<Rightarrow> SessionInfo \<Rightarrow> SessionInfo" where
  "SessionInfo_MergeImpl this from =
     (let this = (if session_info_session_id from \<noteq> 0 then this\<lparr>session_info_session_id := session_info_session_id from\<rparr> else this)
      in this)"

definition SessionInfo_CopyFrom :: "bool \<Rightarrow> SessionInfo \<Rightarrow> SessionInfo \<Rightarrow> SessionInfo" where
  "SessionInfo_CopyFrom same this from =
     (if same then this else SessionInfo_MergeImpl (SessionInfo_Clear this) from)"

definition SessionInfo_InternalSwap :: "SessionInfo \<Rightarrow> SessionInfo \<Rightarrow> SessionInfo \<times> SessionInfo" where
  "SessionInfo_InternalSwap this other =
     (this\<lparr>session_info_session_id := session_info_session_id other\<rparr>,
      other\<lparr>session_info_session_id := session_info_session_id this\<rparr>)"

definition SessionInfo_field :: "pb_lib \<Rightarrow> uint32 \<Rightarrow> byte list \<Rightarrow> SessionInfo \<Rightarrow> SessionInfo field_result" where
  "SessionInfo_field L tag p m =
     (if drop_bit 3 tag = 1 then
        on_tag 8 tag (read_uint64 L (\<lambda>v. m\<lparr>session_info_session_id := v\<rparr>) p)
      else Unusual)"

definition SessionInfo_InternalParse :: "pb_lib \<Rightarrow> byte list \<Rightarrow> SessionInfo \<Rightarrow> SessionInfo option" where
  "SessionInfo_InternalParse L bs m = parse_message L (SessionInfo_field L) bs m"

definition SessionInfo_InternalSerialize :: "pb_lib \<Rightarrow> (nat \<Rightarrow> nat) \<Rightarrow> SessionInfo \<Rightarrow> byte list" where
  "SessionInfo_InternalSerialize L room m =
     (if session_info_session_id m \<noteq> 0 then WriteUInt64ToArray 1 (session_info_session_id m) else [])"

definition SessionInfo_ByteSizeLong :: "SessionInfo \<Rightarrow> nat" where
  "SessionInfo_ByteSizeLong m =
     (if session_info_session_id m \<noteq> 0 then VarintSize64PlusOne (session_info_session_id m) else 0)"

definition SessionInfo_valid :: "pb_lib \<Rightarrow> SessionInfo \<Rightarrow> bool" where
  "SessionInfo_valid L m \<longleftrightarrow> True"

subsection \<open>UserInfo\<close>

record UserInfo =
  user_info_user_idx :: uint64
  user_info_player_name :: "byte list"

definition UserInfo_new :: UserInfo where
  "UserInfo_new = \<lparr>user_info_user_idx = 0,
     user_info_player_name = []\<rparr>"

definition UserInfo_copy :: "UserInfo \<Rightarrow> UserInfo" where
  "UserInfo_copy from = UserInfo_new
     \<lparr>user_info_player_name := if user_info_player_name from \<noteq> [] then user_info_player_name from else [],
      user_info_user_idx := user_info_user_idx from\<rparr>"

definition UserInfo_Clear :: "UserInfo \<Rightarrow> UserInfo" where
  "UserInfo_Clear m = m\<lparr>user_info_player_name := [],
      user_info_user_idx := 0\<rparr>"

definition UserInfo_MergeImpl :: "UserInfo \<Rightarrow> UserInfo \<Rightarrow> UserInfo" where
  "UserInfo_MergeImpl this from =
     (let this = (if user_info_player_name from \<noteq> [] then this\<lparr>user_info_player_name := user_info_player_name from\<rparr> else this);
          this = (if user_info_user_idx from \<noteq> 0 then this\<lparr>user_info_user_idx := user_info_user_idx from\<rparr> else this)
      in this)"

definition UserInfo_CopyFrom :: "bool \<Rightarrow> UserInfo \<Rightarrow> UserInfo \<Rightarrow> UserInfo" where
  "UserInfo_CopyFrom same this from =
     (if same then this else UserInfo_MergeImpl (UserInfo_Clear this) from)"

definition UserInfo_InternalSwap :: "UserInfo \<Rightarrow> UserInfo \<Rightarrow> UserInfo \<times> UserInfo" where
  "UserInfo_InternalSwap this other =
     (this\<lparr>user_info_player_name := user_info_player_name other,
           user_info_user_idx := user_info_user_idx other\<rparr>,
      other\<lparr>user_info_player_name := user_info_player_name this,
            user_info_user_idx := user_info_user_idx this\<rparr>)"

definition UserInfo_field :: "pb_lib \<Rightarrow> uint32 \<Rightarrow> byte list \<Rightarrow> UserInfo \<Rightarrow> UserInfo field_result" where
  "UserInfo_field L tag p m =
     (if drop_bit 3 tag = 1 then
        on_tag 8 tag (read_uint64 L (\<lambda>v. m\<lparr>user_info_user_idx := v\<rparr>) p)
      else if drop_bit 3 tag = 2 then
        on_tag 18 tag (read_string L (\<lambda>v. m\<lparr>user_info_player_name := v\<rparr>) p)
      else Unusual)"

definition UserInfo_InternalParse :: "pb_lib \<Rightarrow> byte list \<Rightarrow> UserInfo \<Rightarrow> UserInfo option" where
  "UserInfo_InternalParse L bs m = parse_message L (UserInfo_field L) bs m"

definition UserInfo_InternalSerialize :: "pb_lib \<Rightarrow> (nat \<Rightarrow> nat) \<Rightarrow> UserInfo \<Rightarrow> byte list" where
  "UserInfo_InternalSerialize L room m =
     (if user_info_user_idx m \<noteq> 0 then WriteUInt64ToArray 1 (user_info_user_idx m) else []) @
     (if user_info_player_name m \<noteq> [] then WriteStringMaybeAliased L (room 2) 2 (user_info_player_name m) else [])"

definition UserInfo_ByteSizeLong :: "UserInfo \<Rightarrow> nat" where
  "UserInfo_ByteSizeLong m =
     (if user_info_player_name m \<noteq> [] then 1 + StringSize (user_info_player_name m) else 0) +
     (if user_info_user_idx m \<noteq> 0 then VarintSize64PlusOne (user_info_user_idx m) else 0)"

definition UserInfo_valid :: "pb_lib \<Rightarrow> UserInfo \<Rightarrow> bool" where
  "UserInfo_valid L m \<longleftrightarrow> length (user_info_player_name m) < 2 ^ 31 \<and> lib_VerifyUTF8 L (user_info_player_name m)"

subsection \<open>RoomInfo\<close>

record RoomInfo =
  room_info_room_id :: int
  room_info_cur_enter_user_count :: int
  room_info_cur_enter_max_count :: int

definition RoomInfo_new :: RoomInfo where
  "RoomInfo_new = \<lparr>room_info_room_id = 0,
     room_info_cur_enter_user_count = 0,
     room_info_cur_enter_max_count = 0\<rparr>"

definition RoomInfo_copy :: "RoomInfo \<Rightarrow> RoomInfo" where
  "RoomInfo_copy from = RoomInfo_new
     \<lparr>room_info_room_id := room_info_room_id from,
      room_info_cur_enter_user_count := room_info_cur_enter_user_count from,
      room_info_cur_enter_max_count := room_info_cur_enter_max_count from\<rparr>"

definition RoomInfo_Clear :: "RoomInfo \<Rightarrow> RoomInfo" where
  "RoomInfo_Clear m = m\<lparr>room_info_room_id := 0,
      room_info_cur_enter_user_count := 0,
      room_info_cur_enter_max_count := 0\<rparr>"

definition RoomInfo_MergeImpl :: "RoomInfo \<Rightarrow> RoomInfo \<Rightarrow> RoomInfo" where
  "RoomInfo_MergeImpl this from =
     (let this = (if room_info_room_id from \<noteq> 0 then this\<lparr>room_info_room_id := room_info_room_id from\<rparr> else this);
          this = (if room_info_cur_enter_user_count from \<noteq> 0 then this\<lparr>room_info_cur_enter_user_count := room_info_cur_enter_user_count from\<rparr> else this);
          this = (if room_info_cur_enter_max_count from \<noteq> 0 then this\<lparr>room_info_cur_enter_max_count := room_info_cur_enter_max_count from\<rparr> else this)
      in this)"

definition RoomInfo_CopyFrom :: "bool \<Rightarrow> RoomInfo \<Rightarrow> RoomInfo \<Rightarrow> RoomInfo" where
  "RoomInfo_CopyFrom same this from =
     (if same then this else RoomInfo_MergeImpl (RoomInfo_Clear this) from)"

definition RoomInfo_InternalSwap :: "RoomInfo \<Rightarrow> RoomInfo \<Rightarrow> RoomInfo \<times> RoomInfo" where
  "RoomInfo_InternalSwap this other =
     (this\<lparr>room_info_room_id := room_info_room_id other,
           room_info_cur_enter_user_count := room_info_cur_enter_user_count other,
           room_info_cur_enter_max_count := room_info_cur_enter_max_count other\<rparr>,
      other\<lparr>room_info_room_id := room_info_room_id this,
            room_info_cur_enter_user_count := room_info_cur_enter_user_count this,
            room_info_cur_enter_max_count := room_info_cur_enter_max_count this\<rparr>)"

definition RoomInfo_field :: "pb_lib \<Rightarrow> uint32 \<Rightarrow> byte list \<Rightarrow> RoomInfo \<Rightarrow> RoomInfo field_result" where
  "RoomInfo_field L tag p m =
     (if drop_bit 3 tag = 1 then
        on_tag 8 tag (read_int32 L (\<lambda>v. m\<lparr>room_info_room_id := v\<rparr>) p)
      else if drop_bit 3 tag = 2 then
        on_tag 16 tag (read_int32 L (\<lambda>v. m\<lparr>room_info_cur_enter_user_count := v\<rparr>) p)
      else if drop_bit 3 tag = 3 then
        on_tag 24 tag (read_int32 L (\<lambda>v. m\<lparr>room_info_cur_enter_max_count := v\<rparr>) p)
      else Unusual)"

definition RoomInfo_InternalParse :: "pb_lib \<Rightarrow> byte list \<Rightarrow> RoomInfo \<Rightarrow> RoomInfo option" where
  "RoomInfo_InternalParse L bs m = parse_message L (RoomInfo_field L) bs m"

definition RoomInfo_InternalSerialize :: "pb_lib \<Rightarrow> (nat \<Rightarrow> nat) \<Rightarrow> RoomInfo \<Rightarrow> byte list" where
  "RoomInfo_InternalSerialize L room m =
     (if room_info_room_id m \<noteq> 0 then WriteInt32ToArray 1 (room_info_room_id m) else []) @
     (if room_info_cur_enter_user_count m \<noteq> 0 then WriteInt32ToArray 2 (room_info_cur_enter_user_count m) else []) @
     (if room_info_cur_enter_max_count m \<noteq> 0 then WriteInt32ToArray 3 (room_info_cur_enter_max_count m) else [])"

definition RoomInfo_ByteSizeLong :: "RoomInfo \<Rightarrow> nat" where
  "RoomInfo_ByteSizeLong m =
     (if room_info_room_id m \<noteq> 0 then VarintSize32SignExtendedPlusOne (room_info_room_id m) else 0) +
     (if room_info_cur_enter_user_count m \<noteq> 0 then VarintSize32SignExtendedPlusOne (room_info_cur_enter_user_count m) else 0) +
     (if room_info_cur_enter_max_count m \<noteq> 0 then VarintSize32SignExtendedPlusOne (room_info_cur_enter_max_count m) else 0)"

definition RoomInfo_valid :: "pb_lib \<Rightarrow> RoomInfo \<Rightarrow> bool" where
  "RoomInfo_valid L m \<longleftrightarrow> int32_range (room_info_room_id m) \<and>
     int32_range (room_info_cur_enter_user_count m) \<and>
     int32_range (room_info_cur_enter_max_count m)"

subsection \<open>REQ_LOGIN\<close>

record REQ_LOGIN =
  req_login_is_create :: bool
  req_login_id :: "byte list"
  req_login_pw :: "byte list"
  req_login_name :: "byte list"

definition REQ_LOGIN_new :: REQ_LOGIN where
  "REQ_LOGIN_new = \<lparr>req_login_is_create = False,
     req_login_id = [],
     req_login_pw = [],
     req_login_name = []\<rparr>"

definition REQ_LOGIN_copy :: "REQ_LOGIN \<Rightarrow> REQ_LOGIN" where
  "REQ_LOGIN_copy from = REQ_LOGIN_new
     \<lparr>req_login_id := if req_login_id from \<noteq> [] then req_login_id from else [],
      req_login_pw := if req_login_pw from \<noteq> [] then req_login_pw from else [],
      req_login_name := if req_login_name from \<noteq> [] then req_login_name from else [],
      req_login_is_create := req_login_is_create from\<rparr>"

definition REQ_LOGIN_Clear :: "REQ_LOGIN \<Rightarrow> REQ_LOGIN" where
  "REQ_LOGIN_Clear m = m\<lparr>req_login_id := [],
      req_login_pw := [],
      req_login_name := [],
      req_login_is_create := False\<rparr>"

definition REQ_LOGIN_MergeImpl :: "REQ_LOGIN \<Rightarrow> REQ_LOGIN \<Rightarrow> REQ_LOGIN" where
  "REQ_LOGIN_MergeImpl this from =
     (let this = (if req_login_id from \<noteq> [] then this\<lparr>req_login_id := req_login_id from\<rparr> else this);
          this = (if req_login_pw from \<noteq> [] then this\<lparr>req_login_pw := req_login_pw from\<rparr> else this);
          this = (if req_login_name from \<noteq> [] then this\<lparr>req_login_name := req_login_name from\<rparr> else this);
          this = (if req_login_is_create from then this\<lparr>req_login_is_create := req_login_is_create from\<rparr> else this)
      in this)"

definition REQ_LOGIN_CopyFrom :: "bool \<Rightarrow> REQ_LOGIN \<Rightarrow> REQ_LOGIN \<Rightarrow> REQ_LOGIN" where
  "REQ_LOGIN_CopyFrom same this from =
     (if same then this else REQ_LOGIN_MergeImpl (REQ_LOGIN_Clear this) from)"

definition REQ_LOGIN_InternalSwap :: "REQ_LOGIN \<Rightarrow> REQ_LOGIN \<Rightarrow> REQ_LOGIN \<times> REQ_LOGIN" where
  "REQ_LOGIN_InternalSwap this other =
     (this\<lparr>req_login_id := req_login_id other,
           req_login_pw := req_login_pw other,
           req_login_name := req_login_name other,
           req_login_is_create := req_login_is_create other\<rparr>,
      other\<lparr>req_login_id := req_login_id this,
            req_login_pw := req_login_pw this,
            req_login_name := req_login_name this,
            req_login_is_create := req_login_is_create this\<rparr>)"

definition REQ_LOGIN_field :: "pb_lib \<Rightarrow> uint32 \<Rightarrow> byte list \<Rightarrow> REQ_LOGIN \<Rightarrow> REQ_LOGIN field_result" where
  "REQ_LOGIN_field L tag p m =
     (if drop_bit 3 tag = 1 then
        on_tag 8 tag (read_bool L (\<lambda>v. m\<lparr>req_login_is_create := v\<rparr>) p)
      else if drop_bit 3 tag = 2 then
        on_tag 18 tag (read_string L (\<lambda>v. m\<lparr>req_login_id := v\<rparr>) p)
      else if drop_bit 3 tag = 3 then
        on_tag 26 tag (read_string L (\<lambda>v. m\<lparr>req_login_pw := v\<rparr>) p)
      else if drop_bit 3 tag = 4 then
        on_tag 34 tag (read_string L (\<lambda>v. m\<lparr>req_login_name := v\<rparr>) p)
      else Unusual)"

definition REQ_LOGIN_InternalParse :: "pb_lib \<Rightarrow> byte list \<Rightarrow> REQ_LOGIN \<Rightarrow> REQ_LOGIN option" where
  "REQ_LOGIN_InternalParse L bs m = parse_message L (REQ_LOGIN_field L) bs m"

definition REQ_LOGIN_InternalSerialize :: "pb_lib \<Rightarrow> (nat \<Rightarrow> nat) \<Rightarrow> REQ_LOGIN \<Rightarrow> byte list" where
  "REQ_LOGIN_InternalSerialize L room m =
     (if req_login_is_create m then WriteBoolToArray 1 (req_login_is_create m) else []) @
     (if req_login_id m \<noteq> [] then WriteStringMaybeAliased L (room 2) 2 (req_login_id m) else []) @
     (if req_login_pw m \<noteq> [] then WriteStringMaybeAliased L (room 3) 3 (req_login_pw m) else []) @
     (if req_login_name m \<noteq> [] then WriteStringMaybeAliased L (room 4) 4 (req_login_name m) else [])"

definition REQ_LOGIN_ByteSizeLong :: "REQ_LOGIN \<Rightarrow> nat" where
  "REQ_LOGIN_ByteSizeLong m =
     (if req_login_id m \<noteq> [] then 1 + StringSize (req_login_id m) else 0) +
     (if req_login_pw m \<noteq> [] then 1 + StringSize (req_login_pw m) else 0) +
     (if req_login_name m \<noteq> [] then 1 + StringSize (req_login_name m) else 0) +
     (if req_login_is_create m then 1 + 1 else 0)"

definition REQ_LOGIN_valid :: "pb_lib \<Rightarrow> REQ_LOGIN \<Rightarrow> bool" where
  "REQ_LOGIN_valid L m \<longleftrightarrow> length (req_login_id m) < 2 ^ 31 \<and> lib_VerifyUTF8 L (req_login_id m) \<and>
     length (req_login_pw m) < 2 ^ 31 \<and> lib_VerifyUTF8 L (req_login_pw m) \<and>
     length (req_login_name m) < 2 ^ 31 \<and> lib_VerifyUTF8 L (req_login_name m)"

subsection \<open>ACK_LOGIN\<close>

record ACK_LOGIN =
  ack_login_idx :: uint64
  ack_login_user_name :: "byte list"
  ack_login_result :: int

definition ACK_LOGIN_new :: ACK_LOGIN where
  "ACK_LOGIN_new = \<lparr>ack_login_idx = 0,
     ack_login_user_name = [],
     ack_login_result = 0\<rparr>"

definition ACK_LOGIN_copy :: "ACK_LOGIN \<Rightarrow> ACK_LOGIN" where
  "ACK_LOGIN_copy from = ACK_LOGIN_new
     \<lparr>ack_login_user_name := if ack_login_user_name from \<noteq> [] then ack_login_user_name from else [],
      ack_login_idx := ack_login_idx from,
      ack_login_result := ack_login_result from\<rparr>"

definition ACK_LOGIN_Clear :: "ACK_LOGIN \<Rightarrow> ACK_LOGIN" where
  "ACK_LOGIN_Clear m = m\<lparr>ack_login_user_name := [],
      ack_login_idx := 0,
      ack_login_result := 0\<rparr>"

definition ACK_LOGIN_MergeImpl :: "ACK_LOGIN \<Rightarrow> ACK_LOGIN \<Rightarrow> ACK_LOGIN" where
  "ACK_LOGIN_MergeImpl this from =
     (let this = (if ack_login_user_name from \<noteq> [] then this\<lparr>ack_login_user_name := ack_login_user_name from\<rparr> else this);
          this = (if ack_login_idx from \<noteq> 0 then this\<lparr>ack_login_idx := ack_login_idx from\<rparr> else this);
          this = (if ack_login_result from \<noteq> 0 then this\<lparr>ack_login_result := ack_login_result from\<rparr> else this)
      in this)"

definition ACK_LOGIN_CopyFrom :: "bool \<Rightarrow> ACK_LOGIN \<Rightarrow> ACK_LOGIN \<Rightarrow> ACK_LOGIN" where
  "ACK_LOGIN_CopyFrom same this from =
     (if same then this else ACK_LOGIN_MergeImpl (ACK_LOGIN_Clear this) from)"

definition ACK_LOGIN_InternalSwap :: "ACK_LOGIN \<Rightarrow> ACK_LOGIN \<Rightarrow> ACK_LOGIN \<times> ACK_LOGIN" where
  "ACK_LOGIN_InternalSwap this other =
     (this\<lparr>ack_login_user_name := ack_login_user_name other,
           ack_login_idx := ack_login_idx other,
           ack_login_result := ack_login_result other\<rparr>,
      other\<lparr>ack_login_user_name := ack_login_user_name this,
            ack_login_idx := ack_login_idx this,
            ack_login_result := ack_login_result this\<rparr>)"

definition ACK_LOGIN_field :: "pb_lib \<Rightarrow> uint32 \<Rightarrow> byte list \<Rightarrow> ACK_LOGIN \<Rightarrow> ACK_LOGIN field_result" where
  "ACK_LOGIN_field L tag p m =
     (if drop_bit 3 tag = 1 then
        on_tag 8 tag (read_uint64 L (\<lambda>v. m\<lparr>ack_login_idx := v\<rparr>) p)
      else if drop_bit 3 tag = 2 then
        on_tag 18 tag (read_string L (\<lambda>v. m\<lparr>ack_login_user_name := v\<rparr>) p)
      else if drop_bit 3 tag = 3 then
        on_tag 24 tag (read_enum L (\<lambda>v. m\<lparr>ack_login_result := v\<rparr>) p)
      else Unusual)"

definition ACK_LOGIN_InternalParse :: "pb_lib \<Rightarrow> byte list \<Rightarrow> ACK_LOGIN \<Rightarrow> ACK_LOGIN option" where
  "ACK_LOGIN_InternalParse L bs m = parse_message L (ACK_LOGIN_field L) bs m"

definition ACK_LOGIN_InternalSerialize :: "pb_lib \<Rightarrow> (nat \<Rightarrow> nat) \<Rightarrow> ACK_LOGIN \<Rightarrow> byte list" where
  "ACK_LOGIN_InternalSerialize L room m =
     (if ack_login_idx m \<noteq> 0 then WriteUInt64ToArray 1 (ack_login_idx m) else []) @
     (if ack_login_user_name m \<noteq> [] then WriteStringMaybeAliased L (room 2) 2 (ack_login_user_name m) else []) @
     (if ack_login_result m \<noteq> 0 then WriteEnumToArray 3 (ack_login_result m) else [])"

definition ACK_LOGIN_ByteSizeLong :: "ACK_LOGIN \<Rightarrow> nat" where
  "ACK_LOGIN_ByteSizeLong m =
     (if ack_login_user_name m \<noteq> [] then 1 + StringSize (ack_login_user_name m) else 0) +
     (if ack_login_idx m \<noteq> 0 then VarintSize64PlusOne (ack_login_idx m) else 0) +
     (if ack_login_result m \<noteq> 0 then 1 + VarintSize32SignExtended (ack_login_result m) else 0)"

definition ACK_LOGIN_valid :: "pb_lib \<Rightarrow> ACK_LOGIN \<Rightarrow> bool" where
  "ACK_LOGIN_valid L m \<longleftrightarrow> length (ack_login_user_name m) < 2 ^ 31 \<and> lib_VerifyUTF8 L (ack_login_user_name m) \<and>
     int32_range (ack_login_result m)"

subsection \<open>REQ_BOT_LOGIN\<close>

record REQ_BOT_LOGIN =
  req_bot_login_is_create :: bool
  req_bot_login_id :: "byte list"
  req_bot_login_pw :: "byte list"
  req_bot_login_name :: "byte list"

definition REQ_BOT_LOGIN_new :: REQ_BOT_LOGIN where
  "REQ_BOT_LOGIN_new = \<lparr>req_bot_login_is_create = False,
     req_bot_login_id = [],
     req_bot_login_pw = [],
     req_bot_login_name = []\<rparr>"

definition REQ_BOT_LOGIN_copy :: "REQ_BOT_LOGIN \<Rightarrow> REQ_BOT_LOGIN" where
  "REQ_BOT_LOGIN_copy from = REQ_BOT_LOGIN_new
     \<lparr>req_bot_login_id := if req_bot_login_id from \<noteq> [] then req_bot_login_id from else [],
      req_bot_login_pw := if req_bot_login_pw from \<noteq> [] then req_bot_login_pw from else [],
      req_bot_login_name := if req_bot_login_name from \<noteq> [] then req_bot_login_name from else [],
      req_bot_login_is_create := req_bot_login_is_create from\<rparr>"

definition REQ_BOT_LOGIN_Clear :: "REQ_BOT_LOGIN \<Rightarrow> REQ_BOT_LOGIN" where
  "REQ_BOT_LOGIN_Clear m = m\<lparr>req_bot_login_id := [],
      req_bot_login_pw := [],
      req_bot_login_name := [],
      req_bot_login_is_create := False\<rparr>"

definition REQ_BOT_LOGIN_MergeImpl :: "REQ_BOT_LOGIN \<Rightarrow> REQ_BOT_LOGIN \<Rightarrow> REQ_BOT_LOGIN" where
  "REQ_BOT_LOGIN_MergeImpl this from =
     (let this = (if req_bot_login_id from \<noteq> [] then this\<lparr>req_bot_login_id := req_bot_login_id from\<rparr> else this);
          this = (if req_bot_login_pw from \<noteq> [] then this\<lparr>req_bot_login_pw := req_bot_login_pw from\<rparr> else this);
          this = (if req_bot_login_name from \<noteq> [] then this\<lparr>req_bot_login_name := req_bot_login_name from\<rparr> else this);
          this = (if req_bot_login_is_create from then this\<lparr>req_bot_login_is_create := req_bot_login_is_create from\<rparr> else this)
      in this)"

definition REQ_BOT_LOGIN_CopyFrom :: "bool \<Rightarrow> REQ_BOT_LOGIN \<Rightarrow> REQ_BOT_LOGIN \<Rightarrow> REQ_BOT_LOGIN" where
  "REQ_BOT_LOGIN_CopyFrom same this from =
     (if same then this else REQ_BOT_LOGIN_MergeImpl (REQ_BOT_LOGIN_Clear this) from)"

definition REQ_BOT_LOGIN_InternalSwap :: "REQ_BOT_LOGIN \<Rightarrow> REQ_BOT_LOGIN \<Rightarrow> REQ_BOT_LOGIN \<times> REQ_BOT_LOGIN" where
  "REQ_BOT_LOGIN_InternalSwap this other =
     (this\<lparr>req_bot_login_id := req_bot_login_id other,
           req_bot_login_pw := req_bot_login_pw other,
           req_bot_login_name := req_bot_login_name other,
           req_bot_login_is_create := req_bot_login_is_create other\<rparr>,
      other\<lparr>req_bot_login_id := req_bot_login_id this,
            req_bot_login_pw := req_bot_login_pw this,
            req_bot_login_name := req_bot_login_name this,
            req_bot_login_is_create := req_bot_login_is_create this\<rparr>)"

definition REQ_BOT_LOGIN_field :: "pb_lib \<Rightarrow> uint32 \<Rightarrow> byte list \<Rightarrow> REQ_BOT_LOGIN \<Rightarrow> REQ_BOT_LOGIN field_result" where
  "REQ_BOT_LOGIN_field L tag p m =
     (if drop_bit 3 tag = 1 then
        on_tag 8 tag (read_bool L (\<lambda>v. m\<lparr>req_bot_login_is_create := v\<rparr>) p)
      else if drop_bit 3 tag = 2 then
        on_tag 18 tag (read_string L (\<lambda>v. m\<lparr>req_bot_login_id := v\<rparr>) p)
      else if drop_bit 3 tag = 3 then
        on_tag 26 tag (read_string L (\<lambda>v. m\<lparr>req_bot_login_pw := v\<rparr>) p)
      else if drop_bit 3 tag = 4 then
        on_tag 34 tag (read_string L (\<lambda>v. m\<lparr>req_bot_login_name := v\<rparr>) p)
      else Unusual)"

definition REQ_BOT_LOGIN_InternalParse :: "pb_lib \<Rightarrow> byte list \<Rightarrow> REQ_BOT_LOGIN \<Rightarrow> REQ_BOT_LOGIN option" where
  "REQ_BOT_LOGIN_InternalParse L bs m = parse_message L (REQ_BOT_LOGIN_field L) bs m"

definition REQ_BOT_LOGIN_InternalSerialize :: "pb_lib \<Rightarrow> (nat \<Rightarrow> nat) \<Rightarrow> REQ_BOT_LOGIN \<Rightarrow> byte list" where
  "REQ_BOT_LOGIN_InternalSerialize L room m =
     (if req_bot_login_is_create m then WriteBoolToArray 1 (req_bot_login_is_create m) else []) @
     (if req_bot_login_id m \<noteq> [] then WriteStringMaybeAliased L (room 2) 2 (req_bot_login_id m) else []) @
     (if req_bot_login_pw m \<noteq> [] then WriteStringMaybeAliased L (room 3) 3 (req_bot_login_pw m) else []) @
     (if req_bot_login_name m \<noteq> [] then WriteStringMaybeAliased L (room 4) 4 (req_bot_login_name m) else [])"

definition REQ_BOT_LOGIN_ByteSizeLong :: "REQ_BOT_LOGIN \<Rightarrow> nat" where
  "REQ_BOT_LOGIN_ByteSizeLong m =
     (if req_bot_login_id m \<noteq> [] then 1 + StringSize (req_bot_login_id m) else 0) +
     (if req_bot_login_pw m \<noteq> [] then 1 + StringSize (req_bot_login_pw m) else 0) +
     (if req_bot_login_name m \<noteq> [] then 1 + StringSize (req_bot_login_name m) else 0) +
     (if req_bot_login_is_create m then 1 + 1 else 0)"

definition REQ_BOT_LOGIN_valid :: "pb_lib \<Rightarrow> REQ_BOT_LOGIN \<Rightarrow> bool" where
  "REQ_BOT_LOGIN_valid L m \<longleftrightarrow> length (req_bot_login_id m) < 2 ^ 31 \<and> lib_VerifyUTF8 L (req_bot_login_id m) \<and>
     length (req_bot_login_pw m) < 2 ^ 31 \<and> lib_VerifyUTF8 L (req_bot_login_pw m) \<and>
     length (req_bot_login_name m) < 2 ^ 31 \<and> lib_VerifyUTF8 L (req_bot_login_name m)"

subsection \<open>ACK_BOT_LOGIN\<close>

record ACK_BOT_LOGIN =
  ack_bot_login_idx :: uint64
  ack_bot_login_user_name :: "byte list"
  ack_bot_login_result :: int

definition ACK_BOT_LOGIN_new :: ACK_BOT_LOGIN where
  "ACK_BOT_LOGIN_new = \<lparr>ack_bot_login_idx = 0,
     ack_bot_login_user_name = [],
     ack_bot_login_result = 0\<rparr>"

definition ACK_BOT_LOGIN_copy :: "ACK_BOT_LOGIN \<Rightarrow> ACK_BOT_LOGIN" where
  "ACK_BOT_LOGIN_copy from = ACK_BOT_LOGIN_new
     \<lparr>ack_bot_login_user_name := if ack_bot_login_user_name from \<noteq> [] then ack_bot_login_user_name from else [],
      ack_bot_login_idx := ack_bot_login_idx from,
      ack_bot_login_result := ack_bot_login_result from\<rparr>"

definition ACK_BOT_LOGIN_Clear :: "ACK_BOT_LOGIN \<Rightarrow> ACK_BOT_LOGIN" where
  "ACK_BOT_LOGIN_Clear m = m\<lparr>ack_bot_login_user_name := [],
      ack_bot_login_idx := 0,
      ack_bot_login_result := 0\<rparr>"

definition ACK_BOT_LOGIN_MergeImpl :: "ACK_BOT_LOGIN \<Rightarrow> ACK_BOT_LOGIN \<Rightarrow> ACK_BOT_LOGIN" where
  "ACK_BOT_LOGIN_MergeImpl this from =
     (let this = (if ack_bot_login_user_name from \<noteq> [] then this\<lparr>ack_bot_login_user_name := ack_bot_login_user_name from\<rparr> else this);
          this = (if ack_bot_login_idx from \<noteq> 0 then this\<lparr>ack_bot_login_idx := ack_bot_login_idx from\<rparr> else this);
          this = (if ack_bot_login_result from \<noteq> 0 then this\<lparr>ack_bot_login_result := ack_bot_login_result from\<rparr> else this)
      in this)"

definition ACK_BOT_LOGIN_CopyFrom :: "bool \<Rightarrow> ACK_BOT_LOGIN \<Rightarrow> ACK_BOT_LOGIN \<Rightarrow> ACK_BOT_LOGIN" where
  "ACK_BOT_LOGIN_CopyFrom same this from =
     (if same then this else ACK_BOT_LOGIN_MergeImpl (ACK_BOT_LOGIN_Clear this) from)"

definition ACK_BOT_LOGIN_InternalSwap :: "ACK_BOT_LOGIN \<Rightarrow> ACK_BOT_LOGIN \<Rightarrow> ACK_BOT_LOGIN \<times> ACK_BOT_LOGIN" where
  "ACK_BOT_LOGIN_InternalSwap this other =
     (this\<lparr>ack_bot_login_user_name := ack_bot_login_user_name other,
           ack_bot_login_idx := ack_bot_login_idx other,
           ack_bot_login_result := ack_bot_login_result other\<rparr>,
      other\<lparr>ack_bot_login_user_name := ack_bot_login_user_name this,
            ack_bot_login_idx := ack_bot_login_idx this,
            ack_bot_login_result := ack_bot_login_result this\<rparr>)"

definition ACK_BOT_LOGIN_field :: "pb_lib \<Rightarrow> uint32 \<Rightarrow> byte list \<Rightarrow> ACK_BOT_LOGIN \<Rightarrow> ACK_BOT_LOGIN field_result" where
  "ACK_BOT_LOGIN_field L tag p m =
     (if drop_bit 3 tag = 1 then
        on_tag 8 tag (read_uint64 L (\<lambda>v. m\<lparr>ack_bot_login_idx := v\<rparr>) p)
      else if drop_bit 3 tag = 2 then
        on_tag 18 tag (read_string L (\<lambda>v. m\<lparr>ack_bot_login_user_name := v\<rparr>) p)
      else if drop_bit 3 tag = 3 then
        on_tag 24 tag (read_enum L (\<lambda>v. m\<lparr>ack_bot_login_result := v\<rparr>) p)
      else Unusual)"

definition ACK_BOT_LOGIN_InternalParse :: "pb_lib \<Rightarrow> byte list \<Rightarrow> ACK_BOT_LOGIN \<Rightarrow> ACK_BOT_LOGIN option" where
  "ACK_BOT_LOGIN_InternalParse L bs m = parse_message L (ACK_BOT_LOGIN_field L) bs m"

definition ACK_BOT_LOGIN_InternalSerialize :: "pb_lib \<Rightarrow> (nat \<Rightarrow> nat) \<Rightarrow> ACK_BOT_LOGIN \<Rightarrow> byte list" where
  "ACK_BOT_LOGIN_InternalSerialize L room m =
     (if ack_bot_login_idx m \<noteq> 0 then WriteUInt64ToArray 1 (ack_bot_login_idx m) else []) @
     (if ack_bot_login_user_name m \<noteq> [] then WriteStringMaybeAliased L (room 2) 2 (ack_bot_login_user_name m) else []) @
     (if ack_bot_login_result m \<noteq> 0 then WriteEnumToArray 3 (ack_bot_login_result m) else [])"

definition ACK_BOT_LOGIN_ByteSizeLong :: "ACK_BOT_LOGIN \<Rightarrow> nat" where
  "ACK_BOT_LOGIN_ByteSizeLong m =
     (if ack_bot_login_user_name m \<noteq> [] then 1 + StringSize (ack_bot_login_user_name m) else 0) +
     (if ack_bot_login_idx m \<noteq> 0 then VarintSize64PlusOne (ack_bot_login_idx m) else 0) +
     (if ack_bot_login_result m \<noteq> 0 then 1 + VarintSize32SignExtended (ack_bot_login_result m) else 0)"

definition ACK_BOT_LOGIN_valid :: "pb_lib \<Rightarrow> ACK_BOT_LOGIN \<Rightarrow> bool" where
  "ACK_BOT_LOGIN_valid L m \<longleftrightarrow> length (ack_bot_login_user_name m) < 2 ^ 31 \<and> lib_VerifyUTF8 L (ack_bot_login_user_name m) \<and>
     int32_range (ack_bot_login_result m)"

subsection \<open>REQ_LOGOUT\<close>

record REQ_LOGOUT =
  req_logout_idx :: uint64

definition REQ_LOGOUT_new :: REQ_LOGOUT where
  "REQ_LOGOUT_new = \<lparr>req_logout_idx = 0\<rparr>"

definition REQ_LOGOUT_copy :: "REQ_LOGOUT \<Rightarrow> REQ_LOGOUT" where
  "REQ_LOGOUT_copy from = REQ_LOGOUT_new
     \<lparr>req_logout_idx := req_logout_idx from\<rparr>"

definition REQ_LOGOUT_Clear :: "REQ_LOGOUT \<Rightarrow> REQ_LOGOUT" where
  "REQ_LOGOUT_Clear m = m\<lparr>req_logout_idx := 0\<rparr>"

definition REQ_LOGOUT_MergeImpl :: "REQ_LOGOUT \<Rightarrow> REQ_LOGOUT \<Rightarrow> REQ_LOGOUT" where
  "REQ_LOGOUT_MergeImpl this from =
     (let this = (if req_logout_idx from \<noteq> 0 then this\<lparr>req_logout_idx := req_logout_idx from\<rparr> else this)
      in this)"

definition REQ_LOGOUT_CopyFrom :: "bool \<Rightarrow> REQ_LOGOUT \<Rightarrow> REQ_LOGOUT \<Rightarrow> REQ_LOGOUT" where
  "REQ_LOGOUT_CopyFrom same this from =
     (if same then this else REQ_LOGOUT_MergeImpl (REQ_LOGOUT_Clear this) from)"

definition REQ_LOGOUT_InternalSwap :: "REQ_LOGOUT \<Rightarrow> REQ_LOGOUT \<Rightarrow> REQ_LOGOUT \<times> REQ_LOGOUT" where
  "REQ_LOGOUT_InternalSwap this other =
     (this\<lparr>req_logout_idx := req_logout_idx other\<rparr>,
      other\<lparr>req_logout_idx := req_logout_idx this\<rparr>)"

definition REQ_LOGOUT_field :: "pb_lib \<Rightarrow> uint32 \<Rightarrow> byte list \<Rightarrow> REQ_LOGOUT \<Rightarrow> REQ_LOGOUT field_result" where
  "REQ_LOGOUT_field L tag p m =
     (if drop_bit 3 tag = 1 then
        on_tag 8 tag (read_uint64 L (\<lambda>v. m\<lparr>req_logout_idx := v\<rparr>) p)
      else Unusual)"

definition REQ_LOGOUT_InternalParse :: "pb_lib \<Rightarrow> byte list \<Rightarrow> REQ_LOGOUT \<Rightarrow> REQ_LOGOUT option" where
  "REQ_LOGOUT_InternalParse L bs m = parse_message L (REQ_LOGOUT_field L) bs m"

definition REQ_LOGOUT_InternalSerialize :: "pb_lib \<Rightarrow> (nat \<Rightarrow> nat) \<Rightarrow> REQ_LOGOUT \<Rightarrow> byte list" where
  "REQ_LOGOUT_InternalSerialize L room m =
     (if req_logout_idx m \<noteq> 0 then WriteUInt64ToArray 1 (req_logout_idx m) else [])"

definition REQ_LOGOUT_ByteSizeLong :: "REQ_LOGOUT \<Rightarrow> nat" where
  "REQ_LOGOUT_ByteSizeLong m =
     (if req_logout_idx m \<noteq> 0 then VarintSize64PlusOne (req_logout_idx m) else 0)"

definition REQ_LOGOUT_valid :: "pb_lib \<Rightarrow> REQ_LOGOUT \<Rightarrow> bool" where
  "REQ_LOGOUT_valid L m \<longleftrightarrow> True"

subsection \<open>ACK_LOGOUT\<close>

record ACK_LOGOUT =
  ack_logout_result :: int

definition ACK_LOGOUT_new :: ACK_LOGOUT where
  "ACK_LOGOUT_new = \<lparr>ack_logout_result = 0\<rparr>"

definition ACK_LOGOUT_copy :: "ACK_LOGOUT \<Rightarrow> ACK_LOGOUT" where
  "ACK_LOGOUT_copy from = ACK_LOGOUT_new
     \<lparr>ack_logout_result := ack_logout_result from\<rparr>"

definition ACK_LOGOUT_Clear :: "ACK_LOGOUT \<Rightarrow> ACK_LOGOUT" where
  "ACK_LOGOUT_Clear m = m\<lparr>ack_logout_result := 0\<rparr>"

definition ACK_LOGOUT_MergeImpl :: "ACK_LOGOUT \<Rightarrow> ACK_LOGOUT \<Rightarrow> ACK_LOGOUT" where
  "ACK_LOGOUT_MergeImpl this from =
     (let this = (if ack_logout_result from \<noteq> 0 then this\<lparr>ack_logout_result := ack_logout_result from\<rparr> else this)
      in this)"

definition ACK_LOGOUT_CopyFrom :: "bool \<Rightarrow> ACK_LOGOUT \<Rightarrow> ACK_LOGOUT \<Rightarrow> ACK_LOGOUT" where
  "ACK_LOGOUT_CopyFrom same this from =
     (if same then this else ACK_LOGOUT_MergeImpl (ACK_LOGOUT_Clear this) from)"

definition ACK_LOGOUT_InternalSwap :: "ACK_LOGOUT \<Rightarrow> ACK_LOGOUT \<Rightarrow> ACK_LOGOUT \<times> ACK_LOGOUT" where
  "ACK_LOGOUT_InternalSwap this other =
     (this\<lparr>ack_logout_result := ack_logout_result other\<rparr>,
      other\<lparr>ack_logout_result := ack_logout_result this\<rparr>)"

definition ACK_LOGOUT_field :: "pb_lib \<Rightarrow> uint32 \<Rightarrow> byte list \<Rightarrow> ACK_LOGOUT \<Rightarrow> ACK_LOGOUT field_result" where
  "ACK_LOGOUT_field L tag p m =
     (if drop_bit 3 tag = 1 then
        on_tag 8 tag (read_enum L (\<lambda>v. m\<lparr>ack_logout_result := v\<rparr>) p)
      else Unusual)"

definition ACK_LOGOUT_InternalParse :: "pb_lib \<Rightarrow> byte list \<Rightarrow> ACK_LOGOUT \<Rightarrow> ACK_LOGOUT option" where
  "ACK_LOGOUT_InternalParse L bs m = parse_message L (ACK_LOGOUT_field L) bs m"

definition ACK_LOGOUT_InternalSerialize :: "pb_lib \<Rightarrow> (nat \<Rightarrow> nat) \<Rightarrow> ACK_LOGOUT \<Rightarrow> byte list" where
  "ACK_LOGOUT_InternalSerialize L room m =
     (if ack_logout_result m \<noteq> 0 then WriteEnumToArray 1 (ack_logout_result m) else [])"

definition ACK_LOGOUT_ByteSizeLong :: "ACK_LOGOUT \<Rightarrow> nat" where
  "ACK_LOGOUT_ByteSizeLong m =
     (if ack_logout_result m \<noteq> 0 then 1 + VarintSize32SignExtended (ack_logout_result m) else 0)"

definition ACK_LOGOUT_valid :: "pb_lib \<Rightarrow> ACK_LOGOUT \<Rightarrow> bool" where
  "ACK_LOGOUT_valid L m \<longleftrightarrow> int32_range (ack_logout_result m)"

subsection \<open>REQ_ENTER_ROOM\<close>

record REQ_ENTER_ROOM =
  req_enter_room_room_id :: int

definition REQ_ENTER_ROOM_new :: REQ_ENTER_ROOM where
  "REQ_ENTER_ROOM_new = \<lparr>req_enter_room_room_id = 0\<rparr>"

definition REQ_ENTER_ROOM_copy :: "REQ_ENTER_ROOM \<Rightarrow> REQ_ENTER_ROOM" where
  "REQ_ENTER_ROOM_copy from = REQ_ENTER_ROOM_new
     \<lparr>req_enter_room_room_id := req_enter_room_room_id from\<rparr>"

definition REQ_ENTER_ROOM_Clear :: "REQ_ENTER_ROOM \<Rightarrow> REQ_ENTER_ROOM" where
  "REQ_ENTER_ROOM_Clear m = m\<lparr>req_enter_room_room_id := 0\<rparr>"

definition REQ_ENTER_ROOM_MergeImpl :: "REQ_ENTER_ROOM \<Rightarrow> REQ_ENTER_ROOM \<Rightarrow> REQ_ENTER_ROOM" where
  "REQ_ENTER_ROOM_MergeImpl this from =
     (let this = (if req_enter_room_room_id from \<noteq> 0 then this\<lparr>req_enter_room_room_id := req_enter_room_room_id from\<rparr> else this)
      in this)"

definition REQ_ENTER_ROOM_CopyFrom :: "bool \<Rightarrow> REQ_ENTER_ROOM \<Rightarrow> REQ_ENTER_ROOM \<Rightarrow> REQ_ENTER_ROOM" where
  "REQ_ENTER_ROOM_CopyFrom same this from =
     (if same then this else REQ_ENTER_ROOM_MergeImpl (REQ_ENTER_ROOM_Clear this) from)"

definition REQ_ENTER_ROOM_InternalSwap :: "REQ_ENTER_ROOM \<Rightarrow> REQ_ENTER_ROOM \<Rightarrow> REQ_ENTER_ROOM \<times> REQ_ENTER_ROOM" where
  "REQ_ENTER_ROOM_InternalSwap this other =
     (this\<lparr>req_enter_room_room_id := req_enter_room_room_id other\<rparr>,
      other\<lparr>req_enter_room_room_id := req_enter_room_room_id this\<rparr>)"

definition REQ_ENTER_ROOM_field :: "pb_lib \<Rightarrow> uint32 \<Rightarrow> byte list \<Rightarrow> REQ_ENTER_ROOM \<Rightarrow> REQ_ENTER_ROOM field_result" where
  "REQ_ENTER_ROOM_field L tag p m =
     (if drop_bit 3 tag = 1 then
        on_tag 8 tag (read_int32 L (\<lambda>v. m\<lparr>req_enter_room_room_id := v\<rparr>) p)
      else Unusual)"

definition REQ_ENTER_ROOM_InternalParse :: "pb_lib \<Rightarrow> byte list \<Rightarrow> REQ_ENTER_ROOM \<Rightarrow> REQ_ENTER_ROOM option" where
  "REQ_ENTER_ROOM_InternalParse L bs m = parse_message L (REQ_ENTER_ROOM_field L) bs m"

definition REQ_ENTER_ROOM_InternalSerialize :: "pb_lib \<Rightarrow> (nat \<Rightarrow> nat) \<Rightarrow> REQ_ENTER_ROOM \<Rightarrow> byte list" where
  "REQ_ENTER_ROOM_InternalSerialize L room m =
     (if req_enter_room_room_id m \<noteq> 0 then WriteInt32ToArray 1 (req_enter_room_room_id m) else [])"

definition REQ_ENTER_ROOM_ByteSizeLong :: "REQ_ENTER_ROOM \<Rightarrow> nat" where
  "REQ_ENTER_ROOM_ByteSizeLong m =
     (if req_enter_room_room_id m \<noteq> 0 then VarintSize32SignExtendedPlusOne (req_enter_room_room_id m) else 0)"

definition REQ_ENTER_ROOM_valid :: "pb_lib \<Rightarrow> REQ_ENTER_ROOM \<Rightarrow> bool" where
  "REQ_ENTER_ROOM_valid L m \<longleftrightarrow> int32_range (req_enter_room_room_id m)"

subsection \<open>ACK_ENTER_ROOM\<close>

record ACK_ENTER_ROOM =
  ack_enter_room_room_id :: int
  ack_enter_room_result :: int

definition ACK_ENTER_ROOM_new :: ACK_ENTER_ROOM where
  "ACK_ENTER_ROOM_new = \<lparr>ack_enter_room_room_id = 0,
     ack_enter_room_result = 0\<rparr>"

definition ACK_ENTER_ROOM_copy :: "ACK_ENTER_ROOM \<Rightarrow> ACK_ENTER_ROOM" where
  "ACK_ENTER_ROOM_copy from = ACK_ENTER_ROOM_new
     \<lparr>ack_enter_room_room_id := ack_enter_room_room_id from,
      ack_enter_room_result := ack_enter_room_result from\<rparr>"

definition ACK_ENTER_ROOM_Clear :: "ACK_ENTER_ROOM \<Rightarrow> ACK_ENTER_ROOM" where
  "ACK_ENTER_ROOM_Clear m = m\<lparr>ack_enter_room_room_id := 0,
      ack_enter_room_result := 0\<rparr>"

definition ACK_ENTER_ROOM_MergeImpl :: "ACK_ENTER_ROOM \<Rightarrow> ACK_ENTER_ROOM \<Rightarrow> ACK_ENTER_ROOM" where
  "ACK_ENTER_ROOM_MergeImpl this from =
     (let this = (if ack_enter_room_room_id from \<noteq> 0 then this\<lparr>ack_enter_room_room_id := ack_enter_room_room_id from\<rparr> else this);
          this = (if ack_enter_room_result from \<noteq> 0 then this\<lparr>ack_enter_room_result := ack_enter_room_result from\<rparr> else this)
      in this)"

definition ACK_ENTER_ROOM_CopyFrom :: "bool \<Rightarrow> ACK_ENTER_ROOM \<Rightarrow> ACK_ENTER_ROOM \<Rightarrow> ACK_ENTER_ROOM" where
  "ACK_ENTER_ROOM_CopyFrom same this from =
     (if same then this else ACK_ENTER_ROOM_MergeImpl (ACK_ENTER_ROOM_Clear this) from)"

definition ACK_ENTER_ROOM_InternalSwap :: "ACK_ENTER_ROOM \<Rightarrow> ACK_ENTER_ROOM \<Rightarrow> ACK_ENTER_ROOM \<times> ACK_ENTER_ROOM" where
  "ACK_ENTER_ROOM_InternalSwap this other =
     (this\<lparr>ack_enter_room_room_id := ack_enter_room_room_id other,
           ack_enter_room_result := ack_enter_room_result other\<rparr>,
      other\<lparr>ack_enter_room_room_id := ack_enter_room_room_id this,
            ack_enter_room_result := ack_enter_room_result this\<rparr>)"

definition ACK_ENTER_ROOM_field :: "pb_lib \<Rightarrow> uint32 \<Rightarrow> byte list \<Rightarrow> ACK_ENTER_ROOM \<Rightarrow> ACK_ENTER_ROOM field_result" where
  "ACK_ENTER_ROOM_field L tag p m =
     (if drop_bit 3 tag = 1 then
        on_tag 8 tag (read_int32 L (\<lambda>v. m\<lparr>ack_enter_room_room_id := v\<rparr>) p)
      else if drop_bit 3 tag = 2 then
        on_tag 16 tag (read_enum L (\<lambda>v. m\<lparr>ack_enter_room_result := v\<rparr>) p)
      else Unusual)"

definition ACK_ENTER_ROOM_InternalParse :: "pb_lib \<Rightarrow> byte list \<Rightarrow> ACK_ENTER_ROOM \<Rightarrow> ACK_ENTER_ROOM option" where
  "ACK_ENTER_ROOM_InternalParse L bs m = parse_message L (ACK_ENTER_ROOM_field L) bs m"

definition ACK_ENTER_ROOM_InternalSerialize :: "pb_lib \<Rightarrow> (nat \<Rightarrow> nat) \<Rightarrow> ACK_ENTER_ROOM \<Rightarrow> byte list" where
  "ACK_ENTER_ROOM_InternalSerialize L room m =
     (if ack_enter_room_room_id m \<noteq> 0 then WriteInt32ToArray 1 (ack_enter_room_room_id m) else []) @
     (if ack_enter_room_result m \<noteq> 0 then WriteEnumToArray 2 (ack_enter_room_result m) else [])"

definition ACK_ENTER_ROOM_ByteSizeLong :: "ACK_ENTER_ROOM \<Rightarrow> nat" where
  "ACK_ENTER_ROOM_ByteSizeLong m =
     (if ack_enter_room_room_id m \<noteq> 0 then VarintSize32SignExtendedPlusOne (ack_enter_room_room_id m) else 0) +
     (if ack_enter_room_result m \<noteq> 0 then 1 + VarintSize32SignExtended (ack_enter_room_result m) else 0)"

definition ACK_ENTER_ROOM_valid :: "pb_lib \<Rightarrow> ACK_ENTER_ROOM \<Rightarrow> bool" where
  "ACK_ENTER_ROOM_valid L m \<longleftrightarrow> int32_range (ack_enter_room_room_id m) \<and>
     int32_range (ack_enter_room_result m)"

subsection \<open>ACK_EXIT_ROOM\<close>

record ACK_EXIT_ROOM =
  ack_exit_room_result :: int

definition ACK_EXIT_ROOM_new :: ACK_EXIT_ROOM where
  "ACK_EXIT_ROOM_new = \<lparr>ack_exit_room_result = 0\<rparr>"

definition ACK_EXIT_ROOM_copy :: "ACK_EXIT_ROOM \<Rightarrow> ACK_EXIT_ROOM" where
  "ACK_EXIT_ROOM_copy from = ACK_EXIT_ROOM_new
     \<lparr>ack_exit_room_result := ack_exit_room_result from\<rparr>"

definition ACK_EXIT_ROOM_Clear :: "ACK_EXIT_ROOM \<Rightarrow> ACK_EXIT_ROOM" where
  "ACK_EXIT_ROOM_Clear m = m\<lparr>ack_exit_room_result := 0\<rparr>"

definition ACK_EXIT_ROOM_MergeImpl :: "ACK_EXIT_ROOM \<Rightarrow> ACK_EXIT_ROOM \<Rightarrow> ACK_EXIT_ROOM" where
  "ACK_EXIT_ROOM_MergeImpl this from =
     (let this = (if ack_exit_room_result from \<noteq> 0 then this\<lparr>ack_exit_room_result := ack_exit_room_result from\<rparr> else this)
      in this)"

definition ACK_EXIT_ROOM_CopyFrom :: "bool \<Rightarrow> ACK_EXIT_ROOM \<Rightarrow> ACK_EXIT_ROOM \<Rightarrow> ACK_EXIT_ROOM" where
  "ACK_EXIT_ROOM_CopyFrom same this from =
     (if same then this else ACK_EXIT_ROOM_MergeImpl (ACK_EXIT_ROOM_Clear this) from)"

definition ACK_EXIT_ROOM_InternalSwap :: "ACK_EXIT_ROOM \<Rightarrow> ACK_EXIT_ROOM \<Rightarrow> ACK_EXIT_ROOM \<times> ACK_EXIT_ROOM" where
  "ACK_EXIT_ROOM_InternalSwap this other =
     (this\<lparr>ack_exit_room_result := ack_exit_room_result other\<rparr>,
      other\<lparr>ack_exit_room_result := ack_exit_room_result this\<rparr>)"

definition ACK_EXIT_ROOM_field :: "pb_lib \<Rightarrow> uint32 \<Rightarrow> byte list \<Rightarrow> ACK_EXIT_ROOM \<Rightarrow> ACK_EXIT_ROOM field_result" where
  "ACK_EXIT_ROOM_field L tag p m =
     (if drop_bit 3 tag = 1 then
        on_tag 8 tag (read_enum L (\<lambda>v. m\<lparr>ack_exit_room_result := v\<rparr>) p)
      else Unusual)"

definition ACK_EXIT_ROOM_InternalParse :: "pb_lib \<Rightarrow> byte list \<Rightarrow> ACK_EXIT_ROOM \<Rightarrow> ACK_EXIT_ROOM option" where
  "ACK_EXIT_ROOM_InternalParse L bs m = parse_message L (ACK_EXIT_ROOM_field L) bs m"

definition ACK_EXIT_ROOM_InternalSerialize :: "pb_lib \<Rightarrow> (nat \<Rightarrow> nat) \<Rightarrow> ACK_EXIT_ROOM \<Rightarrow> byte list" where
  "ACK_EXIT_ROOM_InternalSerialize L room m =
     (if ack_exit_room_result m \<noteq> 0 then WriteEnumToArray 1 (ack_exit_room_result m) else [])"

definition ACK_EXIT_ROOM_ByteSizeLong :: "ACK_EXIT_ROOM \<Rightarrow> nat" where
  "ACK_EXIT_ROOM_ByteSizeLong m =
     (if ack_exit_room_result m \<noteq> 0 then 1 + VarintSize32SignExtended (ack_exit_room_result m) else 0)"

definition ACK_EXIT_ROOM_valid :: "pb_lib \<Rightarrow> ACK_EXIT_ROOM \<Rightarrow> bool" where
  "ACK_EXIT_ROOM_valid L m \<longleftrightarrow> int32_range (ack_exit_room_result m)"

subsection \<open>REQ_CHAT\<close>

record REQ_CHAT =
  req_chat_message :: "byte list"
  req_chat_chat_state :: int
  req_chat_room_id :: int
  req_chat_target_name :: "byte list"

definition REQ_CHAT_new :: REQ_CHAT where
  "REQ_CHAT_new = \<lparr>req_chat_message = [],
     req_chat_chat_state = 0,
     req_chat_room_id = 0,
     req_chat_target_name = []\<rparr>"

definition REQ_CHAT_copy :: "REQ_CHAT \<Rightarrow> REQ_CHAT" where
  "REQ_CHAT_copy from = REQ_CHAT_new
     \<lparr>req_chat_message := if req_chat_message from \<noteq> [] then req_chat_message from else [],
      req_chat_target_name := if req_chat_target_name from \<noteq> [] then req_chat_target_name from else [],
      req_chat_chat_state := req_chat_chat_state from,
      req_chat_room_id := req_chat_room_id from\<rparr>"

definition REQ_CHAT_Clear :: "REQ_CHAT \<Rightarrow> REQ_CHAT" where
  "REQ_CHAT_Clear m = m\<lparr>req_chat_message := [],
      req_chat_target_name := [],
      req_chat_chat_state := 0,
      req_chat_room_id := 0\<rparr>"

definition REQ_CHAT_MergeImpl :: "REQ_CHAT \<Rightarrow> REQ_CHAT \<Rightarrow> REQ_CHAT" where
  "REQ_CHAT_MergeImpl this from =
     (let this = (if req_chat_message from \<noteq> [] then this\<lparr>req_chat_message := req_chat_message from\<rparr> else this);
          this = (if req_chat_target_name from \<noteq> [] then this\<lparr>req_chat_target_name := req_chat_target_name from\<rparr> else this);
          this = (if req_chat_chat_state from \<noteq> 0 then this\<lparr>req_chat_chat_state := req_chat_chat_state from\<rparr> else this);
          this = (if req_chat_room_id from \<noteq> 0 then this\<lparr>req_chat_room_id := req_chat_room_id from\<rparr> else this)
      in this)"

definition REQ_CHAT_CopyFrom :: "bool \<Rightarrow> REQ_CHAT \<Rightarrow> REQ_CHAT \<Rightarrow> REQ_CHAT" where
  "REQ_CHAT_CopyFrom same this from =
     (if same then this else REQ_CHAT_MergeImpl (REQ_CHAT_Clear this) from)"

definition REQ_CHAT_InternalSwap :: "REQ_CHAT \<Rightarrow> REQ_CHAT \<Rightarrow> REQ_CHAT \<times> REQ_CHAT" where
  "REQ_CHAT_InternalSwap this other =
     (this\<lparr>req_chat_message := req_chat_message other,
           req_chat_target_name := req_chat_target_name other,
           req_chat_chat_state := req_chat_chat_state other,
           req_chat_room_id := req_chat_room_id other\<rparr>,
      other\<lparr>req_chat_message := req_chat_message this,
            req_chat_target_name := req_chat_target_name this,
            req_chat_chat_state := req_chat_chat_state this,
            req_chat_room_id := req_chat_room_id this\<rparr>)"

definition REQ_CHAT_field :: "pb_lib \<Rightarrow> uint32 \<Rightarrow> byte list \<Rightarrow> REQ_CHAT \<Rightarrow> REQ_CHAT field_result" where
  "REQ_CHAT_field L tag p m =
     (if drop_bit 3 tag = 1 then
        on_tag 10 tag (read_string L (\<lambda>v. m\<lparr>req_chat_message := v\<rparr>) p)
      else if drop_bit 3 tag = 2 then
        on_tag 16 tag (read_enum L (\<lambda>v. m\<lparr>req_chat_chat_state := v\<rparr>) p)
      else if drop_bit 3 tag = 3 then
        on_tag 24 tag (read_int32 L (\<lambda>v. m\<lparr>req_chat_room_id := v\<rparr>) p)
      else if drop_bit 3 tag = 4 then
        on_tag 34 tag (read_string L (\<lambda>v. m\<lparr>req_chat_target_name := v\<rparr>) p)
      else Unusual)"

definition REQ_CHAT_InternalParse :: "pb_lib \<Rightarrow> byte list \<Rightarrow> REQ_CHAT \<Rightarrow> REQ_CHAT option" where
  "REQ_CHAT_InternalParse L bs m = parse_message L (REQ_CHAT_field L) bs m"

definition REQ_CHAT_InternalSerialize :: "pb_lib \<Rightarrow> (nat \<Rightarrow> nat) \<Rightarrow> REQ_CHAT \<Rightarrow> byte list" where
  "REQ_CHAT_InternalSerialize L room m =
     (if req_chat_message m \<noteq> [] then WriteStringMaybeAliased L (room 1) 1 (req_chat_message m) else []) @
     (if req_chat_chat_state m \<noteq> 0 then WriteEnumToArray 2 (req_chat_chat_state m) else []) @
     (if req_chat_room_id m \<noteq> 0 then WriteInt32ToArray 3 (req_chat_room_id m) else []) @
     (if req_chat_target_name m \<noteq> [] then WriteStringMaybeAliased L (room 4) 4 (req_chat_target_name m) else [])"

definition REQ_CHAT_ByteSizeLong :: "REQ_CHAT \<Rightarrow> nat" where
  "REQ_CHAT_ByteSizeLong m =
     (if req_chat_message m \<noteq> [] then 1 + StringSize (req_chat_message m) else 0) +
     (if req_chat_target_name m \<noteq> [] then 1 + StringSize (req_chat_target_name m) else 0) +
     (if req_chat_chat_state m \<noteq> 0 then 1 + VarintSize32SignExtended (req_chat_chat_state m) else 0) +
     (if req_chat_room_id m \<noteq> 0 then VarintSize32SignExtendedPlusOne (req_chat_room_id m) else 0)"

definition REQ_CHAT_valid :: "pb_lib \<Rightarrow> REQ_CHAT \<Rightarrow> bool" where
  "REQ_CHAT_valid L m \<longleftrightarrow> length (req_chat_message m) < 2 ^ 31 \<and> lib_VerifyUTF8 L (req_chat_message m) \<and>
     int32_range (req_chat_chat_state m) \<and>
     int32_range (req_chat_room_id m) \<and>
     length (req_chat_target_name m) < 2 ^ 31 \<and> lib_VerifyUTF8 L (req_chat_target_name m)"

subsection \<open>ACK_CHAT\<close>

record ACK_CHAT =
  ack_chat_result :: int
  ack_chat_target_count :: uint32

definition ACK_CHAT_new :: ACK_CHAT where
  "ACK_CHAT_new = \<lparr>ack_chat_result = 0,
     ack_chat_target_count = 0\<rparr>"

definition ACK_CHAT_copy :: "ACK_CHAT \<Rightarrow> ACK_CHAT" where
  "ACK_CHAT_copy from = ACK_CHAT_new
     \<lparr>ack_chat_result := ack_chat_result from,
      ack_chat_target_count := ack_chat_target_count from\<rparr>"

definition ACK_CHAT_Clear :: "ACK_CHAT \<Rightarrow> ACK_CHAT" where
  "ACK_CHAT_Clear m = m\<lparr>ack_chat_result := 0,
      ack_chat_target_count := 0\<rparr>"

definition ACK_CHAT_MergeImpl :: "ACK_CHAT \<Rightarrow> ACK_CHAT \<Rightarrow> ACK_CHAT" where
  "ACK_CHAT_MergeImpl this from =
     (let this = (if ack_chat_result from \<noteq> 0 then this\<lparr>ack_chat_result := ack_chat_result from\<rparr> else this);
          this = (if ack_chat_target_count from \<noteq> 0 then this\<lparr>ack_chat_target_count := ack_chat_target_count from\<rparr> else this)
      in this)"

definition ACK_CHAT_CopyFrom :: "bool \<Rightarrow> ACK_CHAT \<Rightarrow> ACK_CHAT \<Rightarrow> ACK_CHAT" where
  "ACK_CHAT_CopyFrom same this from =
     (if same then this else ACK_CHAT_MergeImpl (ACK_CHAT_Clear this) from)"

definition ACK_CHAT_InternalSwap :: "ACK_CHAT \<Rightarrow> ACK_CHAT \<Rightarrow> ACK_CHAT \<times> ACK_CHAT" where
  "ACK_CHAT_InternalSwap this other =
     (this\<lparr>ack_chat_result := ack_chat_result other,
           ack_chat_target_count := ack_chat_target_count other\<rparr>,
      other\<lparr>ack_chat_result := ack_chat_result this,
            ack_chat_target_count := ack_chat_target_count this\<rparr>)"

definition ACK_CHAT_field :: "pb_lib \<Rightarrow> uint32 \<Rightarrow> byte list \<Rightarrow> ACK_CHAT \<Rightarrow> ACK_CHAT field_result" where
  "ACK_CHAT_field L tag p m =
     (if drop_bit 3 tag = 1 then
        on_tag 8 tag (read_enum L (\<lambda>v. m\<lparr>ack_chat_result := v\<rparr>) p)
      else if drop_bit 3 tag = 2 then
        on_tag 16 tag (read_uint32 L (\<lambda>v. m\<lparr>ack_chat_target_count := v\<rparr>) p)
      else Unusual)"

definition ACK_CHAT_InternalParse :: "pb_lib \<Rightarrow> byte list \<Rightarrow> ACK_CHAT \<Rightarrow> ACK_CHAT option" where
  "ACK_CHAT_InternalParse L bs m = parse_message L (ACK_CHAT_field L) bs m"

definition ACK_CHAT_InternalSerialize :: "pb_lib \<Rightarrow> (nat \<Rightarrow> nat) \<Rightarrow> ACK_CHAT \<Rightarrow> byte list" where
  "ACK_CHAT_InternalSerialize L room m =
     (if ack_chat_result m \<noteq> 0 then WriteEnumToArray 1 (ack_chat_result m) else []) @
     (if ack_chat_target_count m \<noteq> 0 then WriteUInt32ToArray 2 (ack_chat_target_count m) else [])"

definition ACK_CHAT_ByteSizeLong :: "ACK_CHAT \<Rightarrow> nat" where
  "ACK_CHAT_ByteSizeLong m =
     (if ack_chat_result m \<noteq> 0 then 1 + VarintSize32SignExtended (ack_chat_result m) else 0) +
     (if ack_chat_target_count m \<noteq> 0 then VarintSize32PlusOne (ack_chat_target_count m) else 0)"

definition ACK_CHAT_valid :: "pb_lib \<Rightarrow> ACK_CHAT \<Rightarrow> bool" where
  "ACK_CHAT_valid L m \<longleftrightarrow> int32_range (ack_chat_result m)"

subsection \<open>ACK_SEND_CHAT\<close>

record ACK_SEND_CHAT =
  ack_send_chat_user_name :: "byte list"
  ack_send_chat_message :: "byte list"

definition ACK_SEND_CHAT_new :: ACK_SEND_CHAT where
  "ACK_SEND_CHAT_new = \<lparr>ack_send_chat_user_name = [],
     ack_send_chat_message = []\<rparr>"

definition ACK_SEND_CHAT_copy :: "ACK_SEND_CHAT \<Rightarrow> ACK_SEND_CHAT" where
  "ACK_SEND_CHAT_copy from = ACK_SEND_CHAT_new
     \<lparr>ack_send_chat_user_name := if ack_send_chat_user_name from \<noteq> [] then ack_send_chat_user_name from else [],
      ack_send_chat_message := if ack_send_chat_message from \<noteq> [] then ack_send_chat_message from else []\<rparr>"

definition ACK_SEND_CHAT_Clear :: "ACK_SEND_CHAT \<Rightarrow> ACK_SEND_CHAT" where
  "ACK_SEND_CHAT_Clear m = m\<lparr>ack_send_chat_user_name := [],
      ack_send_chat_message := []\<rparr>"

definition ACK_SEND_CHAT_MergeImpl :: "ACK_SEND_CHAT \<Rightarrow> ACK_SEND_CHAT \<Rightarrow> ACK_SEND_CHAT" where
  "ACK_SEND_CHAT_MergeImpl this from =
     (let this = (if ack_send_chat_user_name from \<noteq> [] then this\<lparr>ack_send_chat_user_name := ack_send_chat_user_name from\<rparr> else this);
          this = (if ack_send_chat_message from \<noteq> [] then this\<lparr>ack_send_chat_message := ack_send_chat_message from\<rparr> else this)
      in this)"

definition ACK_SEND_CHAT_CopyFrom :: "bool \<Rightarrow> ACK_SEND_CHAT \<Rightarrow> ACK_SEND_CHAT \<Rightarrow> ACK_SEND_CHAT" where
  "ACK_SEND_CHAT_CopyFrom same this from =
     (if same then this else ACK_SEND_CHAT_MergeImpl (ACK_SEND_CHAT_Clear this) from)"

definition ACK_SEND_CHAT_InternalSwap :: "ACK_SEND_CHAT \<Rightarrow> ACK_SEND_CHAT \<Rightarrow> ACK_SEND_CHAT \<times> ACK_SEND_CHAT" where
  "ACK_SEND_CHAT_InternalSwap this other =
     (this\<lparr>ack_send_chat_user_name := ack_send_chat_user_name other,
           ack_send_chat_message := ack_send_chat_message other\<rparr>,
      other\<lparr>ack_send_chat_user_name := ack_send_chat_user_name this,
            ack_send_chat_message := ack_send_chat_message this\<rparr>)"

definition ACK_SEND_CHAT_field :: "pb_lib \<Rightarrow> uint32 \<Rightarrow> byte list \<Rightarrow> ACK_SEND_CHAT \<Rightarrow> ACK_SEND_CHAT field_result" where
  "ACK_SEND_CHAT_field L tag p m =
     (if drop_bit 3 tag = 1 then
        on_tag 10 tag (read_string L (\<lambda>v. m\<lparr>ack_send_chat_user_name := v\<rparr>) p)
      else if drop_bit 3 tag = 2 then
        on_tag 18 tag (read_string L (\<lambda>v. m\<lparr>ack_send_chat_message := v\<rparr>) p)
      else Unusual)"

definition ACK_SEND_CHAT_InternalParse :: "pb_lib \<Rightarrow> byte list \<Rightarrow> ACK_SEND_CHAT \<Rightarrow> ACK_SEND_CHAT option" where
  "ACK_SEND_CHAT_InternalParse L bs m = parse_message L (ACK_SEND_CHAT_field L) bs m"

definition ACK_SEND_CHAT_InternalSerialize :: "pb_lib \<Rightarrow> (nat \<Rightarrow> nat) \<Rightarrow> ACK_SEND_CHAT \<Rightarrow> byte list" where
  "ACK_SEND_CHAT_InternalSerialize L room m =
     (if ack_send_chat_user_name m \<noteq> [] then WriteStringMaybeAliased L (room 1) 1 (ack_send_chat_user_name m) else []) @
     (if ack_send_chat_message m \<noteq> [] then WriteStringMaybeAliased L (room 2) 2 (ack_send_chat_message m) else [])"

definition ACK_SEND_CHAT_ByteSizeLong :: "ACK_SEND_CHAT \<Rightarrow> nat" where
  "ACK_SEND_CHAT_ByteSizeLong m =
     (if ack_send_chat_user_name m \<noteq> [] then 1 + StringSize (ack_send_chat_user_name m) else 0) +
     (if ack_send_chat_message m \<noteq> [] then 1 + StringSize (ack_send_chat_message m) else 0)"

definition ACK_SEND_CHAT_valid :: "pb_lib \<Rightarrow> ACK_SEND_CHAT \<Rightarrow> bool" where
  "ACK_SEND_CHAT_valid L m \<longleftrightarrow> length (ack_send_chat_user_name m) < 2 ^ 31 \<and> lib_VerifyUTF8 L (ack_send_chat_user_name m) \<and>
     length (ack_send_chat_message m) < 2 ^ 31 \<and> lib_VerifyUTF8 L (ack_send_chat_message m)"

subsection \<open>REQ_CONNECT_PONG\<close>

record REQ_CONNECT_PONG =
  req_connect_pong_server_tick :: uint64

definition REQ_CONNECT_PONG_new :: REQ_CONNECT_PONG where
  "REQ_CONNECT_PONG_new = \<lparr>req_connect_pong_server_tick = 0\<rparr>"

definition REQ_CONNECT_PONG_copy :: "REQ_CONNECT_PONG \<Rightarrow> REQ_CONNECT_PONG" where
  "REQ_CONNECT_PONG_copy from = REQ_CONNECT_PONG_new
     \<lparr>req_connect_pong_server_tick := req_connect_pong_server_tick from\<rparr>"

definition REQ_CONNECT_PONG_Clear :: "REQ_CONNECT_PONG \<Rightarrow> REQ_CONNECT_PONG" where
  "REQ_CONNECT_PONG_Clear m = m\<lparr>req_connect_pong_server_tick := 0\<rparr>"

definition REQ_CONNECT_PONG_MergeImpl :: "REQ_CONNECT_PONG \<Rightarrow> REQ_CONNECT_PONG \<Rightarrow> REQ_CONNECT_PONG" where
  "REQ_CONNECT_PONG_MergeImpl this from =
     (let this = (if req_connect_pong_server_tick from \<noteq> 0 then this\<lparr>req_connect_pong_server_tick := req_connect_pong_server_tick from\<rparr> else this)
      in this)"

definition REQ_CONNECT_PONG_CopyFrom :: "bool \<Rightarrow> REQ_CONNECT_PONG \<Rightarrow> REQ_CONNECT_PONG \<Rightarrow> REQ_CONNECT_PONG" where
  "REQ_CONNECT_PONG_CopyFrom same this from =
     (if same then this else REQ_CONNECT_PONG_MergeImpl (REQ_CONNECT_PONG_Clear this) from)"

definition REQ_CONNECT_PONG_InternalSwap :: "REQ_CONNECT_PONG \<Rightarrow> REQ_CONNECT_PONG \<Rightarrow> REQ_CONNECT_PONG \<times> REQ_CONNECT_PONG" where
  "REQ_CONNECT_PONG_InternalSwap this other =
     (this\<lparr>req_connect_pong_server_tick := req_connect_pong_server_tick other\<rparr>,
      other\<lparr>req_connect_pong_server_tick := req_connect_pong_server_tick this\<rparr>)"

definition REQ_CONNECT_PONG_field :: "pb_lib \<Rightarrow> uint32 \<Rightarrow> byte list \<Rightarrow> REQ_CONNECT_PONG \<Rightarrow> REQ_CONNECT_PONG field_result" where
  "REQ_CONNECT_PONG_field L tag p m =
     (if drop_bit 3 tag = 1 then
        on_tag 8 tag (read_uint64 L (\<lambda>v. m\<lparr>req_connect_pong_server_tick := v\<rparr>) p)
      else Unusual)"

definition REQ_CONNECT_PONG_InternalParse :: "pb_lib \<Rightarrow> byte list \<Rightarrow> REQ_CONNECT_PONG \<Rightarrow> REQ_CONNECT_PONG option" where
  "REQ_CONNECT_PONG_InternalParse L bs m = parse_message L (REQ_CONNECT_PONG_field L) bs m"

definition REQ_CONNECT_PONG_InternalSerialize :: "pb_lib \<Rightarrow> (nat \<Rightarrow> nat) \<Rightarrow> REQ_CONNECT_PONG \<Rightarrow> byte list" where
  "REQ_CONNECT_PONG_InternalSerialize L room m =
     (if req_connect_pong_server_tick m \<noteq> 0 then WriteUInt64ToArray 1 (req_connect_pong_server_tick m) else [])"

definition REQ_CONNECT_PONG_ByteSizeLong :: "REQ_CONNECT_PONG \<Rightarrow> nat" where
  "REQ_CONNECT_PONG_ByteSizeLong m =
     (if req_connect_pong_server_tick m \<noteq> 0 then VarintSize64PlusOne (req_connect_pong_server_tick m) else 0)"

definition REQ_CONNECT_PONG_valid :: "pb_lib \<Rightarrow> REQ_CONNECT_PONG \<Rightarrow> bool" where
  "REQ_CONNECT_PONG_valid L m \<longleftrightarrow> True"

subsection \<open>ACK_SEND_CONNECT_PING\<close>

record ACK_SEND_CONNECT_PING =
  ack_send_connect_ping_server_tick :: uint64

definition ACK_SEND_CONNECT_PING_new :: ACK_SEND_CONNECT_PING where
  "ACK_SEND_CONNECT_PING_new = \<lparr>ack_send_connect_ping_server_tick = 0\<rparr>"

definition ACK_SEND_CONNECT_PING_copy :: "ACK_SEND_CONNECT_PING \<Rightarrow> ACK_SEND_CONNECT_PING" where
  "ACK_SEND_CONNECT_PING_copy from = ACK_SEND_CONNECT_PING_new
     \<lparr>ack_send_connect_ping_server_tick := ack_send_connect_ping_server_tick from\<rparr>"

definition ACK_SEND_CONNECT_PING_Clear :: "ACK_SEND_CONNECT_PING \<Rightarrow> ACK_SEND_CONNECT_PING" where
  "ACK_SEND_CONNECT_PING_Clear m = m\<lparr>ack_send_connect_ping_server_tick := 0\<rparr>"

definition ACK_SEND_CONNECT_PING_MergeImpl :: "ACK_SEND_CONNECT_PING \<Rightarrow> ACK_SEND_CONNECT_PING \<Rightarrow> ACK_SEND_CONNECT_PING" where
  "ACK_SEND_CONNECT_PING_MergeImpl this from =
     (let this = (if ack_send_connect_ping_server_tick from \<noteq> 0 then this\<lparr>ack_send_connect_ping_server_tick := ack_send_connect_ping_server_tick from\<rparr> else this)
      in this)"

definition ACK_SEND_CONNECT_PING_CopyFrom :: "bool \<Rightarrow> ACK_SEND_CONNECT_PING \<Rightarrow> ACK_SEND_CONNECT_PING \<Rightarrow> ACK_SEND_CONNECT_PING" where
  "ACK_SEND_CONNECT_PING_CopyFrom same this from =
     (if same then this else ACK_SEND_CONNECT_PING_MergeImpl (ACK_SEND_CONNECT_PING_Clear this) from)"

definition ACK_SEND_CONNECT_PING_InternalSwap :: "ACK_SEND_CONNECT_PING \<Rightarrow> ACK_SEND_CONNECT_PING \<Rightarrow> ACK_SEND_CONNECT_PING \<times> ACK_SEND_CONNECT_PING" where
  "ACK_SEND_CONNECT_PING_InternalSwap this other =
     (this\<lparr>ack_send_connect_ping_server_tick := ack_send_connect_ping_server_tick other\<rparr>,
      other\<lparr>ack_send_connect_ping_server_tick := ack_send_connect_ping_server_tick this\<rparr>)"

definition ACK_SEND_CONNECT_PING_field :: "pb_lib \<Rightarrow> uint32 \<Rightarrow> byte list \<Rightarrow> ACK_SEND_CONNECT_PING \<Rightarrow> ACK_SEND_CONNECT_PING field_result" where
  "ACK_SEND_CONNECT_PING_field L tag p m =
     (if drop_bit 3 tag = 1 then
        on_tag 8 tag (read_uint64 L (\<lambda>v. m\<lparr>ack_send_connect_ping_server_tick := v\<rparr>) p)
      else Unusual)"

definition ACK_SEND_CONNECT_PING_InternalParse :: "pb_lib \<Rightarrow> byte list \<Rightarrow> ACK_SEND_CONNECT_PING \<Rightarrow> ACK_SEND_CONNECT_PING option" where
  "ACK_SEND_CONNECT_PING_InternalParse L bs m = parse_message L (ACK_SEND_CONNECT_PING_field L) bs m"

definition ACK_SEND_CONNECT_PING_InternalSerialize :: "pb_lib \<Rightarrow> (nat \<Rightarrow> nat) \<Rightarrow> ACK_SEND_CONNECT_PING \<Rightarrow> byte list" where
  "ACK_SEND_CONNECT_PING_InternalSerialize L room m =
     (if ack_send_connect_ping_server_tick m \<noteq> 0 then WriteUInt64ToArray 1 (ack_send_connect_ping_server_tick m) else [])"

definition ACK_SEND_CONNECT_PING_ByteSizeLong :: "ACK_SEND_CONNECT_PING \<Rightarrow> nat" where
  "ACK_SEND_CONNECT_PING_ByteSizeLong m =
     (if ack_send_connect_ping_server_tick m \<noteq> 0 then VarintSize64PlusOne (ack_send_connect_ping_server_tick m) else 0)"

definition ACK_SEND_CONNECT_PING_valid :: "pb_lib \<Rightarrow> ACK_SEND_CONNECT_PING \<Rightarrow> bool" where
  "ACK_SEND_CONNECT_PING_valid L m \<longleftrightarrow> True"

subsection \<open>ACK_SERVER_FULL\<close>

record ACK_SERVER_FULL =
  ack_server_full_max_session_count :: uint32

definition ACK_SERVER_FULL_new :: ACK_SERVER_FULL where
  "ACK_SERVER_FULL_new = \<lparr>ack_server_full_max_session_count = 0\<rparr>"

definition ACK_SERVER_FULL_copy :: "ACK_SERVER_FULL \<Rightarrow> ACK_SERVER_FULL" where
  "ACK_SERVER_FULL_copy from = ACK_SERVER_FULL_new
     \<lparr>ack_server_full_max_session_count := ack_server_full_max_session_count from\<rparr>"

definition ACK_SERVER_FULL_Clear :: "ACK_SERVER_FULL \<Rightarrow> ACK_SERVER_FULL" where
  "ACK_SERVER_FULL_Clear m = m\<lparr>ack_server_full_max_session_count := 0\<rparr>"

definition ACK_SERVER_FULL_MergeImpl :: "ACK_SERVER_FULL \<Rightarrow> ACK_SERVER_FULL \<Rightarrow> ACK_SERVER_FULL" where
  "ACK_SERVER_FULL_MergeImpl this from =
     (let this = (if ack_server_full_max_session_count from \<noteq> 0 then this\<lparr>ack_server_full_max_session_count := ack_server_full_max_session_count from\<rparr> else this)
      in this)"

definition ACK_SERVER_FULL_CopyFrom :: "bool \<Rightarrow> ACK_SERVER_FULL \<Rightarrow> ACK_SERVER_FULL \<Rightarrow> ACK_SERVER_FULL" where
  "ACK_SERVER_FULL_CopyFrom same this from =
     (if same then this else ACK_SERVER_FULL_MergeImpl (ACK_SERVER_FULL_Clear this) from)"

definition ACK_SERVER_FULL_InternalSwap :: "ACK_SERVER_FULL \<Rightarrow> ACK_SERVER_FULL \<Rightarrow> ACK_SERVER_FULL \<times> ACK_SERVER_FULL" where
  "ACK_SERVER_FULL_InternalSwap this other =
     (this\<lparr>ack_server_full_max_session_count := ack_server_full_max_session_count other\<rparr>,
      other\<lparr>ack_server_full_max_session_count := ack_server_full_max_session_count this\<rparr>)"

definition ACK_SERVER_FULL_field :: "pb_lib \<Rightarrow> uint32 \<Rightarrow> byte list \<Rightarrow> ACK_SERVER_FULL \<Rightarrow> ACK_SERVER_FULL field_result" where
  "ACK_SERVER_FULL_field L tag p m =
     (if drop_bit 3 tag = 1 then
        on_tag 8 tag (read_uint32 L (\<lambda>v. m\<lparr>ack_server_full_max_session_count := v\<rparr>) p)
      else Unusual)"

definition ACK_SERVER_FULL_InternalParse :: "pb_lib \<Rightarrow> byte list \<Rightarrow> ACK_SERVER_FULL \<Rightarrow> ACK_SERVER_FULL option" where
  "ACK_SERVER_FULL_InternalParse L bs m = parse_message L (ACK_SERVER_FULL_field L) bs m"

definition ACK_SERVER_FULL_InternalSerialize :: "pb_lib \<Rightarrow> (nat \<Rightarrow> nat) \<Rightarrow> ACK_SERVER_FULL \<Rightarrow> byte list" where
  "ACK_SERVER_FULL_InternalSerialize L room m =
     (if ack_server_full_max_session_count m \<noteq> 0 then WriteUInt32ToArray 1 (ack_server_full_max_session_count m) else [])"

definition ACK_SERVER_FULL_ByteSizeLong :: "ACK_SERVER_FULL \<Rightarrow> nat" where
  "ACK_SERVER_FULL_ByteSizeLong m =
     (if ack_server_full_max_session_count m \<noteq> 0 then VarintSize32PlusOne (ack_server_full_max_session_count m) else 0)"

definition ACK_SERVER_FULL_valid :: "pb_lib \<Rightarrow> ACK_SERVER_FULL \<Rightarrow> bool" where
  "ACK_SERVER_FULL_valid L m \<longleftrightarrow> True"

subsection \<open>ACK_GET_ROOM_INFO\<close>

text \<open>A submessage is parsed between its length prefix and the end it names.  The \<open>do\<close> loop of a
  repeated field goes on while the next byte is the field's tag; every round consumes its length
  prefix, so the number of bytes left is enough fuel.\<close>

record ACK_GET_ROOM_INFO =
  ack_get_room_info_room_info_list :: "RoomInfo list"

definition ACK_GET_ROOM_INFO_new :: ACK_GET_ROOM_INFO where
  "ACK_GET_ROOM_INFO_new = \<lparr>ack_get_room_info_room_info_list = []\<rparr>"

definition ACK_GET_ROOM_INFO_copy :: "ACK_GET_ROOM_INFO \<Rightarrow> ACK_GET_ROOM_INFO" where
  "ACK_GET_ROOM_INFO_copy from =
     \<lparr>ack_get_room_info_room_info_list = map RoomInfo_copy (ack_get_room_info_room_info_list from)\<rparr>"

definition ACK_GET_ROOM_INFO_Clear :: "ACK_GET_ROOM_INFO \<Rightarrow> ACK_GET_ROOM_INFO" where
  "ACK_GET_ROOM_INFO_Clear m = m\<lparr>ack_get_room_info_room_info_list := []\<rparr>"

definition ACK_GET_ROOM_INFO_MergeImpl ::
  "ACK_GET_ROOM_INFO \<Rightarrow> ACK_GET_ROOM_INFO \<Rightarrow> ACK_GET_ROOM_INFO" where
  "ACK_GET_ROOM_INFO_MergeImpl this from =
     this\<lparr>ack_get_room_info_room_info_list :=
       ack_get_room_info_room_info_list this @
       map (RoomInfo_MergeImpl RoomInfo_new) (ack_get_room_info_room_info_list from)\<rparr>"

definition ACK_GET_ROOM_INFO_CopyFrom ::
  "bool \<Rightarrow> ACK_GET_ROOM_INFO \<Rightarrow> ACK_GET_ROOM_INFO \<Rightarrow> ACK_GET_ROOM_INFO" where
  "ACK_GET_ROOM_INFO_CopyFrom same this from =
     (if same then this else ACK_GET_ROOM_INFO_MergeImpl (ACK_GET_ROOM_INFO_Clear this) from)"

definition ACK_GET_ROOM_INFO_InternalSwap ::
  "ACK_GET_ROOM_INFO \<Rightarrow> ACK_GET_ROOM_INFO \<Rightarrow> ACK_GET_ROOM_INFO \<times> ACK_GET_ROOM_INFO" where
  "ACK_GET_ROOM_INFO_InternalSwap this other =
     (this\<lparr>ack_get_room_info_room_info_list := ack_get_room_info_room_info_list other\<rparr>,
      other\<lparr>ack_get_room_info_room_info_list := ack_get_room_info_room_info_list this\<rparr>)"

definition ParseMessage ::
  "pb_lib \<Rightarrow> (byte list \<Rightarrow> 'm option) \<Rightarrow> byte list \<Rightarrow> ('m \<times> byte list) option" where
  "ParseMessage L internal_parse p =
     (case lib_ReadSizeAndPushLimit L p of
        None \<Rightarrow> None
      | Some (s, p) \<Rightarrow> map_option (\<lambda>m. (m, p)) (internal_parse s))"

fun ExpectTag :: "byte \<Rightarrow> byte list \<Rightarrow> bool" where
  "ExpectTag tag [] = False"
| "ExpectTag tag (b # p) = (b = tag)"

fun room_info_list_do ::
  "pb_lib \<Rightarrow> nat \<Rightarrow> byte list \<Rightarrow> ACK_GET_ROOM_INFO \<Rightarrow> ACK_GET_ROOM_INFO field_result" where
  "room_info_list_do L 0 p m = Failed"
| "room_info_list_do L (Suc fuel) p m =
     (case ParseMessage L (\<lambda>s. RoomInfo_InternalParse L s RoomInfo_new) p of
        None \<Rightarrow> Failed
      | Some (r, p) \<Rightarrow>
          let m = m\<lparr>ack_get_room_info_room_info_list := ack_get_room_info_room_info_list m @ [r]\<rparr> in
          if p = [] then Handled m p
          else if ExpectTag 10 p then room_info_list_do L fuel (tl p) m
          else Handled m p)"

definition ACK_GET_ROOM_INFO_field ::
  "pb_lib \<Rightarrow> uint32 \<Rightarrow> byte list \<Rightarrow> ACK_GET_ROOM_INFO \<Rightarrow> ACK_GET_ROOM_INFO field_result" where
  "ACK_GET_ROOM_INFO_field L tag p m =
     (if drop_bit 3 tag = 1 then on_tag 10 tag (room_info_list_do L (length p) p m)
      else Unusual)"

definition ACK_GET_ROOM_INFO_InternalParse ::
  "pb_lib \<Rightarrow> byte list \<Rightarrow> ACK_GET_ROOM_INFO \<Rightarrow> ACK_GET_ROOM_INFO option" where
  "ACK_GET_ROOM_INFO_InternalParse L bs m = parse_message L (ACK_GET_ROOM_INFO_field L) bs m"

text \<open>The cached size of an element is what \<open>ByteSizeLong\<close> stored there; it runs over the whole
  message before the message is serialized.\<close>

definition ACK_GET_ROOM_INFO_InternalSerialize ::
  "pb_lib \<Rightarrow> (nat \<Rightarrow> nat) \<Rightarrow> ACK_GET_ROOM_INFO \<Rightarrow> byte list" where
  "ACK_GET_ROOM_INFO_InternalSerialize L room m =
     concat (map (\<lambda>r. lib_InternalWriteMessage L 1 (RoomInfo_InternalSerialize L room r) (RoomInfo_ByteSizeLong r))
       (ack_get_room_info_room_info_list m))"

definition MessageSize :: "('m \<Rightarrow> nat) \<Rightarrow> 'm \<Rightarrow> nat" where
  "MessageSize byte_size_long m = LengthDelimitedSize (byte_size_long m)"

definition ACK_GET_ROOM_INFO_ByteSizeLong :: "ACK_GET_ROOM_INFO \<Rightarrow> nat" where
  "ACK_GET_ROOM_INFO_ByteSizeLong m =
     1 * length (ack_get_room_info_room_info_list m) +
     sum_list (map (MessageSize RoomInfo_ByteSizeLong) (ack_get_room_info_room_info_list m))"

definition ACK_GET_ROOM_INFO_valid :: "pb_lib \<Rightarrow> ACK_GET_ROOM_INFO \<Rightarrow> bool" where
  "ACK_GET_ROOM_INFO_valid L m \<longleftrightarrow> list_all (RoomInfo_valid L) (ack_get_room_info_room_info_list m)"

subsection \<open>Messages without fields\<close>

type_synonym REQ_GET_ROOM_INFO = unit

definition REQ_GET_ROOM_INFO_InternalParse ::
  "pb_lib \<Rightarrow> byte list \<Rightarrow> REQ_GET_ROOM_INFO \<Rightarrow> REQ_GET_ROOM_INFO option" where
  "REQ_GET_ROOM_INFO_InternalParse L bs m = (if lib_ZeroFieldsParse L bs then Some m else None)"

definition REQ_GET_ROOM_INFO_InternalSerialize ::
  "pb_lib \<Rightarrow> (nat \<Rightarrow> nat) \<Rightarrow> REQ_GET_ROOM_INFO \<Rightarrow> byte list" where
  "REQ_GET_ROOM_INFO_InternalSerialize L room m = []"

definition REQ_GET_ROOM_INFO_ByteSizeLong :: "REQ_GET_ROOM_INFO \<Rightarrow> nat" where
  "REQ_GET_ROOM_INFO_ByteSizeLong m = 0"

type_synonym REQ_EXIT_ROOM = unit

definition REQ_EXIT_ROOM_InternalParse ::
  "pb_lib \<Rightarrow> byte list \<Rightarrow> REQ_EXIT_ROOM \<Rightarrow> REQ_EXIT_ROOM option" where
  "REQ_EXIT_ROOM_InternalParse L bs m = (if lib_ZeroFieldsParse L bs then Some m else None)"

definition REQ_EXIT_ROOM_InternalSerialize ::
  "pb_lib \<Rightarrow> (nat \<Rightarrow> nat) \<Rightarrow> REQ_EXIT_ROOM \<Rightarrow> byte list" where
  "REQ_EXIT_ROOM_InternalSerialize L room m = []"

definition REQ_EXIT_ROOM_ByteSizeLong :: "REQ_EXIT_ROOM \<Rightarrow> nat" where
  "REQ_EXIT_ROOM_ByteSizeLong m = 0"

section \<open>Copies\<close>

lemma SessionInfo_laws:
  "SessionInfo_Clear m = SessionInfo_new" "SessionInfo_MergeImpl SessionInfo_new m = m" "SessionInfo_copy m = m"
  "SessionInfo_CopyFrom same m m' = (if same then m else m')" "SessionInfo_InternalSwap m m' = (m', m)"
  by (cases m; cases m'; simp add: SessionInfo_Clear_def SessionInfo_new_def SessionInfo_MergeImpl_def SessionInfo_copy_def SessionInfo_CopyFrom_def
      SessionInfo_InternalSwap_def Let_def)+

lemma UserInfo_laws:
  "UserInfo_Clear m = UserInfo_new" "UserInfo_MergeImpl UserInfo_new m = m" "UserInfo_copy m = m"
  "UserInfo_CopyFrom same m m' = (if same then m else m')" "UserInfo_InternalSwap m m' = (m', m)"
  by (cases m; cases m'; simp add: UserInfo_Clear_def UserInfo_new_def UserInfo_MergeImpl_def UserInfo_copy_def UserInfo_CopyFrom_def
      UserInfo_InternalSwap_def Let_def)+

lemma RoomInfo_laws:
  "RoomInfo_Clear m = RoomInfo_new" "RoomInfo_MergeImpl RoomInfo_new m = m" "RoomInfo_copy m = m"
  "RoomInfo_CopyFrom same m m' = (if same then m else m')" "RoomInfo_InternalSwap m m' = (m', m)"
  by (cases m; cases m'; simp add: RoomInfo_Clear_def RoomInfo_new_def RoomInfo_MergeImpl_def RoomInfo_copy_def RoomInfo_CopyFrom_def
      RoomInfo_InternalSwap_def Let_def)+

lemma REQ_LOGIN_laws:
  "REQ_LOGIN_Clear m = REQ_LOGIN_new" "REQ_LOGIN_MergeImpl REQ_LOGIN_new m = m" "REQ_LOGIN_copy m = m"
  "REQ_LOGIN_CopyFrom same m m' = (if same then m else m')" "REQ_LOGIN_InternalSwap m m' = (m', m)"
  by (cases m; cases m'; simp add: REQ_LOGIN_Clear_def REQ_LOGIN_new_def REQ_LOGIN_MergeImpl_def REQ_LOGIN_copy_def REQ_LOGIN_CopyFrom_def
      REQ_LOGIN_InternalSwap_def Let_def)+

lemma ACK_LOGIN_laws:
  "ACK_LOGIN_Clear m = ACK_LOGIN_new" "ACK_LOGIN_MergeImpl ACK_LOGIN_new m = m" "ACK_LOGIN_copy m = m"
  "ACK_LOGIN_CopyFrom same m m' = (if same then m else m')" "ACK_LOGIN_InternalSwap m m' = (m', m)"
  by (cases m; cases m'; simp add: ACK_LOGIN_Clear_def ACK_LOGIN_new_def ACK_LOGIN_MergeImpl_def ACK_LOGIN_copy_def ACK_LOGIN_CopyFrom_def
      ACK_LOGIN_InternalSwap_def Let_def)+

lemma REQ_BOT_LOGIN_laws:
  "REQ_BOT_LOGIN_Clear m = REQ_BOT_LOGIN_new" "REQ_BOT_LOGIN_MergeImpl REQ_BOT_LOGIN_new m = m" "REQ_BOT_LOGIN_copy m = m"
  "REQ_BOT_LOGIN_CopyFrom same m m' = (if same then m else m')" "REQ_BOT_LOGIN_InternalSwap m m' = (m', m)"
  by (cases m; cases m'; simp add: REQ_BOT_LOGIN_Clear_def REQ_BOT_LOGIN_new_def REQ_BOT_LOGIN_MergeImpl_def REQ_BOT_LOGIN_copy_def REQ_BOT_LOGIN_CopyFrom_def
      REQ_BOT_LOGIN_InternalSwap_def Let_def)+

lemma ACK_BOT_LOGIN_laws:
  "ACK_BOT_LOGIN_Clear m = ACK_BOT_LOGIN_new" "ACK_BOT_LOGIN_MergeImpl ACK_BOT_LOGIN_new m = m" "ACK_BOT_LOGIN_copy m = m"
  "ACK_BOT_LOGIN_CopyFrom same m m' = (if same then m else m')" "ACK_BOT_LOGIN_InternalSwap m m' = (m', m)"
  by (cases m; cases m'; simp add: ACK_BOT_LOGIN_Clear_def ACK_BOT_LOGIN_new_def ACK_BOT_LOGIN_MergeImpl_def ACK_BOT_LOGIN_copy_def ACK_BOT_LOGIN_CopyFrom_def
      ACK_BOT_LOGIN_InternalSwap_def Let_def)+

lemma REQ_LOGOUT_laws:
  "REQ_LOGOUT_Clear m = REQ_LOGOUT_new" "REQ_LOGOUT_MergeImpl REQ_LOGOUT_new m = m" "REQ_LOGOUT_copy m = m"
  "REQ_LOGOUT_CopyFrom same m m' = (if same then m else m')" "REQ_LOGOUT_InternalSwap m m' = (m', m)"
  by (cases m; cases m'; simp add: REQ_LOGOUT_Clear_def REQ_LOGOUT_new_def REQ_LOGOUT_MergeImpl_def REQ_LOGOUT_copy_def REQ_LOGOUT_CopyFrom_def
      REQ_LOGOUT_InternalSwap_def Let_def)+

lemma ACK_LOGOUT_laws:
  "ACK_LOGOUT_Clear m = ACK_LOGOUT_new" "ACK_LOGOUT_MergeImpl ACK_LOGOUT_new m = m" "ACK_LOGOUT_copy m = m"
  "ACK_LOGOUT_CopyFrom same m m' = (if same then m else m')" "ACK_LOGOUT_InternalSwap m m' = (m', m)"
  by (cases m; cases m'; simp add: ACK_LOGOUT_Clear_def ACK_LOGOUT_new_def ACK_LOGOUT_MergeImpl_def ACK_LOGOUT_copy_def ACK_LOGOUT_CopyFrom_def
      ACK_LOGOUT_InternalSwap_def Let_def)+

lemma REQ_ENTER_ROOM_laws:
  "REQ_ENTER_ROOM_Clear m = REQ_ENTER_ROOM_new" "REQ_ENTER_ROOM_MergeImpl REQ_ENTER_ROOM_new m = m" "REQ_ENTER_ROOM_copy m = m"
  "REQ_ENTER_ROOM_CopyFrom same m m' = (if same then m else m')" "REQ_ENTER_ROOM_InternalSwap m m' = (m', m)"
  by (cases m; cases m'; simp add: REQ_ENTER_ROOM_Clear_def REQ_ENTER_ROOM_new_def REQ_ENTER_ROOM_MergeImpl_def REQ_ENTER_ROOM_copy_def REQ_ENTER_ROOM_CopyFrom_def
      REQ_ENTER_ROOM_InternalSwap_def Let_def)+

lemma ACK_ENTER_ROOM_laws:
  "ACK_ENTER_ROOM_Clear m = ACK_ENTER_ROOM_new" "ACK_ENTER_ROOM_MergeImpl ACK_ENTER_ROOM_new m = m" "ACK_ENTER_ROOM_copy m = m"
  "ACK_ENTER_ROOM_CopyFrom same m m' = (if same then m else m')" "ACK_ENTER_ROOM_InternalSwap m m' = (m', m)"
  by (cases m; cases m'; simp add: ACK_ENTER_ROOM_Clear_def ACK_ENTER_ROOM_new_def ACK_ENTER_ROOM_MergeImpl_def ACK_ENTER_ROOM_copy_def ACK_ENTER_ROOM_CopyFrom_def
      ACK_ENTER_ROOM_InternalSwap_def Let_def)+

lemma ACK_EXIT_ROOM_laws:
  "ACK_EXIT_ROOM_Clear m = ACK_EXIT_ROOM_new" "ACK_EXIT_ROOM_MergeImpl ACK_EXIT_ROOM_new m = m" "ACK_EXIT_ROOM_copy m = m"
  "ACK_EXIT_ROOM_CopyFrom same m m' = (if same then m else m')" "ACK_EXIT_ROOM_InternalSwap m m' = (m', m)"
  by (cases m; cases m'; simp add: ACK_EXIT_ROOM_Clear_def ACK_EXIT_ROOM_new_def ACK_EXIT_ROOM_MergeImpl_def ACK_EXIT_ROOM_copy_def ACK_EXIT_ROOM_CopyFrom_def
      ACK_EXIT_ROOM_InternalSwap_def Let_def)+

lemma REQ_CHAT_laws:
  "REQ_CHAT_Clear m = REQ_CHAT_new" "REQ_CHAT_MergeImpl REQ_CHAT_new m = m" "REQ_CHAT_copy m = m"
  "REQ_CHAT_CopyFrom same m m' = (if same then m else m')" "REQ_CHAT_InternalSwap m m' = (m', m)"
  by (cases m; cases m'; simp add: REQ_CHAT_Clear_def REQ_CHAT_new_def REQ_CHAT_MergeImpl_def REQ_CHAT_copy_def REQ_CHAT_CopyFrom_def
      REQ_CHAT_InternalSwap_def Let_def)+

lemma ACK_CHAT_laws:
  "ACK_CHAT_Clear m = ACK_CHAT_new" "ACK_CHAT_MergeImpl ACK_CHAT_new m = m" "ACK_CHAT_copy m = m"
  "ACK_CHAT_CopyFrom same m m' = (if same then m else m')" "ACK_CHAT_InternalSwap m m' = (m', m)"
  by (cases m; cases m'; simp add: ACK_CHAT_Clear_def ACK_CHAT_new_def ACK_CHAT_MergeImpl_def ACK_CHAT_copy_def ACK_CHAT_CopyFrom_def
      ACK_CHAT_InternalSwap_def Let_def)+

lemma ACK_SEND_CHAT_laws:
  "ACK_SEND_CHAT_Clear m = ACK_SEND_CHAT_new" "ACK_SEND_CHAT_MergeImpl ACK_SEND_CHAT_new m = m" "ACK_SEND_CHAT_copy m = m"
  "ACK_SEND_CHAT_CopyFrom same m m' = (if same then m else m')" "ACK_SEND_CHAT_InternalSwap m m' = (m', m)"
  by (cases m; cases m'; simp add: ACK_SEND_CHAT_Clear_def ACK_SEND_CHAT_new_def ACK_SEND_CHAT_MergeImpl_def ACK_SEND_CHAT_copy_def ACK_SEND_CHAT_CopyFrom_def
      ACK_SEND_CHAT_InternalSwap_def Let_def)+

lemma REQ_CONNECT_PONG_laws:
  "REQ_CONNECT_PONG_Clear m = REQ_CONNECT_PONG_new" "REQ_CONNECT_PONG_MergeImpl REQ_CONNECT_PONG_new m = m" "REQ_CONNECT_PONG_copy m = m"
  "REQ_CONNECT_PONG_CopyFrom same m m' = (if same then m else m')" "REQ_CONNECT_PONG_InternalSwap m m' = (m', m)"
  by (cases m; cases m'; simp add: REQ_CONNECT_PONG_Clear_def REQ_CONNECT_PONG_new_def REQ_CONNECT_PONG_MergeImpl_def REQ_CONNECT_PONG_copy_def REQ_CONNECT_PONG_CopyFrom_def
      REQ_CONNECT_PONG_InternalSwap_def Let_def)+

lemma ACK_SEND_CONNECT_PING_laws:
  "ACK_SEND_CONNECT_PING_Clear m = ACK_SEND_CONNECT_PING_new" "ACK_SEND_CONNECT_PING_MergeImpl ACK_SEND_CONNECT_PING_new m = m" "ACK_SEND_CONNECT_PING_copy m = m"
  "ACK_SEND_CONNECT_PING_CopyFrom same m m' = (if same then m else m')" "ACK_SEND_CONNECT_PING_InternalSwap m m' = (m', m)"
  by (cases m; cases m'; simp add: ACK_SEND_CONNECT_PING_Clear_def ACK_SEND_CONNECT_PING_new_def ACK_SEND_CONNECT_PING_MergeImpl_def ACK_SEND_CONNECT_PING_copy_def ACK_SEND_CONNECT_PING_CopyFrom_def
      ACK_SEND_CONNECT_PING_InternalSwap_def Let_def)+

lemma ACK_SERVER_FULL_laws:
  "ACK_SERVER_FULL_Clear m = ACK_SERVER_FULL_new" "ACK_SERVER_FULL_MergeImpl ACK_SERVER_FULL_new m = m" "ACK_SERVER_FULL_copy m = m"
  "ACK_SERVER_FULL_CopyFrom same m m' = (if same then m else m')" "ACK_SERVER_FULL_InternalSwap m m' = (m', m)"
  by (cases m; cases m'; simp add: ACK_SERVER_FULL_Clear_def ACK_SERVER_FULL_new_def ACK_SERVER_FULL_MergeImpl_def ACK_SERVER_FULL_copy_def ACK_SERVER_FULL_CopyFrom_def
      ACK_SERVER_FULL_InternalSwap_def Let_def)+

lemma ACK_GET_ROOM_INFO_laws:
  "ACK_GET_ROOM_INFO_Clear m = ACK_GET_ROOM_INFO_new" "ACK_GET_ROOM_INFO_MergeImpl ACK_GET_ROOM_INFO_new m = m"
  "ACK_GET_ROOM_INFO_copy m = m" "ACK_GET_ROOM_INFO_CopyFrom same m m' = (if same then m else m')"
  "ACK_GET_ROOM_INFO_InternalSwap m m' = (m', m)"
  by (cases m; cases m'; simp add: ACK_GET_ROOM_INFO_Clear_def ACK_GET_ROOM_INFO_new_def ACK_GET_ROOM_INFO_copy_def
      ACK_GET_ROOM_INFO_MergeImpl_def ACK_GET_ROOM_INFO_CopyFrom_def ACK_GET_ROOM_INFO_InternalSwap_def
      RoomInfo_laws map_idI)+

end
