(* ===== verification/MessageCodec.thy ===== *)
theory MessageCodec
  imports Messages
begin

text \<open>
  Parsing undoes serializing, for every message.  The locale \<open>message_codec\<close> is what the packet layer
  relies on: a message serialized into an array is merged into the message that parses the array,
  and \<open>ByteSizeLong\<close> is the length of what is serialized.  Under the laws of the protobuf library
  (\<open>pb_runtime\<close>) every message of the protocol is such a codec.
\<close>

section \<open>The contract of a message\<close>

locale message_codec =
  fixes parse :: "byte list \<Rightarrow> 'm \<Rightarrow> 'm option"
    and serialize :: "(nat \<Rightarrow> nat) \<Rightarrow> 'm \<Rightarrow> byte list"
    and byte_size :: "'m \<Rightarrow> nat"
    and merge :: "'m \<Rightarrow> 'm \<Rightarrow> 'm"
    and new :: 'm
    and valid :: "'m \<Rightarrow> bool"
  assumes parse_serialize: "valid m \<Longrightarrow> parse (serialize room m) m0 = Some (merge m0 m)"
    and merge_new: "merge new m = m"
    and length_serialize: "valid m \<Longrightarrow> length (serialize room m) = byte_size m"
begin

lemma roundtrip: "valid m \<Longrightarrow> parse (serialize room m) new = Some m"
  by (simp add: parse_serialize merge_new)

lemma serialize_determines: "valid m \<Longrightarrow> valid m' \<Longrightarrow> serialize room m = serialize room' m' \<Longrightarrow> m = m'"
  using roundtrip [of m room] roundtrip [of m' room'] by simp

end

section \<open>Parsers of the messages\<close>

context pb_runtime
begin

lemma SessionInfo_parses:
  assumes "SessionInfo_valid L m"
  shows "parses (SessionInfo_field L) (SessionInfo_InternalSerialize L room m) m0 (SessionInfo_MergeImpl m0 m)"
proof -
  let ?m1 = "if session_info_session_id m \<noteq> 0 then m0\<lparr>session_info_session_id := session_info_session_id m\<rparr> else m0"
  have last: "parses (SessionInfo_field L) [] (?m1) (SessionInfo_MergeImpl m0 m)"
    using parses_Nil [of "SessionInfo_field L" "SessionInfo_MergeImpl m0 m"]
    by (cases m0) (auto simp: SessionInfo_MergeImpl_def Let_def)
  let ?r1 = "(if session_info_session_id m \<noteq> 0 then WriteUInt64ToArray 1 (session_info_session_id m) else []) @ []"
  have f1: "parses (SessionInfo_field L) (?r1) (m0) (SessionInfo_MergeImpl m0 m)"
    by (rule parses_uint64 [where upd = "\<lambda>v. (m0)\<lparr>session_info_session_id := v\<rparr>", OF _ _ last])
      (use assms in \<open>simp_all add: SessionInfo_field_def on_tag_def SessionInfo_valid_def\<close>)
  from f1 show ?thesis by (simp add: SessionInfo_InternalSerialize_def)
qed

lemma SessionInfo_length: "SessionInfo_valid L m \<Longrightarrow> length (SessionInfo_InternalSerialize L room m) = SessionInfo_ByteSizeLong m"
  by (simp add: SessionInfo_valid_def SessionInfo_InternalSerialize_def SessionInfo_ByteSizeLong_def length_field length_string_field)

lemma SessionInfo_progress: "SessionInfo_field L tag p m = Handled m' p' \<Longrightarrow> length p' \<le> length p"
  by (auto simp: SessionInfo_field_def on_tag_def split: if_splits dest: read_progress)

lemma UserInfo_parses:
  assumes "UserInfo_valid L m"
  shows "parses (UserInfo_field L) (UserInfo_InternalSerialize L room m) m0 (UserInfo_MergeImpl m0 m)"
proof -
  let ?m1 = "if user_info_user_idx m \<noteq> 0 then m0\<lparr>user_info_user_idx := user_info_user_idx m\<rparr> else m0"
  let ?m2 = "if user_info_player_name m \<noteq> [] then ?m1\<lparr>user_info_player_name := user_info_player_name m\<rparr> else ?m1"
  have last: "parses (UserInfo_field L) [] (?m2) (UserInfo_MergeImpl m0 m)"
    using parses_Nil [of "UserInfo_field L" "UserInfo_MergeImpl m0 m"]
    by (cases m0) (auto simp: UserInfo_MergeImpl_def Let_def)
  let ?r2 = "(if user_info_player_name m \<noteq> [] then WriteStringMaybeAliased L (room 2) 2 (user_info_player_name m) else []) @ []"
  have f2: "parses (UserInfo_field L) (?r2) (?m1) (UserInfo_MergeImpl m0 m)"
    by (rule parses_string [where upd = "\<lambda>v. (?m1)\<lparr>user_info_player_name := v\<rparr>", OF _ _ _ _ last])
      (use assms in \<open>simp_all add: UserInfo_field_def on_tag_def UserInfo_valid_def\<close>)
  let ?r1 = "(if user_info_user_idx m \<noteq> 0 then WriteUInt64ToArray 1 (user_info_user_idx m) else []) @ ?r2"
  have f1: "parses (UserInfo_field L) (?r1) (m0) (UserInfo_MergeImpl m0 m)"
    by (rule parses_uint64 [where upd = "\<lambda>v. (m0)\<lparr>user_info_user_idx := v\<rparr>", OF _ _ f2])
      (use assms in \<open>simp_all add: UserInfo_field_def on_tag_def UserInfo_valid_def\<close>)
  from f1 show ?thesis by (simp add: UserInfo_InternalSerialize_def)
qed

lemma UserInfo_length: "UserInfo_valid L m \<Longrightarrow> length (UserInfo_InternalSerialize L room m) = UserInfo_ByteSizeLong m"
  by (simp add: UserInfo_valid_def UserInfo_InternalSerialize_def UserInfo_ByteSizeLong_def length_field length_string_field)

lemma UserInfo_progress: "UserInfo_field L tag p m = Handled m' p' \<Longrightarrow> length p' \<le> length p"
  by (auto simp: UserInfo_field_def on_tag_def split: if_splits dest: read_progress)

lemma RoomInfo_parses:
  assumes "RoomInfo_valid L m"
  shows "parses (RoomInfo_field L) (RoomInfo_InternalSerialize L room m) m0 (RoomInfo_MergeImpl m0 m)"
proof -
  let ?m1 = "if room_info_room_id m \<noteq> 0 then m0\<lparr>room_info_room_id := room_info_room_id m\<rparr> else m0"
  let ?m2 = "if room_info_cur_enter_user_count m \<noteq> 0 then ?m1\<lparr>room_info_cur_enter_user_count := room_info_cur_enter_user_count m\<rparr> else ?m1"
  let ?m3 = "if room_info_cur_enter_max_count m \<noteq> 0 then ?m2\<lparr>room_info_cur_enter_max_count := room_info_cur_enter_max_count m\<rparr> else ?m2"
  have last: "parses (RoomInfo_field L) [] (?m3) (RoomInfo_MergeImpl m0 m)"
    using parses_Nil [of "RoomInfo_field L" "RoomInfo_MergeImpl m0 m"]
    by (cases m0) (auto simp: RoomInfo_MergeImpl_def Let_def)
  let ?r3 = "(if room_info_cur_enter_max_count m \<noteq> 0 then WriteInt32ToArray 3 (room_info_cur_enter_max_count m) else []) @ []"
  have f3: "parses (RoomInfo_field L) (?r3) (?m2) (RoomInfo_MergeImpl m0 m)"
    by (rule parses_int32 [where upd = "\<lambda>v. (?m2)\<lparr>room_info_cur_enter_max_count := v\<rparr>", OF _ _ _ last])
      (use assms in \<open>simp_all add: RoomInfo_field_def on_tag_def RoomInfo_valid_def\<close>)
  let ?r2 = "(if room_info_cur_enter_user_count m \<noteq> 0 then WriteInt32ToArray 2 (room_info_cur_enter_user_count m) else []) @ ?r3"
  have f2: "parses (RoomInfo_field L) (?r2) (?m1) (RoomInfo_MergeImpl m0 m)"
    by (rule parses_int32 [where upd = "\<lambda>v. (?m1)\<lparr>room_info_cur_enter_user_count := v\<rparr>", OF _ _ _ f3])
      (use assms in \<open>simp_all add: RoomInfo_field_def on_tag_def RoomInfo_valid_def\<close>)
  let ?r1 = "(if room_info_room_id m \<noteq> 0 then WriteInt32ToArray 1 (room_info_room_id m) else []) @ ?r2"
  have f1: "parses (RoomInfo_field L) (?r1) (m0) (RoomInfo_MergeImpl m0 m)"
    by (rule parses_int32 [where upd = "\<lambda>v. (m0)\<lparr>room_info_room_id := v\<rparr>", OF _ _ _ f2])
      (use assms in \<open>simp_all add: RoomInfo_field_def on_tag_def RoomInfo_valid_def\<close>)
  from f1 show ?thesis by (simp add: RoomInfo_InternalSerialize_def)
qed

lemma RoomInfo_length: "RoomInfo_valid L m \<Longrightarrow> length (RoomInfo_InternalSerialize L room m) = RoomInfo_ByteSizeLong m"
  by (simp add: RoomInfo_valid_def RoomInfo_InternalSerialize_def RoomInfo_ByteSizeLong_def length_field length_string_field)

lemma RoomInfo_progress: "RoomInfo_field L tag p m = Handled m' p' \<Longrightarrow> length p' \<le> length p"
  by (auto simp: RoomInfo_field_def on_tag_def split: if_splits dest: read_progress)

lemma REQ_LOGIN_parses:
  assumes "REQ_LOGIN_valid L m"
  shows "parses (REQ_LOGIN_field L) (REQ_LOGIN_InternalSerialize L room m) m0 (REQ_LOGIN_MergeImpl m0 m)"
proof -
  let ?m1 = "if req_login_is_create m then m0\<lparr>req_login_is_create := req_login_is_create m\<rparr> else m0"
  let ?m2 = "if req_login_id m \<noteq> [] then ?m1\<lparr>req_login_id := req_login_id m\<rparr> else ?m1"
  let ?m3 = "if req_login_pw m \<noteq> [] then ?m2\<lparr>req_login_pw := req_login_pw m\<rparr> else ?m2"
  let ?m4 = "if req_login_name m \<noteq> [] then ?m3\<lparr>req_login_name := req_login_name m\<rparr> else ?m3"
  have last: "parses (REQ_LOGIN_field L) [] (?m4) (REQ_LOGIN_MergeImpl m0 m)"
    using parses_Nil [of "REQ_LOGIN_field L" "REQ_LOGIN_MergeImpl m0 m"]
    by (cases m0) (auto simp: REQ_LOGIN_MergeImpl_def Let_def)
  let ?r4 = "(if req_login_name m \<noteq> [] then WriteStringMaybeAliased L (room 4) 4 (req_login_name m) else []) @ []"
  have f4: "parses (REQ_LOGIN_field L) (?r4) (?m3) (REQ_LOGIN_MergeImpl m0 m)"
    by (rule parses_string [where upd = "\<lambda>v. (?m3)\<lparr>req_login_name := v\<rparr>", OF _ _ _ _ last])
      (use assms in \<open>simp_all add: REQ_LOGIN_field_def on_tag_def REQ_LOGIN_valid_def\<close>)
  let ?r3 = "(if req_login_pw m \<noteq> [] then WriteStringMaybeAliased L (room 3) 3 (req_login_pw m) else []) @ ?r4"
  have f3: "parses (REQ_LOGIN_field L) (?r3) (?m2) (REQ_LOGIN_MergeImpl m0 m)"
    by (rule parses_string [where upd = "\<lambda>v. (?m2)\<lparr>req_login_pw := v\<rparr>", OF _ _ _ _ f4])
      (use assms in \<open>simp_all add: REQ_LOGIN_field_def on_tag_def REQ_LOGIN_valid_def\<close>)
  let ?r2 = "(if req_login_id m \<noteq> [] then WriteStringMaybeAliased L (room 2) 2 (req_login_id m) else []) @ ?r3"
  have f2: "parses (REQ_LOGIN_field L) (?r2) (?m1) (REQ_LOGIN_MergeImpl m0 m)"
    by (rule parses_string [where upd = "\<lambda>v. (?m1)\<lparr>req_login_id := v\<rparr>", OF _ _ _ _ f3])
      (use assms in \<open>simp_all add: REQ_LOGIN_field_def on_tag_def REQ_LOGIN_valid_def\<close>)
  let ?r1 = "(if req_login_is_create m then WriteBoolToArray 1 (req_login_is_create m) else []) @ ?r2"
  have f1: "parses (REQ_LOGIN_field L) (?r1) (m0) (REQ_LOGIN_MergeImpl m0 m)"
    by (rule parses_bool [where upd = "\<lambda>v. (m0)\<lparr>req_login_is_create := v\<rparr>", OF _ _ f2])
      (use assms in \<open>simp_all add: REQ_LOGIN_field_def on_tag_def REQ_LOGIN_valid_def\<close>)
  from f1 show ?thesis by (simp add: REQ_LOGIN_InternalSerialize_def)
qed

lemma REQ_LOGIN_length: "REQ_LOGIN_valid L m \<Longrightarrow> length (REQ_LOGIN_InternalSerialize L room m) = REQ_LOGIN_ByteSizeLong m"
  by (simp add: REQ_LOGIN_valid_def REQ_LOGIN_InternalSerialize_def REQ_LOGIN_ByteSizeLong_def length_field length_string_field)

lemma REQ_LOGIN_progress: "REQ_LOGIN_field L tag p m = Handled m' p' \<Longrightarrow> length p' \<le> length p"
  by (auto simp: REQ_LOGIN_field_def on_tag_def split: if_splits dest: read_progress)

lemma ACK_LOGIN_parses:
  assumes "ACK_LOGIN_valid L m"
  shows "parses (ACK_LOGIN_field L) (ACK_LOGIN_InternalSerialize L room m) m0 (ACK_LOGIN_MergeImpl m0 m)"
proof -
  let ?m1 = "if ack_login_idx m \<noteq> 0 then m0\<lparr>ack_login_idx := ack_login_idx m\<rparr> else m0"
  let ?m2 = "if ack_login_user_name m \<noteq> [] then ?m1\<lparr>ack_login_user_name := ack_login_user_name m\<rparr> else ?m1"
  let ?m3 = "if ack_login_result m \<noteq> 0 then ?m2\<lparr>ack_login_result := ack_login_result m\<rparr> else ?m2"
  have last: "parses (ACK_LOGIN_field L) [] (?m3) (ACK_LOGIN_MergeImpl m0 m)"
    using parses_Nil [of "ACK_LOGIN_field L" "ACK_LOGIN_MergeImpl m0 m"]
    by (cases m0) (auto simp: ACK_LOGIN_MergeImpl_def Let_def)
  let ?r3 = "(if ack_login_result m \<noteq> 0 then WriteEnumToArray 3 (ack_login_result m) else []) @ []"
  have f3: "parses (ACK_LOGIN_field L) (?r3) (?m2) (ACK_LOGIN_MergeImpl m0 m)"
    by (rule parses_enum [where upd = "\<lambda>v. (?m2)\<lparr>ack_login_result := v\<rparr>", OF _ _ _ last])
      (use assms in \<open>simp_all add: ACK_LOGIN_field_def on_tag_def ACK_LOGIN_valid_def\<close>)
  let ?r2 = "(if ack_login_user_name m \<noteq> [] then WriteStringMaybeAliased L (room 2) 2 (ack_login_user_name m) else []) @ ?r3"
  have f2: "parses (ACK_LOGIN_field L) (?r2) (?m1) (ACK_LOGIN_MergeImpl m0 m)"
    by (rule parses_string [where upd = "\<lambda>v. (?m1)\<lparr>ack_login_user_name := v\<rparr>", OF _ _ _ _ f3])
      (use assms in \<open>simp_all add: ACK_LOGIN_field_def on_tag_def ACK_LOGIN_valid_def\<close>)
  let ?r1 = "(if ack_login_idx m \<noteq> 0 then WriteUInt64ToArray 1 (ack_login_idx m) else []) @ ?r2"
  have f1: "parses (ACK_LOGIN_field L) (?r1) (m0) (ACK_LOGIN_MergeImpl m0 m)"
    by (rule parses_uint64 [where upd = "\<lambda>v. (m0)\<lparr>ack_login_idx := v\<rparr>", OF _ _ f2])
      (use assms in \<open>simp_all add: ACK_LOGIN_field_def on_tag_def ACK_LOGIN_valid_def\<close>)
  from f1 show ?thesis by (simp add: ACK_LOGIN_InternalSerialize_def)
qed

lemma ACK_LOGIN_length: "ACK_LOGIN_valid L m \<Longrightarrow> length (ACK_LOGIN_InternalSerialize L room m) = ACK_LOGIN_ByteSizeLong m"
  by (simp add: ACK_LOGIN_valid_def ACK_LOGIN_InternalSerialize_def ACK_LOGIN_ByteSizeLong_def length_field length_string_field)

lemma ACK_LOGIN_progress: "ACK_LOGIN_field L tag p m = Handled m' p' \<Longrightarrow> length p' \<le> length p"
  by (auto simp: ACK_LOGIN_field_def on_tag_def split: if_splits dest: read_progress)

lemma REQ_BOT_LOGIN_parses:
  assumes "REQ_BOT_LOGIN_valid L m"
  shows "parses (REQ_BOT_LOGIN_field L) (REQ_BOT_LOGIN_InternalSerialize L room m) m0 (REQ_BOT_LOGIN_MergeImpl m0 m)"
proof -
  let ?m1 = "if req_bot_login_is_create m then m0\<lparr>req_bot_login_is_create := req_bot_login_is_create m\<rparr> else m0"
  let ?m2 = "if req_bot_login_id m \<noteq> [] then ?m1\<lparr>req_bot_login_id := req_bot_login_id m\<rparr> else ?m1"
  let ?m3 = "if req_bot_login_pw m \<noteq> [] then ?m2\<lparr>req_bot_login_pw := req_bot_login_pw m\<rparr> else ?m2"
  let ?m4 = "if req_bot_login_name m \<noteq> [] then ?m3\<lparr>req_bot_login_name := req_bot_login_name m\<rparr> else ?m3"
  have last: "parses (REQ_BOT_LOGIN_field L) [] (?m4) (REQ_BOT_LOGIN_MergeImpl m0 m)"
    using parses_Nil [of "REQ_BOT_LOGIN_field L" "REQ_BOT_LOGIN_MergeImpl m0 m"]
    by (cases m0) (auto simp: REQ_BOT_LOGIN_MergeImpl_def Let_def)
  let ?r4 = "(if req_bot_login_name m \<noteq> [] then WriteStringMaybeAliased L (room 4) 4 (req_bot_login_name m) else []) @ []"
  have f4: "parses (REQ_BOT_LOGIN_field L) (?r4) (?m3) (REQ_BOT_LOGIN_MergeImpl m0 m)"
    by (rule parses_string [where upd = "\<lambda>v. (?m3)\<lparr>req_bot_login_name := v\<rparr>", OF _ _ _ _ last])
      (use assms in \<open>simp_all add: REQ_BOT_LOGIN_field_def on_tag_def REQ_BOT_LOGIN_valid_def\<close>)
  let ?r3 = "(if req_bot_login_pw m \<noteq> [] then WriteStringMaybeAliased L (room 3) 3 (req_bot_login_pw m) else []) @ ?r4"
  have f3: "parses (REQ_BOT_LOGIN_field L) (?r3) (?m2) (REQ_BOT_LOGIN_MergeImpl m0 m)"
    by (rule parses_string [where upd = "\<lambda>v. (?m2)\<lparr>req_bot_login_pw := v\<rparr>", OF _ _ _ _ f4])
      (use assms in \<open>simp_all add: REQ_BOT_LOGIN_field_def on_tag_def REQ_BOT_LOGIN_valid_def\<close>)
  let ?r2 = "(if req_bot_login_id m \<noteq> [] then WriteStringMaybeAliased L (room 2) 2 (req_bot_login_id m) else []) @ ?r3"
  have f2: "parses (REQ_BOT_LOGIN_field L) (?r2) (?m1) (REQ_BOT_LOGIN_MergeImpl m0 m)"
    by (rule parses_string [where upd = "\<lambda>v. (?m1)\<lparr>req_bot_login_id := v\<rparr>", OF _ _ _ _ f3])
      (use assms in \<open>simp_all add: REQ_BOT_LOGIN_field_def on_tag_def REQ_BOT_LOGIN_valid_def\<close>)
  let ?r1 = "(if req_bot_login_is_create m then WriteBoolToArray 1 (req_bot_login_is_create m) else []) @ ?r2"
  have f1: "parses (REQ_BOT_LOGIN_field L) (?r1) (m0) (REQ_BOT_LOGIN_MergeImpl m0 m)"
    by (rule parses_bool [where upd = "\<lambda>v. (m0)\<lparr>req_bot_login_is_create := v\<rparr>", OF _ _ f2])
      (use assms in \<open>simp_all add: REQ_BOT_LOGIN_field_def on_tag_def REQ_BOT_LOGIN_valid_def\<close>)
  from f1 show ?thesis by (simp add: REQ_BOT_LOGIN_InternalSerialize_def)
qed

lemma REQ_BOT_LOGIN_length: "REQ_BOT_LOGIN_valid L m \<Longrightarrow> length (REQ_BOT_LOGIN_InternalSerialize L room m) = REQ_BOT_LOGIN_ByteSizeLong m"
  by (simp add: REQ_BOT_LOGIN_valid_def REQ_BOT_LOGIN_InternalSerialize_def REQ_BOT_LOGIN_ByteSizeLong_def length_field length_string_field)

lemma REQ_BOT_LOGIN_progress: "REQ_BOT_LOGIN_field L tag p m = Handled m' p' \<Longrightarrow> length p' \<le> length p"
  by (auto simp: REQ_BOT_LOGIN_field_def on_tag_def split: if_splits dest: read_progress)

lemma ACK_BOT_LOGIN_parses:
  assumes "ACK_BOT_LOGIN_valid L m"
  shows "parses (ACK_BOT_LOGIN_field L) (ACK_BOT_LOGIN_InternalSerialize L room m) m0 (ACK_BOT_LOGIN_MergeImpl m0 m)"
proof -
  let ?m1 = "if ack_bot_login_idx m \<noteq> 0 then m0\<lparr>ack_bot_login_idx := ack_bot_login_idx m\<rparr> else m0"
  let ?m2 = "if ack_bot_login_user_name m \<noteq> [] then ?m1\<lparr>ack_bot_login_user_name := ack_bot_login_user_name m\<rparr> else ?m1"
  let ?m3 = "if ack_bot_login_result m \<noteq> 0 then ?m2\<lparr>ack_bot_login_result := ack_bot_login_result m\<rparr> else ?m2"
  have last: "parses (ACK_BOT_LOGIN_field L) [] (?m3) (ACK_BOT_LOGIN_MergeImpl m0 m)"
    using parses_Nil [of "ACK_BOT_LOGIN_field L" "ACK_BOT_LOGIN_MergeImpl m0 m"]
    by (cases m0) (auto simp: ACK_BOT_LOGIN_MergeImpl_def Let_def)
  let ?r3 = "(if ack_bot_login_result m \<noteq> 0 then WriteEnumToArray 3 (ack_bot_login_result m) else []) @ []"
  have f3: "parses (ACK_BOT_LOGIN_field L) (?r3) (?m2) (ACK_BOT_LOGIN_MergeImpl m0 m)"
    by (rule parses_enum [where upd = "\<lambda>v. (?m2)\<lparr>ack_bot_login_result := v\<rparr>", OF _ _ _ last])
      (use assms in \<open>simp_all add: ACK_BOT_LOGIN_field_def on_tag_def ACK_BOT_LOGIN_valid_def\<close>)
  let ?r2 = "(if ack_bot_login_user_name m \<noteq> [] then WriteStringMaybeAliased L (room 2) 2 (ack_bot_login_user_name m) else []) @ ?r3"
  have f2: "parses (ACK_BOT_LOGIN_field L) (?r2) (?m1) (ACK_BOT_LOGIN_MergeImpl m0 m)"
    by (rule parses_string [where upd = "\<lambda>v. (?m1)\<lparr>ack_bot_login_user_name := v\<rparr>", OF _ _ _ _ f3])
      (use assms in \<open>simp_all add: ACK_BOT_LOGIN_field_def on_tag_def ACK_BOT_LOGIN_valid_def\<close>)
  let ?r1 = "(if ack_bot_login_idx m \<noteq> 0 then WriteUInt64ToArray 1 (ack_bot_login_idx m) else []) @ ?r2"
  have f1: "parses (ACK_BOT_LOGIN_field L) (?r1) (m0) (ACK_BOT_LOGIN_MergeImpl m0 m)"
    by (rule parses_uint64 [where upd = "\<lambda>v. (m0)\<lparr>ack_bot_login_idx := v\<rparr>", OF _ _ f2])
      (use assms in \<open>simp_all add: ACK_BOT_LOGIN_field_def on_tag_def ACK_BOT_LOGIN_valid_def\<close>)
  from f1 show ?thesis by (simp add: ACK_BOT_LOGIN_InternalSerialize_def)
qed

lemma ACK_BOT_LOGIN_length: "ACK_BOT_LOGIN_valid L m \<Longrightarrow> length (ACK_BOT_LOGIN_InternalSerialize L room m) = ACK_BOT_LOGIN_ByteSizeLong m"
  by (simp add: ACK_BOT_LOGIN_valid_def ACK_BOT_LOGIN_InternalSerialize_def ACK_BOT_LOGIN_ByteSizeLong_def length_field length_string_field)

lemma ACK_BOT_LOGIN_progress: "ACK_BOT_LOGIN_field L tag p m = Handled m' p' \<Longrightarrow> length p' \<le> length p"
  by (auto simp: ACK_BOT_LOGIN_field_def on_tag_def split: if_splits dest: read_progress)

lemma REQ_LOGOUT_parses:
  assumes "REQ_LOGOUT_valid L m"
  shows "parses (REQ_LOGOUT_field L) (REQ_LOGOUT_InternalSerialize L room m) m0 (REQ_LOGOUT_MergeImpl m0 m)"
proof -
  let ?m1 = "if req_logout_idx m \<noteq> 0 then m0\<lparr>req_logout_idx := req_logout_idx m\<rparr> else m0"
  have last: "parses (REQ_LOGOUT_field L) [] (?m1) (REQ_LOGOUT_MergeImpl m0 m)"
    using parses_Nil [of "REQ_LOGOUT_field L" "REQ_LOGOUT_MergeImpl m0 m"]
    by (cases m0) (auto simp: REQ_LOGOUT_MergeImpl_def Let_def)
  let ?r1 = "(if req_logout_idx m \<noteq> 0 then WriteUInt64ToArray 1 (req_logout_idx m) else []) @ []"
  have f1: "parses (REQ_LOGOUT_field L) (?r1) (m0) (REQ_LOGOUT_MergeImpl m0 m)"
    by (rule parses_uint64 [where upd = "\<lambda>v. (m0)\<lparr>req_logout_idx := v\<rparr>", OF _ _ last])
      (use assms in \<open>simp_all add: REQ_LOGOUT_field_def on_tag_def REQ_LOGOUT_valid_def\<close>)
  from f1 show ?thesis by (simp add: REQ_LOGOUT_InternalSerialize_def)
qed

lemma REQ_LOGOUT_length: "REQ_LOGOUT_valid L m \<Longrightarrow> length (REQ_LOGOUT_InternalSerialize L room m) = REQ_LOGOUT_ByteSizeLong m"
  by (simp add: REQ_LOGOUT_valid_def REQ_LOGOUT_InternalSerialize_def REQ_LOGOUT_ByteSizeLong_def length_field length_string_field)

lemma REQ_LOGOUT_progress: "REQ_LOGOUT_field L tag p m = Handled m' p' \<Longrightarrow> length p' \<le> length p"
  by (auto simp: REQ_LOGOUT_field_def on_tag_def split: if_splits dest: read_progress)

lemma ACK_LOGOUT_parses:
  assumes "ACK_LOGOUT_valid L m"
  shows "parses (ACK_LOGOUT_field L) (ACK_LOGOUT_InternalSerialize L room m) m0 (ACK_LOGOUT_MergeImpl m0 m)"
proof -
  let ?m1 = "if ack_logout_result m \<noteq> 0 then m0\<lparr>ack_logout_result := ack_logout_result m\<rparr> else m0"
  have last: "parses (ACK_LOGOUT_field L) [] (?m1) (ACK_LOGOUT_MergeImpl m0 m)"
    using parses_Nil [of "ACK_LOGOUT_field L" "ACK_LOGOUT_MergeImpl m0 m"]
    by (cases m0) (auto simp: ACK_LOGOUT_MergeImpl_def Let_def)
  let ?r1 = "(if ack_logout_result m \<noteq> 0 then WriteEnumToArray 1 (ack_logout_result m) else []) @ []"
  have f1: "parses (ACK_LOGOUT_field L) (?r1) (m0) (ACK_LOGOUT_MergeImpl m0 m)"
    by (rule parses_enum [where upd = "\<lambda>v. (m0)\<lparr>ack_logout_result := v\<rparr>", OF _ _ _ last])
      (use assms in \<open>simp_all add: ACK_LOGOUT_field_def on_tag_def ACK_LOGOUT_valid_def\<close>)
  from f1 show ?thesis by (simp add: ACK_LOGOUT_InternalSerialize_def)
qed

lemma ACK_LOGOUT_length: "ACK_LOGOUT_valid L m \<Longrightarrow> length (ACK_LOGOUT_InternalSerialize L room m) = ACK_LOGOUT_ByteSizeLong m"
  by (simp add: ACK_LOGOUT_valid_def ACK_LOGOUT_InternalSerialize_def ACK_LOGOUT_ByteSizeLong_def length_field length_string_field)

lemma ACK_LOGOUT_progress: "ACK_LOGOUT_field L tag p m = Handled m' p' \<Longrightarrow> length p' \<le> length p"
  by (auto simp: ACK_LOGOUT_field_def on_tag_def split: if_splits dest: read_progress)

lemma REQ_ENTER_ROOM_parses:
  assumes "REQ_ENTER_ROOM_valid L m"
  shows "parses (REQ_ENTER_ROOM_field L) (REQ_ENTER_ROOM_InternalSerialize L room m) m0 (REQ_ENTER_ROOM_MergeImpl m0 m)"
proof -
  let ?m1 = "if req_enter_room_room_id m \<noteq> 0 then m0\<lparr>req_enter_room_room_id := req_enter_room_room_id m\<rparr> else m0"
  have last: "parses (REQ_ENTER_ROOM_field L) [] (?m1) (REQ_ENTER_ROOM_MergeImpl m0 m)"
    using parses_Nil [of "REQ_ENTER_ROOM_field L" "REQ_ENTER_ROOM_MergeImpl m0 m"]
    by (cases m0) (auto simp: REQ_ENTER_ROOM_MergeImpl_def Let_def)
  let ?r1 = "(if req_enter_room_room_id m \<noteq> 0 then WriteInt32ToArray 1 (req_enter_room_room_id m) else []) @ []"
  have f1: "parses (REQ_ENTER_ROOM_field L) (?r1) (m0) (REQ_ENTER_ROOM_MergeImpl m0 m)"
    by (rule parses_int32 [where upd = "\<lambda>v. (m0)\<lparr>req_enter_room_room_id := v\<rparr>", OF _ _ _ last])
      (use assms in \<open>simp_all add: REQ_ENTER_ROOM_field_def on_tag_def REQ_ENTER_ROOM_valid_def\<close>)
  from f1 show ?thesis by (simp add: REQ_ENTER_ROOM_InternalSerialize_def)
qed

lemma REQ_ENTER_ROOM_length: "REQ_ENTER_ROOM_valid L m \<Longrightarrow> length (REQ_ENTER_ROOM_InternalSerialize L room m) = REQ_ENTER_ROOM_ByteSizeLong m"
  by (simp add: REQ_ENTER_ROOM_valid_def REQ_ENTER_ROOM_InternalSerialize_def REQ_ENTER_ROOM_ByteSizeLong_def length_field length_string_field)

lemma REQ_ENTER_ROOM_progress: "REQ_ENTER_ROOM_field L tag p m = Handled m' p' \<Longrightarrow> length p' \<le> length p"
  by (auto simp: REQ_ENTER_ROOM_field_def on_tag_def split: if_splits dest: read_progress)

lemma ACK_ENTER_ROOM_parses:
  assumes "ACK_ENTER_ROOM_valid L m"
  shows "parses (ACK_ENTER_ROOM_field L) (ACK_ENTER_ROOM_InternalSerialize L room m) m0 (ACK_ENTER_ROOM_MergeImpl m0 m)"
proof -
  let ?m1 = "if ack_enter_room_room_id m \<noteq> 0 then m0\<lparr>ack_enter_room_room_id := ack_enter_room_room_id m\<rparr> else m0"
  let ?m2 = "if ack_enter_room_result m \<noteq> 0 then ?m1\<lparr>ack_enter_room_result := ack_enter_room_result m\<rparr> else ?m1"
  have last: "parses (ACK_ENTER_ROOM_field L) [] (?m2) (ACK_ENTER_ROOM_MergeImpl m0 m)"
    using parses_Nil [of "ACK_ENTER_ROOM_field L" "ACK_ENTER_ROOM_MergeImpl m0 m"]
    by (cases m0) (auto simp: ACK_ENTER_ROOM_MergeImpl_def Let_def)
  let ?r2 = "(if ack_enter_room_result m \<noteq> 0 then WriteEnumToArray 2 (ack_enter_room_result m) else []) @ []"
  have f2: "parses (ACK_ENTER_ROOM_field L) (?r2) (?m1) (ACK_ENTER_ROOM_MergeImpl m0 m)"
    by (rule parses_enum [where upd = "\<lambda>v. (?m1)\<lparr>ack_enter_room_result := v\<rparr>", OF _ _ _ last])
      (use assms in \<open>simp_all add: ACK_ENTER_ROOM_field_def on_tag_def ACK_ENTER_ROOM_valid_def\<close>)
  let ?r1 = "(if ack_enter_room_room_id m \<noteq> 0 then WriteInt32ToArray 1 (ack_enter_room_room_id m) else []) @ ?r2"
  have f1: "parses (ACK_ENTER_ROOM_field L) (?r1) (m0) (ACK_ENTER_ROOM_MergeImpl m0 m)"
    by (rule parses_int32 [where upd = "\<lambda>v. (m0)\<lparr>ack_enter_room_room_id := v\<rparr>", OF _ _ _ f2])
      (use assms in \<open>simp_all add: ACK_ENTER_ROOM_field_def on_tag_def ACK_ENTER_ROOM_valid_def\<close>)
  from f1 show ?thesis by (simp add: ACK_ENTER_ROOM_InternalSerialize_def)
qed

lemma ACK_ENTER_ROOM_length: "ACK_ENTER_ROOM_valid L m \<Longrightarrow> length (ACK_ENTER_ROOM_InternalSerialize L room m) = ACK_ENTER_ROOM_ByteSizeLong m"
  by (simp add: ACK_ENTER_ROOM_valid_def ACK_ENTER_ROOM_InternalSerialize_def ACK_ENTER_ROOM_ByteSizeLong_def length_field length_string_field)

lemma ACK_ENTER_ROOM_progress: "ACK_ENTER_ROOM_field L tag p m = Handled m' p' \<Longrightarrow> length p' \<le> length p"
  by (auto simp: ACK_ENTER_ROOM_field_def on_tag_def split: if_splits dest: read_progress)

lemma ACK_EXIT_ROOM_parses:
  assumes "ACK_EXIT_ROOM_valid L m"
  shows "parses (ACK_EXIT_ROOM_field L) (ACK_EXIT_ROOM_InternalSerialize L room m) m0 (ACK_EXIT_ROOM_MergeImpl m0 m)"
proof -
  let ?m1 = "if ack_exit_room_result m \<noteq> 0 then m0\<lparr>ack_exit_room_result := ack_exit_room_result m\<rparr> else m0"
  have last: "parses (ACK_EXIT_ROOM_field L) [] (?m1) (ACK_EXIT_ROOM_MergeImpl m0 m)"
    using parses_Nil [of "ACK_EXIT_ROOM_field L" "ACK_EXIT_ROOM_MergeImpl m0 m"]
    by (cases m0) (auto simp: ACK_EXIT_ROOM_MergeImpl_def Let_def)
  let ?r1 = "(if ack_exit_room_result m \<noteq> 0 then WriteEnumToArray 1 (ack_exit_room_result m) else []) @ []"
  have f1: "parses (ACK_EXIT_ROOM_field L) (?r1) (m0) (ACK_EXIT_ROOM_MergeImpl m0 m)"
    by (rule parses_enum [where upd = "\<lambda>v. (m0)\<lparr>ack_exit_room_result := v\<rparr>", OF _ _ _ last])
      (use assms in \<open>simp_all add: ACK_EXIT_ROOM_field_def on_tag_def ACK_EXIT_ROOM_valid_def\<close>)
  from f1 show ?thesis by (simp add: ACK_EXIT_ROOM_InternalSerialize_def)
qed

lemma ACK_EXIT_ROOM_length: "ACK_EXIT_ROOM_valid L m \<Longrightarrow> length (ACK_EXIT_ROOM_InternalSerialize L room m) = ACK_EXIT_ROOM_ByteSizeLong m"
  by (simp add: ACK_EXIT_ROOM_valid_def ACK_EXIT_ROOM_InternalSerialize_def ACK_EXIT_ROOM_ByteSizeLong_def length_field length_string_field)

lemma ACK_EXIT_ROOM_progress: "ACK_EXIT_ROOM_field L tag p m = Handled m' p' \<Longrightarrow> length p' \<le> length p"
  by (auto simp: ACK_EXIT_ROOM_field_def on_tag_def split: if_splits dest: read_progress)

lemma REQ_CHAT_parses:
  assumes "REQ_CHAT_valid L m"
  shows "parses (REQ_CHAT_field L) (REQ_CHAT_InternalSerialize L room m) m0 (REQ_CHAT_MergeImpl m0 m)"
proof -
  let ?m1 = "if req_chat_message m \<noteq> [] then m0\<lparr>req_chat_message := req_chat_message m\<rparr> else m0"
  let ?m2 = "if req_chat_chat_state m \<noteq> 0 then ?m1\<lparr>req_chat_chat_state := req_chat_chat_state m\<rparr> else ?m1"
  let ?m3 = "if req_chat_room_id m \<noteq> 0 then ?m2\<lparr>req_chat_room_id := req_chat_room_id m\<rparr> else ?m2"
  let ?m4 = "if req_chat_target_name m \<noteq> [] then ?m3\<lparr>req_chat_target_name := req_chat_target_name m\<rparr> else ?m3"
  have last: "parses (REQ_CHAT_field L) [] (?m4) (REQ_CHAT_MergeImpl m0 m)"
    using parses_Nil [of "REQ_CHAT_field L" "REQ_CHAT_MergeImpl m0 m"]
    by (cases m0) (auto simp: REQ_CHAT_MergeImpl_def Let_def)
  let ?r4 = "(if req_chat_target_name m \<noteq> [] then WriteStringMaybeAliased L (room 4) 4 (req_chat_target_name m) else []) @ []"
  have f4: "parses (REQ_CHAT_field L) (?r4) (?m3) (REQ_CHAT_MergeImpl m0 m)"
    by (rule parses_string [where upd = "\<lambda>v. (?m3)\<lparr>req_chat_target_name := v\<rparr>", OF _ _ _ _ last])
      (use assms in \<open>simp_all add: REQ_CHAT_field_def on_tag_def REQ_CHAT_valid_def\<close>)
  let ?r3 = "(if req_chat_room_id m \<noteq> 0 then WriteInt32ToArray 3 (req_chat_room_id m) else []) @ ?r4"
  have f3: "parses (REQ_CHAT_field L) (?r3) (?m2) (REQ_CHAT_MergeImpl m0 m)"
    by (rule parses_int32 [where upd = "\<lambda>v. (?m2)\<lparr>req_chat_room_id := v\<rparr>", OF _ _ _ f4])
      (use assms in \<open>simp_all add: REQ_CHAT_field_def on_tag_def REQ_CHAT_valid_def\<close>)
  let ?r2 = "(if req_chat_chat_state m \<noteq> 0 then WriteEnumToArray 2 (req_chat_chat_state m) else []) @ ?r3"
  have f2: "parses (REQ_CHAT_field L) (?r2) (?m1) (REQ_CHAT_MergeImpl m0 m)"
    by (rule parses_enum [where upd = "\<lambda>v. (?m1)\<lparr>req_chat_chat_state := v\<rparr>", OF _ _ _ f3])
      (use assms in \<open>simp_all add: REQ_CHAT_field_def on_tag_def REQ_CHAT_valid_def\<close>)
  let ?r1 = "(if req_chat_message m \<noteq> [] then WriteStringMaybeAliased L (room 1) 1 (req_chat_message m) else []) @ ?r2"
  have f1: "parses (REQ_CHAT_field L) (?r1) (m0) (REQ_CHAT_MergeImpl m0 m)"
    by (rule parses_string [where upd = "\<lambda>v. (m0)\<lparr>req_chat_message := v\<rparr>", OF _ _ _ _ f2])
      (use assms in \<open>simp_all add: REQ_CHAT_field_def on_tag_def REQ_CHAT_valid_def\<close>)
  from f1 show ?thesis by (simp add: REQ_CHAT_InternalSerialize_def)
qed

lemma REQ_CHAT_length: "REQ_CHAT_valid L m \<Longrightarrow> length (REQ_CHAT_InternalSerialize L room m) = REQ_CHAT_ByteSizeLong m"
  by (simp add: REQ_CHAT_valid_def REQ_CHAT_InternalSerialize_def REQ_CHAT_ByteSizeLong_def length_field length_string_field)

lemma REQ_CHAT_progress: "REQ_CHAT_field L tag p m = Handled m' p' \<Longrightarrow> length p' \<le> length p"
  by (auto simp: REQ_CHAT_field_def on_tag_def split: if_splits dest: read_progress)

lemma ACK_CHAT_parses:
  assumes "ACK_CHAT_valid L m"
  shows "parses (ACK_CHAT_field L) (ACK_CHAT_InternalSerialize L room m) m0 (ACK_CHAT_MergeImpl m0 m)"
proof -
  let ?m1 = "if ack_chat_result m \<noteq> 0 then m0\<lparr>ack_chat_result := ack_chat_result m\<rparr> else m0"
  let ?m2 = "if ack_chat_target_count m \<noteq> 0 then ?m1\<lparr>ack_chat_target_count := ack_chat_target_count m\<rparr> else ?m1"
  have last: "parses (ACK_CHAT_field L) [] (?m2) (ACK_CHAT_MergeImpl m0 m)"
    using parses_Nil [of "ACK_CHAT_field L" "ACK_CHAT_MergeImpl m0 m"]
    by (cases m0) (auto simp: ACK_CHAT_MergeImpl_def Let_def)
  let ?r2 = "(if ack_chat_target_count m \<noteq> 0 then WriteUInt32ToArray 2 (ack_chat_target_count m) else []) @ []"
  have f2: "parses (ACK_CHAT_field L) (?r2) (?m1) (ACK_CHAT_MergeImpl m0 m)"
    by (rule parses_uint32 [where upd = "\<lambda>v. (?m1)\<lparr>ack_chat_target_count := v\<rparr>", OF _ _ last])
      (use assms in \<open>simp_all add: ACK_CHAT_field_def on_tag_def ACK_CHAT_valid_def\<close>)
  let ?r1 = "(if ack_chat_result m \<noteq> 0 then WriteEnumToArray 1 (ack_chat_result m) else []) @ ?r2"
  have f1: "parses (ACK_CHAT_field L) (?r1) (m0) (ACK_CHAT_MergeImpl m0 m)"
    by (rule parses_enum [where upd = "\<lambda>v. (m0)\<lparr>ack_chat_result := v\<rparr>", OF _ _ _ f2])
      (use assms in \<open>simp_all add: ACK_CHAT_field_def on_tag_def ACK_CHAT_valid_def\<close>)
  from f1 show ?thesis by (simp add: ACK_CHAT_InternalSerialize_def)
qed

lemma ACK_CHAT_length: "ACK_CHAT_valid L m \<Longrightarrow> length (ACK_CHAT_InternalSerialize L room m) = ACK_CHAT_ByteSizeLong m"
  by (simp add: ACK_CHAT_valid_def ACK_CHAT_InternalSerialize_def ACK_CHAT_ByteSizeLong_def length_field length_string_field)

lemma ACK_CHAT_progress: "ACK_CHAT_field L tag p m = Handled m' p' \<Longrightarrow> length p' \<le> length p"
  by (auto simp: ACK_CHAT_field_def on_tag_def split: if_splits dest: read_progress)

lemma ACK_SEND_CHAT_parses:
  assumes "ACK_SEND_CHAT_valid L m"
  shows "parses (ACK_SEND_CHAT_field L) (ACK_SEND_CHAT_InternalSerialize L room m) m0 (ACK_SEND_CHAT_MergeImpl m0 m)"
proof -
  let ?m1 = "if ack_send_chat_user_name m \<noteq> [] then m0\<lparr>ack_send_chat_user_name := ack_send_chat_user_name m\<rparr> else m0"
  let ?m2 = "if ack_send_chat_message m \<noteq> [] then ?m1\<lparr>ack_send_chat_message := ack_send_chat_message m\<rparr> else ?m1"
  have last: "parses (ACK_SEND_CHAT_field L) [] (?m2) (ACK_SEND_CHAT_MergeImpl m0 m)"
    using parses_Nil [of "ACK_SEND_CHAT_field L" "ACK_SEND_CHAT_MergeImpl m0 m"]
    by (cases m0) (auto simp: ACK_SEND_CHAT_MergeImpl_def Let_def)
  let ?r2 = "(if ack_send_chat_message m \<noteq> [] then WriteStringMaybeAliased L (room 2) 2 (ack_send_chat_message m) else []) @ []"
  have f2: "parses (ACK_SEND_CHAT_field L) (?r2) (?m1) (ACK_SEND_CHAT_MergeImpl m0 m)"
    by (rule parses_string [where upd = "\<lambda>v. (?m1)\<lparr>ack_send_chat_message := v\<rparr>", OF _ _ _ _ last])
      (use assms in \<open>simp_all add: ACK_SEND_CHAT_field_def on_tag_def ACK_SEND_CHAT_valid_def\<close>)
  let ?r1 = "(if ack_send_chat_user_name m \<noteq> [] then WriteStringMaybeAliased L (room 1) 1 (ack_send_chat_user_name m) else []) @ ?r2"
  have f1: "parses (ACK_SEND_CHAT_field L) (?r1) (m0) (ACK_SEND_CHAT_MergeImpl m0 m)"
    by (rule parses_string [where upd = "\<lambda>v. (m0)\<lparr>ack_send_chat_user_name := v\<rparr>", OF _ _ _ _ f2])
      (use assms in \<open>simp_all add: ACK_SEND_CHAT_field_def on_tag_def ACK_SEND_CHAT_valid_def\<close>)
  from f1 show ?thesis by (simp add: ACK_SEND_CHAT_InternalSerialize_def)
qed

lemma ACK_SEND_CHAT_length: "ACK_SEND_CHAT_valid L m \<Longrightarrow> length (ACK_SEND_CHAT_InternalSerialize L room m) = ACK_SEND_CHAT_ByteSizeLong m"
  by (simp add: ACK_SEND_CHAT_valid_def ACK_SEND_CHAT_InternalSerialize_def ACK_SEND_CHAT_ByteSizeLong_def length_field length_string_field)

lemma ACK_SEND_CHAT_progress: "ACK_SEND_CHAT_field L tag p m = Handled m' p' \<Longrightarrow> length p' \<le> length p"
  by (auto simp: ACK_SEND_CHAT_field_def on_tag_def split: if_splits dest: read_progress)

lemma REQ_CONNECT_PONG_parses:
  assumes "REQ_CONNECT_PONG_valid L m"
  shows "parses (REQ_CONNECT_PONG_field L) (REQ_CONNECT_PONG_InternalSerialize L room m) m0 (REQ_CONNECT_PONG_MergeImpl m0 m)"
proof -
  let ?m1 = "if req_connect_pong_server_tick m \<noteq> 0 then m0\<lparr>req_connect_pong_server_tick := req_connect_pong_server_tick m\<rparr> else m0"
  have last: "parses (REQ_CONNECT_PONG_field L) [] (?m1) (REQ_CONNECT_PONG_MergeImpl m0 m)"
    using parses_Nil [of "REQ_CONNECT_PONG_field L" "REQ_CONNECT_PONG_MergeImpl m0 m"]
    by (cases m0) (auto simp: REQ_CONNECT_PONG_MergeImpl_def Let_def)
  let ?r1 = "(if req_connect_pong_server_tick m \<noteq> 0 then WriteUInt64ToArray 1 (req_connect_pong_server_tick m) else []) @ []"
  have f1: "parses (REQ_CONNECT_PONG_field L) (?r1) (m0) (REQ_CONNECT_PONG_MergeImpl m0 m)"
    by (rule parses_uint64 [where upd = "\<lambda>v. (m0)\<lparr>req_connect_pong_server_tick := v\<rparr>", OF _ _ last])
      (use assms in \<open>simp_all add: REQ_CONNECT_PONG_field_def on_tag_def REQ_CONNECT_PONG_valid_def\<close>)
  from f1 show ?thesis by (simp add: REQ_CONNECT_PONG_InternalSerialize_def)
qed

lemma REQ_CONNECT_PONG_length: "REQ_CONNECT_PONG_valid L m \<Longrightarrow> length (REQ_CONNECT_PONG_InternalSerialize L room m) = REQ_CONNECT_PONG_ByteSizeLong m"
  by (simp add: REQ_CONNECT_PONG_valid_def REQ_CONNECT_PONG_InternalSerialize_def REQ_CONNECT_PONG_ByteSizeLong_def length_field length_string_field)

lemma REQ_CONNECT_PONG_progress: "REQ_CONNECT_PONG_field L tag p m = Handled m' p' \<Longrightarrow> length p' \<le> length p"
  by (auto simp: REQ_CONNECT_PONG_field_def on_tag_def split: if_splits dest: read_progress)

lemma ACK_SEND_CONNECT_PING_parses:
  assumes "ACK_SEND_CONNECT_PING_valid L m"
  shows "parses (ACK_SEND_CONNECT_PING_field L) (ACK_SEND_CONNECT_PING_InternalSerialize L room m) m0 (ACK_SEND_CONNECT_PING_MergeImpl m0 m)"
proof -
  let ?m1 = "if ack_send_connect_ping_server_tick m \<noteq> 0 then m0\<lparr>ack_send_connect_ping_server_tick := ack_send_connect_ping_server_tick m\<rparr> else m0"
  have last: "parses (ACK_SEND_CONNECT_PING_field L) [] (?m1) (ACK_SEND_CONNECT_PING_MergeImpl m0 m)"
    using parses_Nil [of "ACK_SEND_CONNECT_PING_field L" "ACK_SEND_CONNECT_PING_MergeImpl m0 m"]
    by (cases m0) (auto simp: ACK_SEND_CONNECT_PING_MergeImpl_def Let_def)
  let ?r1 = "(if ack_send_connect_ping_server_tick m \<noteq> 0 then WriteUInt64ToArray 1 (ack_send_connect_ping_server_tick m) else []) @ []"
  have f1: "parses (ACK_SEND_CONNECT_PING_field L) (?r1) (m0) (ACK_SEND_CONNECT_PING_MergeImpl m0 m)"
    by (rule parses_uint64 [where upd = "\<lambda>v. (m0)\<lparr>ack_send_connect_ping_server_tick := v\<rparr>", OF _ _ last])
      (use assms in \<open>simp_all add: ACK_SEND_CONNECT_PING_field_def on_tag_def ACK_SEND_CONNECT_PING_valid_def\<close>)
  from f1 show ?thesis by (simp add: ACK_SEND_CONNECT_PING_InternalSerialize_def)
qed

lemma ACK_SEND_CONNECT_PING_length: "ACK_SEND_CONNECT_PING_valid L m \<Longrightarrow> length (ACK_SEND_CONNECT_PING_InternalSerialize L room m) = ACK_SEND_CONNECT_PING_ByteSizeLong m"
  by (simp add: ACK_SEND_CONNECT_PING_valid_def ACK_SEND_CONNECT_PING_InternalSerialize_def ACK_SEND_CONNECT_PING_ByteSizeLong_def length_field length_string_field)

lemma ACK_SEND_CONNECT_PING_progress: "ACK_SEND_CONNECT_PING_field L tag p m = Handled m' p' \<Longrightarrow> length p' \<le> length p"
  by (auto simp: ACK_SEND_CONNECT_PING_field_def on_tag_def split: if_splits dest: read_progress)

lemma ACK_SERVER_FULL_parses:
  assumes "ACK_SERVER_FULL_valid L m"
  shows "parses (ACK_SERVER_FULL_field L) (ACK_SERVER_FULL_InternalSerialize L room m) m0 (ACK_SERVER_FULL_MergeImpl m0 m)"
proof -
  let ?m1 = "if ack_server_full_max_session_count m \<noteq> 0 then m0\<lparr>ack_server_full_max_session_count := ack_server_full_max_session_count m\<rparr> else m0"
  have last: "parses (ACK_SERVER_FULL_field L) [] (?m1) (ACK_SERVER_FULL_MergeImpl m0 m)"
    using parses_Nil [of "ACK_SERVER_FULL_field L" "ACK_SERVER_FULL_MergeImpl m0 m"]
    by (cases m0) (auto simp: ACK_SERVER_FULL_MergeImpl_def Let_def)
  let ?r1 = "(if ack_server_full_max_session_count m \<noteq> 0 then WriteUInt32ToArray 1 (ack_server_full_max_session_count m) else []) @ []"
  have f1: "parses (ACK_SERVER_FULL_field L) (?r1) (m0) (ACK_SERVER_FULL_MergeImpl m0 m)"
    by (rule parses_uint32 [where upd = "\<lambda>v. (m0)\<lparr>ack_server_full_max_session_count := v\<rparr>", OF _ _ last])
      (use assms in \<open>simp_all add: ACK_SERVER_FULL_field_def on_tag_def ACK_SERVER_FULL_valid_def\<close>)
  from f1 show ?thesis by (simp add: ACK_SERVER_FULL_InternalSerialize_def)
qed

lemma ACK_SERVER_FULL_length: "ACK_SERVER_FULL_valid L m \<Longrightarrow> length (ACK_SERVER_FULL_InternalSerialize L room m) = ACK_SERVER_FULL_ByteSizeLong m"
  by (simp add: ACK_SERVER_FULL_valid_def ACK_SERVER_FULL_InternalSerialize_def ACK_SERVER_FULL_ByteSizeLong_def length_field length_string_field)

lemma ACK_SERVER_FULL_progress: "ACK_SERVER_FULL_field L tag p m = Handled m' p' \<Longrightarrow> length p' \<le> length p"
  by (auto simp: ACK_SERVER_FULL_field_def on_tag_def split: if_splits dest: read_progress)

text \<open>The repeated field: an element's encoding is short, each round of the loop takes one element
  off, and the fuel reaches the last of them.\<close>

lemma RoomInfo_short: "RoomInfo_ByteSizeLong r \<le> 33"
proof -
  have "VarintSize32SignExtendedPlusOne v \<le> 11" for v
    using log2_word_bound [of "word_of_int v :: uint64"]
    by (simp add: VarintSize32SignExtendedPlusOne_def VarintSize_eq length_varint UnsafeVarint_eq)
  from this [of "room_info_room_id r"] this [of "room_info_cur_enter_user_count r"]
    this [of "room_info_cur_enter_max_count r"]
  show ?thesis by (simp add: RoomInfo_ByteSizeLong_def)
qed

lemma write_room_info:
  assumes "RoomInfo_valid L r"
  shows "lib_InternalWriteMessage L (Suc 0) (RoomInfo_InternalSerialize L room r) (RoomInfo_ByteSizeLong r) =
    10 # varint (RoomInfo_ByteSizeLong r) @ RoomInfo_InternalSerialize L room r"
  using submessage [of "RoomInfo_InternalSerialize L room r" "Suc 0"] RoomInfo_length [OF assms, of room]
    RoomInfo_short [of r]
  by simp

lemma parse_room_info:
  assumes "RoomInfo_valid L r"
  shows "ParseMessage L (\<lambda>s. RoomInfo_InternalParse L s RoomInfo_new)
      (varint (RoomInfo_ByteSizeLong r) @ RoomInfo_InternalSerialize L room r @ rest) = Some (r, rest)"
  using limit [of "RoomInfo_InternalSerialize L room r" rest] RoomInfo_length [OF assms, of room]
    RoomInfo_short [of r] parses_message [OF RoomInfo_parses [OF assms, of room RoomInfo_new]]
  by (simp add: ParseMessage_def RoomInfo_InternalParse_def RoomInfo_laws)

abbreviation room_infos :: "(nat \<Rightarrow> nat) \<Rightarrow> RoomInfo list \<Rightarrow> byte list" where
  "room_infos room rs \<equiv>
     concat (map (\<lambda>r. lib_InternalWriteMessage L 1 (RoomInfo_InternalSerialize L room r) (RoomInfo_ByteSizeLong r)) rs)"

lemma room_info_list_do_all:
  assumes "list_all (RoomInfo_valid L) (r # rs)" "length rs < fuel"
  shows "room_info_list_do L fuel
      (varint (RoomInfo_ByteSizeLong r) @ RoomInfo_InternalSerialize L room r @ room_infos room rs) m =
    Handled (m\<lparr>ack_get_room_info_room_info_list := ack_get_room_info_room_info_list m @ r # rs\<rparr>) []"
  using assms
proof (induction rs arbitrary: r m fuel)
  case Nil
  then show ?case using parse_room_info [of r room "[]"] by (cases fuel) simp_all
next
  case (Cons r' rs)
  then obtain k where "fuel = Suc k" "length rs < k" by (cases fuel) auto
  with Cons show ?case
    using parse_room_info [of r room "room_infos room (r' # rs)"] by (simp add: write_room_info)
qed

lemma ACK_GET_ROOM_INFO_parses:
  assumes "ACK_GET_ROOM_INFO_valid L m"
  shows "parses (ACK_GET_ROOM_INFO_field L) (ACK_GET_ROOM_INFO_InternalSerialize L room m) m0
    (ACK_GET_ROOM_INFO_MergeImpl m0 m)"
proof (cases "ack_get_room_info_room_info_list m")
  case Nil
  then show ?thesis
    by (simp add: ACK_GET_ROOM_INFO_InternalSerialize_def ACK_GET_ROOM_INFO_MergeImpl_def parses_Nil)
next
  case (Cons r rs)
  let ?p = "varint (RoomInfo_ByteSizeLong r) @ RoomInfo_InternalSerialize L room r @ room_infos room rs"
  have valid: "list_all (RoomInfo_valid L) (r # rs)"
    using assms Cons by (simp add: ACK_GET_ROOM_INFO_valid_def)
  have "length rs \<le> length (room_infos room rs)" using valid
    by (induction rs) (simp_all add: write_room_info)
  then have fuel: "length rs < length ?p" by (simp add: length_varint)
  have merge: "map (RoomInfo_MergeImpl RoomInfo_new) (r # rs) = r # rs" by (simp add: RoomInfo_laws map_idI)
  have "ACK_GET_ROOM_INFO_field L (MakeTag 1 2) (?p @ []) m0 = Handled (ACK_GET_ROOM_INFO_MergeImpl m0 m) []"
    using room_info_list_do_all [OF valid fuel, of room m0] Cons merge
    by (simp add: ACK_GET_ROOM_INFO_field_def on_tag_def ACK_GET_ROOM_INFO_MergeImpl_def)
  from parses_tagged [of "MakeTag 1 2" "ACK_GET_ROOM_INFO_field L" ?p, OF _ this parses_Nil] valid Cons
  show ?thesis by (simp add: ACK_GET_ROOM_INFO_InternalSerialize_def write_room_info)
qed

lemma ACK_GET_ROOM_INFO_length:
  assumes "ACK_GET_ROOM_INFO_valid L m"
  shows "length (ACK_GET_ROOM_INFO_InternalSerialize L room m) = ACK_GET_ROOM_INFO_ByteSizeLong m"
proof -
  have "length (room_infos room rs) = length rs + sum_list (map (MessageSize RoomInfo_ByteSizeLong) rs)"
    if "list_all (RoomInfo_valid L) rs" for rs
    using that
  proof (induction rs)
    case (Cons r rs)
    then show ?case using RoomInfo_short [of r]
      by (simp add: write_room_info RoomInfo_length MessageSize_def LengthDelimitedSize_def VarintSize_eq
          UnsafeVarint_eq unat_of_nat)
  qed simp
  then show ?thesis using assms
    by (simp add: ACK_GET_ROOM_INFO_InternalSerialize_def ACK_GET_ROOM_INFO_ByteSizeLong_def
        ACK_GET_ROOM_INFO_valid_def)
qed

text \<open>The fuel of the inner loop: more of it changes nothing, and the loop never moves backwards.\<close>

lemma ParseMessage_progress: "ParseMessage L f p = Some (r, p') \<Longrightarrow> length p' < length p"
  by (auto simp: ParseMessage_def split: option.splits dest: progress(5))

lemma room_info_list_fuel:
  "length p \<le> k \<Longrightarrow> length p \<le> k' \<Longrightarrow> room_info_list_do L k p m = room_info_list_do L k' p m"
proof (induction k arbitrary: p m k')
  case 0
  have "ParseMessage L f [] = None" for f :: "byte list \<Rightarrow> RoomInfo option"
    using ParseMessage_progress [of f "[]"] by (cases "ParseMessage L f []") auto
  with 0 show ?case by (cases k') simp_all
next
  case (Suc k)
  show ?case
  proof (cases "ParseMessage L (\<lambda>s. RoomInfo_InternalParse L s RoomInfo_new) p")
    case None
    then show ?thesis by (cases k') simp_all
  next
    case (Some rq)
    obtain r q where rq: "rq = (r, q)" by fastforce
    have q: "length q < length p" using ParseMessage_progress [of _ p r q] Some rq by simp
    then obtain j where "k' = Suc j" using Suc.prems(2) by (cases k') auto
    with q Suc.IH [of "tl q" j] Suc.prems Some rq show ?thesis by (simp add: Let_def)
  qed
qed

lemma room_info_list_progress: "room_info_list_do L k p m = Handled m' p' \<Longrightarrow> length p' \<le> length p"
proof (induction k arbitrary: p m)
  case (Suc k)
  then obtain r q where rq: "ParseMessage L (\<lambda>s. RoomInfo_InternalParse L s RoomInfo_new) p = Some (r, q)"
    by (auto split: option.splits)
  from ParseMessage_progress [OF rq] Suc rq show ?case by (force simp: Let_def split: if_splits)
qed simp

lemma ACK_GET_ROOM_INFO_progress:
  "ACK_GET_ROOM_INFO_field L tag p m = Handled m' p' \<Longrightarrow> length p' \<le> length p"
  by (auto simp: ACK_GET_ROOM_INFO_field_def on_tag_def split: if_splits dest: room_info_list_progress)

end

section \<open>Every message is a codec\<close>

sublocale pb_runtime \<subseteq> SessionInfo: message_codec "SessionInfo_InternalParse L" "SessionInfo_InternalSerialize L"
  SessionInfo_ByteSizeLong SessionInfo_MergeImpl SessionInfo_new "SessionInfo_valid L"
  by unfold_locales
    (simp_all add: SessionInfo_InternalParse_def SessionInfo_laws SessionInfo_length parses_message [OF SessionInfo_parses])

sublocale pb_runtime \<subseteq> UserInfo: message_codec "UserInfo_InternalParse L" "UserInfo_InternalSerialize L"
  UserInfo_ByteSizeLong UserInfo_MergeImpl UserInfo_new "UserInfo_valid L"
  by unfold_locales
    (simp_all add: UserInfo_InternalParse_def UserInfo_laws UserInfo_length parses_message [OF UserInfo_parses])

sublocale pb_runtime \<subseteq> RoomInfo: message_codec "RoomInfo_InternalParse L" "RoomInfo_InternalSerialize L"
  RoomInfo_ByteSizeLong RoomInfo_MergeImpl RoomInfo_new "RoomInfo_valid L"
  by unfold_locales
    (simp_all add: RoomInfo_InternalParse_def RoomInfo_laws RoomInfo_length parses_message [OF RoomInfo_parses])

sublocale pb_runtime \<subseteq> REQ_LOGIN: message_codec "REQ_LOGIN_InternalParse L" "REQ_LOGIN_InternalSerialize L"
  REQ_LOGIN_ByteSizeLong REQ_LOGIN_MergeImpl REQ_LOGIN_new "REQ_LOGIN_valid L"
  by unfold_locales
    (simp_all add: REQ_LOGIN_InternalParse_def REQ_LOGIN_laws REQ_LOGIN_length parses_message [OF REQ_LOGIN_parses])

sublocale pb_runtime \<subseteq> ACK_LOGIN: message_codec "ACK_LOGIN_InternalParse L" "ACK_LOGIN_InternalSerialize L"
  ACK_LOGIN_ByteSizeLong ACK_LOGIN_MergeImpl ACK_LOGIN_new "ACK_LOGIN_valid L"
  by unfold_locales
    (simp_all add: ACK_LOGIN_InternalParse_def ACK_LOGIN_laws ACK_LOGIN_length parses_message [OF ACK_LOGIN_parses])

sublocale pb_runtime \<subseteq> REQ_BOT_LOGIN: message_codec "REQ_BOT_LOGIN_InternalParse L" "REQ_BOT_LOGIN_InternalSerialize L"
  REQ_BOT_LOGIN_ByteSizeLong REQ_BOT_LOGIN_MergeImpl REQ_BOT_LOGIN_new "REQ_BOT_LOGIN_valid L"
  by unfold_locales
    (simp_all add: REQ_BOT_LOGIN_InternalParse_def REQ_BOT_LOGIN_laws REQ_BOT_LOGIN_length parses_message [OF REQ_BOT_LOGIN_parses])

sublocale pb_runtime \<subseteq> ACK_BOT_LOGIN: message_codec "ACK_BOT_LOGIN_InternalParse L" "ACK_BOT_LOGIN_InternalSerialize L"
  ACK_BOT_LOGIN_ByteSizeLong ACK_BOT_LOGIN_MergeImpl ACK_BOT_LOGIN_new "ACK_BOT_LOGIN_valid L"
  by unfold_locales
    (simp_all add: ACK_BOT_LOGIN_InternalParse_def ACK_BOT_LOGIN_laws ACK_BOT_LOGIN_length parses_message [OF ACK_BOT_LOGIN_parses])

sublocale pb_runtime \<subseteq> REQ_LOGOUT: message_codec "REQ_LOGOUT_InternalParse L" "REQ_LOGOUT_InternalSerialize L"
  REQ_LOGOUT_ByteSizeLong REQ_LOGOUT_MergeImpl REQ_LOGOUT_new "REQ_LOGOUT_valid L"
  by unfold_locales
    (simp_all add: REQ_LOGOUT_InternalParse_def REQ_LOGOUT_laws REQ_LOGOUT_length parses_message [OF REQ_LOGOUT_parses])

sublocale pb_runtime \<subseteq> ACK_LOGOUT: message_codec "ACK_LOGOUT_InternalParse L" "ACK_LOGOUT_InternalSerialize L"
  ACK_LOGOUT_ByteSizeLong ACK_LOGOUT_MergeImpl ACK_LOGOUT_new "ACK_LOGOUT_valid L"
  by unfold_locales
    (simp_all add: ACK_LOGOUT_InternalParse_def ACK_LOGOUT_laws ACK_LOGOUT_length parses_message [OF ACK_LOGOUT_parses])

sublocale pb_runtime \<subseteq> REQ_ENTER_ROOM: message_codec "REQ_ENTER_ROOM_InternalParse L" "REQ_ENTER_ROOM_InternalSerialize L"
  REQ_ENTER_ROOM_ByteSizeLong REQ_ENTER_ROOM_MergeImpl REQ_ENTER_ROOM_new "REQ_ENTER_ROOM_valid L"
  by unfold_locales
    (simp_all add: REQ_ENTER_ROOM_InternalParse_def REQ_ENTER_ROOM_laws REQ_ENTER_ROOM_length parses_message [OF REQ_ENTER_ROOM_parses])

sublocale pb_runtime \<subseteq> ACK_ENTER_ROOM: message_codec "ACK_ENTER_ROOM_InternalParse L" "ACK_ENTER_ROOM_InternalSerialize L"
  ACK_ENTER_ROOM_ByteSizeLong ACK_ENTER_ROOM_MergeImpl ACK_ENTER_ROOM_new "ACK_ENTER_ROOM_valid L"
  by unfold_locales
    (simp_all add: ACK_ENTER_ROOM_InternalParse_def ACK_ENTER_ROOM_laws ACK_ENTER_ROOM_length parses_message [OF ACK_ENTER_ROOM_parses])

sublocale pb_runtime \<subseteq> ACK_EXIT_ROOM: message_codec "ACK_EXIT_ROOM_InternalParse L" "ACK_EXIT_ROOM_InternalSerialize L"
  ACK_EXIT_ROOM_ByteSizeLong ACK_EXIT_ROOM_MergeImpl ACK_EXIT_ROOM_new "ACK_EXIT_ROOM_valid L"
  by unfold_locales
    (simp_all add: ACK_EXIT_ROOM_InternalParse_def ACK_EXIT_ROOM_laws ACK_EXIT_ROOM_length parses_message [OF ACK_EXIT_ROOM_parses])

sublocale pb_runtime \<subseteq> REQ_CHAT: message_codec "REQ_CHAT_InternalParse L" "REQ_CHAT_InternalSerialize L"
  REQ_CHAT_ByteSizeLong REQ_CHAT_MergeImpl REQ_CHAT_new "REQ_CHAT_valid L"
  by unfold_locales
    (simp_all add: REQ_CHAT_InternalParse_def REQ_CHAT_laws REQ_CHAT_length parses_message [OF REQ_CHAT_parses])

sublocale pb_runtime \<subseteq> ACK_CHAT: message_codec "ACK_CHAT_InternalParse L" "ACK_CHAT_InternalSerialize L"
  ACK_CHAT_ByteSizeLong ACK_CHAT_MergeImpl ACK_CHAT_new "ACK_CHAT_valid L"
  by unfold_locales
    (simp_all add: ACK_CHAT_InternalParse_def ACK_CHAT_laws ACK_CHAT_length parses_message [OF ACK_CHAT_parses])

sublocale pb_runtime \<subseteq> ACK_SEND_CHAT: message_codec "ACK_SEND_CHAT_InternalParse L" "ACK_SEND_CHAT_InternalSerialize L"
  ACK_SEND_CHAT_ByteSizeLong ACK_SEND_CHAT_MergeImpl ACK_SEND_CHAT_new "ACK_SEND_CHAT_valid L"
  by unfold_locales
    (simp_all add: ACK_SEND_CHAT_InternalParse_def ACK_SEND_CHAT_laws ACK_SEND_CHAT_length parses_message [OF ACK_SEND_CHAT_parses])

sublocale pb_runtime \<subseteq> REQ_CONNECT_PONG: message_codec "REQ_CONNECT_PONG_InternalParse L" "REQ_CONNECT_PONG_InternalSerialize L"
  REQ_CONNECT_PONG_ByteSizeLong REQ_CONNECT_PONG_MergeImpl REQ_CONNECT_PONG_new "REQ_CONNECT_PONG_valid L"
  by unfold_locales
    (simp_all add: REQ_CONNECT_PONG_InternalParse_def REQ_CONNECT_PONG_laws REQ_CONNECT_PONG_length parses_message [OF REQ_CONNECT_PONG_parses])

sublocale pb_runtime \<subseteq> ACK_SEND_CONNECT_PING: message_codec "ACK_SEND_CONNECT_PING_InternalParse L" "ACK_SEND_CONNECT_PING_InternalSerialize L"
  ACK_SEND_CONNECT_PING_ByteSizeLong ACK_SEND_CONNECT_PING_MergeImpl ACK_SEND_CONNECT_PING_new "ACK_SEND_CONNECT_PING_valid L"
  by unfold_locales
    (simp_all add: ACK_SEND_CONNECT_PING_InternalParse_def ACK_SEND_CONNECT_PING_laws ACK_SEND_CONNECT_PING_length parses_message [OF ACK_SEND_CONNECT_PING_parses])

sublocale pb_runtime \<subseteq> ACK_SERVER_FULL: message_codec "ACK_SERVER_FULL_InternalParse L" "ACK_SERVER_FULL_InternalSerialize L"
  ACK_SERVER_FULL_ByteSizeLong ACK_SERVER_FULL_MergeImpl ACK_SERVER_FULL_new "ACK_SERVER_FULL_valid L"
  by unfold_locales
    (simp_all add: ACK_SERVER_FULL_InternalParse_def ACK_SERVER_FULL_laws ACK_SERVER_FULL_length parses_message [OF ACK_SERVER_FULL_parses])

sublocale pb_runtime \<subseteq> ACK_GET_ROOM_INFO: message_codec "ACK_GET_ROOM_INFO_InternalParse L" "ACK_GET_ROOM_INFO_InternalSerialize L"
  ACK_GET_ROOM_INFO_ByteSizeLong ACK_GET_ROOM_INFO_MergeImpl ACK_GET_ROOM_INFO_new "ACK_GET_ROOM_INFO_valid L"
  by unfold_locales
    (simp_all add: ACK_GET_ROOM_INFO_InternalParse_def ACK_GET_ROOM_INFO_laws ACK_GET_ROOM_INFO_length parses_message [OF ACK_GET_ROOM_INFO_parses])

sublocale pb_runtime \<subseteq> REQ_GET_ROOM_INFO: message_codec "REQ_GET_ROOM_INFO_InternalParse L" "REQ_GET_ROOM_INFO_InternalSerialize L"
  REQ_GET_ROOM_INFO_ByteSizeLong "\<lambda>_ m. m" "()" "\<lambda>_. True"
  by unfold_locales (simp_all add: REQ_GET_ROOM_INFO_InternalParse_def REQ_GET_ROOM_INFO_InternalSerialize_def
    REQ_GET_ROOM_INFO_ByteSizeLong_def zero_fields)

sublocale pb_runtime \<subseteq> REQ_EXIT_ROOM: message_codec "REQ_EXIT_ROOM_InternalParse L" "REQ_EXIT_ROOM_InternalSerialize L"
  REQ_EXIT_ROOM_ByteSizeLong "\<lambda>_ m. m" "()" "\<lambda>_. True"
  by unfold_locales (simp_all add: REQ_EXIT_ROOM_InternalParse_def REQ_EXIT_ROOM_InternalSerialize_def
    REQ_EXIT_ROOM_ByteSizeLong_def zero_fields)

end
