(* ===== verification/PacketCodec.thy ===== *)
theory PacketCodec
  imports MessageCodec PacketFraming SendBuf
begin

text \<open>
  \<^verbatim>\<open>Packet/ServerPacketHandler.h\<close> and \<^verbatim>\<open>Packet/ClientPacketHandler.h\<close>: packet ids, the
  templates \<open>MakeSendBuffer\<close> that put a message behind a packet header, and the tables that \<open>Init\<close> fills
  and \<open>HandlePacket\<close> looks a received packet up in.  A request is what the client sends and the server
  parses (\<open>req_packet\<close>), an acknowledgement the other way round (\<open>ack_packet\<close>).  A write past the end of
  a buffer is \<open>None\<close> on the server; on the client \<open>None\<close> is the null pointer the template returns.
  \<open>ParseFromArray\<close> and \<open>SerializeToArray\<close> belong to the library; a parse starts from a fresh message.
  The lemmas show that what one side packs the other side unpacks.
\<close>

section \<open>Packet ids\<close>

definition PKT_REQ_LOGIN :: uint16 where "PKT_REQ_LOGIN = 1000"
definition PKT_ACK_LOGIN :: uint16 where "PKT_ACK_LOGIN = 1001"
definition PKT_REQ_BOT_LOGIN :: uint16 where "PKT_REQ_BOT_LOGIN = 1002"
definition PKT_ACK_BOT_LOGIN :: uint16 where "PKT_ACK_BOT_LOGIN = 1003"
definition PKT_REQ_LOGOUT :: uint16 where "PKT_REQ_LOGOUT = 1004"
definition PKT_ACK_LOGOUT :: uint16 where "PKT_ACK_LOGOUT = 1005"
definition PKT_REQ_GET_ROOM_INFO :: uint16 where "PKT_REQ_GET_ROOM_INFO = 1006"
definition PKT_ACK_GET_ROOM_INFO :: uint16 where "PKT_ACK_GET_ROOM_INFO = 1007"
definition PKT_REQ_ENTER_ROOM :: uint16 where "PKT_REQ_ENTER_ROOM = 1008"
definition PKT_ACK_ENTER_ROOM :: uint16 where "PKT_ACK_ENTER_ROOM = 1009"
definition PKT_REQ_EXIT_ROOM :: uint16 where "PKT_REQ_EXIT_ROOM = 1010"
definition PKT_ACK_EXIT_ROOM :: uint16 where "PKT_ACK_EXIT_ROOM = 1011"
definition PKT_REQ_CHAT :: uint16 where "PKT_REQ_CHAT = 1012"
definition PKT_ACK_CHAT :: uint16 where "PKT_ACK_CHAT = 1013"
definition PKT_ACK_SEND_CHAT :: uint16 where "PKT_ACK_SEND_CHAT = 1014"
definition PKT_REQ_CONNECT_PONG :: uint16 where "PKT_REQ_CONNECT_PONG = 1015"
definition PKT_ACK_SEND_CONNECT_PING :: uint16 where "PKT_ACK_SEND_CONNECT_PING = 1016"
definition PKT_ACK_SERVER_FULL :: uint16 where "PKT_ACK_SERVER_FULL = 1017"

lemmas PKT_defs =
  PKT_REQ_LOGIN_def PKT_ACK_LOGIN_def PKT_REQ_BOT_LOGIN_def PKT_ACK_BOT_LOGIN_def PKT_REQ_LOGOUT_def
  PKT_ACK_LOGOUT_def PKT_REQ_GET_ROOM_INFO_def PKT_ACK_GET_ROOM_INFO_def PKT_REQ_ENTER_ROOM_def
  PKT_ACK_ENTER_ROOM_def PKT_REQ_EXIT_ROOM_def PKT_ACK_EXIT_ROOM_def PKT_REQ_CHAT_def PKT_ACK_CHAT_def
  PKT_ACK_SEND_CHAT_def PKT_REQ_CONNECT_PONG_def PKT_ACK_SEND_CONNECT_PING_def PKT_ACK_SERVER_FULL_def

section \<open>Packets\<close>

datatype req_packet =
    P_REQ_LOGIN REQ_LOGIN
  | P_REQ_BOT_LOGIN REQ_BOT_LOGIN
  | P_REQ_LOGOUT REQ_LOGOUT
  | P_REQ_GET_ROOM_INFO REQ_GET_ROOM_INFO
  | P_REQ_ENTER_ROOM REQ_ENTER_ROOM
  | P_REQ_EXIT_ROOM REQ_EXIT_ROOM
  | P_REQ_CHAT REQ_CHAT
  | P_REQ_CONNECT_PONG REQ_CONNECT_PONG

datatype ack_packet =
    P_ACK_LOGIN ACK_LOGIN
  | P_ACK_BOT_LOGIN ACK_BOT_LOGIN
  | P_ACK_LOGOUT ACK_LOGOUT
  | P_ACK_GET_ROOM_INFO ACK_GET_ROOM_INFO
  | P_ACK_ENTER_ROOM ACK_ENTER_ROOM
  | P_ACK_EXIT_ROOM ACK_EXIT_ROOM
  | P_ACK_CHAT ACK_CHAT
  | P_ACK_SEND_CHAT ACK_SEND_CHAT
  | P_ACK_SEND_CONNECT_PING ACK_SEND_CONNECT_PING
  | P_ACK_SERVER_FULL ACK_SERVER_FULL

section \<open>Making a send buffer\<close>

text \<open>On the server the size is cut to 16 bits before the header is added and the result of
  \<open>SerializeToArray\<close> is ignored.\<close>

definition MakeSendBuffer ::
  "pb_lib \<Rightarrow> ('m \<Rightarrow> nat) \<Rightarrow> ((nat \<Rightarrow> nat) \<Rightarrow> 'm \<Rightarrow> byte list) \<Rightarrow> (nat \<Rightarrow> nat) \<Rightarrow> 'm \<Rightarrow> uint16 \<Rightarrow>
   SendBuffer option" where
  "MakeSendBuffer L byte_size serialize room pkt pktId =
     (let dataSize = (of_nat (byte_size pkt) :: uint16);
          packetSize = dataSize + of_nat HEADER_SIZE;
          sendBuffer = SendBuffer_new (uint packetSize) in
      if length (sb_buffer sendBuffer) < HEADER_SIZE then None
      else
        let header = \<lparr>hdr_size = packetSize, hdr_id = pktId\<rparr>;
            sendBuffer = sendBuffer\<lparr>sb_buffer := blit 0 (header_bytes header) (sb_buffer sendBuffer)\<rparr>;
            sendBuffer = (case lib_SerializeToArray L (byte_size pkt) (serialize room pkt) (unat dataSize) of
                None \<Rightarrow> sendBuffer
              | Some bytes \<Rightarrow> sendBuffer\<lparr>sb_buffer := blit HEADER_SIZE bytes (sb_buffer sendBuffer)\<rparr>) in
        Some (sb_close (ucast packetSize) sendBuffer))"

text \<open>The client checks the size first and gives no buffer when the message does not fit.\<close>

definition client_MakeSendBuffer ::
  "pb_lib \<Rightarrow> ('m \<Rightarrow> nat) \<Rightarrow> ((nat \<Rightarrow> nat) \<Rightarrow> 'm \<Rightarrow> byte list) \<Rightarrow> (nat \<Rightarrow> nat) \<Rightarrow> 'm \<Rightarrow> uint16 \<Rightarrow>
   SendBuffer option" where
  "client_MakeSendBuffer L byte_size serialize room pkt pktId =
     (let dataSize = byte_size pkt in
      if dataSize > 65535 - HEADER_SIZE then None
      else
        let packetSize = (of_nat (dataSize + HEADER_SIZE) :: uint16);
            sendBuffer = SendBuffer_new (uint packetSize);
            header = \<lparr>hdr_size = packetSize, hdr_id = pktId\<rparr>;
            sendBuffer = sendBuffer\<lparr>sb_buffer := blit 0 (header_bytes header) (sb_buffer sendBuffer)\<rparr> in
        case lib_SerializeToArray L dataSize (serialize room pkt) dataSize of
          None \<Rightarrow> None
        | Some bytes \<Rightarrow>
            Some (sb_close (ucast packetSize)
                    (sendBuffer\<lparr>sb_buffer := blit HEADER_SIZE bytes (sb_buffer sendBuffer)\<rparr>)))"

text \<open>The overloads, one per message.\<close>

fun make_ack :: "pb_lib \<Rightarrow> (nat \<Rightarrow> nat) \<Rightarrow> ack_packet \<Rightarrow> SendBuffer option" where
  "make_ack L room (P_ACK_LOGIN pkt) =
     MakeSendBuffer L ACK_LOGIN_ByteSizeLong (ACK_LOGIN_InternalSerialize L) room pkt PKT_ACK_LOGIN"
| "make_ack L room (P_ACK_BOT_LOGIN pkt) =
     MakeSendBuffer L ACK_BOT_LOGIN_ByteSizeLong (ACK_BOT_LOGIN_InternalSerialize L) room pkt PKT_ACK_BOT_LOGIN"
| "make_ack L room (P_ACK_LOGOUT pkt) =
     MakeSendBuffer L ACK_LOGOUT_ByteSizeLong (ACK_LOGOUT_InternalSerialize L) room pkt PKT_ACK_LOGOUT"
| "make_ack L room (P_ACK_GET_ROOM_INFO pkt) =
     MakeSendBuffer L ACK_GET_ROOM_INFO_ByteSizeLong (ACK_GET_ROOM_INFO_InternalSerialize L) room pkt
       PKT_ACK_GET_ROOM_INFO"
| "make_ack L room (P_ACK_ENTER_ROOM pkt) =
     MakeSendBuffer L ACK_ENTER_ROOM_ByteSizeLong (ACK_ENTER_ROOM_InternalSerialize L) room pkt PKT_ACK_ENTER_ROOM"
| "make_ack L room (P_ACK_EXIT_ROOM pkt) =
     MakeSendBuffer L ACK_EXIT_ROOM_ByteSizeLong (ACK_EXIT_ROOM_InternalSerialize L) room pkt PKT_ACK_EXIT_ROOM"
| "make_ack L room (P_ACK_CHAT pkt) =
     MakeSendBuffer L ACK_CHAT_ByteSizeLong (ACK_CHAT_InternalSerialize L) room pkt PKT_ACK_CHAT"
| "make_ack L room (P_ACK_SEND_CHAT pkt) =
     MakeSendBuffer L ACK_SEND_CHAT_ByteSizeLong (ACK_SEND_CHAT_InternalSerialize L) room pkt PKT_ACK_SEND_CHAT"
| "make_ack L room (P_ACK_SEND_CONNECT_PING pkt) =
     MakeSendBuffer L ACK_SEND_CONNECT_PING_ByteSizeLong (ACK_SEND_CONNECT_PING_InternalSerialize L) room pkt
       PKT_ACK_SEND_CONNECT_PING"
| "make_ack L room (P_ACK_SERVER_FULL pkt) =
     MakeSendBuffer L ACK_SERVER_FULL_ByteSizeLong (ACK_SERVER_FULL_InternalSerialize L) room pkt
       PKT_ACK_SERVER_FULL"

fun make_req :: "pb_lib \<Rightarrow> (nat \<Rightarrow> nat) \<Rightarrow> req_packet \<Rightarrow> SendBuffer option" where
  "make_req L room (P_REQ_LOGIN pkt) =
     client_MakeSendBuffer L REQ_LOGIN_ByteSizeLong (REQ_LOGIN_InternalSerialize L) room pkt PKT_REQ_LOGIN"
| "make_req L room (P_REQ_BOT_LOGIN pkt) =
     client_MakeSendBuffer L REQ_BOT_LOGIN_ByteSizeLong (REQ_BOT_LOGIN_InternalSerialize L) room pkt PKT_REQ_BOT_LOGIN"
| "make_req L room (P_REQ_LOGOUT pkt) =
     client_MakeSendBuffer L REQ_LOGOUT_ByteSizeLong (REQ_LOGOUT_InternalSerialize L) room pkt PKT_REQ_LOGOUT"
| "make_req L room (P_REQ_GET_ROOM_INFO pkt) =
     client_MakeSendBuffer L REQ_GET_ROOM_INFO_ByteSizeLong (REQ_GET_ROOM_INFO_InternalSerialize L) room pkt
       PKT_REQ_GET_ROOM_INFO"
| "make_req L room (P_REQ_ENTER_ROOM pkt) =
     client_MakeSendBuffer L REQ_ENTER_ROOM_ByteSizeLong (REQ_ENTER_ROOM_InternalSerialize L) room pkt PKT_REQ_ENTER_ROOM"
| "make_req L room (P_REQ_EXIT_ROOM pkt) =
     client_MakeSendBuffer L REQ_EXIT_ROOM_ByteSizeLong (REQ_EXIT_ROOM_InternalSerialize L) room pkt PKT_REQ_EXIT_ROOM"
| "make_req L room (P_REQ_CHAT pkt) =
     client_MakeSendBuffer L REQ_CHAT_ByteSizeLong (REQ_CHAT_InternalSerialize L) room pkt PKT_REQ_CHAT"
| "make_req L room (P_REQ_CONNECT_PONG pkt) =
     client_MakeSendBuffer L REQ_CONNECT_PONG_ByteSizeLong (REQ_CONNECT_PONG_InternalSerialize L) room pkt
       PKT_REQ_CONNECT_PONG"

section \<open>Handling a packet\<close>

definition ParseFromArray :: "(byte list \<Rightarrow> 'm \<Rightarrow> 'm option) \<Rightarrow> 'm \<Rightarrow> byte list \<Rightarrow> 'm option" where
  "ParseFromArray parse pkt bs = parse bs pkt"

text \<open>The template \<open>HandlePacket\<close> up to the parsed packet, which is then posted or handled.\<close>

definition parse_packet ::
  "(byte list \<Rightarrow> 'm \<Rightarrow> 'm option) \<Rightarrow> 'm \<Rightarrow> ('m \<Rightarrow> 'p) \<Rightarrow> byte list \<Rightarrow> 'p option" where
  "parse_packet parse pkt wrap buffer = map_option wrap (ParseFromArray parse pkt (drop HEADER_SIZE buffer))"

text \<open>The table after \<open>Init\<close>: \<open>None\<close> is the null handler.\<close>

definition server_GPacketHandler :: "pb_lib \<Rightarrow> uint16 \<Rightarrow> (byte list \<Rightarrow> req_packet option) option" where
  "server_GPacketHandler L pkt_id =
     (if pkt_id = PKT_REQ_LOGIN then Some (parse_packet (REQ_LOGIN_InternalParse L) REQ_LOGIN_new P_REQ_LOGIN)
      else if pkt_id = PKT_REQ_BOT_LOGIN then
        Some (parse_packet (REQ_BOT_LOGIN_InternalParse L) REQ_BOT_LOGIN_new P_REQ_BOT_LOGIN)
      else if pkt_id = PKT_REQ_LOGOUT then
        Some (parse_packet (REQ_LOGOUT_InternalParse L) REQ_LOGOUT_new P_REQ_LOGOUT)
      else if pkt_id = PKT_REQ_GET_ROOM_INFO then
        Some (parse_packet (REQ_GET_ROOM_INFO_InternalParse L) () P_REQ_GET_ROOM_INFO)
      else if pkt_id = PKT_REQ_ENTER_ROOM then
        Some (parse_packet (REQ_ENTER_ROOM_InternalParse L) REQ_ENTER_ROOM_new P_REQ_ENTER_ROOM)
      else if pkt_id = PKT_REQ_EXIT_ROOM then
        Some (parse_packet (REQ_EXIT_ROOM_InternalParse L) () P_REQ_EXIT_ROOM)
      else if pkt_id = PKT_REQ_CHAT then Some (parse_packet (REQ_CHAT_InternalParse L) REQ_CHAT_new P_REQ_CHAT)
      else if pkt_id = PKT_REQ_CONNECT_PONG then
        Some (parse_packet (REQ_CONNECT_PONG_InternalParse L) REQ_CONNECT_PONG_new P_REQ_CONNECT_PONG)
      else None)"

definition client_GPacketHandler :: "pb_lib \<Rightarrow> uint16 \<Rightarrow> (byte list \<Rightarrow> ack_packet option) option" where
  "client_GPacketHandler L pkt_id =
     (if pkt_id = PKT_ACK_LOGIN then Some (parse_packet (ACK_LOGIN_InternalParse L) ACK_LOGIN_new P_ACK_LOGIN)
      else if pkt_id = PKT_ACK_BOT_LOGIN then
        Some (parse_packet (ACK_BOT_LOGIN_InternalParse L) ACK_BOT_LOGIN_new P_ACK_BOT_LOGIN)
      else if pkt_id = PKT_ACK_LOGOUT then
        Some (parse_packet (ACK_LOGOUT_InternalParse L) ACK_LOGOUT_new P_ACK_LOGOUT)
      else if pkt_id = PKT_ACK_GET_ROOM_INFO then
        Some (parse_packet (ACK_GET_ROOM_INFO_InternalParse L) ACK_GET_ROOM_INFO_new P_ACK_GET_ROOM_INFO)
      else if pkt_id = PKT_ACK_ENTER_ROOM then
        Some (parse_packet (ACK_ENTER_ROOM_InternalParse L) ACK_ENTER_ROOM_new P_ACK_ENTER_ROOM)
      else if pkt_id = PKT_ACK_EXIT_ROOM then
        Some (parse_packet (ACK_EXIT_ROOM_InternalParse L) ACK_EXIT_ROOM_new P_ACK_EXIT_ROOM)
      else if pkt_id = PKT_ACK_CHAT then Some (parse_packet (ACK_CHAT_InternalParse L) ACK_CHAT_new P_ACK_CHAT)
      else if pkt_id = PKT_ACK_SEND_CHAT then
        Some (parse_packet (ACK_SEND_CHAT_InternalParse L) ACK_SEND_CHAT_new P_ACK_SEND_CHAT)
      else if pkt_id = PKT_ACK_SEND_CONNECT_PING then
        Some (parse_packet (ACK_SEND_CONNECT_PING_InternalParse L) ACK_SEND_CONNECT_PING_new
          P_ACK_SEND_CONNECT_PING)
      else if pkt_id = PKT_ACK_SERVER_FULL then
        Some (parse_packet (ACK_SERVER_FULL_InternalParse L) ACK_SERVER_FULL_new P_ACK_SERVER_FULL)
      else None)"

text \<open>The public \<open>HandlePacket\<close>; \<open>None\<close> is \<open>false\<close>.  The server trusts the length its framing found,
  the client compares it with the header.\<close>

definition server_HandlePacket :: "pb_lib \<Rightarrow> byte list \<Rightarrow> req_packet option" where
  "server_HandlePacket L buffer =
     (if length buffer < HEADER_SIZE then None
      else let header = read_header buffer in
        if hdr_id header \<ge> 65535 then None
        else case server_GPacketHandler L (hdr_id header) of None \<Rightarrow> None | Some handler \<Rightarrow> handler buffer)"

definition client_HandlePacket :: "pb_lib \<Rightarrow> byte list \<Rightarrow> ack_packet option" where
  "client_HandlePacket L buffer =
     (if length buffer < HEADER_SIZE then None
      else let header = read_header buffer in
        if unat (hdr_size header) \<noteq> length buffer \<or> hdr_id header \<ge> 65535 then None
        else case client_GPacketHandler L (hdr_id header) of None \<Rightarrow> None | Some handler \<Rightarrow> handler buffer)"

section \<open>Validity and size of packets\<close>

fun req_valid :: "pb_lib \<Rightarrow> req_packet \<Rightarrow> bool" where
  "req_valid L (P_REQ_LOGIN pkt) = REQ_LOGIN_valid L pkt"
| "req_valid L (P_REQ_BOT_LOGIN pkt) = REQ_BOT_LOGIN_valid L pkt"
| "req_valid L (P_REQ_LOGOUT pkt) = REQ_LOGOUT_valid L pkt"
| "req_valid L (P_REQ_GET_ROOM_INFO pkt) = True"
| "req_valid L (P_REQ_ENTER_ROOM pkt) = REQ_ENTER_ROOM_valid L pkt"
| "req_valid L (P_REQ_EXIT_ROOM pkt) = True"
| "req_valid L (P_REQ_CHAT pkt) = REQ_CHAT_valid L pkt"
| "req_valid L (P_REQ_CONNECT_PONG pkt) = REQ_CONNECT_PONG_valid L pkt"

fun req_size :: "req_packet \<Rightarrow> nat" where
  "req_size (P_REQ_LOGIN pkt) = REQ_LOGIN_ByteSizeLong pkt"
| "req_size (P_REQ_BOT_LOGIN pkt) = REQ_BOT_LOGIN_ByteSizeLong pkt"
| "req_size (P_REQ_LOGOUT pkt) = REQ_LOGOUT_ByteSizeLong pkt"
| "req_size (P_REQ_GET_ROOM_INFO pkt) = REQ_GET_ROOM_INFO_ByteSizeLong pkt"
| "req_size (P_REQ_ENTER_ROOM pkt) = REQ_ENTER_ROOM_ByteSizeLong pkt"
| "req_size (P_REQ_EXIT_ROOM pkt) = REQ_EXIT_ROOM_ByteSizeLong pkt"
| "req_size (P_REQ_CHAT pkt) = REQ_CHAT_ByteSizeLong pkt"
| "req_size (P_REQ_CONNECT_PONG pkt) = REQ_CONNECT_PONG_ByteSizeLong pkt"

fun ack_valid :: "pb_lib \<Rightarrow> ack_packet \<Rightarrow> bool" where
  "ack_valid L (P_ACK_LOGIN pkt) = ACK_LOGIN_valid L pkt"
| "ack_valid L (P_ACK_BOT_LOGIN pkt) = ACK_BOT_LOGIN_valid L pkt"
| "ack_valid L (P_ACK_LOGOUT pkt) = ACK_LOGOUT_valid L pkt"
| "ack_valid L (P_ACK_GET_ROOM_INFO pkt) = ACK_GET_ROOM_INFO_valid L pkt"
| "ack_valid L (P_ACK_ENTER_ROOM pkt) = ACK_ENTER_ROOM_valid L pkt"
| "ack_valid L (P_ACK_EXIT_ROOM pkt) = ACK_EXIT_ROOM_valid L pkt"
| "ack_valid L (P_ACK_CHAT pkt) = ACK_CHAT_valid L pkt"
| "ack_valid L (P_ACK_SEND_CHAT pkt) = ACK_SEND_CHAT_valid L pkt"
| "ack_valid L (P_ACK_SEND_CONNECT_PING pkt) = ACK_SEND_CONNECT_PING_valid L pkt"
| "ack_valid L (P_ACK_SERVER_FULL pkt) = ACK_SERVER_FULL_valid L pkt"

fun ack_size :: "ack_packet \<Rightarrow> nat" where
  "ack_size (P_ACK_LOGIN pkt) = ACK_LOGIN_ByteSizeLong pkt"
| "ack_size (P_ACK_BOT_LOGIN pkt) = ACK_BOT_LOGIN_ByteSizeLong pkt"
| "ack_size (P_ACK_LOGOUT pkt) = ACK_LOGOUT_ByteSizeLong pkt"
| "ack_size (P_ACK_GET_ROOM_INFO pkt) = ACK_GET_ROOM_INFO_ByteSizeLong pkt"
| "ack_size (P_ACK_ENTER_ROOM pkt) = ACK_ENTER_ROOM_ByteSizeLong pkt"
| "ack_size (P_ACK_EXIT_ROOM pkt) = ACK_EXIT_ROOM_ByteSizeLong pkt"
| "ack_size (P_ACK_CHAT pkt) = ACK_CHAT_ByteSizeLong pkt"
| "ack_size (P_ACK_SEND_CHAT pkt) = ACK_SEND_CHAT_ByteSizeLong pkt"
| "ack_size (P_ACK_SEND_CONNECT_PING pkt) = ACK_SEND_CONNECT_PING_ByteSizeLong pkt"
| "ack_size (P_ACK_SERVER_FULL pkt) = ACK_SERVER_FULL_ByteSizeLong pkt"

section \<open>Packing\<close>

text \<open>A buffer that holds a header and a payload and nothing else.\<close>

definition packed :: "uint16 \<Rightarrow> byte list \<Rightarrow> SendBuffer" where
  "packed pkt_id body =
     \<lparr>sb_buffer = header_bytes \<lparr>hdr_size = of_nat (length body + HEADER_SIZE), hdr_id = pkt_id\<rparr> @ body,
      sb_write_size = int (length body + HEADER_SIZE)\<rparr>"

lemma packed_data [simp]:
  "sb_data (packed pkt_id body) =
     header_bytes \<lparr>hdr_size = of_nat (length body + HEADER_SIZE), hdr_id = pkt_id\<rparr> @ body"
  by (simp add: packed_def sb_data_def HEADER_SIZE_def nat_add_distrib)

lemma length_packed: "length (sb_data (packed pkt_id body)) = length body + HEADER_SIZE"
  by (simp add: HEADER_SIZE_def)

lemma packed_ok [simp]: "length body + HEADER_SIZE < 65536 \<Longrightarrow> sb_ok (packed pkt_id body)"
  by (simp add: packed_def sb_ok_def HEADER_SIZE_def)

lemma packet_size:
  assumes "n + HEADER_SIZE < 65536"
  defines "w \<equiv> of_nat (n + HEADER_SIZE) :: uint16"
  shows "unat w = n + HEADER_SIZE" "sint (ucast w :: uint32) = int (n + HEADER_SIZE)"
    "SendBuffer_new (uint w) = \<lparr>sb_buffer = replicate (n + HEADER_SIZE) 0, sb_write_size = 0\<rparr>"
proof -
  show u: "unat w = n + HEADER_SIZE"
    using assms(1) unfolding w_def by (simp add: unat_of_nat take_bit_nat_eq_self del: of_nat_add)
  then have i: "uint w = int (n + HEADER_SIZE)" by (metis uint_nat)
  then show "sint (ucast w :: uint32) = int (n + HEADER_SIZE)"
    using assms(1) by (simp add: sint_uint unsigned_ucast_eq signed_take_bit_int_eq_self take_bit_int_eq_self)
  show "SendBuffer_new (uint w) = \<lparr>sb_buffer = replicate (n + HEADER_SIZE) 0, sb_write_size = 0\<rparr>"
    unfolding i by (simp only: SendBuffer_new_def nat_int)
qed

lemma packed_wf: "length body + HEADER_SIZE < 65536 \<Longrightarrow> packet_wf (sb_data (packed pkt_id body))"
  using packet_size(1) [of "length body"] by (simp add: packet_wf_def HEADER_SIZE_def del: of_nat_add)

lemma fill_packet:
  assumes "length body = n"
  shows "blit HEADER_SIZE body (blit 0 (header_bytes h) (replicate (n + HEADER_SIZE) 0)) = header_bytes h @ body"
  using assms by (simp add: blit_def HEADER_SIZE_def)

context pb_runtime
begin

lemma MakeSendBuffer_packed:
  assumes "length (serialize room pkt) = byte_size pkt" "byte_size pkt + HEADER_SIZE < 65536"
  shows "MakeSendBuffer L byte_size serialize room pkt pkt_id = Some (packed pkt_id (serialize room pkt))"
proof -
  have n: "unat (of_nat (byte_size pkt) :: uint16) = byte_size pkt"
    using assms(2) by (simp add: unat_of_nat take_bit_nat_eq_self)
  show ?thesis
    using packet_size [OF assms(2)] fill_packet [OF assms(1)] assms(1) to_array [OF assms(1)]
    by (simp add: MakeSendBuffer_def Let_def n sb_close_def packed_def)
qed

lemma client_MakeSendBuffer_packed:
  assumes "length (serialize room pkt) = byte_size pkt"
  shows "client_MakeSendBuffer L byte_size serialize room pkt pkt_id =
    (if byte_size pkt + HEADER_SIZE < 65536 then Some (packed pkt_id (serialize room pkt)) else None)"
proof (cases "byte_size pkt + HEADER_SIZE < 65536")
  case True
  then show ?thesis
    using packet_size [OF True] fill_packet [OF assms] assms to_array [OF assms]
    by (simp add: client_MakeSendBuffer_def Let_def sb_close_def packed_def)
qed (simp add: client_MakeSendBuffer_def HEADER_SIZE_def Let_def)

end

section \<open>Unpacking\<close>

lemma parse_packed [simp]:
  "parse_packet parse pkt wrap (sb_data (packed pkt_id body)) = map_option wrap (parse body pkt)"
  by (simp add: parse_packet_def ParseFromArray_def HEADER_SIZE_def)

lemma server_HandlePacket_packed:
  assumes "pkt_id < 65535"
  shows "server_HandlePacket L (sb_data (packed pkt_id body)) =
    (case server_GPacketHandler L pkt_id of None \<Rightarrow> None | Some handler \<Rightarrow> handler (sb_data (packed pkt_id body)))"
  using assms [unfolded not_le [symmetric]] by (simp add: server_HandlePacket_def HEADER_SIZE_def Let_def split: option.split)

lemma client_HandlePacket_packed:
  assumes "pkt_id < 65535" "length body + HEADER_SIZE < 65536"
  shows "client_HandlePacket L (sb_data (packed pkt_id body)) =
    (case client_GPacketHandler L pkt_id of None \<Rightarrow> None | Some handler \<Rightarrow> handler (sb_data (packed pkt_id body)))"
  using assms(1) [unfolded not_le [symmetric]] assms(2) packet_size(1) [OF assms(2)]
  by (simp add: client_HandlePacket_def HEADER_SIZE_def Let_def del: of_nat_add split: option.split)

context pb_runtime
begin

lemmas codec_facts =
    REQ_LOGIN.roundtrip REQ_BOT_LOGIN.roundtrip REQ_LOGOUT.roundtrip REQ_GET_ROOM_INFO.roundtrip
    REQ_ENTER_ROOM.roundtrip REQ_EXIT_ROOM.roundtrip REQ_CHAT.roundtrip REQ_CONNECT_PONG.roundtrip
    ACK_LOGIN.roundtrip ACK_BOT_LOGIN.roundtrip ACK_LOGOUT.roundtrip ACK_GET_ROOM_INFO.roundtrip
    ACK_ENTER_ROOM.roundtrip ACK_EXIT_ROOM.roundtrip ACK_CHAT.roundtrip ACK_SEND_CHAT.roundtrip
    ACK_SEND_CONNECT_PING.roundtrip ACK_SERVER_FULL.roundtrip

lemmas codec_lengths =
    REQ_LOGIN.length_serialize REQ_BOT_LOGIN.length_serialize REQ_LOGOUT.length_serialize
    REQ_GET_ROOM_INFO.length_serialize REQ_ENTER_ROOM.length_serialize
    REQ_EXIT_ROOM.length_serialize REQ_CHAT.length_serialize REQ_CONNECT_PONG.length_serialize
    ACK_LOGIN.length_serialize ACK_BOT_LOGIN.length_serialize ACK_LOGOUT.length_serialize
    ACK_GET_ROOM_INFO.length_serialize ACK_ENTER_ROOM.length_serialize
    ACK_EXIT_ROOM.length_serialize ACK_CHAT.length_serialize ACK_SEND_CHAT.length_serialize
    ACK_SEND_CONNECT_PING.length_serialize ACK_SERVER_FULL.length_serialize

text \<open>What \<open>make_req\<close> and \<open>make_ack\<close> give, with the packet id and the payload of the message.\<close>

lemma make_req_packed:
  assumes "req_valid L r"
  shows "\<exists>pkt_id body. make_req L room r =
      (if req_size r + HEADER_SIZE < 65536 then Some (packed pkt_id body) else None) \<and>
    length body = req_size r \<and> server_HandlePacket L (sb_data (packed pkt_id body)) = Some r"
  using assms
  by (cases r)
    (fastforce simp: client_MakeSendBuffer_packed codec_lengths codec_facts server_HandlePacket_packed
      server_GPacketHandler_def PKT_defs simp del: packed_data)+

lemma make_ack_packed:
  assumes "ack_valid L a" "ack_size a + HEADER_SIZE < 65536"
  shows "\<exists>pkt_id body. make_ack L room a = Some (packed pkt_id body) \<and> length body = ack_size a \<and>
    client_HandlePacket L (sb_data (packed pkt_id body)) = Some a"
  using assms
  by (cases a)
    (fastforce simp: MakeSendBuffer_packed codec_lengths codec_facts client_HandlePacket_packed
      client_GPacketHandler_def PKT_defs simp del: packed_data)+

lemma make_req_Some:
  assumes "req_valid L r" "make_req L room r = Some sb"
  shows "server_HandlePacket L (sb_data sb) = Some r \<and> sb_ok sb \<and> packet_wf (sb_data sb) \<and>
    length (sb_data sb) = req_size r + HEADER_SIZE"
  using make_req_packed [OF assms(1), of room] assms(2)
  by (auto split: if_splits simp del: packed_data simp: packed_wf length_packed)

lemma make_ack_Some:
  assumes "ack_valid L a" "ack_size a + HEADER_SIZE < 65536"
  obtains sb where "make_ack L room a = Some sb" "client_HandlePacket L (sb_data sb) = Some a" "sb_ok sb"
    "packet_wf (sb_data sb)" "length (sb_data sb) = ack_size a + HEADER_SIZE"
  using make_ack_packed [OF assms, of room] assms(2) that
  by (metis length_packed packed_ok packed_wf)

end

section \<open>Properties\<close>

text \<open>C20: What the client packs, the server unpacks: if the client's \<open>MakeSendBuffer\<close> gives a buffer for a
  request, the buffer is one well-formed packet and the server's \<open>HandlePacket\<close> parses exactly that
  request out of it; and the client gives a buffer for every request whose encoding fits into a packet.\<close>

theorem request_reaches_server:
  assumes "pb_runtime L" "req_valid L r"
  shows "(case make_req L room r of
      None \<Rightarrow> 65536 \<le> req_size r + HEADER_SIZE
    | Some sb \<Rightarrow> server_HandlePacket L (sb_data sb) = Some r \<and> packet_wf (sb_data sb) \<and> sb_ok sb)"
  using pb_runtime.make_req_packed [OF assms, of room] pb_runtime.make_req_Some [OF assms, of room]
  by (auto split: option.splits if_splits)

definition sample_login :: req_packet where
  "sample_login = P_REQ_LOGIN \<lparr>req_login_is_create = True, req_login_id = [97, 98], req_login_pw = [49],
     req_login_name = [65]\<rparr>"

lemma sample_login_facts:
  "req_valid ref_lib sample_login" "req_size sample_login = 12"
  by (simp_all add: sample_login_def REQ_LOGIN_valid_def ref_lib_def REQ_LOGIN_ByteSizeLong_def StringSize_def
      LengthDelimitedSize_def VarintSize_eq varint_small)

theorem request_reaches_server_witness:
  "req_size sample_login = 12 \<and> (\<exists>sb. make_req ref_lib (\<lambda>_. 64) sample_login = Some sb \<and>
     server_HandlePacket ref_lib (sb_data sb) = Some sample_login)"
  using request_reaches_server [OF ref.pb_runtime_axioms sample_login_facts(1), of "\<lambda>_. 64"] sample_login_facts(2)
  by (auto simp: HEADER_SIZE_def split: option.splits)

text \<open>C21: What the server packs, the client unpacks: an acknowledgement whose encoding fits into a packet
  becomes one well-formed packet, and the client's \<open>HandlePacket\<close> parses exactly that acknowledgement
  out of it.\<close>

theorem ack_reaches_client:
  assumes "pb_runtime L" "ack_valid L a" "ack_size a + HEADER_SIZE < 65536"
  shows "\<exists>sb. make_ack L room a = Some sb \<and> client_HandlePacket L (sb_data sb) = Some a \<and>
    packet_wf (sb_data sb) \<and> sb_ok sb"
  using pb_runtime.make_ack_Some [OF assms, of room] by metis

definition sample_rooms :: ack_packet where
  "sample_rooms = P_ACK_GET_ROOM_INFO \<lparr>ack_get_room_info_room_info_list =
     [\<lparr>room_info_room_id = 3, room_info_cur_enter_user_count = 7, room_info_cur_enter_max_count = 100\<rparr>]\<rparr>"

lemma sample_rooms_facts:
  "ack_valid ref_lib sample_rooms" "ack_size sample_rooms = 8"
  by (simp_all add: sample_rooms_def ACK_GET_ROOM_INFO_valid_def RoomInfo_valid_def int32_range_def
      ACK_GET_ROOM_INFO_ByteSizeLong_def MessageSize_def RoomInfo_ByteSizeLong_def LengthDelimitedSize_def
      VarintSize32SignExtendedPlusOne_def VarintSize_eq varint_small)

theorem ack_reaches_client_witness:
  "ack_size sample_rooms = 8 \<and> (\<exists>sb. make_ack ref_lib (\<lambda>_. 0) sample_rooms = Some sb \<and>
     client_HandlePacket ref_lib (sb_data sb) = Some sample_rooms)"
  using ack_reaches_client [OF ref.pb_runtime_axioms sample_rooms_facts(1), of "\<lambda>_. 0"] sample_rooms_facts(2)
  by (auto simp: HEADER_SIZE_def)

text \<open>C40: The server's \<open>MakeSendBuffer\<close> cuts the size of a message to 16 bits before it adds the header:
  exactly for the sizes that are at most three below a multiple of 65536 the buffer is smaller than
  the header written into it.\<close>

theorem make_send_buffer_overflow:
  "MakeSendBuffer L byte_size serialize room pkt pktId = None \<longleftrightarrow> 65532 \<le> byte_size pkt mod 65536"
proof -
  let ?r = "byte_size pkt mod 65536"
  have "of_nat (byte_size pkt) + of_nat HEADER_SIZE = (of_nat (byte_size pkt + 4) :: uint16)"
    by (simp add: HEADER_SIZE_def)
  then have "unat (of_nat (byte_size pkt) + of_nat HEADER_SIZE :: uint16) = (byte_size pkt + 4) mod 65536"
    by (simp only: unat_of_nat) simp
  also have "\<dots> = (?r + 4) mod 65536" by (simp only: mod_add_left_eq)
  also have "\<dots> = (if ?r < 65532 then ?r + 4 else ?r - 65532)"
    using mod_less_divisor [of 65536 "byte_size pkt"] by (auto simp: le_mod_geq)
  finally show ?thesis
    using mod_less_divisor [of 65536 "byte_size pkt"]
    by (simp add: MakeSendBuffer_def Let_def SendBuffer_new_def HEADER_SIZE_def split: if_splits)
qed

end
