(* ===== verification/SessionMgr.thy ===== *)
theory SessionMgr
  imports OrdContainers Rooms
begin

text \<open>
  The tables of \<^verbatim>\<open>NetWork/SessionManager.{h,cpp}\<close>: the set of connected sessions with its capacity,
  and the indexes from account and from name to the session that is logged in.  A session is its
  address; \<open>None\<close> is a null \<open>SessionRef\<close>, and no null is ever stored.  The methods that also act on
  the sessions themselves are in \<open>GameWorld\<close>.  Removing an index entry checks that it still belongs
  to the session that asks, which is the contract \<open>ordered_map\<close> calls a withdrawal.
\<close>

section \<open>Model\<close>

record SessionManager =
  sm_sessions :: "sid std_set"
  sm_account_sessions :: "(uint64, sid) std_map"
  sm_name_sessions :: "(wstring, sid) std_map"
  sm_session_count :: int
  sm_max_session_count :: int

definition SessionManager_new :: "int \<Rightarrow> SessionManager" where
  "SessionManager_new sessionMaxCount =
     \<lparr>sm_sessions = [], sm_account_sessions = [], sm_name_sessions = [], sm_session_count = 0,
      sm_max_session_count = sessionMaxCount\<rparr>"

text \<open>The locked part of \<open>add_session\<close>: what it returns, and whether \<open>set_process_connect\<close> follows.\<close>

definition add_session :: "sid option \<Rightarrow> SessionManager \<Rightarrow> bool \<times> bool \<times> SessionManager" where
  "add_session session sm =
     (case session of
        None \<Rightarrow> (False, False, sm)
      | Some i \<Rightarrow>
          if i \<in> set (sm_sessions sm) then (True, False, sm)
          else if sm_session_count sm \<ge> sm_max_session_count sm then (False, False, sm)
          else (True, True, sm\<lparr>sm_sessions := os_insert i (sm_sessions sm),
                              sm_session_count := sm_session_count sm + 1\<rparr>))"

definition add_account_session :: "uint64 \<Rightarrow> sid option \<Rightarrow> SessionManager \<Rightarrow> SessionManager" where
  "add_account_session account_id session sm =
     (if account_id = 0 then sm
      else case session of None \<Rightarrow> sm
        | Some i \<Rightarrow> sm\<lparr>sm_account_sessions := om_put account_id i (sm_account_sessions sm)\<rparr>)"

definition add_name_session :: "wstring \<Rightarrow> sid option \<Rightarrow> SessionManager \<Rightarrow> SessionManager" where
  "add_name_session name session sm =
     (if name = [] then sm
      else case session of None \<Rightarrow> sm
        | Some i \<Rightarrow> sm\<lparr>sm_name_sessions := om_put name i (sm_name_sessions sm)\<rparr>)"

definition release_logout_session :: "uint64 \<Rightarrow> sid option \<Rightarrow> SessionManager \<Rightarrow> SessionManager" where
  "release_logout_session account_id expected_session sm =
     (if account_id = 0 then sm
      else case expected_session of None \<Rightarrow> sm
        | Some i \<Rightarrow>
            if om_find (sm_account_sessions sm) account_id = Some i
            then sm\<lparr>sm_account_sessions := om_erase account_id (sm_account_sessions sm)\<rparr> else sm)"

definition release_name_session :: "wstring \<Rightarrow> sid option \<Rightarrow> SessionManager \<Rightarrow> SessionManager" where
  "release_name_session user_name expected_session sm =
     (if user_name = [] then sm
      else case expected_session of None \<Rightarrow> sm
        | Some i \<Rightarrow>
            if om_find (sm_name_sessions sm) user_name = Some i
            then sm\<lparr>sm_name_sessions := om_erase user_name (sm_name_sessions sm)\<rparr> else sm)"

text \<open>\<open>account_id\<close> and \<open>name\<close> are those of the session.\<close>

definition release_session :: "sid option \<Rightarrow> uint64 \<Rightarrow> wstring \<Rightarrow> SessionManager \<Rightarrow> SessionManager" where
  "release_session session account_id name sm =
     (case session of
        None \<Rightarrow> sm
      | Some i \<Rightarrow>
          let sm = release_logout_session account_id session sm;
              sm = release_name_session name session sm in
          if i \<in> set (sm_sessions sm)
          then sm\<lparr>sm_sessions := os_erase i (sm_sessions sm), sm_session_count := sm_session_count sm - 1\<rparr>
          else sm)"

definition is_whisper_target_find :: "wstring \<Rightarrow> SessionManager \<Rightarrow> bool" where
  "is_whisper_target_find target_name sm \<longleftrightarrow> om_find (sm_name_sessions sm) target_name \<noteq> None"

section \<open>Invariant\<close>

definition manager_inv :: "SessionManager \<Rightarrow> bool" where [inv_defs]:
  "manager_inv sm \<longleftrightarrow> os_wf (sm_sessions sm) \<and> om_wf (sm_account_sessions sm) \<and>
     om_wf (sm_name_sessions sm) \<and> sm_session_count sm = int (length (sm_sessions sm)) \<and>
     sm_session_count sm \<le> sm_max_session_count sm"

lemmas manager_defs = add_session_def add_account_session_def add_name_session_def
  release_logout_session_def release_name_session_def release_session_def

lemma manager_inv_new: "0 \<le> n \<Longrightarrow> manager_inv (SessionManager_new n)"
  by (simp add: manager_inv_def SessionManager_new_def)

lemma manager_inv_add: "manager_inv sm \<Longrightarrow> manager_inv (snd (snd (add_session s sm)))"
  by (auto simp: manager_inv_def add_session_def os_wf_insert length_os_insert split: option.splits)

lemma manager_inv_index:
  assumes "manager_inv sm"
  shows "manager_inv (add_account_session a s sm)" "manager_inv (add_name_session n s sm)"
    "manager_inv (release_logout_session a s sm)" "manager_inv (release_name_session n s sm)"
  using assms
  by (auto simp: manager_inv_def manager_defs om_wf_put om_wf_erase split: option.splits)

lemma manager_inv_erase:
  assumes "manager_inv sm" "i \<in> set (sm_sessions sm)"
  shows "manager_inv (sm\<lparr>sm_sessions := os_erase i (sm_sessions sm), sm_session_count := sm_session_count sm - 1\<rparr>)"
proof -
  have "sm_sessions sm \<noteq> []" using assms(2) by auto
  with assms show ?thesis
    by (auto simp: manager_inv_def os_wf_erase length_os_erase of_nat_diff Suc_leI)
qed

lemma manager_inv_release: "manager_inv sm \<Longrightarrow> manager_inv (release_session s a n sm)"
  by (auto simp: release_session_def Let_def intro!: manager_inv_index manager_inv_erase split: option.splits)

section \<open>What the operations do to the tables\<close>

lemma index_frame [simp]:
  "sm_sessions (add_account_session a s sm) = sm_sessions sm"
  "sm_sessions (add_name_session n s sm) = sm_sessions sm"
  "sm_sessions (release_logout_session a s sm) = sm_sessions sm"
  "sm_sessions (release_name_session n s sm) = sm_sessions sm"
  "sm_name_sessions (add_account_session a s sm) = sm_name_sessions sm"
  "sm_account_sessions (add_name_session n s sm) = sm_account_sessions sm"
  "sm_name_sessions (release_logout_session a s sm) = sm_name_sessions sm"
  "sm_account_sessions (release_name_session n s sm) = sm_account_sessions sm"
  "sm_max_session_count (add_account_session a s sm) = sm_max_session_count sm"
  "sm_max_session_count (add_name_session n s sm) = sm_max_session_count sm"
  "sm_max_session_count (release_logout_session a s sm) = sm_max_session_count sm"
  "sm_max_session_count (release_name_session n s sm) = sm_max_session_count sm"
  by (auto simp: manager_defs split: option.splits)

lemma find_account [simp]:
  "om_find (sm_account_sessions (add_account_session a (Some i) sm)) =
     (if a = 0 then om_find (sm_account_sessions sm) else (om_find (sm_account_sessions sm))(a \<mapsto> i))"
  "om_find (sm_account_sessions (release_logout_session a (Some i) sm)) =
     (if a \<noteq> 0 \<and> om_find (sm_account_sessions sm) a = Some i
      then (om_find (sm_account_sessions sm))(a := None) else om_find (sm_account_sessions sm))"
  by (simp_all add: manager_defs)

lemma find_name [simp]:
  "om_find (sm_name_sessions (add_name_session n (Some i) sm)) =
     (if n = [] then om_find (sm_name_sessions sm) else (om_find (sm_name_sessions sm))(n \<mapsto> i))"
  "om_find (sm_name_sessions (release_name_session n (Some i) sm)) =
     (if n \<noteq> [] \<and> om_find (sm_name_sessions sm) n = Some i
      then (om_find (sm_name_sessions sm))(n := None) else om_find (sm_name_sessions sm))"
  by (simp_all add: manager_defs)

lemma release_session_tables:
  "set (sm_sessions (release_session (Some i) a n sm)) = set (sm_sessions sm) - {i}"
  "sm_account_sessions (release_session (Some i) a n sm) = sm_account_sessions (release_logout_session a (Some i) sm)"
  "sm_name_sessions (release_session (Some i) a n sm) = sm_name_sessions (release_name_session n (Some i) sm)"
  by (auto simp: release_session_def Let_def release_logout_session_def release_name_session_def)

end
