(* ===== verification/GameWorld.thy ===== *)
theory GameWorld
  imports PacketCodec SessionFlow SessionMgr LoginDb
begin

text \<open>
  The game server as one state: the sessions with the fields \<open>GameSession\<close> adds, the session manager,
  the accounts, the rooms and the counters, and on it the handlers of
  \<^verbatim>\<open>Packet/ServerPacketHandler.cpp\<close>, the methods of \<^verbatim>\<open>Main/GameSession.cpp\<close>, the cleanup job of
  \<^verbatim>\<open>Session::process_disconnect\<close> and the methods of \<^verbatim>\<open>SessionManager\<close> that send.  What lies outside
  the program is an argument (\<open>server_ext\<close>): the protobuf library, the two Windows conversions, the
  clock, and the results of the socket calls, one environment per send of a handler and session.
  \<open>None\<close> is a crash: a failed assertion or a write outside a buffer.  \<open>server_step\<close> is one event of
  the server: an accepted connection, received bytes, a completion, a logic job, the heartbeat.
\<close>

section \<open>Outside the program\<close>

record win_lib =
  win_MultiByteToWideChar :: "byte list \<Rightarrow> wstring"
  win_WideCharToMultiByte :: "wstring \<Rightarrow> byte list"

record server_ext =
  ext_pb :: pb_lib
  ext_win :: win_lib
  ext_room :: "nat \<Rightarrow> nat"
  ext_GetTickCount64 :: uint64
  ext_io :: "nat \<Rightarrow> sid \<Rightarrow> io_env"

text \<open>The first of the two Windows calls asks for the length, the second fills the string.\<close>

definition Utf8ToWString :: "win_lib \<Rightarrow> byte list \<Rightarrow> wstring" where
  "Utf8ToWString W str =
     (if str = [] then []
      else let len = length (win_MultiByteToWideChar W str); result = replicate len 0 in
        blit 0 (win_MultiByteToWideChar W str) result)"

definition WStringToUtf8 :: "win_lib \<Rightarrow> wstring \<Rightarrow> byte list" where
  "WStringToUtf8 W wstr =
     (if wstr = [] then []
      else let len = length (win_WideCharToMultiByte W wstr); result = replicate len 0 in
        blit 0 (win_WideCharToMultiByte W wstr) result)"

text \<open>The bytes of a protobuf string are the characters of the \<open>std::string\<close>.\<close>

definition to_string :: "byte list \<Rightarrow> string" where
  "to_string bs = map (\<lambda>b. char_of (unat b)) bs"

section \<open>State\<close>

record GameSession = "req_packet Session" +
  gs_is_login :: bool

definition GameSession_new :: "bool \<Rightarrow> GameSession" where
  "GameSession_new sock = Session.extend (Session_new sock) (GameSession.fields False)"

record ServerStats =
  st_connect :: uint64
  st_login :: uint64
  st_recv_chat :: uint64
  st_broadcast_packet :: uint64
  st_broadcast_target :: uint64
  st_send_complete :: uint64
  st_send_complete_bytes :: uint64
  st_disconnect :: uint64

definition ServerStats_new :: ServerStats where
  "ServerStats_new = \<lparr>st_connect = 0, st_login = 0, st_recv_chat = 0, st_broadcast_packet = 0,
     st_broadcast_target = 0, st_send_complete = 0, st_send_complete_bytes = 0, st_disconnect = 0\<rparr>"

text \<open>\<open>w_service\<close> tells whether the weak pointer of the sessions still gives the service.\<close>

record world =
  w_sessions :: "sid \<Rightarrow> GameSession option"
  w_manager :: SessionManager
  w_service :: bool
  w_login :: Login
  w_rooms :: RoomManager
  w_stats :: ServerStats

definition world_new :: "int \<Rightarrow> world" where
  "world_new session_max_count =
     \<lparr>w_sessions = (\<lambda>_. None), w_manager = SessionManager_new session_max_count, w_service = True,
      w_login = Login_new, w_rooms = RoomManager_new, w_stats = ServerStats_new\<rparr>"

definition with_session :: "sid \<Rightarrow> (GameSession \<Rightarrow> GameSession option) \<Rightarrow> world \<Rightarrow> world option" where
  "with_session i f w =
     (case w_sessions w i of
        None \<Rightarrow> None
      | Some s \<Rightarrow> map_option (\<lambda>s. w\<lparr>w_sessions := (w_sessions w)(i \<mapsto> s)\<rparr>) (f s))"

abbreviation set_session :: "sid \<Rightarrow> (GameSession \<Rightarrow> GameSession) \<Rightarrow> world \<Rightarrow> world option" where
  "set_session i f \<equiv> with_session i (\<lambda>s. Some (f s))"

section \<open>Game sessions\<close>

definition GameSession_on_recv_packet :: "pb_lib \<Rightarrow> byte list \<Rightarrow> GameSession \<Rightarrow> GameSession" where
  "GameSession_on_recv_packet L buffer session =
     (case server_HandlePacket L buffer of None \<Rightarrow> session | Some pkt \<Rightarrow> post_logic pkt session)"

definition make_server_full_notice :: "server_ext \<Rightarrow> int \<Rightarrow> SendBuffer option" where
  "make_server_full_notice x max_session_count =
     make_ack (ext_pb x) (ext_room x)
       (P_ACK_SERVER_FULL (ACK_SERVER_FULL_new\<lparr>ack_server_full_max_session_count := word_of_int max_session_count\<rparr>))"

text \<open>The macro \<open>SEND_PACKET\<close>; \<open>k\<close> numbers the sends of a handler.\<close>

definition send_packet :: "server_ext \<Rightarrow> nat \<Rightarrow> sid \<Rightarrow> ack_packet \<Rightarrow> world \<Rightarrow> world option" where
  "send_packet x k i pkt w =
     Option.bind (make_ack (ext_pb x) (ext_room x) pkt) (\<lambda>sendBuffer.
       with_session i (send (ext_io x k i) sendBuffer) w)"

definition send_ping :: "server_ext \<Rightarrow> uint64 \<Rightarrow> sid \<Rightarrow> world \<Rightarrow> world option" where
  "send_ping x now i w =
     Option.bind (set_session i (\<lambda>s. s\<lparr>ss_last_ping_tick := now, ss_waiting_pong := True\<rparr>) w) (\<lambda>w.
       send_packet x 0 i
         (P_ACK_SEND_CONNECT_PING (ACK_SEND_CONNECT_PING_new\<lparr>ack_send_connect_ping_server_tick := now\<rparr>)) w)"

definition on_disconnect :: "sid \<Rightarrow> world \<Rightarrow> world option" where
  "on_disconnect i w =
     (let w = w\<lparr>w_stats := (w_stats w)\<lparr>st_disconnect := st_disconnect (w_stats w) + 1\<rparr>\<rparr> in
      case w_sessions w i of
        None \<Rightarrow> None
      | Some s \<Rightarrow>
          let account_id = ss_account_idx s;
              room_id = ss_enter_room_id s;
              (s, w) = (if room_id \<ge> 0
                then (s\<lparr>ss_enter_room_id := - 1\<rparr>,
                      w\<lparr>w_rooms := snd (exit_room room_id account_id (w_rooms w))\<rparr>)
                else (s, w));
              (s, w) = (if gs_is_login s
                then (s\<lparr>gs_is_login := False\<rparr>, w\<lparr>w_login := snd (logout account_id (w_login w))\<rparr>)
                else (s, w)) in
          Some (w\<lparr>w_sessions := (w_sessions w)(i \<mapsto> s)\<rparr>))"

text \<open>The job that \<open>process_disconnect\<close> queues.\<close>

definition cleanup_job :: "sid \<Rightarrow> world \<Rightarrow> world option" where
  "cleanup_job i w =
     (case w_sessions w i of
        None \<Rightarrow> None
      | Some s \<Rightarrow>
          Option.bind (if ss_was_connected s then on_disconnect i w else Some w) (\<lambda>w.
            case w_sessions w i of
              None \<Rightarrow> None
            | Some s \<Rightarrow>
                let w = (if w_service w
                    then w\<lparr>w_manager := release_session (Some i) (ss_account_idx s) (ss_user_name s) (w_manager w)\<rparr>
                    else w) in
                set_session i cleanup_fields w))"

section \<open>Sending to many sessions\<close>

text \<open>The loop of \<open>broad_cast\<close> and of the chats over the sessions collected under the lock.\<close>

fun send_all ::
  "(sid \<Rightarrow> io_env) \<Rightarrow> (GameSession \<Rightarrow> bool) \<Rightarrow> SendBuffer \<Rightarrow> sid list \<Rightarrow> int \<Rightarrow> world \<Rightarrow> (int \<times> world) option" where
  "send_all io skip sendBuffer [] count w = Some (count, w)"
| "send_all io skip sendBuffer (i # sessions) count w =
     (case w_sessions w i of
        None \<Rightarrow> None
      | Some s \<Rightarrow>
          if skip s then send_all io skip sendBuffer sessions count w
          else Option.bind (with_session i (send (io i) sendBuffer) w)
                 (send_all io skip sendBuffer sessions (count + 1)))"

definition broad_cast :: "(sid \<Rightarrow> io_env) \<Rightarrow> SendBuffer \<Rightarrow> world \<Rightarrow> (int \<times> world) option" where
  "broad_cast io sendBuffer w =
     send_all io (\<lambda>s. \<not> ss_is_connect s) sendBuffer (sm_sessions (w_manager w)) 0 w"

definition all_chat :: "(sid \<Rightarrow> io_env) \<Rightarrow> SendBuffer \<Rightarrow> world \<Rightarrow> (int \<times> world) option" where
  "all_chat io sendBuffer w =
     send_all io (\<lambda>s. \<not> ss_is_connect s \<or> ss_enter_room_id s < 0) sendBuffer (sm_sessions (w_manager w)) 0 w"

definition in_room :: "world \<Rightarrow> int \<Rightarrow> sid \<Rightarrow> bool" where
  "in_room w room_id i =
     (case w_sessions w i of None \<Rightarrow> False
      | Some s \<Rightarrow> ss_is_connect s \<and> ss_enter_room_id s = room_id)"

definition normal_chat :: "(sid \<Rightarrow> io_env) \<Rightarrow> int \<Rightarrow> SendBuffer \<Rightarrow> world \<Rightarrow> (int \<times> world) option" where
  "normal_chat io room_id sendBuffer w =
     send_all io (\<lambda>_. False) sendBuffer
       (filter (in_room w room_id) (map snd (sm_account_sessions (w_manager w)))) 0 w"

definition whisper_chat :: "(sid \<Rightarrow> io_env) \<Rightarrow> wstring \<Rightarrow> SendBuffer \<Rightarrow> world \<Rightarrow> (int \<times> world) option" where
  "whisper_chat io target_name sendBuffer w =
     (case om_find (sm_name_sessions (w_manager w)) target_name of
        None \<Rightarrow> Some (0, w)
      | Some i \<Rightarrow>
          (case w_sessions w i of
             None \<Rightarrow> None
           | Some s \<Rightarrow>
               if \<not> ss_is_connect s then Some (0, w)
               else map_option (Pair 1) (with_session i (send (io i) sendBuffer) w)))"

definition PONG_TIMEOUT_MS :: uint64 where "PONG_TIMEOUT_MS = 15000"

fun heartbeat_loop :: "server_ext \<Rightarrow> uint64 \<Rightarrow> sid list \<Rightarrow> world \<Rightarrow> world option" where
  "heartbeat_loop x now [] w = Some w"
| "heartbeat_loop x now (i # sessions) w =
     (case w_sessions w i of
        None \<Rightarrow> None
      | Some s \<Rightarrow>
          if \<not> ss_is_connect s then heartbeat_loop x now sessions w
          else if ss_waiting_pong s then
            (if now - ss_last_ping_tick s > PONG_TIMEOUT_MS
             then Option.bind (with_session i (disconnect (ext_io x 0 i)) w) (heartbeat_loop x now sessions)
             else heartbeat_loop x now sessions w)
          else Option.bind (send_ping x now i w) (heartbeat_loop x now sessions))"

definition check_heartbeat :: "server_ext \<Rightarrow> uint64 \<Rightarrow> world \<Rightarrow> world option" where
  "check_heartbeat x now w = heartbeat_loop x now (sm_sessions (w_manager w)) w"

end
