(* ===== verification/GameHandlers.thy ===== *)
theory GameHandlers
  imports GameWorld
begin

text \<open>
  The handlers of \<^verbatim>\<open>Packet/ServerPacketHandler.cpp\<close> and the events of the server.  A handler returns
  what the C++ function returns and the new state; every early return is a branch.  A handler runs as
  a logic job of its session, after a last look at \<open>is_connected\<close>.
\<close>

section \<open>Values of the protocol's enumerations\<close>

fun login_error_value :: "LOGIN_ERROR \<Rightarrow> int" where
  "login_error_value LOGIN_NONE = 0"
| "login_error_value LOGIN_FAILE = 1"
| "login_error_value LOGIN_ID_NONE = 2"
| "login_error_value LOGIN_PW_NONE = 3"
| "login_error_value LOGIN_CREATE_FAILE = 4"
| "login_error_value LOGIN_CREATE_HAS_ACCOUNT = 5"
| "login_error_value LOGIN_ALREADY_LOGIN = 6"
| "login_error_value LOGIN_USER_DUPLICATION = 7"
| "login_error_value LOGIN_SUCCESS = 8"

definition LOGOUT_FAILE :: int where "LOGOUT_FAILE = 1"
definition LOGOUT_SUCCESS :: int where "LOGOUT_SUCCESS = 6"

definition CHAT_ERROR_FAIL :: int where "CHAT_ERROR_FAIL = 1"
definition CHAT_ERROR_NOT_TARGET :: int where "CHAT_ERROR_NOT_TARGET = 2"
definition CHAT_ERROR_SUCCESS :: int where "CHAT_ERROR_SUCCESS = 3"

definition CHAT_ALL :: int where "CHAT_ALL = 0"
definition CHAT_NORMAL :: int where "CHAT_NORMAL = 1"
definition CHAT_WHISPER :: int where "CHAT_WHISPER = 2"

definition ENTER_ROOM_FAIL :: int where "ENTER_ROOM_FAIL = 1"
definition ENTER_ROOM_SUCCESS :: int where "ENTER_ROOM_SUCCESS = 2"

definition EXIT_ROOM_FAIL :: int where "EXIT_ROOM_FAIL = 1"
definition EXIT_ROOM_SUCCESS :: int where "EXIT_ROOM_SUCCESS = 2"

lemmas enum_defs = LOGOUT_FAILE_def LOGOUT_SUCCESS_def CHAT_ERROR_FAIL_def CHAT_ERROR_NOT_TARGET_def
  CHAT_ERROR_SUCCESS_def CHAT_ALL_def CHAT_NORMAL_def CHAT_WHISPER_def ENTER_ROOM_FAIL_def
  ENTER_ROOM_SUCCESS_def EXIT_ROOM_FAIL_def EXIT_ROOM_SUCCESS_def

section \<open>Logging in and out\<close>

text \<open>The branch of a successful login.\<close>

definition register_login :: "sid \<Rightarrow> uint64 \<Rightarrow> wstring \<Rightarrow> world \<Rightarrow> world option" where
  "register_login i idx user_name w =
     map_option (\<lambda>w.
       let w = (if w_service w
           then w\<lparr>w_manager := add_name_session user_name (Some i) (add_account_session idx (Some i) (w_manager w))\<rparr>
           else w) in
       w\<lparr>w_stats := (w_stats w)\<lparr>st_login := st_login (w_stats w) + 1\<rparr>\<rparr>)
     (set_session i (\<lambda>s. s\<lparr>gs_is_login := True, ss_account_idx := idx, ss_user_name := user_name\<rparr>) w)"

text \<open>The account is created, or looked up; the result with the two \<open>OUT\<close> parameters.\<close>

definition attempt_login ::
  "win_lib \<Rightarrow> bool \<Rightarrow> byte list \<Rightarrow> byte list \<Rightarrow> byte list \<Rightarrow> Login \<Rightarrow> LOGIN_ERROR \<times> uint64 \<times> wstring \<times> Login" where
  "attempt_login W is_create uid pw name lg =
     (if is_create
      then let user_name = Utf8ToWString W name;
               (result, idx, lg) = create_account (to_string uid) (to_string pw) user_name 0 lg
           in (result, idx, user_name, lg)
      else let (result, user_name, idx, lg) = login (to_string uid) (to_string pw) [] 0 lg
           in (result, idx, user_name, lg))"

text \<open>The two login handlers are the same code over different messages; \<open>ack\<close> builds the answer.\<close>

definition login_request ::
  "server_ext \<Rightarrow> (uint64 \<Rightarrow> byte list \<Rightarrow> int \<Rightarrow> ack_packet) \<Rightarrow> sid option \<Rightarrow> bool \<Rightarrow> byte list \<Rightarrow> byte list \<Rightarrow>
   byte list \<Rightarrow> world \<Rightarrow> (bool \<times> world) option" where
  "login_request x ack session is_create uid pw name w =
     (case session of
        None \<Rightarrow> Some (False, w)
      | Some i \<Rightarrow>
          if uid = [] \<or> length uid > 32 then Some (False, w)
          else if pw = [] \<or> length pw > 32 then Some (False, w)
          else if is_create \<and> (name = [] \<or> length name > 32) then Some (False, w)
          else case w_sessions w i of
            None \<Rightarrow> None
          | Some s \<Rightarrow>
              if gs_is_login s then map_option (Pair False) (with_session i (disconnect (ext_io x 0 i)) w)
              else
                let (result, idx, user_name, lg) = attempt_login (ext_win x) is_create uid pw name (w_login w);
                    w = w\<lparr>w_login := lg\<rparr> in
                Option.bind (if result = LOGIN_SUCCESS then register_login i idx user_name w else Some w) (\<lambda>w.
                  map_option (Pair True)
                    (send_packet x 0 i
                      (ack idx (WStringToUtf8 (ext_win x) user_name) (login_error_value result)) w)))"

definition Handle_REQ_LOGIN ::
  "server_ext \<Rightarrow> sid option \<Rightarrow> REQ_LOGIN \<Rightarrow> world \<Rightarrow> (bool \<times> world) option" where
  "Handle_REQ_LOGIN x session pkt w =
     login_request x
       (\<lambda>idx name result. P_ACK_LOGIN (ACK_LOGIN_new\<lparr>ack_login_idx := idx, ack_login_user_name := name,
          ack_login_result := result\<rparr>))
       session (req_login_is_create pkt) (req_login_id pkt) (req_login_pw pkt) (req_login_name pkt) w"

definition Handle_REQ_BOT_LOGIN ::
  "server_ext \<Rightarrow> sid option \<Rightarrow> REQ_BOT_LOGIN \<Rightarrow> world \<Rightarrow> (bool \<times> world) option" where
  "Handle_REQ_BOT_LOGIN x session pkt w =
     login_request x
       (\<lambda>idx name result. P_ACK_BOT_LOGIN (ACK_BOT_LOGIN_new\<lparr>ack_bot_login_idx := idx,
          ack_bot_login_user_name := name, ack_bot_login_result := result\<rparr>))
       session (req_bot_login_is_create pkt) (req_bot_login_id pkt) (req_bot_login_pw pkt)
       (req_bot_login_name pkt) w"

definition Handle_REQ_LOGOUT ::
  "server_ext \<Rightarrow> sid option \<Rightarrow> REQ_LOGOUT \<Rightarrow> world \<Rightarrow> (bool \<times> world) option" where
  "Handle_REQ_LOGOUT x session pkt w =
     (case session of
        None \<Rightarrow> Some (False, w)
      | Some i \<Rightarrow>
          (case w_sessions w i of
             None \<Rightarrow> None
           | Some s \<Rightarrow>
               if \<not> gs_is_login s then map_option (Pair False) (with_session i (disconnect (ext_io x 0 i)) w)
               else
                 let (s, w) = (if ss_enter_room_id s \<ge> 0
                       then (s\<lparr>ss_enter_room_id := - 1\<rparr>,
                             w\<lparr>w_rooms := snd (exit_room (ss_enter_room_id s) (ss_account_idx s) (w_rooms w))\<rparr>)
                       else (s, w));
                     w = w\<lparr>w_sessions := (w_sessions w)(i \<mapsto> s)\<rparr>;
                     (ok, lg) = logout (ss_account_idx s) (w_login w) in
                 if \<not> ok then
                   map_option (Pair True)
                     (send_packet x 0 i (P_ACK_LOGOUT (ACK_LOGOUT_new\<lparr>ack_logout_result := LOGOUT_FAILE\<rparr>)) w)
                 else
                   let w = w\<lparr>w_login := lg\<rparr>;
                       w = (if w_service w
                         then w\<lparr>w_manager := release_name_session (ss_user_name s) (Some i)
                                 (release_logout_session (ss_account_idx s) (Some i) (w_manager w))\<rparr>
                         else w);
                       s = s\<lparr>ss_account_idx := 0, ss_user_name := [], gs_is_login := False\<rparr>;
                       w = w\<lparr>w_sessions := (w_sessions w)(i \<mapsto> s)\<rparr> in
                   map_option (Pair True)
                     (send_packet x 0 i (P_ACK_LOGOUT (ACK_LOGOUT_new\<lparr>ack_logout_result := LOGOUT_SUCCESS\<rparr>)) w)))"

section \<open>Rooms\<close>

definition room_info_of :: "Room \<Rightarrow> RoomInfo" where
  "room_info_of room = RoomInfo_new\<lparr>room_info_room_id := uint (rm_room_id room),
     room_info_cur_enter_user_count := rm_room_cur_count room,
     room_info_cur_enter_max_count := rm_room_max_count room\<rparr>"

definition Handle_REQ_GET_ROOM_INFO ::
  "server_ext \<Rightarrow> sid option \<Rightarrow> REQ_GET_ROOM_INFO \<Rightarrow> world \<Rightarrow> (bool \<times> world) option" where
  "Handle_REQ_GET_ROOM_INFO x session pkt w =
     (case session of
        None \<Rightarrow> Some (False, w)
      | Some i \<Rightarrow>
          (case w_sessions w i of
             None \<Rightarrow> None
           | Some s \<Rightarrow>
               if \<not> gs_is_login s then map_option (Pair False) (with_session i (disconnect (ext_io x 0 i)) w)
               else map_option (Pair True)
                 (send_packet x 0 i (P_ACK_GET_ROOM_INFO \<lparr>ack_get_room_info_room_info_list =
                    map (room_info_of \<circ> snd) (rmg_room_list (w_rooms w))\<rparr>) w)))"

definition Handle_REQ_ENTER_ROOM ::
  "server_ext \<Rightarrow> sid option \<Rightarrow> REQ_ENTER_ROOM \<Rightarrow> world \<Rightarrow> (bool \<times> world) option" where
  "Handle_REQ_ENTER_ROOM x session pkt w =
     (case session of
        None \<Rightarrow> Some (False, w)
      | Some i \<Rightarrow>
          (case w_sessions w i of
             None \<Rightarrow> None
           | Some s \<Rightarrow>
               if \<not> gs_is_login s then map_option (Pair False) (with_session i (disconnect (ext_io x 0 i)) w)
               else
                 let enter_room_id = req_enter_room_room_id pkt in
                 if ss_enter_room_id s \<ge> 0 then
                   map_option (Pair True) (send_packet x 0 i
                     (P_ACK_ENTER_ROOM (ACK_ENTER_ROOM_new\<lparr>ack_enter_room_result := ENTER_ROOM_FAIL\<rparr>)) w)
                 else
                   let (ok, rm) = enter_room enter_room_id (ss_account_idx s) (Some i) (w_rooms w);
                       w = w\<lparr>w_rooms := rm\<rparr> in
                   if \<not> ok then
                     map_option (Pair True) (send_packet x 0 i
                       (P_ACK_ENTER_ROOM (ACK_ENTER_ROOM_new\<lparr>ack_enter_room_result := ENTER_ROOM_FAIL\<rparr>)) w)
                   else
                     Option.bind (set_session i (\<lambda>s. s\<lparr>ss_enter_room_id := enter_room_id\<rparr>) w) (\<lambda>w.
                       map_option (Pair True) (send_packet x 0 i
                         (P_ACK_ENTER_ROOM (ACK_ENTER_ROOM_new\<lparr>ack_enter_room_room_id := enter_room_id,
                            ack_enter_room_result := ENTER_ROOM_SUCCESS\<rparr>)) w))))"

definition Handle_REQ_EXIT_ROOM ::
  "server_ext \<Rightarrow> sid option \<Rightarrow> REQ_EXIT_ROOM \<Rightarrow> world \<Rightarrow> (bool \<times> world) option" where
  "Handle_REQ_EXIT_ROOM x session pkt w =
     (case session of
        None \<Rightarrow> Some (False, w)
      | Some i \<Rightarrow>
          (case w_sessions w i of
             None \<Rightarrow> None
           | Some s \<Rightarrow>
               if \<not> gs_is_login s then map_option (Pair False) (with_session i (disconnect (ext_io x 0 i)) w)
               else
                 let exit_room_id = ss_enter_room_id s;
                     (ok, rm) = (if exit_room_id < 0 then (False, w_rooms w)
                                 else exit_room exit_room_id (ss_account_idx s) (w_rooms w));
                     w = w\<lparr>w_rooms := rm\<rparr> in
                 if \<not> ok then
                   map_option (Pair True) (send_packet x 0 i
                     (P_ACK_EXIT_ROOM (ACK_EXIT_ROOM_new\<lparr>ack_exit_room_result := EXIT_ROOM_FAIL\<rparr>)) w)
                 else
                   Option.bind (set_session i (\<lambda>s. s\<lparr>ss_enter_room_id := - 1\<rparr>) w) (\<lambda>w.
                     map_option (Pair True) (send_packet x 0 i
                       (P_ACK_EXIT_ROOM (ACK_EXIT_ROOM_new\<lparr>ack_exit_room_result := EXIT_ROOM_SUCCESS\<rparr>)) w))))"

section \<open>Chat\<close>

abbreviation chat_fail :: "server_ext \<Rightarrow> sid \<Rightarrow> int \<Rightarrow> world \<Rightarrow> (bool \<times> world) option" where
  "chat_fail x i result w \<equiv>
     map_option (Pair True) (send_packet x 1 i (P_ACK_CHAT (ACK_CHAT_new\<lparr>ack_chat_result := result\<rparr>)) w)"

text \<open>The end of the three branches that send: the counters, and the acknowledgement with the number
  of targets.\<close>

definition chat_sent :: "server_ext \<Rightarrow> sid \<Rightarrow> int \<times> world \<Rightarrow> (bool \<times> world) option" where
  "chat_sent x i r =
     (let (targetCount, w) = r;
          st = w_stats w;
          st = st\<lparr>st_broadcast_packet := st_broadcast_packet st + 1,
                  st_broadcast_target := st_broadcast_target st + word_of_int targetCount,
                  st_recv_chat := st_recv_chat st + 1\<rparr> in
      map_option (Pair True)
        (send_packet x 1 i
          (P_ACK_CHAT (ACK_CHAT_new\<lparr>ack_chat_target_count := word_of_int targetCount,
             ack_chat_result := CHAT_ERROR_SUCCESS\<rparr>)) (w\<lparr>w_stats := st\<rparr>)))"

definition send_chat_buffer :: "server_ext \<Rightarrow> GameSession \<Rightarrow> REQ_CHAT \<Rightarrow> SendBuffer option" where
  "send_chat_buffer x s pkt =
     make_ack (ext_pb x) (ext_room x)
       (P_ACK_SEND_CHAT (ACK_SEND_CHAT_new\<lparr>ack_send_chat_user_name := WStringToUtf8 (ext_win x) (ss_user_name s),
          ack_send_chat_message := req_chat_message pkt\<rparr>))"

definition Handle_REQ_CHAT ::
  "server_ext \<Rightarrow> sid option \<Rightarrow> REQ_CHAT \<Rightarrow> world \<Rightarrow> (bool \<times> world) option" where
  "Handle_REQ_CHAT x session pkt w =
     (case session of
        None \<Rightarrow> Some (False, w)
      | Some i \<Rightarrow>
          (case w_sessions w i of
             None \<Rightarrow> None
           | Some s \<Rightarrow>
               if \<not> gs_is_login s then map_option (Pair False) (with_session i (disconnect (ext_io x 0 i)) w)
               else if req_chat_message pkt = [] \<or> length (req_chat_message pkt) > 256
               then chat_fail x i CHAT_ERROR_FAIL w
               else if req_chat_chat_state pkt = CHAT_NORMAL then
                 if \<not> w_service w then chat_fail x i CHAT_ERROR_FAIL w
                 else if ss_enter_room_id s < 0 then chat_fail x i CHAT_ERROR_FAIL w
                 else if ss_enter_room_id s \<noteq> req_chat_room_id pkt then chat_fail x i CHAT_ERROR_FAIL w
                 else Option.bind (send_chat_buffer x s pkt) (\<lambda>sendBuffer.
                   Option.bind (normal_chat (ext_io x 0) (req_chat_room_id pkt) sendBuffer w) (chat_sent x i))
               else if req_chat_chat_state pkt = CHAT_ALL then
                 if \<not> w_service w then chat_fail x i CHAT_ERROR_FAIL w
                 else Option.bind (send_chat_buffer x s pkt) (\<lambda>sendBuffer.
                   Option.bind (all_chat (ext_io x 0) sendBuffer w) (chat_sent x i))
               else if req_chat_chat_state pkt = CHAT_WHISPER then
                 if \<not> w_service w then chat_fail x i CHAT_ERROR_FAIL w
                 else if req_chat_target_name pkt = [] \<or> length (req_chat_target_name pkt) > 32
                 then chat_fail x i CHAT_ERROR_FAIL w
                 else let target = Utf8ToWString (ext_win x) (req_chat_target_name pkt) in
                   if \<not> is_whisper_target_find target (w_manager w)
                   then chat_fail x i CHAT_ERROR_NOT_TARGET w
                   else Option.bind (send_chat_buffer x s pkt) (\<lambda>sendBuffer.
                     Option.bind (whisper_chat (ext_io x 0) target sendBuffer w) (chat_sent x i))
               else chat_fail x i CHAT_ERROR_FAIL w))"

definition Handle_REQ_CONNECT_PONG ::
  "server_ext \<Rightarrow> sid option \<Rightarrow> REQ_CONNECT_PONG \<Rightarrow> world \<Rightarrow> (bool \<times> world) option" where
  "Handle_REQ_CONNECT_PONG x session pkt w =
     (case session of
        None \<Rightarrow> Some (False, w)
      | Some i \<Rightarrow> map_option (Pair True)
          (set_session i (\<lambda>s. s\<lparr>ss_last_pong_tick := ext_GetTickCount64 x, ss_waiting_pong := False\<rparr>) w))"

section \<open>Logic jobs\<close>

text \<open>The function a packet was posted with.\<close>

fun handle_packet :: "server_ext \<Rightarrow> sid option \<Rightarrow> req_packet \<Rightarrow> world \<Rightarrow> (bool \<times> world) option" where
  "handle_packet x session (P_REQ_LOGIN pkt) w = Handle_REQ_LOGIN x session pkt w"
| "handle_packet x session (P_REQ_BOT_LOGIN pkt) w = Handle_REQ_BOT_LOGIN x session pkt w"
| "handle_packet x session (P_REQ_LOGOUT pkt) w = Handle_REQ_LOGOUT x session pkt w"
| "handle_packet x session (P_REQ_GET_ROOM_INFO pkt) w = Handle_REQ_GET_ROOM_INFO x session pkt w"
| "handle_packet x session (P_REQ_ENTER_ROOM pkt) w = Handle_REQ_ENTER_ROOM x session pkt w"
| "handle_packet x session (P_REQ_EXIT_ROOM pkt) w = Handle_REQ_EXIT_ROOM x session pkt w"
| "handle_packet x session (P_REQ_CHAT pkt) w = Handle_REQ_CHAT x session pkt w"
| "handle_packet x session (P_REQ_CONNECT_PONG pkt) w = Handle_REQ_CONNECT_PONG x session pkt w"

text \<open>The posted closure: a session that was disconnected meanwhile ignores the packet.\<close>

definition packet_job :: "server_ext \<Rightarrow> sid \<Rightarrow> req_packet \<Rightarrow> world \<Rightarrow> world option" where
  "packet_job x i pkt w =
     (case w_sessions w i of
        None \<Rightarrow> None
      | Some s \<Rightarrow> if \<not> ss_is_connect s then Some w else map_option snd (handle_packet x (Some i) pkt w))"

text \<open>One job of a session's queue, with the bookkeeping of \<open>queue_logic\<close> around it.\<close>

definition execute_job :: "server_ext \<Rightarrow> sid \<Rightarrow> world \<Rightarrow> world option" where
  "execute_job x i w =
     (case w_sessions w i of
        None \<Rightarrow> None
      | Some s \<Rightarrow>
          (case logic_pop s of
             None \<Rightarrow> Some w
           | Some (job, s) \<Rightarrow>
               let w = w\<lparr>w_sessions := (w_sessions w)(i \<mapsto> s)\<rparr> in
               Option.bind (case job of Callback pkt \<Rightarrow> packet_job x i pkt w | Cleanup \<Rightarrow> cleanup_job i w)
                 (with_session i logic_done)))"

section \<open>Connections\<close>

text \<open>The end of \<open>Listener::process_accept\<close> for a fresh session.\<close>

definition accept_connection :: "server_ext \<Rightarrow> sid \<Rightarrow> world \<Rightarrow> world option" where
  "accept_connection x i w =
     (let (added, connect, sm) = add_session (Some i) (w_manager w);
          st = (w_stats w)\<lparr>st_connect := st_connect (w_stats w) + 1\<rparr> in
      if added then
        if connect then with_session i (process_connect (ext_io x 0 i)) (w\<lparr>w_manager := sm, w_stats := st\<rparr>)
        else Some w
      else case w_sessions w i of
        None \<Rightarrow> None
      | Some s \<Rightarrow>
          if ss_is_connect s then Some w
          else with_session i
            (reject_connection (ext_io x 0 i) (make_server_full_notice x (sm_max_session_count sm)))
            (w\<lparr>w_stats := st\<rparr>))"

text \<open>\<open>on_send\<close> is called exactly when \<open>process_send\<close> accepts the count.\<close>

definition send_accepted :: "EventType \<Rightarrow> bool \<Rightarrow> int \<Rightarrow> GameSession \<Rightarrow> bool" where
  "send_accepted ev ok n s \<longleftrightarrow> ev = Ev_send \<and> ss_send_owner s \<and> ss_is_connect s \<and>
     (case consume_sent_bytes (if ok then n else 0) (ss_send_event s) of
        Some (accepted, _) \<Rightarrow> accepted | None \<Rightarrow> False)"

definition on_send :: "int \<Rightarrow> ServerStats \<Rightarrow> ServerStats" where
  "on_send len st = st\<lparr>st_send_complete := st_send_complete st + 1,
     st_send_complete_bytes := st_send_complete_bytes st + word_of_int len\<rparr>"

definition io_completion :: "server_ext \<Rightarrow> sid \<Rightarrow> EventType \<Rightarrow> bool \<Rightarrow> int \<Rightarrow> world \<Rightarrow> world option" where
  "io_completion x i ev ok n w =
     (case w_sessions w i of
        None \<Rightarrow> None
      | Some s \<Rightarrow>
          map_option (\<lambda>(_, s').
            w\<lparr>w_sessions := (w_sessions w)(i \<mapsto> s'),
              w_stats := if send_accepted ev ok n s then on_send (if ok then n else 0) (w_stats w) else w_stats w\<rparr>)
            (iocp_dispatch (ext_io x 0 i) (GameSession_on_recv_packet (ext_pb x)) ev ok n s))"

definition receive_bytes :: "server_ext \<Rightarrow> sid \<Rightarrow> byte list \<Rightarrow> world \<Rightarrow> world option" where
  "receive_bytes x i bs w =
     with_session i (\<lambda>s. map_option snd (feed (ext_io x 0 i) (GameSession_on_recv_packet (ext_pb x)) bs s)) w"

section \<open>Events\<close>

datatype server_event =
    Ev_create sid
  | Ev_accepted sid
  | Ev_received sid "byte list"
  | Ev_completed sid EventType bool int
  | Ev_job sid
  | Ev_heartbeat
  | Ev_shutdown sid

text \<open>An event that the operating system or the program cannot raise in a state changes nothing: a
  session is created at an unused address, accepted once while it is fresh, and receives at most what
  fits while a receive is outstanding.\<close>

fun server_step :: "server_ext \<Rightarrow> server_event \<Rightarrow> world \<Rightarrow> world option" where
  "server_step x (Ev_create i) w =
     (if w_sessions w i = None then Some (w\<lparr>w_sessions := (w_sessions w)(i \<mapsto> GameSession_new True)\<rparr>) else Some w)"
| "server_step x (Ev_accepted i) w =
     (case w_sessions w i of None \<Rightarrow> Some w
      | Some s \<Rightarrow> if unconnected s then accept_connection x i w else Some w)"
| "server_step x (Ev_received i bs) w =
     (case w_sessions w i of None \<Rightarrow> Some w
      | Some s \<Rightarrow> if ss_recv_owner s \<and> int (length bs) \<le> free_size (ss_recv_buffer s)
                   then receive_bytes x i bs w else Some w)"
| "server_step x (Ev_completed i ev ok n) w =
     (case w_sessions w i of None \<Rightarrow> Some w
      | Some s \<Rightarrow> if 0 \<le> n \<and> int32_range n \<and> (ev = Ev_Recv \<longrightarrow> \<not> ok) then io_completion x i ev ok n w else Some w)"
| "server_step x (Ev_job i) w = (case w_sessions w i of None \<Rightarrow> Some w | Some s \<Rightarrow> execute_job x i w)"
| "server_step x Ev_heartbeat w = check_heartbeat x (ext_GetTickCount64 x) w"
| "server_step x (Ev_shutdown i) w =
     (case w_sessions w i of None \<Rightarrow> Some w | Some s \<Rightarrow> set_session i begin_shutdown w)"

end
