(* ===== verification/GameFrame.thy ===== *)
theory GameFrame
  imports GameHandlers
begin

text \<open>
  What the operations of a session leave alone.  The tables of the server refer to a session only
  through a few of its fields, its \<open>profile\<close>; sending, disconnecting and receiving keep it.  An
  operation that is \<open>quiet\<close> keeps the profile and queues at most the cleanup job.  Lifted to the whole
  server: a \<open>calm\<close> step changes only sessions, and those quietly.
\<close>

section \<open>Profiles\<close>

record profile =
  pf_login :: bool
  pf_account :: uint64
  pf_room :: int
  pf_name :: wstring
  pf_was :: bool
  pf_rejected :: bool
  pf_done :: bool

definition profile_of :: "GameSession \<Rightarrow> profile" where
  "profile_of s = \<lparr>pf_login = gs_is_login s, pf_account = ss_account_idx s, pf_room = ss_enter_room_id s,
     pf_name = ss_user_name s, pf_was = ss_was_connected s, pf_rejected = ss_close_after_send s,
     pf_done = ss_cleanup_done s\<rparr>"

lemma profile_of_sel [simp]:
  "pf_login (profile_of s) = gs_is_login s" "pf_account (profile_of s) = ss_account_idx s"
  "pf_room (profile_of s) = ss_enter_room_id s" "pf_name (profile_of s) = ss_user_name s"
  "pf_was (profile_of s) = ss_was_connected s" "pf_rejected (profile_of s) = ss_close_after_send s"
  "pf_done (profile_of s) = ss_cleanup_done s"
  by (simp_all add: profile_of_def)

section \<open>Quiet operations of a session\<close>

definition quiet :: "GameSession \<Rightarrow> GameSession \<Rightarrow> bool" where
  "quiet s s' \<longleftrightarrow> profile_of s' = profile_of s \<and> (ss_is_connect s' \<longrightarrow> ss_is_connect s) \<and>
     (if ss_is_disconnect s' = ss_is_disconnect s then ss_logic_queue s' = ss_logic_queue s
      else ss_is_disconnect s' \<and> ss_logic_queue s' = ss_logic_queue s @ [Cleanup])"

lemma quiet_refl [simp]: "quiet s s"
  by (simp add: quiet_def)

lemma quiet_trans [trans]: "quiet s t \<Longrightarrow> quiet t u \<Longrightarrow> quiet s u"
  by (auto simp: quiet_def split: if_splits)

lemma quiet_profile: "quiet s s' \<Longrightarrow> profile_of s' = profile_of s"
  by (simp add: quiet_def)

lemma quiet_connected: "quiet s s' \<Longrightarrow> ss_is_connect s' \<Longrightarrow> ss_is_connect s"
  by (simp add: quiet_def)

lemma quiet_queue: "quiet s s' \<Longrightarrow> length (ss_logic_queue s') \<le> Suc (length (ss_logic_queue s))"
  by (auto simp: quiet_def split: if_splits)

text \<open>Updates of the fields that matter to nobody else.\<close>

lemma quiet_update [simp]:
  "quiet s (t\<lparr>ss_pending_io := n\<rparr>) = quiet s t"
  "quiet s (t\<lparr>ss_recv_owner := b\<rparr>) = quiet s t"
  "quiet s (t\<lparr>ss_send_owner := b\<rparr>) = quiet s t"
  "quiet s (t\<lparr>ss_disconnect_owner := b\<rparr>) = quiet s t"
  "quiet s (t\<lparr>ss_send_event := ev\<rparr>) = quiet s t"
  "quiet s (t\<lparr>ss_send_queue := q\<rparr>) = quiet s t"
  "quiet s (t\<lparr>ss_is_send_register := b\<rparr>) = quiet s t"
  "quiet s (t\<lparr>ss_last_pong_tick := k\<rparr>) = quiet s t"
  "quiet s (t\<lparr>ss_last_ping_tick := k\<rparr>) = quiet s t"
  "quiet s (t\<lparr>ss_waiting_pong := b\<rparr>) = quiet s t"
  by (simp_all add: quiet_def profile_of_def)

lemma quiet_process_disconnect: "quiet s t \<Longrightarrow> quiet s (process_disconnect (t\<lparr>ss_is_connect := False\<rparr>))"
  by (rule quiet_trans, assumption) (simp add: quiet_def process_disconnect_def queue_logic_def profile_of_def)

lemma quiet_off: "quiet s t \<Longrightarrow> quiet s (t\<lparr>ss_is_connect := False\<rparr>)"
  by (rule quiet_trans, assumption) (simp add: quiet_def profile_of_def)

lemma session_finish_io_quiet: "session_finish_io t = Some s' \<Longrightarrow> quiet s t \<Longrightarrow> quiet s s'"
  by (auto simp: session_finish_io_def)

lemma disconnect_quiet:
  assumes "disconnect env t = Some s'" "quiet s t"
  shows "quiet s s'"
proof (cases "ss_is_connect t")
  case True
  then obtain r u where u: "register_disconnect env (t\<lparr>ss_is_connect := False\<rparr>) = Some (r, u)"
    "s' = (if r then u else process_disconnect u)" using assms(1) by (auto simp: disconnect_def)
  have "quiet s u"
    using u(1) quiet_off [OF assms(2)]
    by (auto simp: register_disconnect_def Let_def dest!: session_finish_io_quiet split: if_splits)
  moreover have "u = u\<lparr>ss_is_connect := False\<rparr>"
    using u(1) by (auto simp: register_disconnect_def Let_def session_finish_io_def split: if_splits)
  ultimately show ?thesis using u(2) quiet_process_disconnect [of s u] by auto
qed (use assms in \<open>simp add: disconnect_def\<close>)

lemma register_send_quiet:
  assumes "register_send env t = Some s'" "quiet s t"
  shows "quiet s s'"
  using assms
  by (auto simp: register_send_def Let_def bind_eq_Some_conv split: if_splits
      elim!: disconnect_quiet session_finish_io_quiet)

lemma send_quiet:
  assumes "send env sb s = Some s'"
  shows "quiet s s'"
  using assms
  by (auto simp: send_def Let_def split: if_splits elim!: disconnect_quiet register_send_quiet)

lemma process_send_quiet:
  assumes "process_send env n s = Some s'"
  shows "quiet s s'"
  using assms
  by (auto simp: process_send_def Let_def bind_eq_Some_conv split: if_splits
      elim!: disconnect_quiet register_send_quiet)

section \<open>Received packets\<close>

text \<open>A game session does nothing with a packet but post the handler of the parsed message.\<close>

interpretation gs: packet_sink "GameSession_on_recv_packet L" "server_HandlePacket L" for L
  by unfold_locales (simp add: GameSession_on_recv_packet_def)

lemma post_logic_profile [simp]: "profile_of (post_logic j s) = profile_of s"
  by (simp add: post_logic_def queue_logic_def profile_of_def)

lemma fold_post_profile [simp]: "profile_of (fold post_logic js s) = profile_of s"
  by (induction js arbitrary: s) simp_all

lemma profile_update [simp]:
  "profile_of (s\<lparr>ss_recv_buffer := rb\<rparr>) = profile_of s"
  "profile_of (s\<lparr>ss_recv_owner := b\<rparr>) = profile_of s"
  "profile_of (s\<lparr>ss_disconnect_owner := b\<rparr>) = profile_of s"
  "profile_of (s\<lparr>ss_pending_io := n\<rparr>) = profile_of s"
  "profile_of (s\<lparr>ss_logic_queue := q\<rparr>) = profile_of s"
  "profile_of (s\<lparr>ss_pending_jobs := n\<rparr>) = profile_of s"
  "profile_of (process_disconnect s) = profile_of s"
  by (simp_all add: profile_of_def process_disconnect_def queue_logic_def)

lemma disconnect_profile: "disconnect env s = Some s' \<Longrightarrow> profile_of s' = profile_of s"
  using disconnect_quiet [of env s s' s] by (simp add: quiet_profile)

lemma finish_io_profile: "session_finish_io s = Some s' \<Longrightarrow> profile_of s' = profile_of s"
  by (auto simp: session_finish_io_def)

lemma register_recv_profile: "register_recv env s = Some s' \<Longrightarrow> profile_of s' = profile_of s"
  by (auto simp: register_recv_def Let_def bind_eq_Some_conv handle_error_def split: if_splits
      dest!: disconnect_profile finish_io_profile)

lemma process_recv_profile:
  assumes "process_recv env (GameSession_on_recv_packet L) n s = Some s'"
  shows "profile_of s' = profile_of s"
proof (cases "ss_is_connect s \<and> n \<noteq> 0 \<and> n \<le> free_size (ss_recv_buffer s)")
  case True
  obtain rb where w: "on_write n (ss_recv_buffer s) = (True, rb)" using True by (simp add: on_write_def)
  obtain ps r where f: "frames (rb_data rb) = (ps, r)" by fastforce
  have "on_recv (GameSession_on_recv_packet L) ss_is_connect (rb_data rb)
      (s\<lparr>ss_recv_owner := False, ss_recv_buffer := rb\<rparr>) =
    (if malformed r then - 1 else int (length (concat ps)),
     fold post_logic (List.map_filter (server_HandlePacket L) ps)
       (s\<lparr>ss_recv_owner := False, ss_recv_buffer := rb\<rparr>))"
    using True f by (intro gs.sink_on_recv) simp_all
  with assms True w show ?thesis
    by (auto simp: process_recv_def Let_def case_prod_beta split: if_splits
        dest!: disconnect_profile register_recv_profile)
next
  case False
  have "profile_of s' = profile_of s" if "disconnect env (s\<lparr>ss_recv_owner := False\<rparr>) = Some s'"
    using disconnect_profile [OF that] by simp
  with False assms show ?thesis
    by (auto simp: process_recv_def on_write_def Let_def split: if_splits)
qed

lemma iocp_dispatch_profile:
  assumes "iocp_dispatch env (GameSession_on_recv_packet L) ev ok n s = Some (b, s')"
  shows "profile_of s' = profile_of s"
proof (cases "get_owner ev s")
  case True
  then obtain t where t: "session_dispatch env (GameSession_on_recv_packet L) ev (if ok then n else 0) s = Some t"
    "session_finish_io t = Some s'" using assms by (auto simp: iocp_dispatch_def bind_eq_Some_conv)
  have "profile_of t = profile_of s"
    using t(1) True
    by (cases ev) (auto simp: session_dispatch_def get_owner_def dest!: process_recv_profile process_send_quiet quiet_profile)
  with finish_io_profile [OF t(2)] show ?thesis by simp
qed (use assms in \<open>auto simp: iocp_dispatch_def\<close>)

lemma feed_profile:
  "feed env (GameSession_on_recv_packet L) bs s = Some (b, s') \<Longrightarrow> profile_of s' = profile_of s"
  by (auto simp: feed_def dest!: iocp_dispatch_profile)

lemma begin_shutdown_profile [simp]: "profile_of (begin_shutdown s) = profile_of s"
  by (simp add: begin_shutdown_def process_disconnect_def queue_logic_def profile_of_def)

lemma logic_done_profile: "logic_done s = Some s' \<Longrightarrow> profile_of s' = profile_of s"
  by (auto simp: logic_done_def split: if_splits)

end
