(* ===== verification/GameRuntime.thy ===== *)
theory GameRuntime
  imports GameFrame
begin

text \<open>
  What the server relies on outside the program.  The documented lengths of the two Windows
  conversions (a byte of UTF-8 gives at most one UTF-16 unit, a unit at most three bytes) are the
  locale \<open>win_conversions\<close>; \<open>ref_win\<close> is an instance, a UTF-8 codec.  With the protobuf runtime they
  make \<open>server_runtime\<close>.  Under it every message the server sends is far from the 64 KiB at which
  \<open>MakeSendBuffer\<close> would wrap, so a send buffer is always made.
\<close>

section \<open>Sizes of messages\<close>

lemma varint_size_le:
  "VarintSize32 u \<le> 5" "VarintSize64 v \<le> 10" "VarintSize32PlusOne u \<le> 6" "VarintSize64PlusOne v \<le> 11"
  "VarintSize32SignExtended i \<le> 10" "VarintSize32SignExtendedPlusOne i \<le> 11"
  using log2_word_bound [of u] log2_word_bound [of v] log2_word_bound [of "word_of_int i :: uint64"]
  unfolding VarintSize32_def VarintSize64_def VarintSize32PlusOne_def VarintSize64PlusOne_def
    VarintSize32SignExtended_def VarintSize32SignExtendedPlusOne_def log2_or_1 by simp_all

lemma string_size_le: "length s \<le> n \<Longrightarrow> StringSize s \<le> n + 5"
  using varint_size_le(1) [of "of_nat (length s)"] by (simp add: StringSize_def LengthDelimitedSize_def)

lemma RoomInfo_size_le: "RoomInfo_ByteSizeLong m \<le> 33"
  using varint_size_le(6) [of "room_info_room_id m"] varint_size_le(6) [of "room_info_cur_enter_user_count m"]
    varint_size_le(6) [of "room_info_cur_enter_max_count m"]
  by (simp add: RoomInfo_ByteSizeLong_def)

lemma room_list_size_le: "sum_list (map (MessageSize RoomInfo_ByteSizeLong) ms) \<le> 38 * length ms"
proof (induction ms)
  case (Cons m ms)
  have "MessageSize RoomInfo_ByteSizeLong m \<le> 38"
    using RoomInfo_size_le [of m] varint_size_le(1) [of "of_nat (RoomInfo_ByteSizeLong m)"]
    by (simp add: MessageSize_def LengthDelimitedSize_def)
  with Cons show ?case by simp
qed simp

text \<open>The messages the server sends: names of at most 96 bytes, chat lines of at most 256, ten rooms.\<close>

fun ack_short :: "ack_packet \<Rightarrow> bool" where
  "ack_short (P_ACK_LOGIN m) \<longleftrightarrow> length (ack_login_user_name m) \<le> 96 \<and> int32_range (ack_login_result m)"
| "ack_short (P_ACK_BOT_LOGIN m) \<longleftrightarrow>
     length (ack_bot_login_user_name m) \<le> 96 \<and> int32_range (ack_bot_login_result m)"
| "ack_short (P_ACK_LOGOUT m) \<longleftrightarrow> int32_range (ack_logout_result m)"
| "ack_short (P_ACK_GET_ROOM_INFO m) \<longleftrightarrow> length (ack_get_room_info_room_info_list m) \<le> 10 \<and>
     list_all (RoomInfo_valid ref_lib) (ack_get_room_info_room_info_list m)"
| "ack_short (P_ACK_ENTER_ROOM m) \<longleftrightarrow> int32_range (ack_enter_room_room_id m) \<and> int32_range (ack_enter_room_result m)"
| "ack_short (P_ACK_EXIT_ROOM m) \<longleftrightarrow> int32_range (ack_exit_room_result m)"
| "ack_short (P_ACK_CHAT m) \<longleftrightarrow> int32_range (ack_chat_result m)"
| "ack_short (P_ACK_SEND_CHAT m) \<longleftrightarrow>
     length (ack_send_chat_user_name m) \<le> 96 \<and> length (ack_send_chat_message m) \<le> 256"
| "ack_short (P_ACK_SEND_CONNECT_PING m) \<longleftrightarrow> True"
| "ack_short (P_ACK_SERVER_FULL m) \<longleftrightarrow> True"

lemmas ack_size_defs = ACK_LOGIN_ByteSizeLong_def ACK_BOT_LOGIN_ByteSizeLong_def ACK_LOGOUT_ByteSizeLong_def
  ACK_GET_ROOM_INFO_ByteSizeLong_def ACK_ENTER_ROOM_ByteSizeLong_def ACK_EXIT_ROOM_ByteSizeLong_def
  ACK_CHAT_ByteSizeLong_def ACK_SEND_CHAT_ByteSizeLong_def ACK_SEND_CONNECT_PING_ByteSizeLong_def
  ACK_SERVER_FULL_ByteSizeLong_def

lemmas ack_valid_defs = ACK_LOGIN_valid_def ACK_BOT_LOGIN_valid_def ACK_LOGOUT_valid_def
  ACK_GET_ROOM_INFO_valid_def ACK_ENTER_ROOM_valid_def ACK_EXIT_ROOM_valid_def
  ACK_CHAT_valid_def ACK_SEND_CHAT_valid_def ACK_SEND_CONNECT_PING_valid_def
  ACK_SERVER_FULL_valid_def

lemmas ack_serialize_defs = ACK_LOGIN_InternalSerialize_def ACK_BOT_LOGIN_InternalSerialize_def
  ACK_LOGOUT_InternalSerialize_def ACK_GET_ROOM_INFO_InternalSerialize_def
  ACK_ENTER_ROOM_InternalSerialize_def ACK_EXIT_ROOM_InternalSerialize_def
  ACK_CHAT_InternalSerialize_def ACK_SEND_CHAT_InternalSerialize_def
  ACK_SEND_CONNECT_PING_InternalSerialize_def ACK_SERVER_FULL_InternalSerialize_def

lemma ack_short_size: "ack_short a \<Longrightarrow> ack_size a \<le> 1000"
proof (cases a)
  case (P_ACK_GET_ROOM_INFO m)
  assume "ack_short a"
  then have "length (ack_get_room_info_room_info_list m) \<le> 10" using P_ACK_GET_ROOM_INFO by simp
  with room_list_size_le [of "ack_get_room_info_room_info_list m"] P_ACK_GET_ROOM_INFO
  show ?thesis by (simp add: ack_size_defs)
next
  case (P_ACK_LOGIN m)
  assume "ack_short a"
  with P_ACK_LOGIN show ?thesis
    using string_size_le [of "ack_login_user_name m" 96]
      varint_size_le(4) [of "ack_login_idx m"] varint_size_le(5) [of "ack_login_result m"]
    by (simp add: ack_size_defs)
next
  case (P_ACK_BOT_LOGIN m)
  assume "ack_short a"
  with P_ACK_BOT_LOGIN show ?thesis
    using string_size_le [of "ack_bot_login_user_name m" 96]
      varint_size_le(4) [of "ack_bot_login_idx m"] varint_size_le(5) [of "ack_bot_login_result m"]
    by (simp add: ack_size_defs)
next
  case (P_ACK_SEND_CHAT m)
  assume "ack_short a"
  with P_ACK_SEND_CHAT show ?thesis
    using string_size_le [of "ack_send_chat_user_name m" 96]
      string_size_le [of "ack_send_chat_message m" 256]
    by (simp add: ack_size_defs)
next
  case (P_ACK_ENTER_ROOM m)
  then show ?thesis
    using varint_size_le(6) [of "ack_enter_room_room_id m"] varint_size_le(5) [of "ack_enter_room_result m"]
    by (simp add: ack_size_defs)
next
  case (P_ACK_CHAT m)
  then show ?thesis
    using varint_size_le(3) [of "ack_chat_target_count m"] varint_size_le(5) [of "ack_chat_result m"]
    by (simp add: ack_size_defs)
next
  case (P_ACK_LOGOUT m)
  then show ?thesis using varint_size_le(5) [of "ack_logout_result m"] by (simp add: ack_size_defs)
next
  case (P_ACK_EXIT_ROOM m)
  then show ?thesis using varint_size_le(5) [of "ack_exit_room_result m"] by (simp add: ack_size_defs)
next
  case (P_ACK_SEND_CONNECT_PING m)
  then show ?thesis
    using varint_size_le(4) [of "ack_send_connect_ping_server_tick m"] by (simp add: ack_size_defs)
next
  case (P_ACK_SERVER_FULL m)
  then show ?thesis
    using varint_size_le(3) [of "ack_server_full_max_session_count m"] by (simp add: ack_size_defs)
qed

text \<open>The check of UTF-8 happens when a message is parsed; serialising does not depend on it.\<close>

abbreviation any_utf8 :: "pb_lib \<Rightarrow> pb_lib" where
  "any_utf8 L \<equiv> L\<lparr>lib_VerifyUTF8 := \<lambda>_. True\<rparr>"

lemma write_any_utf8 [simp]: "WriteStringMaybeAliased (any_utf8 L) = WriteStringMaybeAliased L"
  by (simp add: WriteStringMaybeAliased_def fun_eq_iff)

lemma serialize_any_utf8 [simp]:
  "ACK_LOGIN_InternalSerialize (any_utf8 L) = ACK_LOGIN_InternalSerialize L"
  "ACK_BOT_LOGIN_InternalSerialize (any_utf8 L) = ACK_BOT_LOGIN_InternalSerialize L"
  "ACK_LOGOUT_InternalSerialize (any_utf8 L) = ACK_LOGOUT_InternalSerialize L"
  "ACK_GET_ROOM_INFO_InternalSerialize (any_utf8 L) = ACK_GET_ROOM_INFO_InternalSerialize L"
  "ACK_ENTER_ROOM_InternalSerialize (any_utf8 L) = ACK_ENTER_ROOM_InternalSerialize L"
  "ACK_EXIT_ROOM_InternalSerialize (any_utf8 L) = ACK_EXIT_ROOM_InternalSerialize L"
  "ACK_CHAT_InternalSerialize (any_utf8 L) = ACK_CHAT_InternalSerialize L"
  "ACK_SEND_CHAT_InternalSerialize (any_utf8 L) = ACK_SEND_CHAT_InternalSerialize L"
  "ACK_SEND_CONNECT_PING_InternalSerialize (any_utf8 L) = ACK_SEND_CONNECT_PING_InternalSerialize L"
  "ACK_SERVER_FULL_InternalSerialize (any_utf8 L) = ACK_SERVER_FULL_InternalSerialize L"
  by (simp_all add: ack_serialize_defs RoomInfo_InternalSerialize_def fun_eq_iff)

lemma MakeSendBuffer_any_utf8 [simp]:
  "MakeSendBuffer (any_utf8 L) byte_size serialize room m k = MakeSendBuffer L byte_size serialize room m k"
  by (simp add: MakeSendBuffer_def Let_def)

lemma make_ack_any_utf8: "make_ack (any_utf8 L) room a = make_ack L room a"
  by (cases a) simp_all

lemma pb_runtime_any_utf8: "pb_runtime L \<Longrightarrow> pb_runtime (any_utf8 L)"
  by (simp add: pb_runtime_def)

lemma ack_short_valid: "ack_short a \<Longrightarrow> ack_valid (any_utf8 L) a"
  by (cases a) (simp_all add: ack_valid_defs list_all_iff RoomInfo_valid_def)

lemma make_ack_short:
  assumes "pb_runtime L" "ack_short a"
  obtains sb where "make_ack L room a = Some sb" "sb_ok sb"
proof -
  have "ack_size a + HEADER_SIZE < 65536" using ack_short_size [OF assms(2)] by (simp add: HEADER_SIZE_def)
  from pb_runtime.make_ack_Some [OF pb_runtime_any_utf8 [OF assms(1)] ack_short_valid [OF assms(2)] this]
  show ?thesis using that make_ack_any_utf8 by metis
qed

section \<open>The Windows conversions\<close>

locale win_conversions =
  fixes W :: win_lib
  assumes wide: "length (win_MultiByteToWideChar W bs) \<le> length bs"
    and narrow: "length (win_WideCharToMultiByte W ws) \<le> 3 * length ws"
begin

lemma Utf8ToWString_le: "length (Utf8ToWString W bs) \<le> length bs"
  using wide [of bs] by (simp add: Utf8ToWString_def Let_def blit_def)

lemma WStringToUtf8_le: "length (WStringToUtf8 W ws) \<le> 3 * length ws"
  using narrow [of ws] by (simp add: WStringToUtf8_def Let_def blit_def)

lemma name_roundtrip_le: "length ws \<le> 32 \<Longrightarrow> length (WStringToUtf8 W ws) \<le> 96"
  using WStringToUtf8_le [of ws] by simp

end

text \<open>An instance: UTF-16 to UTF-8 and back; what is not well-formed becomes U+FFFD.\<close>

definition utf8_of_code :: "nat \<Rightarrow> byte list" where
  "utf8_of_code c =
     (if c < 128 then [of_nat c]
      else if c < 2048 then [of_nat (192 + c div 64), of_nat (128 + c mod 64)]
      else if c < 65536 then [of_nat (224 + c div 4096), of_nat (128 + c div 64 mod 64), of_nat (128 + c mod 64)]
      else [of_nat (240 + c div 262144), of_nat (128 + c div 4096 mod 64), of_nat (128 + c div 64 mod 64),
            of_nat (128 + c mod 64)])"

fun utf8_encode :: "wstring \<Rightarrow> byte list" where
  "utf8_encode [] = []"
| "utf8_encode [u] = utf8_of_code (if unat u div 2048 = 27 then 65533 else unat u)"
| "utf8_encode (u # v # ws) =
     (if unat u div 1024 = 54 \<and> unat v div 1024 = 55
      then utf8_of_code (65536 + (unat u mod 1024) * 1024 + unat v mod 1024) @ utf8_encode ws
      else utf8_of_code (if unat u div 2048 = 27 then 65533 else unat u) @ utf8_encode (v # ws))"

definition utf16_of_code :: "nat \<Rightarrow> wstring" where
  "utf16_of_code c =
     (if c < 65536 then [of_nat c]
      else [of_nat (55296 + (c - 65536) div 1024), of_nat (56320 + (c - 65536) mod 1024)])"

definition utf8_tail :: "byte \<Rightarrow> bool" where
  "utf8_tail b \<longleftrightarrow> unat b div 64 = 2"

text \<open>The units of the character that begins with \<open>a\<close>, and how many more bytes it takes.\<close>

definition utf8_char :: "byte \<Rightarrow> byte list \<Rightarrow> wstring \<times> nat" where
  "utf8_char a bs =
     (let tails = (\<lambda>k. k \<le> length bs \<and> list_all utf8_tail (take k bs));
          code = (\<lambda>n k. foldl (\<lambda>c b. c * 64 + unat b mod 64) n (take k bs)) in
      if unat a < 128 then ([of_nat (unat a)], 0)
      else if unat a div 32 = 6 \<and> tails 1 then ([of_nat (code (unat a mod 32) 1)], 1)
      else if unat a div 16 = 14 \<and> tails 2 then ([of_nat (code (unat a mod 16) 2)], 2)
      else if unat a div 8 = 30 \<and> tails 3 then (utf16_of_code (code (unat a mod 8) 3), 3)
      else ([65533], 0))"

function utf8_decode :: "byte list \<Rightarrow> wstring" where
  "utf8_decode [] = []"
| "utf8_decode (a # bs) = fst (utf8_char a bs) @ utf8_decode (drop (snd (utf8_char a bs)) bs)"
  by pat_completeness auto
termination by (relation "measure length") simp_all

definition ref_win :: win_lib where
  "ref_win = \<lparr>win_MultiByteToWideChar = utf8_decode, win_WideCharToMultiByte = utf8_encode\<rparr>"

lemma utf8_of_code_le: "c < 65536 \<Longrightarrow> length (utf8_of_code c) \<le> 3" "length (utf8_of_code c) \<le> 4"
  by (simp_all add: utf8_of_code_def)

lemma unit_code: "(if b then 65533 else unat (u :: 16 word)) < 65536"
  using unsigned_less [of u, where 'a = nat] by simp

lemma utf8_encode_le: "length (utf8_encode ws) \<le> 3 * length ws"
proof (induction ws rule: utf8_encode.induct)
  case (2 u)
  then show ?case using utf8_of_code_le(1) [OF unit_code] by simp
next
  case (3 u v ws)
  show ?case
  proof (cases "unat u div 1024 = 54 \<and> unat v div 1024 = 55")
    case True
    then show ?thesis
      using 3(1) utf8_of_code_le(2) [of "65536 + (unat u mod 1024) * 1024 + unat v mod 1024"] by simp
  next
    case False
    then show ?thesis
      using 3(2) utf8_of_code_le(1) [OF unit_code, of "unat u div 2048 = 27" u] by auto
  qed
qed simp

lemma utf16_of_code_le: "length (utf16_of_code c) \<le> 2"
  by (simp add: utf16_of_code_def)

lemma utf8_char_le: "length (fst (utf8_char a bs)) \<le> Suc (snd (utf8_char a bs)) \<and> snd (utf8_char a bs) \<le> length bs"
  using utf16_of_code_le [THEN le_trans, of 4] by (simp add: utf8_char_def Let_def)

lemma utf8_decode_le: "length (utf8_decode bs) \<le> length bs"
proof (induction bs rule: utf8_decode.induct)
  case (2 a bs)
  then show ?case using utf8_char_le [of a bs] by auto
qed simp

interpretation ref_win: win_conversions ref_win
  by unfold_locales (simp_all add: ref_win_def utf8_encode_le utf8_decode_le)

section \<open>The runtime of the server\<close>

locale server_runtime =
  fixes x :: server_ext
  assumes pb: "pb_runtime (ext_pb x)" and win: "win_conversions (ext_win x)"
begin

lemma make_ack_made:
  assumes "ack_short a"
  obtains sb where "make_ack (ext_pb x) (ext_room x) a = Some sb" "sb_ok sb"
  using make_ack_short [OF pb assms] .

lemmas name_le = win_conversions.name_roundtrip_le [OF win]
  and wide_le = win_conversions.Utf8ToWString_le [OF win]

end

definition ref_ext :: server_ext where
  "ref_ext = \<lparr>ext_pb = ref_lib, ext_win = ref_win, ext_room = (\<lambda>_. 64), ext_GetTickCount64 = 1000,
     ext_io = (\<lambda>_ _. \<lparr>env_WSARecv = IO_OK, env_WSASend = IO_OK, env_DisconnectEx = IO_OK\<rparr>)\<rparr>"

interpretation ref_ext: server_runtime ref_ext
  by (rule server_runtime.intro) (simp_all add: ref_ext_def ref.pb_runtime_axioms ref_win.win_conversions_axioms)

end
