(* ===== verification/GameCalm.thy ===== *)
theory GameCalm
  imports GameRuntime
begin

text \<open>
  The steps of the server that only send, ping or disconnect: they never crash, keep the invariant of
  every session, and are calm.  \<open>run\<close> is the session whose logic job is being executed, if any.
\<close>

definition sessions_ok :: "sid option \<Rightarrow> world \<Rightarrow> bool" where
  "sessions_ok run w \<longleftrightarrow> (\<forall>i s. w_sessions w i = Some s \<longrightarrow> sess_inv 0 (of_bool (run = Some i)) s)"

definition calm :: "world \<Rightarrow> world \<Rightarrow> bool" where
  "calm w w' \<longleftrightarrow> w' = w\<lparr>w_sessions := w_sessions w'\<rparr> \<and>
     (\<forall>i. rel_option quiet (w_sessions w i) (w_sessions w' i))"

lemma sessions_okD: "sessions_ok run w \<Longrightarrow> w_sessions w i = Some s \<Longrightarrow> sess_inv 0 (of_bool (run = Some i)) s"
  by (simp add: sessions_ok_def)

lemma sessions_ok_put:
  "sessions_ok run w \<Longrightarrow> sess_inv 0 (of_bool (run = Some i)) s \<Longrightarrow>
   sessions_ok run (w\<lparr>w_sessions := (w_sessions w)(i \<mapsto> s)\<rparr>)"
  by (simp add: sessions_ok_def)

lemma sessions_ok_frame [simp]:
  "sessions_ok run (w\<lparr>w_manager := m\<rparr>) = sessions_ok run w"
  "sessions_ok run (w\<lparr>w_login := l\<rparr>) = sessions_ok run w"
  "sessions_ok run (w\<lparr>w_rooms := r\<rparr>) = sessions_ok run w"
  "sessions_ok run (w\<lparr>w_stats := st\<rparr>) = sessions_ok run w"
  by (simp_all add: sessions_ok_def)

lemma calm_refl [simp]: "calm w w"
  by (simp add: calm_def option.rel_refl)

lemma calm_trans [trans]:
  assumes "calm u v" "calm v w"
  shows "calm u w"
proof -
  have "w = u\<lparr>w_sessions := w_sessions w\<rparr>" using assms by (auto simp: calm_def) (metis world.surjective world.update_convs(1))
  moreover have "rel_option quiet (w_sessions u i) (w_sessions w i)" for i
  proof -
    have "rel_option quiet (w_sessions u i) (w_sessions v i)" "rel_option quiet (w_sessions v i) (w_sessions w i)"
      using assms by (simp_all add: calm_def)
    then show ?thesis
      by (cases "w_sessions u i"; cases "w_sessions v i"; cases "w_sessions w i") (auto intro: quiet_trans)
  qed
  ultimately show ?thesis by (simp add: calm_def)
qed

lemma calm_fields:
  assumes "calm w w'"
  shows "w_manager w' = w_manager w" "w_service w' = w_service w" "w_login w' = w_login w"
    "w_rooms w' = w_rooms w" "w_stats w' = w_stats w"
proof -
  have w': "w' = w\<lparr>w_sessions := w_sessions w'\<rparr>" using assms by (simp add: calm_def)
  show "w_manager w' = w_manager w" "w_service w' = w_service w" "w_login w' = w_login w"
    "w_rooms w' = w_rooms w" "w_stats w' = w_stats w"
    by (subst w', simp)+
qed

lemma calm_session:
  "calm w w' \<Longrightarrow> w_sessions w i = Some s \<Longrightarrow> \<exists>s'. w_sessions w' i = Some s' \<and> quiet s s'"
  by (auto simp: calm_def option_rel_Some1 dest: spec [of _ i])

lemma calm_session':
  "calm w w' \<Longrightarrow> w_sessions w' i = Some s' \<Longrightarrow> \<exists>s. w_sessions w i = Some s \<and> quiet s s'"
  by (auto simp: calm_def option_rel_Some2 dest: spec [of _ i])

lemma calm_none: "calm w w' \<Longrightarrow> (w_sessions w' i = None) = (w_sessions w i = None)"
  by (cases "w_sessions w i"; cases "w_sessions w' i") (auto dest: calm_session calm_session')

text \<open>A calm step that keeps the invariant of the sessions.\<close>

definition calmly :: "sid option \<Rightarrow> world \<Rightarrow> world \<Rightarrow> bool" where
  "calmly run w w' \<longleftrightarrow> sessions_ok run w' \<and> calm w w'"

lemma calmly_refl: "sessions_ok run w \<Longrightarrow> calmly run w w"
  by (simp add: calmly_def)

lemma calmly_trans: "calmly run u v \<Longrightarrow> calmly run v w \<Longrightarrow> calmly run u w"
  by (auto simp: calmly_def intro: calm_trans)

lemma with_session_calmly:
  assumes "sessions_ok run w" "w_sessions w i = Some s" "f s = Some s'"
    "sess_inv 0 (of_bool (run = Some i)) s'" "quiet s s'"
  shows "\<exists>w'. with_session i f w = Some w' \<and> calmly run w w' \<and> w_sessions w' = (w_sessions w)(i \<mapsto> s')"
proof -
  have "calm w (w\<lparr>w_sessions := (w_sessions w)(i \<mapsto> s')\<rparr>)"
    using assms(2,5) by (simp add: calm_def option.rel_refl)
  with assms sessions_ok_put [OF assms(1,4)] show ?thesis
    by (simp add: with_session_def calmly_def)
qed

lemma send_calmly:
  assumes "sessions_ok run w" "w_sessions w i = Some s" "sb_ok sb"
  shows "\<exists>w'. with_session i (send env sb) w = Some w' \<and> calmly run w w'"
proof -
  obtain s' where "send env sb s = Some s'" "sess_inv 0 (of_bool (run = Some i)) s'"
    using send_inv [OF sessions_okD [OF assms(1,2)] _ assms(3), of env] by auto
  then show ?thesis using with_session_calmly [where f = "send env sb", OF assms(1,2)] send_quiet by blast
qed

lemma disconnect_calmly:
  assumes "sessions_ok run w" "w_sessions w i = Some s"
  shows "\<exists>w'. with_session i (disconnect env) w = Some w' \<and> calmly run w w'"
proof -
  have "sess_base 0 (of_bool (run = Some i)) s" using sessions_okD [OF assms] by (simp add: sess_inv_def)
  then obtain s' where "disconnect env s = Some s'" "sess_inv 0 (of_bool (run = Some i)) s'"
    using disconnect_inv by (metis le_numeral_extra(1))
  then show ?thesis
    using with_session_calmly [where f = "disconnect env", OF assms] disconnect_quiet [of env s s' s] by auto
qed

lemma tick_inv [simp]:
  "sess_inv io jobs (s\<lparr>ss_last_ping_tick := k\<rparr>) = sess_inv io jobs s"
  "sess_inv io jobs (s\<lparr>ss_last_pong_tick := k\<rparr>) = sess_inv io jobs s"
  "sess_inv io jobs (s\<lparr>ss_waiting_pong := b\<rparr>) = sess_inv io jobs s"
  by (simp_all add: sess_inv_def sess_base_def send_ok_def recv_ok_def owners_def)

lemma send_all_calmly:
  assumes "sessions_ok run w" "\<forall>i \<in> set is. w_sessions w i \<noteq> None" "sb_ok sb"
  shows "\<exists>n w'. send_all io skip sb is k w = Some (n, w') \<and> calmly run w w'"
  using assms
proof (induction "is" arbitrary: k w)
  case (Cons i "is")
  then obtain s where s: "w_sessions w i = Some s" by auto
  show ?case
  proof (cases "skip s")
    case True
    with Cons s show ?thesis by simp
  next
    case False
    obtain w1 where w1: "with_session i (send (io i) sb) w = Some w1" "calmly run w w1"
      using send_calmly [OF Cons.prems(1) s Cons.prems(3)] by blast
    then have "\<forall>i \<in> set is. w_sessions w1 i \<noteq> None"
      using Cons.prems(2) calm_none [of w w1] by (auto simp: calmly_def)
    then obtain n w' where "send_all io skip sb is (k + 1) w1 = Some (n, w')" "calmly run w1 w'"
      using Cons.IH [of w1 "k + 1"] w1(2) Cons.prems(3) by (auto simp: calmly_def)
    with w1 s False calmly_trans show ?thesis by auto
  qed
qed (simp add: calmly_refl)

context server_runtime
begin

lemma send_packet_calmly:
  assumes "sessions_ok run w" "w_sessions w i \<noteq> None" "ack_short a"
  shows "\<exists>w'. send_packet x k i a w = Some w' \<and> calmly run w w'"
proof -
  obtain sb where "make_ack (ext_pb x) (ext_room x) a = Some sb" "sb_ok sb"
    using make_ack_made [OF assms(3)] .
  moreover obtain s where "w_sessions w i = Some s" using assms(2) by auto
  ultimately show ?thesis using send_calmly [OF assms(1)] by (simp add: send_packet_def)
qed

lemma send_ping_calmly:
  assumes "sessions_ok run w" "w_sessions w i = Some s"
  shows "\<exists>w'. send_ping x now i w = Some w' \<and> calmly run w w'"
proof -
  obtain w1 where w1: "set_session i (\<lambda>s. s\<lparr>ss_last_ping_tick := now, ss_waiting_pong := True\<rparr>) w = Some w1"
    "calmly run w w1" "w_sessions w1 i \<noteq> None"
    using with_session_calmly [OF assms, of "\<lambda>s. Some (s\<lparr>ss_last_ping_tick := now, ss_waiting_pong := True\<rparr>)"]
      sessions_okD [OF assms] by auto
  let ?a = "P_ACK_SEND_CONNECT_PING (ACK_SEND_CONNECT_PING_new\<lparr>ack_send_connect_ping_server_tick := now\<rparr>)"
  from w1 obtain w' where "send_packet x 0 i ?a w1 = Some w'" "calmly run w1 w'"
    using send_packet_calmly [of run w1 i ?a] unfolding calmly_def by fastforce
  with w1 calmly_trans show ?thesis by (auto simp: send_ping_def)
qed

lemma heartbeat_calmly:
  assumes "sessions_ok run w" "\<forall>i \<in> set is. w_sessions w i \<noteq> None"
  shows "\<exists>w'. heartbeat_loop x now is w = Some w' \<and> calmly run w w'"
  using assms
proof (induction "is" arbitrary: w)
  case (Cons i "is")
  then obtain s where s: "w_sessions w i = Some s" by auto
  have step: "\<exists>w'. Option.bind r (heartbeat_loop x now is) = Some w' \<and> calmly run w w'"
    if r: "\<exists>w1. r = Some w1 \<and> calmly run w w1" for r
  proof -
    obtain w1 where w1: "r = Some w1" "calmly run w w1" using r by blast
    then have "\<forall>i \<in> set is. w_sessions w1 i \<noteq> None"
      using Cons.prems(2) calm_none [of w w1] by (auto simp: calmly_def)
    then obtain w' where "heartbeat_loop x now is w1 = Some w'" "calmly run w1 w'"
      using Cons.IH [of w1] w1(2) by (auto simp: calmly_def)
    with w1 calmly_trans show ?thesis by auto
  qed
  have "\<exists>w'. heartbeat_loop x now is w = Some w' \<and> calmly run w w'" using Cons by simp
  with s show ?case
    using step [OF disconnect_calmly [OF Cons.prems(1) s]] step [OF send_ping_calmly [OF Cons.prems(1) s]] by auto
qed (simp add: calmly_refl)

end

end
