(* ===== verification/GameTables.thy ===== *)
theory GameTables
  imports GameFrame
begin

text \<open>
  The shared tables against the sessions.  \<open>tables_inv\<close> says that the login list, the rooms and the
  three tables of the session manager are exactly what the profiles of the sessions say: who is logged
  in, in which room, under which name, and who is connected.  One lemma per change of a profile shows
  that the tables the handlers update follow it.
\<close>

type_synonym profiles = "sid \<Rightarrow> profile option"

section \<open>Invariant\<close>

definition holds_account :: "profiles \<Rightarrow> sid \<Rightarrow> uint64 \<Rightarrow> bool" where
  "holds_account P i a \<longleftrightarrow> (\<exists>p. P i = Some p \<and> pf_login p \<and> pf_account p = a)"

definition account_of :: "Login \<Rightarrow> uint64 \<Rightarrow> wstring \<Rightarrow> bool" where
  "account_of lg a n \<longleftrightarrow> (\<exists>uid acc. db lg uid = Some acc \<and> ai_account_id acc = a \<and> ai_user_name acc = n)"

definition profile_ok :: "Login \<Rightarrow> profile \<Rightarrow> bool" where
  "profile_ok lg p \<longleftrightarrow> (pf_room p = - 1 \<or> 0 \<le> pf_room p) \<and> (pf_rejected p \<longrightarrow> pf_was p) \<and>
     (if pf_login p then pf_was p \<and> \<not> pf_done p \<and> account_of lg (pf_account p) (pf_name p)
      else pf_account p = 0 \<and> pf_name p = [] \<and> pf_room p = - 1)"

definition names_short :: "Login \<Rightarrow> bool" where
  "names_short lg \<longleftrightarrow> (\<forall>uid acc. db lg uid = Some acc \<longrightarrow> length (ai_user_name acc) \<le> 32)"

definition login_ok :: "profiles \<Rightarrow> Login \<Rightarrow> bool" where
  "login_ok P lg \<longleftrightarrow> login_inv lg \<and> names_short lg \<and> (\<forall>i p. P i = Some p \<longrightarrow> profile_ok lg p) \<and>
     (\<forall>i j a. holds_account P i a \<and> holds_account P j a \<longrightarrow> i = j) \<and>
     set (lg_login_list lg) = {a. \<exists>i. holds_account P i a}"

definition rooms_ok :: "profiles \<Rightarrow> RoomManager \<Rightarrow> bool" where
  "rooms_ok P rm \<longleftrightarrow> rooms_inv rm \<and>
     (\<forall>r a i. occupant rm r a = Some i \<longleftrightarrow>
        (\<exists>p. P i = Some p \<and> pf_login p \<and> pf_account p = a \<and> pf_room p = r \<and> 0 \<le> r))"

definition index_ok :: "profiles \<Rightarrow> SessionManager \<Rightarrow> bool" where
  "index_ok P sm \<longleftrightarrow> manager_inv sm \<and>
     (\<forall>a i. om_find (sm_account_sessions sm) a = Some i \<longleftrightarrow> holds_account P i a) \<and>
     (\<forall>n i. om_find (sm_name_sessions sm) n = Some i \<longleftrightarrow>
        (\<exists>p. P i = Some p \<and> pf_login p \<and> pf_name p = n \<and> n \<noteq> []))"

definition members_ok :: "profiles \<Rightarrow> SessionManager \<Rightarrow> bool" where
  "members_ok P sm \<longleftrightarrow>
     (\<forall>i. i \<in> set (sm_sessions sm) \<longleftrightarrow> (\<exists>p. P i = Some p \<and> pf_was p \<and> \<not> pf_rejected p \<and> \<not> pf_done p))"

definition tables_inv :: "profiles \<Rightarrow> SessionManager \<Rightarrow> Login \<Rightarrow> RoomManager \<Rightarrow> bool" where
  "tables_inv P sm lg rm \<longleftrightarrow> login_ok P lg \<and> rooms_ok P rm \<and> index_ok P sm \<and> members_ok P sm"

lemma tables_inv_new: "0 \<le> n \<Longrightarrow> tables_inv (\<lambda>_. None) (SessionManager_new n) Login_new RoomManager_new"
proof -
  have "occupant RoomManager_new r a = None" for r a
    using rooms_inv_new by (auto simp: occupant_def RoomManager_new_def create_room_def Room_new_def
        rooms_inv_def upto.simps om_emplace_def split: option.splits)
  then show "0 \<le> n \<Longrightarrow> ?thesis"
    by (simp add: tables_inv_def login_ok_def rooms_ok_def index_ok_def members_ok_def login_inv_new
        rooms_inv_new manager_inv_new names_short_def holds_account_def) (simp add: Login_new_def SessionManager_new_def)
qed

section \<open>Accounts are never forgotten\<close>

lemma holds_account_update:
  "holds_account (P(i \<mapsto> p)) j a \<longleftrightarrow> (if j = i then pf_login p \<and> pf_account p = a else holds_account P j a)"
  by (simp add: holds_account_def)

lemma account_of_list [simp]: "account_of (lg\<lparr>lg_login_list := xs\<rparr>) = account_of lg"
  by (simp add: account_of_def fun_eq_iff)

lemma profile_ok_grow:
  assumes "profile_ok lg p" "\<And>a n. account_of lg a n \<Longrightarrow> account_of lg' a n"
  shows "profile_ok lg' p"
  using assms by (simp add: profile_ok_def split: if_splits)

lemma account_positive:
  assumes "login_inv lg" "account_of lg a n"
  shows "a \<noteq> 0"
proof -
  obtain uid acc where acc: "db lg uid = Some acc" "ai_account_id acc = a" using assms(2) by (auto simp: account_of_def)
  have "ids_inv lg" using assms(1) by (simp add: login_inv_def)
  then have "1 \<le> unat (ai_account_id acc)" using acc(1) unfolding ids_inv_def by blast
  with acc(2) show ?thesis by auto
qed

text \<open>An account determines its name, and a name its account.\<close>

lemma ids_inv_unique:
  assumes "ids_inv lg"
  shows "db lg i = Some a \<Longrightarrow> db lg j = Some b \<Longrightarrow> ai_account_id a = ai_account_id b \<Longrightarrow> i = j"
  using assms [unfolded ids_inv_def, THEN conjunct2, THEN conjunct2, THEN conjunct2] by blast

lemma names_inv_unique:
  assumes "names_inv lg"
  shows "db lg i = Some a \<Longrightarrow> db lg j = Some b \<Longrightarrow> ai_user_name a = ai_user_name b \<Longrightarrow> i = j"
  using assms [unfolded names_inv_def, THEN conjunct2] by blast

lemma account_name_unique:
  assumes "login_inv lg" "account_of lg a n" "account_of lg b m"
  shows "a = b \<longleftrightarrow> n = m"
proof -
  obtain i p j q where acc: "db lg i = Some p" "ai_account_id p = a" "ai_user_name p = n"
    "db lg j = Some q" "ai_account_id q = b" "ai_user_name q = m"
    using assms(2,3) unfolding account_of_def by blast
  have "ids_inv lg" "names_inv lg" using assms(1) by (simp_all add: login_inv_def)
  then have "a = b \<Longrightarrow> i = j" "n = m \<Longrightarrow> i = j"
    using ids_inv_unique [of lg i p j q] names_inv_unique [of lg i p j q] acc by metis+
  with acc show ?thesis by (metis option.inject)
qed

section \<open>Changes that do not concern a table\<close>

lemma login_ok_update:
  assumes "login_ok P lg" "P i = Some p" "profile_ok lg q" "pf_login q = pf_login p" "pf_account q = pf_account p"
  shows "login_ok (P(i \<mapsto> q)) lg"
proof -
  have "holds_account (P(i \<mapsto> q)) = holds_account P"
    using assms(2,4,5) by (auto simp: fun_eq_iff holds_account_def)
  with assms(1,3) show ?thesis by (simp add: login_ok_def)
qed

lemma holders_unique: "login_ok P lg \<Longrightarrow> holds_account P i a \<Longrightarrow> holds_account P j a \<Longrightarrow> i = j"
  unfolding login_ok_def by blast

lemma holder_unique:
  assumes "login_ok P lg" "P i = Some p" "pf_login p" "P j = Some q" "pf_login q" "pf_account p = pf_account q"
  shows "i = j"
proof -
  have "holds_account P i (pf_account q)" "holds_account P j (pf_account q)"
    using assms(2-6) by (simp_all add: holds_account_def)
  then show ?thesis by (rule holders_unique [OF assms(1)])
qed

lemma rooms_okD:
  "rooms_ok P rm \<Longrightarrow> occupant rm r a = Some i \<longleftrightarrow>
     (\<exists>p. P i = Some p \<and> pf_login p \<and> pf_account p = a \<and> pf_room p = r \<and> 0 \<le> r)"
  by (simp add: rooms_ok_def)

lemma rooms_ok_update:
  assumes "rooms_ok P rm" "P i = Some p" "pf_login q = pf_login p" "pf_account q = pf_account p"
    "pf_room q = pf_room p"
  shows "rooms_ok (P(i \<mapsto> q)) rm"
proof -
  have "(\<exists>t. (P(i \<mapsto> q)) j = Some t \<and> pf_login t \<and> pf_account t = a \<and> pf_room t = r \<and> 0 \<le> r) \<longleftrightarrow>
      (\<exists>t. P j = Some t \<and> pf_login t \<and> pf_account t = a \<and> pf_room t = r \<and> 0 \<le> r)" for j a r
    using assms(2-5) by simp
  with assms(1) show ?thesis unfolding rooms_ok_def by presburger
qed

lemma index_ok_update:
  assumes "index_ok P sm" "P i = Some p" "pf_login q = pf_login p" "pf_account q = pf_account p"
    "pf_name q = pf_name p"
  shows "index_ok (P(i \<mapsto> q)) sm"
proof -
  have "holds_account (P(i \<mapsto> q)) = holds_account P"
    using assms(2-4) by (auto simp: fun_eq_iff holds_account_def)
  moreover have "(\<exists>t. (P(i \<mapsto> q)) j = Some t \<and> pf_login t \<and> pf_name t = n \<and> n \<noteq> []) \<longleftrightarrow>
      (\<exists>t. P j = Some t \<and> pf_login t \<and> pf_name t = n \<and> n \<noteq> [])" for j n
    using assms(2,3,5) by simp
  ultimately show ?thesis using assms(1) unfolding index_ok_def by presburger
qed

lemma members_ok_update:
  assumes "members_ok P sm" "P i = Some p" "pf_was q = pf_was p" "pf_rejected q = pf_rejected p"
    "pf_done q = pf_done p"
  shows "members_ok (P(i \<mapsto> q)) sm"
proof -
  have "(\<exists>t. (P(i \<mapsto> q)) j = Some t \<and> pf_was t \<and> \<not> pf_rejected t \<and> \<not> pf_done t) \<longleftrightarrow>
      (\<exists>t. P j = Some t \<and> pf_was t \<and> \<not> pf_rejected t \<and> \<not> pf_done t)" for j
    using assms(2-5) by simp
  with assms(1) show ?thesis unfolding members_ok_def by presburger
qed

section \<open>Logging in\<close>

text \<open>What a successful \<open>login\<close> or \<open>create_account\<close> does to the accounts.\<close>

definition grants :: "uint64 \<Rightarrow> wstring \<Rightarrow> Login \<Rightarrow> Login \<Rightarrow> bool" where
  "grants a n lg lg' \<longleftrightarrow> login_inv lg' \<and> names_short lg' \<and> a \<notin> set (lg_login_list lg) \<and>
     set (lg_login_list lg') = insert a (set (lg_login_list lg)) \<and> account_of lg' a n \<and>
     (\<forall>b m. account_of lg b m \<longrightarrow> account_of lg' b m)"

lemma login_grants:
  assumes "login_inv lg" "names_short lg" "login uid pw user_name account_id lg = (LOGIN_SUCCESS, n, a, lg')"
  shows "grants a n lg lg'"
proof -
  obtain acc where acc: "db lg uid = Some acc" "a = ai_account_id acc" "n = ai_user_name acc"
    "ai_account_id acc \<notin> set (lg_login_list lg)"
    "lg' = lg\<lparr>lg_login_list := os_insert (ai_account_id acc) (lg_login_list lg)\<rparr>"
    using assms(3) by (auto simp: login_cases split: option.splits if_splits)
  moreover have "login_inv lg'" using login_inv_login [OF assms(1), of uid pw user_name account_id] assms(3) by simp
  ultimately show ?thesis using assms(2) by (auto simp: grants_def names_short_def account_of_def)
qed

lemma create_grants:
  assumes "login_inv lg" "names_short lg" "length (lg_memory_login_info_db lg) < 2 ^ 64 - 2" "length n \<le> 32"
    "create_account uid pw n account_id lg = (LOGIN_SUCCESS, a, lg')"
  shows "grants a n lg lg'"
proof -
  have c: "db lg uid = None" "a = lg_account_id lg" "lg' = add_account (new_account uid pw n lg) lg"
    using assms(5) by (auto simp: create_account_cases [OF assms(1)] split: if_splits)
  have "login_inv lg'" using login_inv_create [OF assms(1,3), of uid pw n account_id] assms(5) by simp
  moreover have "a \<notin> set (lg_login_list lg)"
    using assms(1) ids_inv_fresh [of lg] c(2) by (fastforce simp: login_inv_def list_inv_def ran_def)
  moreover have db: "db lg' = (db lg)(uid \<mapsto> new_account uid pw n lg)"
    using c(3) by (simp add: add_account_def new_account_def)
  moreover have "account_of lg' b m" if "account_of lg b m" for b m
    using that c(1) unfolding account_of_def db by (metis fun_upd_other option.distinct(1))
  moreover have "account_of lg' a n"
    unfolding account_of_def db by (intro exI [of _ uid] exI [of _ "new_account uid pw n lg"]) (simp add: new_account_def c(2))
  moreover have "set (lg_login_list lg') = insert a (set (lg_login_list lg))"
    using c by (simp add: add_account_def new_account_def)
  ultimately show ?thesis
    using assms(2,4) by (auto simp: grants_def names_short_def new_account_def)
qed

abbreviation logged_in :: "uint64 \<Rightarrow> wstring \<Rightarrow> profile \<Rightarrow> profile" where
  "logged_in a n p \<equiv> p\<lparr>pf_login := True, pf_account := a, pf_name := n\<rparr>"

lemma tables_login:
  assumes inv: "tables_inv P sm lg rm" and p: "P i = Some p" "\<not> pf_login p" "pf_was p" "\<not> pf_done p"
    and g: "grants a n lg lg'"
  shows "tables_inv (P(i \<mapsto> logged_in a n p)) (add_name_session n (Some i) (add_account_session a (Some i) sm)) lg' rm"
proof -
  let ?P = "P(i \<mapsto> logged_in a n p)"
  have ok: "login_ok P lg" "rooms_ok P rm" "index_ok P sm" "members_ok P sm"
    using inv by (simp_all add: tables_inv_def)
  have po: "profile_ok lg p" using ok(1) p(1) by (simp add: login_ok_def)
  then have room: "pf_room p = - 1" using p(2) by (simp add: profile_ok_def)
  have lg': "login_inv lg'" "names_short lg'" "account_of lg' a n" "a \<notin> set (lg_login_list lg)"
    using g by (simp_all add: grants_def)
  then have pos: "a \<noteq> 0" using account_positive by blast
  have free: "\<not> holds_account P j a" for j using ok(1) lg'(4) by (auto simp: login_ok_def)
  have nothold: "\<not> holds_account P i b" for b using p by (simp add: holds_account_def)
  have grow: "profile_ok lg' q" if "P j = Some q" for j q
    using that ok(1) g profile_ok_grow unfolding login_ok_def grants_def by blast
  have nofree: "pf_name q \<noteq> n" if "P j = Some q" "pf_login q" for j q
  proof -
    have "account_of lg' (pf_account q) (pf_name q)" using grow [OF that(1)] that(2) by (simp add: profile_ok_def)
    moreover have "pf_account q \<noteq> a" using free [of j] that by (auto simp: holds_account_def)
    ultimately show ?thesis using account_name_unique [OF lg'(1) lg'(3)] by blast
  qed
  have "login_ok ?P lg'"
    unfolding login_ok_def
  proof (intro conjI allI impI)
    show "profile_ok lg' q" if "?P j = Some q" for j q
      using that grow [of j q] po p(3,4) lg'(3) by (auto simp: profile_ok_def split: if_splits)
    show "j = k" if "holds_account ?P j b \<and> holds_account ?P k b" for j k b
      using that free holders_unique [OF ok(1), of j b k]
      by (cases "j = i"; cases "k = i") (simp_all add: holds_account_update)
    have "(\<exists>j. holds_account ?P j b) \<longleftrightarrow> b = a \<or> (\<exists>j. holds_account P j b)" for b
      using nothold by (auto simp: holds_account_update) metis+
    moreover have "set (lg_login_list lg') = insert a {b. \<exists>j. holds_account P j b}"
      using g ok(1) by (simp add: grants_def login_ok_def)
    ultimately show "set (lg_login_list lg') = {b. \<exists>j. holds_account ?P j b}" by auto
  qed (use lg' in simp_all)
  moreover have "rooms_ok ?P rm"
    using ok(2) p(1,2) room by (auto simp: rooms_ok_def)
  moreover have "index_ok ?P (add_name_session n (Some i) (add_account_session a (Some i) sm))"
    unfolding index_ok_def
  proof (intro conjI allI)
    fix b j
    show "om_find (sm_account_sessions (add_name_session n (Some i) (add_account_session a (Some i) sm))) b = Some j
        \<longleftrightarrow> holds_account ?P j b"
      using ok(3) pos free nothold by (auto simp: index_ok_def holds_account_update)
  next
    fix m j
    show "om_find (sm_name_sessions (add_name_session n (Some i) (add_account_session a (Some i) sm))) m = Some j
        \<longleftrightarrow> (\<exists>q. ?P j = Some q \<and> pf_login q \<and> pf_name q = m \<and> m \<noteq> [])"
      using ok(3) p(1,2) nofree by (auto simp: index_ok_def)
  qed (use ok(3) in \<open>simp add: index_ok_def manager_inv_index\<close>)
  moreover have "members_ok ?P (add_name_session n (Some i) (add_account_session a (Some i) sm))"
    using ok(4) p(1) by (auto simp: members_ok_def)
  ultimately show ?thesis by (simp add: tables_inv_def)
qed

section \<open>Rooms\<close>

lemma tables_exit:
  assumes inv: "tables_inv P sm lg rm" and p: "P i = Some p" "pf_login p" "0 \<le> pf_room p"
  shows "fst (exit_room (pf_room p) (pf_account p) rm) \<and>
    tables_inv (P(i \<mapsto> p\<lparr>pf_room := - 1\<rparr>)) sm lg (snd (exit_room (pf_room p) (pf_account p) rm))"
proof -
  let ?P = "P(i \<mapsto> p\<lparr>pf_room := - 1\<rparr>)" and ?rm = "snd (exit_room (pf_room p) (pf_account p) rm)"
  have ok: "login_ok P lg" "rooms_ok P rm" "index_ok P sm" "members_ok P sm"
    using inv by (simp_all add: tables_inv_def)
  have po: "profile_ok lg p" using ok(1) p(1) by (simp add: login_ok_def)
  have occ: "occupant rm (pf_room p) (pf_account p) = Some i" using ok(2) p by (simp add: rooms_ok_def)
  have occ_rm: "occupant ?rm r a = Some j \<longleftrightarrow>
      (\<exists>q. ?P j = Some q \<and> pf_login q \<and> pf_account q = a \<and> pf_room q = r \<and> 0 \<le> r)" for r a j
    using rooms_okD [OF ok(2), of r a j] occ p
    by (cases "j = i"; cases "r = pf_room p \<and> a = pf_account p") (simp_all add: occupant_exit, auto)
  have "rooms_ok ?P ?rm" using ok(2) occ_rm by (simp add: rooms_ok_def rooms_inv_exit)
  moreover have "login_ok ?P lg"
    by (rule login_ok_update [OF ok(1) p(1)]) (use po p in \<open>simp_all add: profile_ok_def\<close>)
  moreover have "index_ok ?P sm" by (rule index_ok_update [OF ok(3) p(1)]) simp_all
  moreover have "members_ok ?P sm" by (rule members_ok_update [OF ok(4) p(1)]) simp_all
  ultimately show ?thesis using occ by (simp add: tables_inv_def exit_room_ok)
qed

lemma tables_enter:
  assumes inv: "tables_inv P sm lg rm" and p: "P i = Some p" "pf_login p" "pf_room p < 0"
    and e: "fst (enter_room r (pf_account p) (Some i) rm)"
  shows "0 \<le> r \<and> r < 10 \<and>
    tables_inv (P(i \<mapsto> p\<lparr>pf_room := r\<rparr>)) sm lg (snd (enter_room r (pf_account p) (Some i) rm))"
proof -
  let ?P = "P(i \<mapsto> p\<lparr>pf_room := r\<rparr>)" and ?rm = "snd (enter_room r (pf_account p) (Some i) rm)"
  have ok: "login_ok P lg" "rooms_ok P rm" "index_ok P sm" "members_ok P sm"
    using inv by (simp_all add: tables_inv_def)
  have po: "profile_ok lg p" using ok(1) p(1) by (simp add: login_ok_def)
  obtain room where "om_find (rmg_room_list rm) r = Some room" using e unfolding enter_room_ok by blast
  then have "r \<in> dom (om_find (rmg_room_list rm))" by blast
  moreover have "dom (om_find (rmg_room_list rm)) = {0 ..< 10}"
    using ok(2) by (simp add: rooms_ok_def rooms_inv_def)
  ultimately have r: "0 \<le> r" "r < 10" by simp_all
  have uniq: "j = i" if "P j = Some q" "pf_login q" "pf_account q = pf_account p" for j q
    using holder_unique [OF ok(1) that(1,2) p(1,2) that(3)] .
  have occ_rm: "occupant ?rm k a = Some j \<longleftrightarrow>
      (\<exists>q. ?P j = Some q \<and> pf_login q \<and> pf_account q = a \<and> pf_room q = k \<and> 0 \<le> k)" for k a j
  proof (cases "j = i")
    case True
    have "occupant rm k a \<noteq> Some i" if "0 \<le> k" using rooms_okD [OF ok(2), of k a i] p that by simp
    moreover have "occupant rm k a \<noteq> Some i" if "\<not> 0 \<le> k" using rooms_okD [OF ok(2), of k a i] that by simp
    ultimately show ?thesis using True e r p by (auto simp: occupant_enter)
  next
    case False
    show ?thesis
    proof (cases "k = r \<and> a = pf_account p")
      case True
      have "\<nexists>q. P j = Some q \<and> pf_login q \<and> pf_account q = a" using uniq [of j] True False by blast
      with True False e show ?thesis by (auto simp: occupant_enter)
    next
      case other: False
      then have "occupant ?rm k a = occupant rm k a" using e by (simp add: occupant_enter)
      with False show ?thesis using rooms_okD [OF ok(2), of k a j] by simp
    qed
  qed
  have "rooms_ok ?P ?rm" using ok(2) occ_rm by (simp add: rooms_ok_def rooms_inv_enter)
  moreover have "login_ok ?P lg"
    by (rule login_ok_update [OF ok(1) p(1)]) (use po p r in \<open>simp_all add: profile_ok_def\<close>)
  moreover have "index_ok ?P sm" by (rule index_ok_update [OF ok(3) p(1)]) simp_all
  moreover have "members_ok ?P sm" by (rule members_ok_update [OF ok(4) p(1)]) simp_all
  ultimately show ?thesis using r by (simp add: tables_inv_def)
qed

lemma tables_enter_failed:
  assumes "tables_inv P sm lg rm" "\<not> fst (enter_room r a (Some i) rm)"
  shows "tables_inv P sm lg (snd (enter_room r a (Some i) rm))"
  using assms by (simp add: tables_inv_def rooms_ok_def rooms_inv_enter occupant_enter)

section \<open>Logging out\<close>

abbreviation logged_out :: "profile \<Rightarrow> profile" where
  "logged_out p \<equiv> p\<lparr>pf_login := False, pf_account := 0, pf_name := []\<rparr>"

lemma tables_logout:
  assumes inv: "tables_inv P sm lg rm" and p: "P i = Some p" "pf_login p" "pf_room p < 0"
  shows "fst (logout (pf_account p) lg) \<and>
    tables_inv (P(i \<mapsto> logged_out p))
      (release_name_session (pf_name p) (Some i) (release_logout_session (pf_account p) (Some i) sm))
      (snd (logout (pf_account p) lg)) rm"
proof -
  let ?P = "P(i \<mapsto> logged_out p)" and ?lg = "snd (logout (pf_account p) lg)"
  have ok: "login_ok P lg" "rooms_ok P rm" "index_ok P sm" "members_ok P sm"
    using inv by (simp_all add: tables_inv_def)
  have po: "profile_ok lg p" using ok(1) p(1) by (simp add: login_ok_def)
  have hold: "holds_account P i (pf_account p)" using p by (simp add: holds_account_def)
  then have mem: "pf_account p \<in> set (lg_login_list lg)" using ok(1) by (auto simp: login_ok_def)
  then have lg: "?lg = lg\<lparr>lg_login_list := os_erase (pf_account p) (lg_login_list lg)\<rparr>" by (simp add: logout_cases)
  have linv: "login_inv lg" using ok(1) by (simp add: login_ok_def)
  moreover have "account_of lg (pf_account p) (pf_name p)" using po p(2) by (simp add: profile_ok_def)
  ultimately have pos: "pf_account p \<noteq> 0" by (rule account_positive)
  have room: "pf_room p = - 1" using po p(3) by (auto simp: profile_ok_def)
  have only: "holds_account P j b \<and> (j = i \<or> b = pf_account p) \<longleftrightarrow> j = i \<and> b = pf_account p" for j b
    using ok(1) hold p by (auto simp: login_ok_def holds_account_def)
  have "login_ok ?P ?lg"
    unfolding login_ok_def
  proof (intro conjI allI impI)
    show "login_inv ?lg" by (rule login_inv_logout [OF linv])
    show "names_short ?lg" using ok(1) by (simp add: lg login_ok_def names_short_def)
    show "profile_ok ?lg q" if "?P j = Some q" for j q
      using that ok(1) po p room by (auto simp: lg login_ok_def profile_ok_def split: if_splits)
    show "j = k" if "holds_account ?P j b \<and> holds_account ?P k b" for j k b
      using that holders_unique [OF ok(1), of j b k]
      by (cases "j = i"; cases "k = i") (simp_all add: holds_account_update)
    have "(\<exists>j. holds_account ?P j b) \<longleftrightarrow> b \<noteq> pf_account p \<and> (\<exists>j. holds_account P j b)" for b
      using only by (simp add: holds_account_update) metis
    then show "set (lg_login_list ?lg) = {b. \<exists>j. holds_account ?P j b}"
      using ok(1) by (auto simp: lg login_ok_def)
  qed
  moreover have "rooms_ok ?P rm" using ok(2) p room by (auto simp: rooms_ok_def)
  moreover have "index_ok ?P (release_name_session (pf_name p) (Some i)
      (release_logout_session (pf_account p) (Some i) sm))"
    unfolding index_ok_def
  proof (intro conjI allI)
    fix b j
    show "om_find (sm_account_sessions (release_name_session (pf_name p) (Some i)
        (release_logout_session (pf_account p) (Some i) sm))) b = Some j \<longleftrightarrow> holds_account ?P j b"
      using ok(3) pos only by (auto simp: index_ok_def holds_account_update)
  next
    fix m j
    have nm: "om_find (sm_name_sessions sm) k = Some l \<longleftrightarrow>
        (\<exists>q. P l = Some q \<and> pf_login q \<and> pf_name q = k \<and> k \<noteq> [])" for k l
      using ok(3) by (simp add: index_ok_def)
    have "pf_name p \<noteq> [] \<Longrightarrow> om_find (sm_name_sessions sm) (pf_name p) = Some i" using p nm by simp
    then show "om_find (sm_name_sessions (release_name_session (pf_name p) (Some i)
        (release_logout_session (pf_account p) (Some i) sm))) m = Some j
        \<longleftrightarrow> (\<exists>q. ?P j = Some q \<and> pf_login q \<and> pf_name q = m \<and> m \<noteq> [])"
      using nm [of m j] p by (cases "m = pf_name p"; cases "j = i") auto
  qed (use ok(3) in \<open>simp add: index_ok_def manager_inv_index\<close>)
  moreover have "members_ok ?P (release_name_session (pf_name p) (Some i)
      (release_logout_session (pf_account p) (Some i) sm))"
    using ok(4) p by (auto simp: members_ok_def)
  ultimately show ?thesis using mem by (simp add: tables_inv_def logout_cases)
qed

section \<open>Connecting and leaving\<close>

text \<open>A session leaves the table when it is cleaned up.\<close>

lemma tables_done:
  assumes inv: "tables_inv P sm lg rm" and p: "P i = Some p" "\<not> pf_login p"
  shows "tables_inv (P(i \<mapsto> p\<lparr>pf_done := True\<rparr>)) (release_session (Some i) 0 [] sm) lg rm"
proof -
  let ?P = "P(i \<mapsto> p\<lparr>pf_done := True\<rparr>)" and ?sm = "release_session (Some i) 0 [] sm"
  have ok: "login_ok P lg" "rooms_ok P rm" "index_ok P sm" "members_ok P sm"
    using inv by (simp_all add: tables_inv_def)
  have "profile_ok lg p" using ok(1) p(1) by (simp add: login_ok_def)
  then have "login_ok ?P lg"
    by (intro login_ok_update [OF ok(1) p(1)]) (use p(2) in \<open>simp_all add: profile_ok_def\<close>)
  moreover have "rooms_ok ?P rm" by (rule rooms_ok_update [OF ok(2) p(1)]) simp_all
  moreover have "index_ok ?P ?sm"
  proof -
    have "index_ok ?P sm" by (rule index_ok_update [OF ok(3) p(1)]) simp_all
    then show ?thesis by (simp add: index_ok_def release_session_tables manager_inv_release)
  qed
  moreover have "members_ok ?P ?sm"
    using ok(4) by (auto simp: members_ok_def release_session_tables)
  ultimately show ?thesis by (simp add: tables_inv_def)
qed

text \<open>The manager releases the indexes of a session together with the session.\<close>

lemma release_session_split:
  "release_session (Some i) a n sm =
     release_session (Some i) 0 [] (release_name_session n (Some i) (release_logout_session a (Some i) sm))"
  by (simp add: release_session_def release_logout_session_def release_name_session_def Let_def)

lemma tables_accept:
  assumes inv: "tables_inv P sm lg rm" and p: "P i = Some p" "\<not> pf_was p" "\<not> pf_rejected p" "\<not> pf_done p"
    and add: "add_session (Some i) sm = (True, True, sm')"
  shows "tables_inv (P(i \<mapsto> p\<lparr>pf_was := True\<rparr>)) sm' lg rm"
proof -
  let ?P = "P(i \<mapsto> p\<lparr>pf_was := True\<rparr>)"
  have ok: "login_ok P lg" "rooms_ok P rm" "index_ok P sm" "members_ok P sm"
    using inv by (simp_all add: tables_inv_def)
  have sm': "set (sm_sessions sm') = insert i (set (sm_sessions sm))" "manager_inv sm'"
    "sm_account_sessions sm' = sm_account_sessions sm" "sm_name_sessions sm' = sm_name_sessions sm"
    using add ok(3) manager_inv_add [of sm "Some i"]
    by (auto simp: add_session_def index_ok_def split: if_splits)
  have "profile_ok lg p" using ok(1) p(1) by (simp add: login_ok_def)
  then have "login_ok ?P lg"
    by (intro login_ok_update [OF ok(1) p(1)]) (use p(2) in \<open>simp_all add: profile_ok_def\<close>)
  moreover have "rooms_ok ?P rm" by (rule rooms_ok_update [OF ok(2) p(1)]) simp_all
  moreover have "index_ok ?P sm'"
  proof -
    have "index_ok ?P sm" by (rule index_ok_update [OF ok(3) p(1)]) simp_all
    then show ?thesis by (simp add: index_ok_def sm')
  qed
  moreover have "members_ok ?P sm'" using ok(4) p by (auto simp: members_ok_def sm')
  ultimately show ?thesis by (simp add: tables_inv_def)
qed

lemma tables_reject:
  assumes inv: "tables_inv P sm lg rm" and p: "P i = Some p" "\<not> pf_was p"
  shows "tables_inv (P(i \<mapsto> p\<lparr>pf_was := True, pf_rejected := True\<rparr>)) sm lg rm"
proof -
  let ?P = "P(i \<mapsto> p\<lparr>pf_was := True, pf_rejected := True\<rparr>)"
  have ok: "login_ok P lg" "rooms_ok P rm" "index_ok P sm" "members_ok P sm"
    using inv by (simp_all add: tables_inv_def)
  have "profile_ok lg p" using ok(1) p(1) by (simp add: login_ok_def)
  then have "login_ok ?P lg"
    by (intro login_ok_update [OF ok(1) p(1)]) (use p(2) in \<open>simp_all add: profile_ok_def\<close>)
  moreover have "rooms_ok ?P rm" by (rule rooms_ok_update [OF ok(2) p(1)]) simp_all
  moreover have "index_ok ?P sm" by (rule index_ok_update [OF ok(3) p(1)]) simp_all
  moreover have "members_ok ?P sm" using ok(4) p by (auto simp: members_ok_def)
  ultimately show ?thesis by (simp add: tables_inv_def)
qed

lemma tables_create:
  assumes inv: "tables_inv P sm lg rm" and p: "P i = None" "\<not> pf_was p" "profile_ok lg p"
  shows "tables_inv (P(i \<mapsto> p)) sm lg rm"
proof -
  have off: "\<not> pf_login p" using p(2,3) by (auto simp: profile_ok_def)
  have hold: "holds_account (P(i \<mapsto> p)) = holds_account P"
    using p(1) off by (auto simp: fun_eq_iff holds_account_def)
  have ok: "login_ok P lg" "rooms_ok P rm" "index_ok P sm" "members_ok P sm"
    using inv by (simp_all add: tables_inv_def)
  have "login_ok (P(i \<mapsto> p)) lg" using ok(1) p(3) by (simp add: login_ok_def hold)
  moreover have "rooms_ok (P(i \<mapsto> p)) rm" using ok(2) p(1) off by (auto simp: rooms_ok_def)
  moreover have "index_ok (P(i \<mapsto> p)) sm" using ok(3) p(1) off by (auto simp: index_ok_def hold)
  moreover have "members_ok (P(i \<mapsto> p)) sm" using ok(4) p(1,2) by (auto simp: members_ok_def)
  ultimately show ?thesis by (simp add: tables_inv_def)
qed

end
