(* ===== verification/GameInv.thy ===== *)
theory GameInv
  imports GameCalm GameTables
begin

text \<open>
  The invariant of the whole server and its preservation by the packet handlers.  \<open>world_inv run w\<close>:
  every session satisfies its invariant, the shared tables are what the profiles of the sessions say
  (\<open>GameTables\<close>), and the connection counters count the sessions.  \<open>run\<close> is the session whose job is
  running.  A handler never crashes in such a state, keeps the invariant, and leaves the logic queue
  of its session alone except for a cleanup job (\<open>tame\<close>), so that the job can be accounted for.
\<close>

section \<open>Invariant\<close>

definition profiles :: "world \<Rightarrow> profiles" where
  "profiles w i = map_option profile_of (w_sessions w i)"

definition stats_ok :: "profiles \<Rightarrow> ServerStats \<Rightarrow> bool" where
  "stats_ok P st \<longleftrightarrow> finite (dom P) \<and>
     st_connect st = of_nat (card {i. \<exists>p. P i = Some p \<and> pf_was p}) \<and>
     st_disconnect st = of_nat (card {i. \<exists>p. P i = Some p \<and> pf_was p \<and> pf_done p})"

definition world_inv :: "sid option \<Rightarrow> world \<Rightarrow> bool" where
  "world_inv run w \<longleftrightarrow> sessions_ok run w \<and> w_service w \<and>
     tables_inv (profiles w) (w_manager w) (w_login w) (w_rooms w) \<and> stats_ok (profiles w) (w_stats w)"

lemma profiles_put [simp]: "profiles (w\<lparr>w_sessions := (w_sessions w)(i \<mapsto> s)\<rparr>) = (profiles w)(i \<mapsto> profile_of s)"
  by (simp add: fun_eq_iff profiles_def)

lemma profiles_frame [simp]:
  "profiles (w\<lparr>w_manager := m\<rparr>) = profiles w" "profiles (w\<lparr>w_login := l\<rparr>) = profiles w"
  "profiles (w\<lparr>w_rooms := r\<rparr>) = profiles w" "profiles (w\<lparr>w_stats := st\<rparr>) = profiles w"
  by (simp_all add: fun_eq_iff profiles_def)

lemma profiles_Some: "w_sessions w i = Some s \<Longrightarrow> profiles w i = Some (profile_of s)"
  by (simp add: profiles_def)

lemma calm_profiles:
  assumes "calm w w'"
  shows "profiles w' = profiles w"
proof
  fix i
  show "profiles w' i = profiles w i"
    using calm_session [OF assms, of i] calm_none [OF assms, of i]
    by (cases "w_sessions w i") (auto simp: profiles_def quiet_profile)
qed

lemma world_calmly: "world_inv run w \<Longrightarrow> calmly run w w' \<Longrightarrow> world_inv run w'"
  using calm_fields [of w w'] calm_profiles [of w w'] by (simp add: world_inv_def calmly_def)

lemma world_sessions: "world_inv run w \<Longrightarrow> sessions_ok run w"
  by (simp add: world_inv_def)

lemma world_tables: "world_inv run w \<Longrightarrow> tables_inv (profiles w) (w_manager w) (w_login w) (w_rooms w)"
  by (simp add: world_inv_def)

lemma world_profile:
  assumes "world_inv run w" "w_sessions w i = Some s"
  shows "profile_ok (w_login w) (profile_of s)"
proof -
  have "login_ok (profiles w) (w_login w)" using world_tables [OF assms(1)] by (simp add: tables_inv_def)
  then show ?thesis using profiles_Some [OF assms(2)] unfolding login_ok_def by blast
qed

text \<open>The name of a logged-in session is that of its account, so it is short.\<close>

lemma world_name:
  assumes "world_inv run w" "w_sessions w i = Some s"
  shows "length (ss_user_name s) \<le> 32"
proof -
  have p: "profile_ok (w_login w) (profile_of s)" by (rule world_profile [OF assms])
  have "names_short (w_login w)"
    using world_tables [OF assms(1)] by (simp add: tables_inv_def login_ok_def)
  then have "length n \<le> 32" if "account_of (w_login w) a n" for a n
    using that unfolding names_short_def account_of_def by blast
  with p show ?thesis by (cases "gs_is_login s") (auto simp: profile_ok_def)
qed

section \<open>Effect on the logic queue\<close>

definition tame :: "GameSession \<Rightarrow> GameSession \<Rightarrow> bool" where
  "tame s s' \<longleftrightarrow> (if ss_is_disconnect s' = ss_is_disconnect s then ss_logic_queue s' = ss_logic_queue s
      else ss_is_disconnect s' \<and> ss_logic_queue s' = ss_logic_queue s @ [Cleanup])"

lemma quiet_tame: "quiet s s' \<Longrightarrow> tame s s'"
  unfolding quiet_def tame_def by blast

lemma tame_refl [simp]: "tame s s"
  by (simp add: tame_def)

lemma tame_trans: "tame s t \<Longrightarrow> tame t u \<Longrightarrow> tame s u"
  by (auto simp: tame_def split: if_splits)

lemma tame_queue: "tame s s' \<Longrightarrow> length (ss_logic_queue s') \<le> Suc (length (ss_logic_queue s))"
  by (auto simp: tame_def split: if_splits)

definition tame_at :: "sid \<Rightarrow> world \<Rightarrow> world \<Rightarrow> bool" where
  "tame_at i w w' \<longleftrightarrow> rel_option tame (w_sessions w i) (w_sessions w' i)"

lemma tame_at_refl [simp]: "tame_at i w w"
  by (simp add: tame_at_def option.rel_refl)

lemma tame_at_trans: "tame_at i u v \<Longrightarrow> tame_at i v w \<Longrightarrow> tame_at i u w"
  unfolding tame_at_def
  by (cases "w_sessions u i"; cases "w_sessions v i"; cases "w_sessions w i") (auto intro: tame_trans)

lemma calm_tame: "calm w w' \<Longrightarrow> tame_at i w w'"
  unfolding calm_def tame_at_def using quiet_tame by (metis option.rel_mono_strong)

lemma tame_at_frame [simp]:
  "tame_at i w (w'\<lparr>w_manager := m\<rparr>) = tame_at i w w'" "tame_at i w (w'\<lparr>w_login := l\<rparr>) = tame_at i w w'"
  "tame_at i w (w'\<lparr>w_rooms := r\<rparr>) = tame_at i w w'" "tame_at i w (w'\<lparr>w_stats := st\<rparr>) = tame_at i w w'"
  by (simp_all add: tame_at_def)

section \<open>Outcomes of a handler\<close>

definition outcome :: "sid \<Rightarrow> world \<Rightarrow> (bool \<times> world) option \<Rightarrow> bool" where
  "outcome i w r \<longleftrightarrow> (\<exists>b w'. r = Some (b, w') \<and> world_inv (Some i) w' \<and> tame_at i w w')"

lemma outcome_keep: "world_inv (Some i) w \<Longrightarrow> outcome i w (Some (b, w))"
  by (simp add: outcome_def)

text \<open>A handler that changes the tables, and then ends with a calm step.\<close>

lemma outcome_calmly:
  assumes "world_inv (Some i) v" "tame_at i w v" "\<exists>v'. r = Some v' \<and> calmly (Some i) v v'"
  shows "outcome i w (map_option (Pair b) r)"
proof -
  obtain v' where v': "r = Some v'" "calmly (Some i) v v'" using assms(3) by blast
  then have "world_inv (Some i) v'" "tame_at i v v'"
    using world_calmly [OF assms(1)] calm_tame by (auto simp: calmly_def)
  with v'(1) tame_at_trans [OF assms(2)] show ?thesis by (auto simp: outcome_def)
qed

lemma outcome_disconnect:
  assumes "world_inv (Some i) w" "w_sessions w i = Some s"
  shows "outcome i w (map_option (Pair b) (with_session i (disconnect env) w))"
  by (rule outcome_calmly [OF assms(1) tame_at_refl disconnect_calmly [OF world_sessions [OF assms(1)] assms(2)]])

lemma sess_inv_profile [simp]:
  "sess_inv io jobs (s\<lparr>ss_account_idx := a\<rparr>) = sess_inv io jobs s"
  "sess_inv io jobs (s\<lparr>ss_user_name := n\<rparr>) = sess_inv io jobs s"
  "sess_inv io jobs (s\<lparr>ss_enter_room_id := r\<rparr>) = sess_inv io jobs s"
  by (simp_all add: sess_inv_def sess_base_def send_ok_def recv_ok_def owners_def)

lemma sess_inv_login [simp]: "sess_inv io jobs (s\<lparr>gs_is_login := b\<rparr>) = sess_inv io jobs s"
  by (simp add: sess_inv_def sess_base_def send_ok_def recv_ok_def owners_def)

text \<open>One session and the tables change.\<close>

lemma world_update:
  assumes w: "world_inv run w" "w_sessions w i = Some s"
    and s': "sess_inv 0 (of_bool (run = Some i)) s'" "ss_was_connected s' = ss_was_connected s"
      "ss_cleanup_done s' = ss_cleanup_done s"
    and v: "w_sessions v = (w_sessions w)(i \<mapsto> s')" "w_service v"
      "st_connect (w_stats v) = st_connect (w_stats w)" "st_disconnect (w_stats v) = st_disconnect (w_stats w)"
    and t: "tables_inv ((profiles w)(i \<mapsto> profile_of s')) (w_manager v) (w_login v) (w_rooms v)"
  shows "world_inv run v"
proof -
  let ?P = "(profiles w)(i \<mapsto> profile_of s')"
  have P: "profiles v = ?P" using v(1) by (simp add: fun_eq_iff profiles_def)
  have same: "(\<exists>p. ?P j = Some p \<and> pf_was p) \<longleftrightarrow> (\<exists>p. profiles w j = Some p \<and> pf_was p)"
    "(\<exists>p. ?P j = Some p \<and> pf_was p \<and> pf_done p) \<longleftrightarrow> (\<exists>p. profiles w j = Some p \<and> pf_was p \<and> pf_done p)" for j
    using profiles_Some [OF w(2)] s'(2,3) by simp_all
  have "stats_ok (profiles w) (w_stats w)" using w(1) by (simp add: world_inv_def)
  then have "stats_ok (profiles v) (w_stats v)"
    unfolding stats_ok_def P same using v(3,4) by simp
  moreover have "sessions_ok run v"
    using world_sessions [OF w(1)] s'(1) v(1) by (simp add: sessions_ok_def)
  ultimately show ?thesis using v(2) t P by (simp add: world_inv_def)
qed

section \<open>The handlers\<close>

lemma profile_changes [simp]:
  "profile_of (s\<lparr>gs_is_login := b, ss_account_idx := a, ss_user_name := n\<rparr>) =
     (profile_of s)\<lparr>pf_login := b, pf_account := a, pf_name := n\<rparr>"
  "profile_of (s\<lparr>ss_account_idx := a, ss_user_name := n, gs_is_login := b\<rparr>) =
     (profile_of s)\<lparr>pf_login := b, pf_account := a, pf_name := n\<rparr>"
  "profile_of (s\<lparr>ss_enter_room_id := r\<rparr>) = (profile_of s)\<lparr>pf_room := r\<rparr>"
  by (simp_all add: profile_of_def)

lemma tame_changes [simp]:
  "tame s (t\<lparr>ss_account_idx := a\<rparr>) = tame s t" "tame s (t\<lparr>ss_user_name := n\<rparr>) = tame s t"
  "tame s (t\<lparr>ss_enter_room_id := r\<rparr>) = tame s t" "tame s (t\<lparr>gs_is_login := b\<rparr>) = tame s t"
  by (simp_all add: tame_def)

lemma tame_at_put:
  "w_sessions w i = Some s \<Longrightarrow> w_sessions v = (w_sessions w)(i \<mapsto> s') \<Longrightarrow> tame s s' \<Longrightarrow> tame_at i w v"
  by (simp add: tame_at_def)

lemma register_login_world:
  assumes w: "world_inv (Some i) w" "w_sessions w i = Some s" "\<not> gs_is_login s" "ss_is_connect s"
    and g: "grants a n (w_login w) lg"
  shows "\<exists>v. register_login i a n (w\<lparr>w_login := lg\<rparr>) = Some v \<and> world_inv (Some i) v \<and> tame_at i w v \<and>
    w_sessions v i \<noteq> None"
proof -
  let ?s = "s\<lparr>gs_is_login := True, ss_account_idx := a, ss_user_name := n\<rparr>"
  let ?v = "w\<lparr>w_login := lg, w_sessions := (w_sessions w)(i \<mapsto> ?s),
     w_manager := add_name_session n (Some i) (add_account_session a (Some i) (w_manager w)),
     w_stats := (w_stats w)\<lparr>st_login := st_login (w_stats w) + 1\<rparr>\<rparr>"
  have inv: "sess_inv 0 1 s" using sessions_okD [OF world_sessions [OF w(1)] w(2)] by simp
  then have "sess_base 0 1 s" by (simp add: sess_inv_def)
  then have was: "ss_was_connected s" "\<not> ss_cleanup_done s" using w(4) unfolding sess_base_def by blast+
  have "w_service w" using w(1) by (simp add: world_inv_def)
  then have r: "register_login i a n (w\<lparr>w_login := lg\<rparr>) = Some ?v"
    using w(2) by (simp add: register_login_def with_session_def Let_def)
  have "tables_inv ((profiles w)(i \<mapsto> logged_in a n (profile_of s)))
     (add_name_session n (Some i) (add_account_session a (Some i) (w_manager w))) lg (w_rooms w)"
    by (rule tables_login [OF world_tables [OF w(1)] profiles_Some [OF w(2)] _ _ _ g]) (use w(3) was in simp_all)
  then have "world_inv (Some i) ?v"
    by (intro world_update [OF w(1,2), where s' = ?s]) (use inv \<open>w_service w\<close> in simp_all)
  moreover have "tame_at i w ?v" using w(2) by (simp add: tame_at_def)
  ultimately show ?thesis using r by simp
qed

text \<open>A login request that passes the checks of its fields.\<close>

lemma login_request_eq:
  assumes "w_sessions w i = Some s" "\<not> gs_is_login s" "\<not> (uid = [] \<or> length uid > 32)" "\<not> (pw = [] \<or> length pw > 32)"
    "\<not> (is_create \<and> (name = [] \<or> length name > 32))"
    "attempt_login (ext_win x) is_create uid pw name (w_login w) = (result, idx, n, lg')"
  shows "login_request x ack (Some i) is_create uid pw name w =
    Option.bind (if result = LOGIN_SUCCESS then register_login i idx n (w\<lparr>w_login := lg'\<rparr>)
                 else Some (w\<lparr>w_login := lg'\<rparr>)) (\<lambda>v. map_option (Pair True)
      (send_packet x 0 i (ack idx (WStringToUtf8 (ext_win x) n) (login_error_value result)) v))"
  using assms by (auto simp: login_request_def)

context server_runtime
begin

lemma outcome_send:
  assumes "world_inv (Some i) v" "tame_at i w v" "w_sessions v i \<noteq> None" "ack_short a"
  shows "outcome i w (map_option (Pair b) (send_packet x k i a v))"
  by (rule outcome_calmly [OF assms(1,2) send_packet_calmly [OF world_sessions [OF assms(1)] assms(3,4)]])

text \<open>The ways a login ends: refused with the tables untouched, or granted.\<close>

lemma login_attempt:
  assumes inv: "login_inv lg" "names_short lg" "length (lg_memory_login_info_db lg) < 2 ^ 64 - 2"
    and len: "is_create \<Longrightarrow> length name \<le> 32"
    and r: "attempt_login (ext_win x) is_create uid pw name lg = (result, idx, n, lg')"
  shows "length n \<le> 32 \<and> (if result = LOGIN_SUCCESS then grants idx n lg lg' else lg' = lg)"
proof (cases is_create)
  case True
  let ?n = "Utf8ToWString (ext_win x) name"
  have "length ?n \<le> 32" using len [OF True] wide_le [of name] by simp
  moreover obtain k l where c: "create_account (to_string uid) (to_string pw) ?n 0 lg = (result, k, l)"
    "idx = k" "n = ?n" "lg' = l" using r True by (auto simp: attempt_login_def Let_def split: prod.splits)
  moreover have "lg' = lg" if "result \<noteq> LOGIN_SUCCESS"
    using c that by (auto simp: create_account_cases [OF inv(1)] split: if_splits)
  ultimately show ?thesis using create_grants [OF inv, of ?n] by auto
next
  case False
  obtain m k l where c: "login (to_string uid) (to_string pw) [] 0 lg = (result, m, k, l)"
    "idx = k" "n = m" "lg' = l" using r False by (auto simp: attempt_login_def Let_def split: prod.splits)
  have "lg' = lg \<and> n = []" if "result \<noteq> LOGIN_SUCCESS"
    using c that by (auto simp: login_cases split: option.splits if_splits)
  moreover have "grants idx n lg lg'" if "result = LOGIN_SUCCESS" using login_grants [OF inv(1,2)] c that by blast
  moreover have "length n \<le> 32" if "grants idx n lg lg'"
    using that unfolding grants_def names_short_def account_of_def by blast
  ultimately show ?thesis by (cases "result = LOGIN_SUCCESS") auto
qed

lemma login_error_range: "int32_range (login_error_value e)"
  by (cases e) (simp_all add: int32_range_def)

lemma login_request_outcome:
  assumes w: "world_inv (Some i) w" "w_sessions w i = Some s" "ss_is_connect s"
    and room: "length (lg_memory_login_info_db (w_login w)) < 2 ^ 64 - 2"
    and ack: "\<And>idx n e. length n \<le> 96 \<Longrightarrow> int32_range e \<Longrightarrow> ack_short (ack idx n e)"
  shows "outcome i w (login_request x ack (Some i) is_create uid pw name w)"
proof -
  have lg: "login_inv (w_login w)" "names_short (w_login w)"
    using world_tables [OF w(1)] by (simp_all add: tables_inv_def login_ok_def)
  consider (bad) "uid = [] \<or> length uid > 32 \<or> pw = [] \<or> length pw > 32 \<or> is_create \<and> (name = [] \<or> length name > 32)"
    | (again) "gs_is_login s" | (fresh) "\<not> gs_is_login s" "is_create \<Longrightarrow> length name \<le> 32"
      "\<not> (uid = [] \<or> length uid > 32)" "\<not> (pw = [] \<or> length pw > 32)" "\<not> (is_create \<and> (name = [] \<or> length name > 32))"
    by fastforce
  then show ?thesis
  proof cases
    case bad
    then have "login_request x ack (Some i) is_create uid pw name w = Some (False, w)" by (auto simp: login_request_def)
    with outcome_keep [OF w(1)] show ?thesis by simp
  next
    case again
    then have "login_request x ack (Some i) is_create uid pw name w \<in>
        {Some (False, w), map_option (Pair False) (with_session i (disconnect (ext_io x 0 i)) w)}"
      using w(2) by (auto simp: login_request_def)
    with outcome_keep [OF w(1)] outcome_disconnect [OF w(1,2)] show ?thesis by auto
  next
    case fresh
    obtain result idx n lg' where r: "attempt_login (ext_win x) is_create uid pw name (w_login w) = (result, idx, n, lg')"
      by (metis prod_cases4)
    have res: "length n \<le> 32" "if result = LOGIN_SUCCESS then grants idx n (w_login w) lg' else lg' = w_login w"
      using login_attempt [OF lg room fresh(2) r] by simp_all
    note eq = login_request_eq [OF w(2) fresh(1,3-5) r]
    have "\<exists>v. (if result = LOGIN_SUCCESS then register_login i idx n (w\<lparr>w_login := lg'\<rparr>)
        else Some (w\<lparr>w_login := lg'\<rparr>)) = Some v \<and> world_inv (Some i) v \<and> tame_at i w v \<and> w_sessions v i \<noteq> None"
      using register_login_world [OF w(1,2) fresh(1) w(3), of idx n lg'] res(2) w(1,2) by auto
    then obtain v where v: "(if result = LOGIN_SUCCESS then register_login i idx n (w\<lparr>w_login := lg'\<rparr>)
        else Some (w\<lparr>w_login := lg'\<rparr>)) = Some v" "world_inv (Some i) v" "tame_at i w v" "w_sessions v i \<noteq> None" by blast
    then show ?thesis
      unfolding eq v(1) using outcome_send [OF v(2-4) ack [OF name_le [OF res(1)] login_error_range]] by simp
  qed
qed

end

end
