(* ===== verification/GameSafe.thy ===== *)
theory GameSafe
  imports GameInv
begin

text \<open>
  The invariant through every event of the server.  Each handler and each event has one lemma; the
  theorem at the end is about runs.
\<close>

section \<open>The remaining handlers\<close>

lemma enum_ranges [simp]:
  "int32_range LOGOUT_FAILE" "int32_range LOGOUT_SUCCESS" "int32_range CHAT_ERROR_FAIL"
  "int32_range CHAT_ERROR_NOT_TARGET" "int32_range CHAT_ERROR_SUCCESS" "int32_range ENTER_ROOM_FAIL"
  "int32_range ENTER_ROOM_SUCCESS" "int32_range EXIT_ROOM_FAIL" "int32_range EXIT_ROOM_SUCCESS"
  "int32_range 0"
  by (simp_all add: enum_defs int32_range_def)

lemmas ack_new_defs = ACK_LOGIN_new_def ACK_BOT_LOGIN_new_def ACK_LOGOUT_new_def ACK_ENTER_ROOM_new_def
  ACK_EXIT_ROOM_new_def ACK_CHAT_new_def ACK_SEND_CHAT_new_def

lemma room_infos_short:
  assumes "rooms_inv rm"
  shows "length (rmg_room_list rm) = 10" "list_all (RoomInfo_valid L) (map (room_info_of \<circ> snd) (rmg_room_list rm))"
proof -
  have wf: "om_wf (rmg_room_list rm)" and dom: "dom (om_find (rmg_room_list rm)) = {0 ..< 10}"
    using assms by (simp_all add: rooms_inv_def)
  show "length (rmg_room_list rm) = 10" using length_om_card [OF wf] dom by simp
  have "RoomInfo_valid L (room_info_of room)" if "(i, room) \<in> set (rmg_room_list rm)" for i room
  proof -
    have f: "om_find (rmg_room_list rm) i = Some room" using that om_find_in_set [OF wf] by blast
    have "uint (rm_room_id room) < 2 ^ 8" using unsigned_less [of "rm_room_id room", where 'a = int] by simp
    moreover have "- (2 ^ 31) \<le> uint (rm_room_id room)" by (rule order_trans [of _ 0]) simp_all
    ultimately have "int32_range (uint (rm_room_id room))" by (simp add: int32_range_def)
    then show ?thesis
      using rooms_inv_count [OF assms f] by (simp add: RoomInfo_valid_def room_info_of_def RoomInfo_new_def int32_range_def)
  qed
  then show "list_all (RoomInfo_valid L) (map (room_info_of \<circ> snd) (rmg_room_list rm))" by (auto simp: list_all_iff)
qed

text \<open>A session enters a room.\<close>

lemma enter_world:
  assumes w: "world_inv run w" "w_sessions w i = Some s" "gs_is_login s" "ss_enter_room_id s < 0"
    and e: "enter_room r (ss_account_idx s) (Some i) (w_rooms w) = (True, rm)"
  defines "v \<equiv> w\<lparr>w_rooms := rm, w_sessions := (w_sessions w)(i \<mapsto> s\<lparr>ss_enter_room_id := r\<rparr>)\<rparr>"
  shows "0 \<le> r" "r < 10" "world_inv run v" "tame_at i w v"
proof -
  have inv: "sess_inv 0 (of_bool (run = Some i)) s" using sessions_okD [OF world_sessions [OF w(1)] w(2)] by simp
  have t: "0 \<le> r" "r < 10" "tables_inv ((profiles w)(i \<mapsto> (profile_of s)\<lparr>pf_room := r\<rparr>)) (w_manager w) (w_login w) rm"
    using tables_enter [OF world_tables [OF w(1)] profiles_Some [OF w(2)], of r] e w(3,4) by simp_all
  then show "0 \<le> r" "r < 10" by simp_all
  show "world_inv run v"
    by (rule world_update [OF w(1,2), where s' = "s\<lparr>ss_enter_room_id := r\<rparr>"])
      (use inv t(3) w(1) in \<open>simp_all add: v_def world_inv_def\<close>)
  show "tame_at i w v" using w(2) by (simp add: v_def tame_at_def)
qed

text \<open>A session in a room leaves it.\<close>

lemma exit_world:
  assumes w: "world_inv run w" "w_sessions w i = Some s" "gs_is_login s" "0 \<le> ss_enter_room_id s"
  defines "v \<equiv> w\<lparr>w_rooms := snd (exit_room (ss_enter_room_id s) (ss_account_idx s) (w_rooms w)),
      w_sessions := (w_sessions w)(i \<mapsto> s\<lparr>ss_enter_room_id := - 1\<rparr>)\<rparr>"
  shows "fst (exit_room (ss_enter_room_id s) (ss_account_idx s) (w_rooms w))" "world_inv run v" "tame_at i w v"
proof -
  have inv: "sess_inv 0 (of_bool (run = Some i)) s" using sessions_okD [OF world_sessions [OF w(1)] w(2)] by simp
  note t = tables_exit [OF world_tables [OF w(1)] profiles_Some [OF w(2)], simplified, OF w(3,4)]
  then show "fst (exit_room (ss_enter_room_id s) (ss_account_idx s) (w_rooms w))" by simp
  show "world_inv run v"
    by (rule world_update [OF w(1,2), where s' = "s\<lparr>ss_enter_room_id := - 1\<rparr>"])
      (use inv t w(1) in \<open>simp_all add: v_def world_inv_def\<close>)
  show "tame_at i w v" using w(2) by (simp add: v_def tame_at_def)
qed

text \<open>A session outside the rooms logs out.\<close>

lemma logout_world:
  assumes w: "world_inv run w" "w_sessions w i = Some s" "gs_is_login s" "ss_enter_room_id s < 0"
  defines "s' \<equiv> s\<lparr>ss_account_idx := 0, ss_user_name := [], gs_is_login := False\<rparr>"
  defines "v \<equiv> w\<lparr>w_login := snd (logout (ss_account_idx s) (w_login w)),
      w_manager := release_name_session (ss_user_name s) (Some i)
        (release_logout_session (ss_account_idx s) (Some i) (w_manager w)),
      w_sessions := (w_sessions w)(i \<mapsto> s')\<rparr>"
  shows "fst (logout (ss_account_idx s) (w_login w))" "world_inv run v" "tame_at i w v"
proof -
  have inv: "sess_inv 0 (of_bool (run = Some i)) s" using sessions_okD [OF world_sessions [OF w(1)] w(2)] by simp
  note t = tables_logout [OF world_tables [OF w(1)] profiles_Some [OF w(2)], simplified, OF w(3,4)]
  then show "fst (logout (ss_account_idx s) (w_login w))" by simp
  show "world_inv run v"
    by (rule world_update [OF w(1,2), where s' = s']) (use inv t w(1) in \<open>simp_all add: v_def s'_def world_inv_def\<close>)
  show "tame_at i w v" using w(2) by (simp add: v_def s'_def tame_at_def)
qed

context server_runtime
begin

lemma Handle_REQ_GET_ROOM_INFO_outcome:
  assumes w: "world_inv (Some i) w" "w_sessions w i = Some s"
  shows "outcome i w (Handle_REQ_GET_ROOM_INFO x (Some i) pkt w)"
proof (cases "gs_is_login s")
  case True
  have "rooms_inv (w_rooms w)" using world_tables [OF w(1)] by (simp add: tables_inv_def rooms_ok_def)
  then show ?thesis
    using outcome_send [OF w(1) tame_at_refl, of "P_ACK_GET_ROOM_INFO \<lparr>ack_get_room_info_room_info_list =
        map (room_info_of \<circ> snd) (rmg_room_list (w_rooms w))\<rparr>" True 0] True w(2) room_infos_short
    by (simp add: Handle_REQ_GET_ROOM_INFO_def)
next
  case False
  with outcome_disconnect [OF w] w(2) show ?thesis by (simp add: Handle_REQ_GET_ROOM_INFO_def)
qed

lemma Handle_REQ_ENTER_ROOM_outcome:
  assumes w: "world_inv (Some i) w" "w_sessions w i = Some s"
  shows "outcome i w (Handle_REQ_ENTER_ROOM x (Some i) pkt w)"
proof (cases "gs_is_login s")
  case True
  let ?fail = "P_ACK_ENTER_ROOM (ACK_ENTER_ROOM_new\<lparr>ack_enter_room_result := ENTER_ROOM_FAIL\<rparr>)"
  let ?r = "req_enter_room_room_id pkt"
  obtain ok rm where e: "enter_room ?r (ss_account_idx s) (Some i) (w_rooms w) = (ok, rm)" by fastforce
  have fail: "outcome i w (map_option (Pair True) (send_packet x 0 i ?fail v))"
    if "world_inv (Some i) v" "tame_at i w v" "w_sessions v i \<noteq> None" for v
    by (rule outcome_send [OF that]) (simp add: ack_new_defs)
  consider (inside) "ss_enter_room_id s \<ge> 0" | (refused) "ss_enter_room_id s < 0" "\<not> ok"
    | (entered) "ss_enter_room_id s < 0" ok by fastforce
  then show ?thesis
  proof cases
    case inside
    with True w fail [OF w(1)] show ?thesis by (simp add: Handle_REQ_ENTER_ROOM_def Let_def)
  next
    case refused
    let ?v = "w\<lparr>w_rooms := rm\<rparr>"
    have "tables_inv (profiles w) (w_manager w) (w_login w) rm"
      using tables_enter_failed [OF world_tables [OF w(1)]] e refused(2) by (metis fst_conv snd_conv)
    then have "world_inv (Some i) ?v" using w(1) by (simp add: world_inv_def)
    from fail [OF this] refused True w(2) e show ?thesis by (simp add: Handle_REQ_ENTER_ROOM_def)
  next
    case entered
    let ?v = "w\<lparr>w_rooms := rm, w_sessions := (w_sessions w)(i \<mapsto> s\<lparr>ss_enter_room_id := ?r\<rparr>)\<rparr>"
    have ent: "0 \<le> ?r" "?r < 10" "world_inv (Some i) ?v" "tame_at i w ?v"
      using enter_world [OF w True entered(1)] e entered(2) by simp_all
    then have range: "int32_range ?r" by (simp add: int32_range_def)
    with ent(3,4) show ?thesis
      using outcome_send [of i ?v w "P_ACK_ENTER_ROOM (ACK_ENTER_ROOM_new\<lparr>ack_enter_room_room_id := ?r,
          ack_enter_room_result := ENTER_ROOM_SUCCESS\<rparr>)" True 0] range True w(2) e entered
      by (simp add: Handle_REQ_ENTER_ROOM_def with_session_def ack_new_defs Let_def)
  qed
next
  case False
  with outcome_disconnect [OF w] w(2) show ?thesis by (simp add: Handle_REQ_ENTER_ROOM_def)
qed

lemma Handle_REQ_EXIT_ROOM_outcome:
  assumes w: "world_inv (Some i) w" "w_sessions w i = Some s"
  shows "outcome i w (Handle_REQ_EXIT_ROOM x (Some i) pkt w)"
proof (cases "gs_is_login s")
  case True
  show ?thesis
  proof (cases "ss_enter_room_id s < 0")
    case out: True
    have "w\<lparr>w_rooms := w_rooms w\<rparr> = w" by simp
    with outcome_send [OF w(1) tame_at_refl, of "P_ACK_EXIT_ROOM (ACK_EXIT_ROOM_new\<lparr>ack_exit_room_result := EXIT_ROOM_FAIL\<rparr>)" True 0]
      w(2) True out show ?thesis by (simp add: Handle_REQ_EXIT_ROOM_def ack_new_defs)
  next
    case False
    then have "0 \<le> ss_enter_room_id s" by simp
    from exit_world [OF w True this] False True w(2)
      outcome_send [of i _ w "P_ACK_EXIT_ROOM (ACK_EXIT_ROOM_new\<lparr>ack_exit_room_result := EXIT_ROOM_SUCCESS\<rparr>)" True 0]
    show ?thesis by (simp add: Handle_REQ_EXIT_ROOM_def with_session_def ack_new_defs Let_def case_prod_beta)
  qed
next
  case False
  with outcome_disconnect [OF w] w(2) show ?thesis by (simp add: Handle_REQ_EXIT_ROOM_def)
qed

lemma Handle_REQ_LOGOUT_outcome:
  assumes w: "world_inv (Some i) w" "w_sessions w i = Some s"
  shows "outcome i w (Handle_REQ_LOGOUT x (Some i) pkt w)"
proof (cases "gs_is_login s")
  case True
  let ?t = "s\<lparr>ss_enter_room_id := - 1\<rparr>"
  let ?u = "if ss_enter_room_id s \<ge> 0
    then w\<lparr>w_rooms := snd (exit_room (ss_enter_room_id s) (ss_account_idx s) (w_rooms w)),
           w_sessions := (w_sessions w)(i \<mapsto> ?t)\<rparr>
    else w\<lparr>w_sessions := (w_sessions w)(i \<mapsto> s)\<rparr>"
  let ?r = "if ss_enter_room_id s \<ge> 0 then ?t else s"
  have same: "w\<lparr>w_sessions := (w_sessions w)(i \<mapsto> s)\<rparr> = w" using w(2) by (simp add: fun_upd_idem)
  have u: "world_inv (Some i) ?u" "tame_at i w ?u" "w_sessions ?u i = Some ?r"
    using exit_world [OF w True] w same by simp_all
  have r: "gs_is_login ?r" "ss_enter_room_id ?r < 0" using True by simp_all
  note out = logout_world [OF u(1,3) r]
  define v where "v = ?u\<lparr>w_login := snd (logout (ss_account_idx ?r) (w_login ?u)),
      w_manager := release_name_session (ss_user_name ?r) (Some i)
        (release_logout_session (ss_account_idx ?r) (Some i) (w_manager ?u)),
      w_sessions := (w_sessions ?u)(i \<mapsto> ?r\<lparr>ss_account_idx := 0, ss_user_name := [], gs_is_login := False\<rparr>)\<rparr>"
  have v: "world_inv (Some i) v" "tame_at i w v" "w_sessions v i \<noteq> None"
    using out(2,3) tame_at_trans [OF u(2)] unfolding v_def by simp_all
  have "w_service w" using w(1) by (simp add: world_inv_def)
  with True w(2) out(1) have "Handle_REQ_LOGOUT x (Some i) pkt w = map_option (Pair True)
      (send_packet x 0 i (P_ACK_LOGOUT (ACK_LOGOUT_new\<lparr>ack_logout_result := LOGOUT_SUCCESS\<rparr>)) v)"
    by (cases "ss_enter_room_id s \<ge> 0") (simp_all add: Handle_REQ_LOGOUT_def v_def case_prod_beta Let_def)
  with outcome_send [OF v, of "P_ACK_LOGOUT (ACK_LOGOUT_new\<lparr>ack_logout_result := LOGOUT_SUCCESS\<rparr>)" True 0]
  show ?thesis by (simp add: ack_new_defs)
next
  case False
  with outcome_disconnect [OF w] w(2) show ?thesis by (simp add: Handle_REQ_LOGOUT_def)
qed

end

text \<open>Chat.  Whoever is addressed through the tables is a session.\<close>

lemma addressed:
  assumes "world_inv run w"
  shows "\<forall>i \<in> set (sm_sessions (w_manager w)). w_sessions w i \<noteq> None"
    and "\<forall>i \<in> set (map snd (sm_account_sessions (w_manager w))). w_sessions w i \<noteq> None"
    and "om_find (sm_name_sessions (w_manager w)) n = Some i \<Longrightarrow> w_sessions w i \<noteq> None"
proof -
  have ok: "index_ok (profiles w) (w_manager w)" "members_ok (profiles w) (w_manager w)"
    using world_tables [OF assms] by (simp_all add: tables_inv_def)
  then show "\<forall>i \<in> set (sm_sessions (w_manager w)). w_sessions w i \<noteq> None"
    by (auto simp: members_ok_def profiles_def)
  show "om_find (sm_name_sessions (w_manager w)) n = Some i \<Longrightarrow> w_sessions w i \<noteq> None"
    using ok(1) by (auto simp: index_ok_def profiles_def)
  have "w_sessions w i \<noteq> None" if "(a, i) \<in> set (sm_account_sessions (w_manager w))" for a i
  proof -
    have "om_find (sm_account_sessions (w_manager w)) a = Some i"
      using that ok(1) om_find_in_set by (fastforce simp: index_ok_def manager_inv_def)
    then show ?thesis using ok(1) by (auto simp: index_ok_def holds_account_def profiles_def)
  qed
  then show "\<forall>i \<in> set (map snd (sm_account_sessions (w_manager w))). w_sessions w i \<noteq> None" by auto
qed

lemma chats_calmly:
  assumes "world_inv run w" "sb_ok sb"
  shows "\<exists>n w'. all_chat io sb w = Some (n, w') \<and> calmly run w w'"
    and "\<exists>n w'. broad_cast io sb w = Some (n, w') \<and> calmly run w w'"
    and "\<exists>n w'. normal_chat io r sb w = Some (n, w') \<and> calmly run w w'"
    and "\<exists>n w'. whisper_chat io name sb w = Some (n, w') \<and> calmly run w w'"
proof -
  note ok = world_sessions [OF assms(1)]
  note all = send_all_calmly [OF ok _ assms(2)]
  show "\<exists>n w'. all_chat io sb w = Some (n, w') \<and> calmly run w w'"
    "\<exists>n w'. broad_cast io sb w = Some (n, w') \<and> calmly run w w'"
    unfolding all_chat_def broad_cast_def by (rule all, rule addressed(1) [OF assms(1)])+
  show "\<exists>n w'. normal_chat io r sb w = Some (n, w') \<and> calmly run w w'"
    unfolding normal_chat_def by (rule all) (use addressed(2) [OF assms(1)] in auto)
  show "\<exists>n w'. whisper_chat io name sb w = Some (n, w') \<and> calmly run w w'"
  proof (cases "om_find (sm_name_sessions (w_manager w)) name")
    case (Some i)
    then obtain s where s: "w_sessions w i = Some s" using addressed(3) [OF assms(1)] by blast
    with Some send_calmly [OF ok s assms(2), of "io i"] calmly_refl [OF ok] show ?thesis
      by (auto simp: whisper_chat_def)
  qed (simp add: whisper_chat_def calmly_refl [OF ok])
qed

lemma world_stats:
  "world_inv run w \<Longrightarrow> st_connect st = st_connect (w_stats w) \<Longrightarrow> st_disconnect st = st_disconnect (w_stats w) \<Longrightarrow>
   world_inv run (w\<lparr>w_stats := st\<rparr>)"
  by (simp add: world_inv_def stats_ok_def)

context server_runtime
begin

lemma chat_sent_outcome:
  assumes w: "world_inv (Some i) w" "w_sessions w i \<noteq> None" and sb: "send_chat_buffer x s pkt = Some sb"
    and f: "\<exists>n w'. f sb w = Some (n, w') \<and> calmly (Some i) w w'"
  shows "outcome i w (Option.bind (send_chat_buffer x s pkt) (\<lambda>sb. Option.bind (f sb w) (chat_sent x i)))"
proof -
  obtain n v where v: "f sb w = Some (n, v)" "calmly (Some i) w v" using f by blast
  have inv: "world_inv (Some i) v" and tame: "tame_at i w v" and "w_sessions v i \<noteq> None"
    using world_calmly [OF w(1) v(2)] calm_tame [of w v i] v(2) calm_none [of w v i] w(2) by (auto simp: calmly_def)
  let ?u = "v\<lparr>w_stats := (w_stats v)\<lparr>st_broadcast_packet := st_broadcast_packet (w_stats v) + 1,
      st_broadcast_target := st_broadcast_target (w_stats v) + word_of_int n,
      st_recv_chat := st_recv_chat (w_stats v) + 1\<rparr>\<rparr>"
  have "world_inv (Some i) ?u" by (rule world_stats [OF inv]) simp_all
  moreover have "tame_at i w ?u" "w_sessions ?u i \<noteq> None" using tame \<open>w_sessions v i \<noteq> None\<close> by simp_all
  ultimately show ?thesis
    using outcome_send [of i ?u w "P_ACK_CHAT (ACK_CHAT_new\<lparr>ack_chat_target_count := word_of_int n,
        ack_chat_result := CHAT_ERROR_SUCCESS\<rparr>)" True 1] sb v(1)
    by (simp add: chat_sent_def ack_new_defs Let_def)
qed

lemma Handle_REQ_CHAT_outcome:
  assumes w: "world_inv (Some i) w" "w_sessions w i = Some s"
  shows "outcome i w (Handle_REQ_CHAT x (Some i) pkt w)"
proof -
  have fail: "outcome i w (chat_fail x i e w)" if "int32_range e" for e
    by (rule outcome_send [OF w(1) tame_at_refl]) (use w(2) that in \<open>simp_all add: ack_new_defs\<close>)
  show ?thesis
  proof (cases "gs_is_login s \<and> req_chat_message pkt \<noteq> [] \<and> length (req_chat_message pkt) \<le> 256")
    case True
    have "ack_short (P_ACK_SEND_CHAT (ACK_SEND_CHAT_new\<lparr>ack_send_chat_user_name := WStringToUtf8 (ext_win x) (ss_user_name s),
        ack_send_chat_message := req_chat_message pkt\<rparr>))"
      using True name_le [OF world_name [OF w]] by (simp add: ack_new_defs)
    then obtain sb where sb: "send_chat_buffer x s pkt = Some sb" "sb_ok sb"
      using make_ack_made unfolding send_chat_buffer_def by blast
    have ex: "w_sessions w i \<noteq> None" using w(2) by simp
    note sent = chat_sent_outcome [OF w(1) ex sb(1), where f = "normal_chat (ext_io x 0) (req_chat_room_id pkt)", OF chats_calmly(3) [OF w(1) sb(2)]]
      chat_sent_outcome [OF w(1) ex sb(1), where f = "all_chat (ext_io x 0)", OF chats_calmly(1) [OF w(1) sb(2)]]
      chat_sent_outcome [OF w(1) ex sb(1), where f = "whisper_chat (ext_io x 0) (Utf8ToWString (ext_win x) (req_chat_target_name pkt))", OF chats_calmly(4) [OF w(1) sb(2)]]
    from True w(2) fail sent show ?thesis by (simp add: Handle_REQ_CHAT_def Let_def)
  next
    case False
    with w(2) fail outcome_disconnect [OF w] show ?thesis
      by (cases "gs_is_login s") (auto simp: Handle_REQ_CHAT_def)
  qed
qed

lemma Handle_REQ_CONNECT_PONG_outcome:
  assumes w: "world_inv (Some i) w" "w_sessions w i = Some s"
  shows "outcome i w (Handle_REQ_CONNECT_PONG x (Some i) pkt w)"
proof -
  have "\<exists>w'. set_session i (\<lambda>s. s\<lparr>ss_last_pong_tick := ext_GetTickCount64 x, ss_waiting_pong := False\<rparr>) w = Some w' \<and>
      calmly (Some i) w w'"
    using with_session_calmly [OF world_sessions [OF w(1)] w(2),
        where f = "\<lambda>s. Some (s\<lparr>ss_last_pong_tick := ext_GetTickCount64 x, ss_waiting_pong := False\<rparr>)"]
      sessions_okD [OF world_sessions [OF w(1)] w(2)] by auto
  from outcome_calmly [OF w(1) tame_at_refl this] show ?thesis by (simp add: Handle_REQ_CONNECT_PONG_def)
qed

lemma handle_packet_outcome:
  assumes w: "world_inv (Some i) w" "w_sessions w i = Some s" "ss_is_connect s"
    and room: "length (lg_memory_login_info_db (w_login w)) < 2 ^ 64 - 2"
  shows "outcome i w (handle_packet x (Some i) pkt w)"
  by (cases pkt)
    (simp_all add: Handle_REQ_LOGIN_def Handle_REQ_BOT_LOGIN_def login_request_outcome [OF w room] ack_new_defs
      Handle_REQ_LOGOUT_outcome [OF w(1,2)] Handle_REQ_GET_ROOM_INFO_outcome [OF w(1,2)]
      Handle_REQ_ENTER_ROOM_outcome [OF w(1,2)] Handle_REQ_EXIT_ROOM_outcome [OF w(1,2)]
      Handle_REQ_CHAT_outcome [OF w(1,2)] Handle_REQ_CONNECT_PONG_outcome [OF w(1,2)])

end

end
