(* ===== verification/GameServerRun.thy ===== *)
theory GameServerRun
  imports GameSafe
begin

text \<open>
  The events of the server and their runs: jobs, connections, completions, heartbeat and shutdown keep
  the invariant of the server and never crash.
\<close>

section \<open>Counters\<close>

lemma card_insert_new: "finite (A :: sid set) \<Longrightarrow> i \<notin> A \<Longrightarrow> of_nat (card (insert i A)) = (of_nat (card A) + 1 :: uint64)"
  by simp

lemma finite_profiles: "finite (dom P) \<Longrightarrow> finite {i. \<exists>p. P i = Some p \<and> Q p}"
  by (rule finite_subset [of _ "dom P"]) auto

lemma stats_ok_was:
  assumes st: "stats_ok P st" and p: "P i = Some p" "\<not> pf_was p" and q: "pf_was q" "\<not> pf_done q"
  shows "stats_ok (P(i \<mapsto> q)) (st\<lparr>st_connect := st_connect st + 1\<rparr>)"
proof -
  have fin: "finite (dom P)" using st by (simp add: stats_ok_def)
  let ?A = "{i. \<exists>p. P i = Some p \<and> pf_was p}"
  have "{j. \<exists>r. (P(i \<mapsto> q)) j = Some r \<and> pf_was r} = insert i ?A" using q(1) by (auto split: if_splits)
  moreover have "{j. \<exists>r. (P(i \<mapsto> q)) j = Some r \<and> pf_was r \<and> pf_done r} = {j. \<exists>r. P j = Some r \<and> pf_was r \<and> pf_done r}"
    using p q(2) by auto
  moreover have "i \<notin> ?A" using p by simp
  ultimately show ?thesis
    using st card_insert_new [OF finite_profiles [OF fin, of pf_was]] by (simp add: stats_ok_def add.commute)
qed

lemma stats_ok_done:
  assumes st: "stats_ok P st" and p: "P i = Some p" "\<not> pf_done p" and q: "pf_was q = pf_was p" "pf_done q"
  shows "stats_ok (P(i \<mapsto> q)) (if pf_was p then st\<lparr>st_disconnect := st_disconnect st + 1\<rparr> else st)"
proof -
  have fin: "finite (dom P)" using st by (simp add: stats_ok_def)
  let ?B = "{i. \<exists>p. P i = Some p \<and> pf_was p \<and> pf_done p}"
  have "{j. \<exists>r. (P(i \<mapsto> q)) j = Some r \<and> pf_was r} = {j. \<exists>r. P j = Some r \<and> pf_was r}" using p q(1) by auto
  moreover have "{j. \<exists>r. (P(i \<mapsto> q)) j = Some r \<and> pf_was r \<and> pf_done r} = (if pf_was p then insert i ?B else ?B)"
    using p q by (auto split: if_splits)
  moreover have "i \<notin> ?B" using p by simp
  ultimately show ?thesis
    using st card_insert_new [OF finite_profiles [OF fin, of "\<lambda>p. pf_was p \<and> pf_done p"], of i]
    by (simp add: stats_ok_def add.commute)
qed

section \<open>Cleaning up\<close>

lemma tables_cleanup:
  assumes inv: "tables_inv P sm lg rm" and p: "P i = Some p"
  shows "tables_inv (P(i \<mapsto> (logged_out (p\<lparr>pf_room := - 1\<rparr>))\<lparr>pf_done := True\<rparr>))
    (release_session (Some i) (pf_account p) (pf_name p) sm)
    (if pf_login p then snd (logout (pf_account p) lg) else lg)
    (if 0 \<le> pf_room p then snd (exit_room (pf_room p) (pf_account p) rm) else rm)"
proof -
  have po: "profile_ok lg p" using inv p by (simp add: tables_inv_def login_ok_def)
  show ?thesis
  proof (cases "pf_login p")
    case True
    let ?p1 = "p\<lparr>pf_room := - 1\<rparr>" and ?rm = "if 0 \<le> pf_room p then snd (exit_room (pf_room p) (pf_account p) rm) else rm"
    let ?sm = "release_name_session (pf_name p) (Some i) (release_logout_session (pf_account p) (Some i) sm)"
    have "tables_inv (P(i \<mapsto> ?p1)) sm lg ?rm"
    proof (cases "0 \<le> pf_room p")
      case False
      then have "?p1 = p" using po by (simp add: profile_ok_def)
      with False inv p show ?thesis by (simp add: fun_upd_idem)
    qed (use tables_exit [OF inv p True] in simp)
    from tables_logout [OF this, of i ?p1] True
    have "tables_inv (P(i \<mapsto> logged_out ?p1)) ?sm (snd (logout (pf_account p) lg)) ?rm" by simp
    from tables_done [OF this, of i "logged_out ?p1"] True show ?thesis
      by (subst release_session_split) simp
  next
    case False
    then have z: "pf_account p = 0" "pf_name p = []" "pf_room p = - 1" using po by (simp_all add: profile_ok_def)
    then have q: "(logged_out (p\<lparr>pf_room := - 1\<rparr>))\<lparr>pf_done := True\<rparr> = p\<lparr>pf_done := True\<rparr>" using False by (cases p) simp
    show ?thesis unfolding q using tables_done [OF inv p False] False z by simp
  qed
qed

text \<open>The cleanup job in closed form.\<close>

lemma logged_off_idem: "\<not> gs_is_login s \<Longrightarrow> s\<lparr>gs_is_login := False\<rparr> = s"
  by (cases s) simp

lemma on_disconnect_eq:
  assumes "w_sessions w i = Some s"
  shows "on_disconnect i w = Some (w\<lparr>
     w_stats := (w_stats w)\<lparr>st_disconnect := st_disconnect (w_stats w) + 1\<rparr>,
     w_rooms := if 0 \<le> ss_enter_room_id s
       then snd (exit_room (ss_enter_room_id s) (ss_account_idx s) (w_rooms w)) else w_rooms w,
     w_login := if gs_is_login s then snd (logout (ss_account_idx s) (w_login w)) else w_login w,
     w_sessions := (w_sessions w)(i \<mapsto>
       s\<lparr>ss_enter_room_id := if 0 \<le> ss_enter_room_id s then - 1 else ss_enter_room_id s, gs_is_login := False\<rparr>)\<rparr>)"
proof -
  have "w\<lparr>w_stats := st, w_rooms := w_rooms w\<rparr> = w\<lparr>w_stats := st\<rparr>"
    "w\<lparr>w_stats := st, w_rooms := r, w_login := w_login w\<rparr> = w\<lparr>w_stats := st, w_rooms := r\<rparr>"
    "w\<lparr>w_stats := st, w_login := w_login w\<rparr> = w\<lparr>w_stats := st\<rparr>" for st r
    by (cases w; simp)+
  with assms show ?thesis
    by (cases "gs_is_login s"; cases "0 \<le> ss_enter_room_id s")
      (simp_all add: on_disconnect_def Let_def logged_off_idem)
qed

lemma cleanup_job_was:
  assumes "w_sessions w i = Some s" "w_service w" "ss_was_connected s"
  shows "\<exists>v. cleanup_job i w = Some v \<and> w_service v \<and>
     w_sessions v = (w_sessions w)(i \<mapsto> cleanup_fields (s\<lparr>gs_is_login := False\<rparr>)) \<and>
     w_manager v = release_session (Some i) (ss_account_idx s) (ss_user_name s) (w_manager w) \<and>
     w_login v = (if gs_is_login s then snd (logout (ss_account_idx s) (w_login w)) else w_login w) \<and>
     w_rooms v = (if 0 \<le> ss_enter_room_id s
       then snd (exit_room (ss_enter_room_id s) (ss_account_idx s) (w_rooms w)) else w_rooms w) \<and>
     w_stats v = (w_stats w)\<lparr>st_disconnect := st_disconnect (w_stats w) + 1\<rparr>"
proof -
  have "cleanup_fields (s\<lparr>ss_enter_room_id := r, gs_is_login := False\<rparr>) = cleanup_fields (s\<lparr>gs_is_login := False\<rparr>)" for r
    by (simp add: cleanup_fields_def)
  with assms show ?thesis by (simp add: cleanup_job_def on_disconnect_eq with_session_def)
qed

lemma cleanup_job_fresh:
  assumes "w_sessions w i = Some s" "w_service w" "\<not> ss_was_connected s"
  shows "cleanup_job i w = Some (w\<lparr>
     w_manager := release_session (Some i) (ss_account_idx s) (ss_user_name s) (w_manager w),
     w_sessions := (w_sessions w)(i \<mapsto> cleanup_fields s)\<rparr>)"
  using assms by (simp add: cleanup_job_def with_session_def)

lemma profile_cleanup:
  "profile_of (cleanup_fields (s\<lparr>gs_is_login := False\<rparr>)) =
     (logged_out ((profile_of s)\<lparr>pf_room := - 1\<rparr>))\<lparr>pf_done := True\<rparr>"
  by (simp add: profile_of_def cleanup_fields_def)

text \<open>The cleanup job of a session, from the queue to its end.\<close>

lemma execute_cleanup:
  assumes w: "world_inv None w" "w_sessions w i = Some s" and pop: "logic_pop s = Some (Cleanup, t)"
    and len: "length (ss_logic_queue s) < 2 ^ 32 - 1"
  shows "\<exists>v. execute_job x i w = Some v \<and> world_inv None v \<and>
    profiles v = (profiles w)(i \<mapsto> (logged_out ((profile_of s)\<lparr>pf_room := - 1\<rparr>))\<lparr>pf_done := True\<rparr>)"
proof -
  let ?P = "profiles w" and ?p = "profile_of s" and ?u = "w\<lparr>w_sessions := (w_sessions w)(i \<mapsto> t)\<rparr>"
  let ?c = "cleanup_fields (t\<lparr>gs_is_login := False\<rparr>)"
  let ?q = "(logged_out (?p\<lparr>pf_room := - 1\<rparr>))\<lparr>pf_done := True\<rparr>"
  have inv: "sess_inv 0 0 s" using sessions_okD [OF world_sessions [OF w(1)] w(2)] by simp
  obtain jobs where q: "ss_logic_queue s = Cleanup # jobs" "t = s\<lparr>ss_logic_queue := jobs\<rparr>"
    using pop by (rule logic_pop_Some)
  have prof: "profile_of t = ?p" unfolding q(2) by simp
  have "Suc (count_list jobs Cleanup) = of_bool (ss_is_disconnect s \<and> \<not> ss_cleanup_done s)"
    using inv q(1) by (simp add: sess_inv_def sess_base_def)
  then have nd: "\<not> ss_cleanup_done s" by (simp split: if_splits add: of_bool_def)
  have po: "profile_ok (w_login w) ?p" by (rule world_profile [OF w])
  have srv: "w_service w" and st: "stats_ok ?P (w_stats w)" using w(1) by (simp_all add: world_inv_def)
  have tab: "tables_inv (?P(i \<mapsto> ?q)) (release_session (Some i) (ss_account_idx s) (ss_user_name s) (w_manager w))
    (if gs_is_login s then snd (logout (ss_account_idx s) (w_login w)) else w_login w)
    (if 0 \<le> ss_enter_room_id s then snd (exit_room (ss_enter_room_id s) (ss_account_idx s) (w_rooms w)) else w_rooms w)"
    using tables_cleanup [OF world_tables [OF w(1)] profiles_Some [OF w(2)]] by (simp only: profile_of_sel)
  have "\<exists>v. cleanup_job i ?u = Some v \<and> w_sessions v = (w_sessions w)(i \<mapsto> ?c) \<and> w_service v \<and>
     tables_inv (?P(i \<mapsto> ?q)) (w_manager v) (w_login v) (w_rooms v) \<and> stats_ok (?P(i \<mapsto> ?q)) (w_stats v)"
  proof (cases "ss_was_connected s")
    case True
    then have "stats_ok (?P(i \<mapsto> ?q)) ((w_stats w)\<lparr>st_disconnect := st_disconnect (w_stats w) + 1\<rparr>)"
      using stats_ok_done [OF st profiles_Some [OF w(2)], of ?q] nd by simp
    moreover have "ss_was_connected t" "gs_is_login t = gs_is_login s" "ss_account_idx t = ss_account_idx s"
      "ss_user_name t = ss_user_name s" "ss_enter_room_id t = ss_enter_room_id s" using True by (simp_all add: q(2))
    ultimately show ?thesis using cleanup_job_was [of ?u i t] srv tab by auto
  next
    case False
    then have off: "\<not> gs_is_login s" "ss_enter_room_id s = - 1" using po by (auto simp: profile_ok_def split: if_splits)
    have "stats_ok (?P(i \<mapsto> ?q)) (w_stats w)"
      using stats_ok_done [OF st profiles_Some [OF w(2)], of ?q] nd False by simp
    moreover have t: "t\<lparr>gs_is_login := False\<rparr> = t" using off(1) q(2) by (intro logged_off_idem) simp
    ultimately show ?thesis
      unfolding t using cleanup_job_fresh [of ?u i t] False srv tab off q(2) by simp
  qed
  then obtain v where v: "cleanup_job i ?u = Some v" "w_sessions v = (w_sessions w)(i \<mapsto> ?c)" "w_service v"
     "tables_inv (?P(i \<mapsto> ?q)) (w_manager v) (w_login v) (w_rooms v)" "stats_ok (?P(i \<mapsto> ?q)) (w_stats v)" by blast
  have "logic_pop (s\<lparr>gs_is_login := False\<rparr>) = Some (Cleanup, t\<lparr>gs_is_login := False\<rparr>)" using q by (simp add: logic_pop_def)
  then obtain c where c: "logic_done ?c = Some c" "sess_inv 0 0 c"
    using cleanup_job_inv [of "s\<lparr>gs_is_login := False\<rparr>"] inv len by auto
  let ?r = "v\<lparr>w_sessions := (w_sessions v)(i \<mapsto> c)\<rparr>"
  have P: "profiles ?r = ?P(i \<mapsto> ?q)"
    using logic_done_profile [OF c(1)] profile_cleanup [of t] prof by (simp add: fun_eq_iff profiles_def v(2))
  moreover have "sessions_ok None ?r" using world_sessions [OF w(1)] c(2) by (simp add: sessions_ok_def v(2))
  ultimately have "world_inv None ?r" using v(3-5) by (simp add: world_inv_def)
  moreover have "execute_job x i w = Some ?r"
    using w(2) pop v(1,2) c(1) by (simp add: execute_job_def with_session_def)
  ultimately show ?thesis using P by blast
qed

section \<open>Packet jobs\<close>

lemma sessions_ok_finish:
  assumes "sessions_ok (Some i) w" "sess_inv 0 0 s"
  shows "sessions_ok None (w\<lparr>w_sessions := (w_sessions w)(i \<mapsto> s)\<rparr>)"
  unfolding sessions_ok_def
proof (intro allI impI)
  fix j t assume j: "w_sessions (w\<lparr>w_sessions := (w_sessions w)(i \<mapsto> s)\<rparr>) j = Some t"
  show "sess_inv 0 (of_bool (None = Some j)) t"
    using j assms(2) sessions_okD [OF assms(1), of j t] by (cases "j = i") auto
qed

context server_runtime
begin

lemma execute_callback:
  assumes w: "world_inv None w" "w_sessions w i = Some s" and pop: "logic_pop s = Some (Callback pkt, t)"
    and len: "length (ss_logic_queue s) < 2 ^ 32 - 1"
    and room: "length (lg_memory_login_info_db (w_login w)) < 2 ^ 64 - 2"
  shows "\<exists>v. execute_job x i w = Some v \<and> world_inv None v"
proof -
  let ?u = "w\<lparr>w_sessions := (w_sessions w)(i \<mapsto> t)\<rparr>"
  have inv: "sess_inv 0 0 s" using sessions_okD [OF world_sessions [OF w(1)] w(2)] by simp
  obtain jobs where q: "ss_logic_queue s = Callback pkt # jobs" "t = s\<lparr>ss_logic_queue := jobs\<rparr>"
    using pop by (rule logic_pop_Some)
  have t: "sess_inv 0 1 t" by (rule logic_pop_inv [OF inv pop])
  have "profiles ?u = profiles w"
    using profiles_Some [OF w(2)] by (simp add: q(2) fun_upd_idem)
  moreover have "sessions_ok (Some i) ?u" using world_sessions [OF w(1)] t by (simp add: sessions_ok_def)
  ultimately have u: "world_inv (Some i) ?u" using w(1) by (simp add: world_inv_def)
  have "\<exists>v. packet_job x i pkt ?u = Some v \<and> world_inv (Some i) v \<and> tame_at i ?u v"
    using u handle_packet_outcome [OF u, of t pkt] room
    by (cases "ss_is_connect t") (auto simp: packet_job_def outcome_def)
  then obtain v where v: "packet_job x i pkt ?u = Some v" "world_inv (Some i) v" "tame_at i ?u v" by blast
  then obtain t' where t': "w_sessions v i = Some t'" "tame t t'" by (auto simp: tame_at_def option_rel_Some1)
  have "sess_inv 0 1 t'" using sessions_okD [OF world_sessions [OF v(2)] t'(1)] by simp
  moreover have "length (ss_logic_queue t') < 2 ^ 32 - 1"
    using tame_queue [OF t'(2)] len q by simp
  ultimately obtain d where d: "logic_done t' = Some d" "sess_inv 0 0 d" using logic_done_inv by blast
  let ?r = "v\<lparr>w_sessions := (w_sessions v)(i \<mapsto> d)\<rparr>"
  have "profiles ?r = profiles v"
    using profiles_Some [OF t'(1)] logic_done_profile [OF d(1)] by (simp add: fun_upd_idem)
  moreover have "sessions_ok None ?r" by (rule sessions_ok_finish [OF world_sessions [OF v(2)] d(2)])
  ultimately have "world_inv None ?r" using v(2) by (simp add: world_inv_def)
  moreover have "execute_job x i w = Some ?r"
    using w(2) pop v(1) t'(1) d(1) by (simp add: execute_job_def with_session_def)
  ultimately show ?thesis by simp
qed

end

section \<open>Connections and completions\<close>

text \<open>A change of one session that keeps its profile.\<close>

lemma world_same_profile:
  assumes "world_inv None w" "w_sessions w i = Some s" "sess_inv 0 0 s'" "profile_of s' = profile_of s"
    "st_connect st = st_connect (w_stats w)" "st_disconnect st = st_disconnect (w_stats w)"
  shows "world_inv None (w\<lparr>w_sessions := (w_sessions w)(i \<mapsto> s'), w_stats := st\<rparr>)"
proof -
  have "profiles (w\<lparr>w_sessions := (w_sessions w)(i \<mapsto> s')\<rparr>) = profiles w"
    using profiles_Some [OF assms(2)] assms(4) by (simp add: fun_upd_idem)
  then show ?thesis
    using assms(1,3,5,6) sessions_ok_put [OF world_sessions [OF assms(1)], of i s']
    by (simp add: world_inv_def stats_ok_def)
qed

lemma io_completion_world:
  assumes w: "world_inv None w" "w_sessions w i = Some s" and n: "0 \<le> n" "int32_range n"
  shows "\<exists>v. io_completion x i ev ok n w = Some v \<and> world_inv None v"
proof -
  have "sess_inv 0 0 s" using sessions_okD [OF world_sessions [OF w(1)] w(2)] by simp
  then obtain b s' where s': "iocp_dispatch (ext_io x 0 i) (GameSession_on_recv_packet (ext_pb x)) ev ok n s = Some (b, s')"
    "sess_inv 0 0 s'" using gs.iocp_dispatch_inv n by blast
  let ?st = "if send_accepted ev ok n s then on_send (if ok then n else 0) (w_stats w) else w_stats w"
  have "world_inv None (w\<lparr>w_sessions := (w_sessions w)(i \<mapsto> s'), w_stats := ?st\<rparr>)"
    by (rule world_same_profile [OF w s'(2) iocp_dispatch_profile [OF s'(1)]]) (simp_all add: on_send_def)
  with s'(1) w(2) show ?thesis by (simp add: io_completion_def)
qed

lemma receive_bytes_world:
  assumes w: "world_inv None w" "w_sessions w i = Some s" and bs: "int (length bs) \<le> free_size (ss_recv_buffer s)"
  shows "\<exists>v. receive_bytes x i bs w = Some v \<and> world_inv None v"
proof -
  let ?s = "s\<lparr>ss_recv_buffer := recv_fill bs (ss_recv_buffer s)\<rparr>"
  have inv: "sess_inv 0 0 s" using sessions_okD [OF world_sessions [OF w(1)] w(2)] by simp
  have "free_size (ss_recv_buffer s) < 2 ^ 31"
    using inv by (auto simp: sess_inv_def sess_base_def rb_inv_def int32_range_def free_size_def)
  then have "int32_range (int (length bs))" using bs by (simp add: int32_range_def)
  then obtain b s' where s': "feed (ext_io x 0 i) (GameSession_on_recv_packet (ext_pb x)) bs s = Some (b, s')" "sess_inv 0 0 s'"
    using gs.iocp_dispatch_inv [OF fill_inv(1) [OF inv bs], of "int (length bs)" "ext_io x 0 i" "ext_pb x" Ev_Recv True]
    by (auto simp: feed_def)
  have "world_inv None (w\<lparr>w_sessions := (w_sessions w)(i \<mapsto> s'), w_stats := w_stats w\<rparr>)"
    by (rule world_same_profile [OF w s'(2) feed_profile [OF s'(1)]]) simp_all
  with s'(1) w(2) show ?thesis by (simp add: receive_bytes_def with_session_def)
qed

text \<open>A new session, and its connection.\<close>

lemma GameSession_new_inv: "sess_inv 0 0 (GameSession_new sock)"
proof -
  have "sess_base 0 0 (GameSession_new sock)"
    using base_new [of sock]
    by (simp add: sess_base_def GameSession_new_def Session.extend_def owners_def)
  moreover have "\<not> ss_is_connect (GameSession_new sock)"
    by (simp add: GameSession_new_def Session.extend_def Session_new_def)
  ultimately show ?thesis by (simp add: sess_inv_def not_connected_ok)
qed

lemma GameSession_new_profile:
  "profile_of (GameSession_new sock) = \<lparr>pf_login = False, pf_account = 0, pf_room = - 1, pf_name = [], pf_was = False,
     pf_rejected = False, pf_done = False\<rparr>"
  by (simp add: profile_of_def GameSession_new_def Session.extend_def GameSession.fields_def Session_new_def)

lemma create_world:
  assumes w: "world_inv None w" "w_sessions w i = None"
  shows "world_inv None (w\<lparr>w_sessions := (w_sessions w)(i \<mapsto> GameSession_new True)\<rparr>)"
proof -
  let ?p = "profile_of (GameSession_new True)"
  have none: "profiles w i = None" using w(2) by (simp add: profiles_def)
  have "tables_inv ((profiles w)(i \<mapsto> ?p)) (w_manager w) (w_login w) (w_rooms w)"
    by (rule tables_create [OF world_tables [OF w(1)] none]) (simp_all add: GameSession_new_profile profile_ok_def)
  moreover have "stats_ok ((profiles w)(i \<mapsto> ?p)) (w_stats w)"
  proof -
    have "{j. \<exists>r. ((profiles w)(i \<mapsto> ?p)) j = Some r \<and> pf_was r} = {j. \<exists>r. profiles w j = Some r \<and> pf_was r}"
      "{j. \<exists>r. ((profiles w)(i \<mapsto> ?p)) j = Some r \<and> pf_was r \<and> pf_done r} = {j. \<exists>r. profiles w j = Some r \<and> pf_was r \<and> pf_done r}"
      using none by (auto simp: GameSession_new_profile)
    then show ?thesis using w(1) by (simp add: world_inv_def stats_ok_def)
  qed
  moreover have "sessions_ok None (w\<lparr>w_sessions := (w_sessions w)(i \<mapsto> GameSession_new True)\<rparr>)"
    using sessions_ok_put [OF world_sessions [OF w(1)], of i] GameSession_new_inv by simp
  ultimately show ?thesis using w(1) by (simp add: world_inv_def)
qed

lemma process_connect_profile:
  assumes "process_connect env s = Some s'"
  shows "profile_of s' = (profile_of s)\<lparr>pf_was := True\<rparr>"
  using register_recv_profile [OF assms [unfolded process_connect_def]] by (simp add: profile_of_def)

lemma reject_connection_profile:
  assumes "reject_connection env notice s = Some s'" "\<not> ss_is_connect s"
  shows "profile_of s' = (profile_of s)\<lparr>pf_was := True, pf_rejected := True\<rparr>"
proof -
  let ?s = "s\<lparr>ss_is_connect := True, ss_was_connected := True, ss_close_after_send := True\<rparr>"
  have "(case notice of None \<Rightarrow> disconnect env ?s | Some sb \<Rightarrow> send env sb ?s) = Some s'"
    using assms by (simp add: reject_connection_def Let_def)
  then have "profile_of s' = profile_of ?s"
    by (cases notice) (auto dest: disconnect_profile send_quiet quiet_profile)
  then show ?thesis by (simp add: profile_of_def)
qed

context server_runtime
begin

lemma notice_ok: "make_server_full_notice x n = Some sb \<Longrightarrow> sb_ok sb"
  using make_ack_made [of "P_ACK_SERVER_FULL (ACK_SERVER_FULL_new\<lparr>ack_server_full_max_session_count := word_of_int n\<rparr>)"]
  by (auto simp: make_server_full_notice_def)

lemma accept_world:
  assumes w: "world_inv None w" "w_sessions w i = Some s" and new: "unconnected s"
  shows "\<exists>v. accept_connection x i w = Some v \<and> world_inv None v"
proof -
  let ?st = "(w_stats w)\<lparr>st_connect := st_connect (w_stats w) + 1\<rparr>"
  have inv: "sess_inv 0 0 s" using sessions_okD [OF world_sessions [OF w(1)] w(2)] by simp
  then have base: "sess_base 0 0 s" by (simp add: sess_inv_def)
  then have "ss_cleanup_done s \<longrightarrow> ss_is_disconnect s" by (simp add: sess_base_def)
  then have was: "\<not> ss_was_connected s" "\<not> ss_is_connect s" "\<not> ss_cleanup_done s"
    using new by (auto simp: unconnected_def)
  have "profile_ok (w_login w) (profile_of s)" by (rule world_profile [OF w])
  then have rej: "\<not> ss_close_after_send s" using was(1) by (auto simp: profile_ok_def)
  have notin: "i \<notin> set (sm_sessions (w_manager w))"
    using world_tables [OF w(1)] profiles_Some [OF w(2)] was(1) by (simp add: tables_inv_def members_ok_def)
  have "stats_ok (profiles w) (w_stats w)" using w(1) by (simp add: world_inv_def)
  note st = stats_ok_was [OF this profiles_Some [OF w(2)]]
  show ?thesis
  proof (cases "fst (add_session (Some i) (w_manager w))")
    case True
    then obtain sm where sm: "add_session (Some i) (w_manager w) = (True, True, sm)"
      using notin by (auto simp: add_session_def split: if_splits)
    obtain s' where s': "process_connect (ext_io x 0 i) s = Some s'" "sess_inv 0 0 s'"
      using process_connect_inv [OF base new] by blast
    let ?v = "w\<lparr>w_manager := sm, w_stats := ?st, w_sessions := (w_sessions w)(i \<mapsto> s')\<rparr>"
    have prof: "profile_of s' = (profile_of s)\<lparr>pf_was := True\<rparr>" by (rule process_connect_profile [OF s'(1)])
    have "tables_inv ((profiles w)(i \<mapsto> profile_of s')) sm (w_login w) (w_rooms w)"
      unfolding prof by (rule tables_accept [OF world_tables [OF w(1)] profiles_Some [OF w(2)] _ _ _ sm]) (use was rej in simp_all)
    moreover have "stats_ok ((profiles w)(i \<mapsto> profile_of s')) ?st"
      unfolding prof by (rule st) (use was in simp_all)
    moreover have "profiles ?v = (profiles w)(i \<mapsto> profile_of s')" by (simp add: fun_eq_iff profiles_def)
    moreover have "sessions_ok None ?v" using world_sessions [OF w(1)] s'(2) by (simp add: sessions_ok_def)
    ultimately have "world_inv None ?v" using w(1) by (simp add: world_inv_def)
    moreover have "accept_connection x i w = Some ?v"
      using sm s'(1) w(2) by (simp add: accept_connection_def with_session_def)
    ultimately show ?thesis by simp
  next
    case False
    obtain b sm where sm: "add_session (Some i) (w_manager w) = (False, b, sm)" using False by (metis (full_types) prod.collapse)
    let ?notice = "make_server_full_notice x (sm_max_session_count sm)"
    obtain s' where s': "reject_connection (ext_io x 0 i) ?notice s = Some s'" "sess_inv 0 0 s'"
      using reject_connection_inv [where notice = ?notice and env = "ext_io x 0 i", OF base new] notice_ok by metis
    let ?v = "w\<lparr>w_stats := ?st, w_sessions := (w_sessions w)(i \<mapsto> s')\<rparr>"
    have prof: "profile_of s' = (profile_of s)\<lparr>pf_was := True, pf_rejected := True\<rparr>"
      by (rule reject_connection_profile [OF s'(1) was(2)])
    have "tables_inv ((profiles w)(i \<mapsto> profile_of s')) (w_manager w) (w_login w) (w_rooms w)"
      unfolding prof by (rule tables_reject [OF world_tables [OF w(1)] profiles_Some [OF w(2)]]) (use was in simp)
    moreover have "stats_ok ((profiles w)(i \<mapsto> profile_of s')) ?st"
      unfolding prof by (rule st) (use was in simp_all)
    moreover have "profiles ?v = (profiles w)(i \<mapsto> profile_of s')" by (simp add: fun_eq_iff profiles_def)
    moreover have "sessions_ok None ?v" using world_sessions [OF w(1)] s'(2) by (simp add: sessions_ok_def)
    ultimately have "world_inv None ?v" using w(1) by (simp add: world_inv_def)
    moreover have "accept_connection x i w = Some ?v"
      using sm s'(1) w(2) was(2) by (simp add: accept_connection_def with_session_def Let_def)
    ultimately show ?thesis by simp
  qed
qed

end

section \<open>Steps and runs\<close>

text \<open>The counters of the code have room left: the number of queued jobs of a session (32 bits) and the
  account ids (64 bits).\<close>

definition within_limits :: "world \<Rightarrow> bool" where
  "within_limits w \<longleftrightarrow> (\<forall>i s. w_sessions w i = Some s \<longrightarrow> length (ss_logic_queue s) < 2 ^ 32 - 1) \<and>
     length (lg_memory_login_info_db (w_login w)) < 2 ^ 64 - 2"

context server_runtime
begin

lemma execute_job_world:
  assumes w: "world_inv None w" "w_sessions w i = Some s" and lim: "within_limits w"
  shows "\<exists>v. execute_job x i w = Some v \<and> world_inv None v"
proof (cases "logic_pop s")
  case None
  with w show ?thesis by (simp add: execute_job_def)
next
  case (Some r)
  obtain job t where r: "r = (job, t)" by fastforce
  have lim': "length (ss_logic_queue s) < 2 ^ 32 - 1" "length (lg_memory_login_info_db (w_login w)) < 2 ^ 64 - 2"
    using lim w(2) by (auto simp: within_limits_def)
  show ?thesis
    using execute_callback [OF w _ lim'] execute_cleanup [OF w _ lim'(1)] Some r by (cases job) fastforce+
qed

lemma server_step_world:
  assumes w: "world_inv None w" and lim: "within_limits w"
  shows "\<exists>v. server_step x ev w = Some v \<and> world_inv None v"
proof (cases ev)
  case (Ev_create i)
  with w create_world [OF w] show ?thesis by simp
next
  case (Ev_accepted i)
  with w accept_world [OF w] show ?thesis by (cases "w_sessions w i") simp_all
next
  case (Ev_received i bs)
  with w receive_bytes_world [OF w] show ?thesis by (cases "w_sessions w i") simp_all
next
  case (Ev_completed i e ok n)
  with w io_completion_world [OF w] show ?thesis by (cases "w_sessions w i") simp_all
next
  case (Ev_job i)
  with w execute_job_world [OF w _ lim] show ?thesis by (cases "w_sessions w i") simp_all
next
  case Ev_heartbeat
  obtain v where "check_heartbeat x (ext_GetTickCount64 x) w = Some v" "calmly None w v"
    using heartbeat_calmly [OF world_sessions [OF w] addressed(1) [OF w]] unfolding check_heartbeat_def by blast
  with Ev_heartbeat world_calmly [OF w] show ?thesis by simp
next
  case (Ev_shutdown i)
  show ?thesis
  proof (cases "w_sessions w i")
    case (Some s)
    have "sess_inv 0 0 (begin_shutdown s)"
      using begin_shutdown_inv sessions_okD [OF world_sessions [OF w] Some] by auto
    from world_same_profile [OF w Some this, of "w_stats w"] Ev_shutdown Some show ?thesis by (simp add: with_session_def)
  qed (use w Ev_shutdown in simp)
qed

end

lemma world_new_inv: "0 \<le> n \<Longrightarrow> world_inv None (world_new n)"
proof -
  assume n: "0 \<le> n"
  have "profiles (world_new n) = (\<lambda>_. None)" by (simp add: fun_eq_iff profiles_def world_new_def)
  with tables_inv_new [OF n] show ?thesis
    by (simp add: world_inv_def sessions_ok_def stats_ok_def) (simp add: world_new_def ServerStats_new_def)
qed

text \<open>The states a server for \<open>n\<close> sessions can reach while its counters have room.\<close>

inductive reachable :: "int \<Rightarrow> world \<Rightarrow> bool" for n where
  start: "reachable n (world_new n)"
| step: "reachable n w \<Longrightarrow> within_limits w \<Longrightarrow> server_runtime x \<Longrightarrow> server_step x ev w = Some w' \<Longrightarrow> reachable n w'"

lemma server_reachable_inv:
  assumes "reachable n w" "0 \<le> n"
  shows "world_inv None w"
  using assms
proof (induction rule: reachable.induct)
  case (step w x ev w')
  then show ?case using server_runtime.server_step_world [of x w ev] by auto
qed (rule world_new_inv)

end
