(* ===== verification/GameProps.thy ===== *)
theory GameProps
  imports GameServerRun
begin

text \<open>
  The properties of the game server as a whole, for every state that a sequence of connections,
  received bytes, completions, jobs, heartbeats and shutdowns can reach.
\<close>

section \<open>Witness states\<close>

text \<open>A server with one connection.\<close>

definition one_session :: world where
  "one_session = (world_new 5)\<lparr>w_sessions := [3 \<mapsto> GameSession_new True]\<rparr>"

lemma within_limits_new: "within_limits (world_new n)"
  by (simp add: within_limits_def world_new_def Login_new_def)

lemma one_session_reachable: "reachable 5 one_session"
proof (rule reachable.step [OF reachable.start within_limits_new ref_ext.server_runtime_axioms])
  show "server_step ref_ext (Ev_create 3) (world_new 5) = Some one_session"
    by (simp add: one_session_def world_new_def fun_upd_def)
qed

lemma one_session_limits: "within_limits one_session"
  by (simp add: within_limits_def one_session_def world_new_def Login_new_def GameSession_new_def
      Session.extend_def Session_new_def)

text \<open>The session of a fresh connection.\<close>

definition new_connection :: GameSession where
  "new_connection = (GameSession_new True)\<lparr>ss_was_connected := True, ss_is_connect := True, ss_recv_owner := True,
     ss_pending_io := 1\<rparr>"

lemmas new_session_defs = GameSession_new_def Session.extend_def Session_new_def GameSession.fields_def

lemma new_unconnected: "unconnected (GameSession_new sock)"
  by (simp add: unconnected_def new_session_defs owners_def SendEvent_new_def RecvBuffer_new_def rb_data_def
      free_size_def data_size_def block_def BUFFER_SIZE_def)

lemma process_connect_new:
  "\<not> io_failed (env_WSARecv env) \<Longrightarrow> process_connect env (GameSession_new True) = Some new_connection"
  by (simp add: process_connect_def register_recv_def new_session_defs begin_io_def new_connection_def)

lemma ref_ext_io [simp]:
  "\<not> io_failed (env_WSARecv (ext_io ref_ext k i))" "\<not> io_failed (env_WSASend (ext_io ref_ext k i))"
  "\<not> io_failed (env_DisconnectEx (ext_io ref_ext k i))"
  by (simp_all add: ref_ext_def io_failed_def)

lemma new_connection_inv: "sess_inv 0 0 new_connection"
proof -
  have "sess_base 0 0 (GameSession_new True)" using GameSession_new_inv by (simp add: sess_inv_def)
  from process_connect_inv [OF this new_unconnected, of "ext_io ref_ext 0 0"] show ?thesis
    by (simp add: process_connect_new)
qed

lemma new_connection_fields [simp]:
  "ss_is_connect new_connection" "\<not> ss_close_after_send new_connection" "rb_data (ss_recv_buffer new_connection) = []"
  "ss_logic_queue new_connection = []" "\<not> gs_is_login new_connection" "ss_was_connected new_connection"
  "ss_enter_room_id new_connection = - 1" "ss_pending_jobs new_connection = 0" "ss_account_idx new_connection = 0"
  "ss_user_name new_connection = []" "ss_send_queue new_connection = []" "\<not> ss_waiting_pong new_connection"
  by (simp_all add: new_connection_def new_session_defs RecvBuffer_new_def rb_data_def data_size_def block_def)

section \<open>Safety\<close>

lemma holds_account_session:
  "holds_account (profiles w) i a \<longleftrightarrow> (\<exists>s. w_sessions w i = Some s \<and> gs_is_login s \<and> ss_account_idx s = a)"
  by (auto simp: holds_account_def profiles_def)

text \<open>C1: the server never crashes.  In every reachable state, whatever happens next - a connection,
  any bytes from any client, any completion, the next job of any session, the heartbeat, a shutdown -
  no assertion fails and nothing is written outside a buffer, as long as fewer than \<open>2 ^ 32 - 1\<close> jobs
  wait for one session and fewer than \<open>2 ^ 64 - 2\<close> accounts exist; the next state is reachable again.\<close>

theorem server_never_crashes:
  assumes "0 \<le> n" "reachable n w" "within_limits w" "server_runtime x"
  shows "\<exists>w'. server_step x ev w = Some w' \<and> reachable n w'"
proof -
  obtain w' where "server_step x ev w = Some w'"
    using server_runtime.server_step_world [OF assms(4) server_reachable_inv [OF assms(2,1)] assms(3)] by blast
  with reachable.step [OF assms(2-4)] show ?thesis by blast
qed

theorem server_never_crashes_witness:
  "reachable 5 one_session \<and> within_limits one_session \<and> server_runtime ref_ext \<and>
   (\<exists>w'. server_step ref_ext (Ev_accepted 3) one_session = Some w' \<and> reachable 5 w')"
  using server_never_crashes [of 5 one_session ref_ext "Ev_accepted 3"] one_session_reachable one_session_limits
    ref_ext.server_runtime_axioms by simp

text \<open>C2: one session per account.  In every reachable state two sessions that are logged in to the same
  account are the same session, the login list of the account database is exactly the set of accounts
  of the logged-in sessions, and the two indexes of the session manager lead from an account and from
  a (non-empty) user name to the session that is logged in with it.\<close>

theorem one_session_per_account:
  assumes "0 \<le> n" "reachable n w"
  shows "(\<forall>i j s t. w_sessions w i = Some s \<and> w_sessions w j = Some t \<and> gs_is_login s \<and> gs_is_login t \<and>
       ss_account_idx s = ss_account_idx t \<longrightarrow> i = j) \<and>
    set (lg_login_list (w_login w)) = {ss_account_idx s |i s. w_sessions w i = Some s \<and> gs_is_login s} \<and>
    (\<forall>a i. om_find (sm_account_sessions (w_manager w)) a = Some i \<longleftrightarrow>
       (\<exists>s. w_sessions w i = Some s \<and> gs_is_login s \<and> ss_account_idx s = a)) \<and>
    (\<forall>m i. om_find (sm_name_sessions (w_manager w)) m = Some i \<longleftrightarrow>
       (\<exists>s. w_sessions w i = Some s \<and> gs_is_login s \<and> ss_user_name s = m \<and> m \<noteq> []))"
proof -
  have ok: "login_ok (profiles w) (w_login w)" "index_ok (profiles w) (w_manager w)"
    using world_tables [OF server_reachable_inv [OF assms(2,1)]] by (simp_all add: tables_inv_def)
  have "i = j" if "w_sessions w i = Some s" "w_sessions w j = Some t" "gs_is_login s" "gs_is_login t"
    "ss_account_idx s = ss_account_idx t" for i j s t
    using holder_unique [OF ok(1) profiles_Some [OF that(1)] _ profiles_Some [OF that(2)]] that(3-5) by simp
  moreover have "set (lg_login_list (w_login w)) = {ss_account_idx s |i s. w_sessions w i = Some s \<and> gs_is_login s}"
  proof -
    have "set (lg_login_list (w_login w)) = {a. \<exists>i. holds_account (profiles w) i a}" using ok(1) by (simp add: login_ok_def)
    then show ?thesis unfolding holds_account_session by auto
  qed
  moreover have "om_find (sm_account_sessions (w_manager w)) a = Some i \<longleftrightarrow>
      (\<exists>s. w_sessions w i = Some s \<and> gs_is_login s \<and> ss_account_idx s = a)" for a i
    using ok(2) unfolding index_ok_def holds_account_session by blast
  moreover have "om_find (sm_name_sessions (w_manager w)) m = Some i \<longleftrightarrow>
      (\<exists>s. w_sessions w i = Some s \<and> gs_is_login s \<and> ss_user_name s = m \<and> m \<noteq> [])" for m i
    using ok(2) by (auto simp: index_ok_def profiles_def)
  ultimately show ?thesis by blast
qed

theorem one_session_per_account_witness:
  "reachable 5 one_session \<and>
   set (lg_login_list (w_login one_session)) = {ss_account_idx s |i s. w_sessions one_session i = Some s \<and> gs_is_login s}"
  using one_session_per_account [of 5 one_session] one_session_reachable by simp

text \<open>C7: rooms and sessions agree.  In every reachable state a room holds an account with a session exactly
  if that session is logged in to the account and believes to be in that room; every session is in no
  room or in one of the ten, and only logged-in sessions are in a room.  In particular nobody is left
  behind in a room by a logout or a lost connection.\<close>

theorem rooms_match_sessions:
  assumes "0 \<le> n" "reachable n w"
  shows "(\<forall>r a i. occupant (w_rooms w) r a = Some i \<longleftrightarrow>
       (\<exists>s. w_sessions w i = Some s \<and> gs_is_login s \<and> ss_account_idx s = a \<and> ss_enter_room_id s = r \<and> 0 \<le> r)) \<and>
    (\<forall>i s. w_sessions w i = Some s \<longrightarrow> ss_enter_room_id s = - 1 \<or>
       gs_is_login s \<and> 0 \<le> ss_enter_room_id s \<and> ss_enter_room_id s < 10)"
proof -
  have inv: "world_inv None w" by (rule server_reachable_inv [OF assms(2,1)])
  have rm: "rooms_ok (profiles w) (w_rooms w)" using world_tables [OF inv] by (simp add: tables_inv_def)
  have occ: "occupant (w_rooms w) r a = Some i \<longleftrightarrow>
      (\<exists>s. w_sessions w i = Some s \<and> gs_is_login s \<and> ss_account_idx s = a \<and> ss_enter_room_id s = r \<and> 0 \<le> r)" for r a i
    using rooms_okD [OF rm, of r a i] by (auto simp: profiles_def)
  have "gs_is_login s \<and> 0 \<le> ss_enter_room_id s \<and> ss_enter_room_id s < 10"
    if s: "w_sessions w i = Some s" "ss_enter_room_id s \<noteq> - 1" for i s
  proof -
    have p: "gs_is_login s" "0 \<le> ss_enter_room_id s"
      using world_profile [OF inv s(1)] s(2) by (auto simp: profile_ok_def split: if_splits)
    then have "occupant (w_rooms w) (ss_enter_room_id s) (ss_account_idx s) = Some i" using occ s(1) by blast
    then have "ss_enter_room_id s \<in> dom (om_find (rmg_room_list (w_rooms w)))"
      by (auto simp: occupant_def split: option.splits)
    with p rm show ?thesis by (simp add: rooms_ok_def rooms_inv_def)
  qed
  with occ show ?thesis by blast
qed

theorem rooms_match_sessions_witness:
  "reachable 5 one_session \<and> w_sessions one_session 3 = Some (GameSession_new True) \<and>
   (\<forall>r a i. occupant (w_rooms one_session) r a = Some i \<longleftrightarrow>
     (\<exists>s. w_sessions one_session i = Some s \<and> gs_is_login s \<and> ss_account_idx s = a \<and> ss_enter_room_id s = r \<and> 0 \<le> r))"
  using rooms_match_sessions [of 5 one_session] one_session_reachable by (simp add: one_session_def)



section \<open>Chat\<close>

text \<open>The sending loop over different sessions: each addressee gets the buffer, nobody else changes.\<close>

definition sent_to :: "(sid \<Rightarrow> io_env) \<Rightarrow> SendBuffer \<Rightarrow> sid set \<Rightarrow> world \<Rightarrow> world" where
  "sent_to io sb T w = w\<lparr>w_sessions := \<lambda>i. if i \<in> T then Option.bind (w_sessions w i) (send (io i) sb) else w_sessions w i\<rparr>"

lemma sent_to_insert:
  assumes "i \<notin> T" "w_sessions w i = Some s" "send (io i) sb s = Some s'"
  shows "sent_to io sb T (w\<lparr>w_sessions := (w_sessions w)(i \<mapsto> s')\<rparr>) = sent_to io sb (insert i T) w"
proof (rule world.equality)
  show "w_sessions (sent_to io sb T (w\<lparr>w_sessions := (w_sessions w)(i \<mapsto> s')\<rparr>)) = w_sessions (sent_to io sb (insert i T) w)"
    by (rule ext) (use assms in \<open>auto simp: sent_to_def\<close>)
qed (simp_all add: sent_to_def)

lemma send_all_exact:
  assumes "send_all io skip sb is k w = Some (n, w')" "distinct is"
  defines "T \<equiv> {i \<in> set is. \<exists>s. w_sessions w i = Some s \<and> \<not> skip s}"
  shows "n = k + int (card T) \<and> w' = sent_to io sb T w"
  using assms(1,2) unfolding T_def
proof (induction "is" arbitrary: k w)
  case Nil
  then show ?case by (simp add: sent_to_def)
next
  case (Cons i "is")
  then obtain s where s: "w_sessions w i = Some s" by (auto split: option.splits)
  let ?T = "\<lambda>w is. {j \<in> set is. \<exists>s. w_sessions w j = Some s \<and> \<not> skip s}"
  show ?case
  proof (cases "skip s")
    case True
    then have T: "?T w (i # is) = ?T w is" using s by auto
    have "n = k + int (card (?T w is)) \<and> w' = sent_to io sb (?T w is) w"
      using True s Cons by simp
    then show ?thesis unfolding T .
  next
    case False
    obtain s1 where s1: "send (io i) sb s = Some s1"
      using Cons.prems(1) s False by (auto simp: with_session_def bind_eq_Some_conv)
    let ?w1 = "w\<lparr>w_sessions := (w_sessions w)(i \<mapsto> s1)\<rparr>"
    have r: "send_all io skip sb is (k + 1) ?w1 = Some (n, w')"
      using Cons.prems(1) s False s1 by (simp add: with_session_def)
    have "?T ?w1 is = ?T w is" using Cons.prems(2) by auto
    then have IH: "n = k + 1 + int (card (?T w is))" "w' = sent_to io sb (?T w is) ?w1"
      using Cons.IH [OF r] Cons.prems(2) by simp_all
    have T: "?T w (i # is) = insert i (?T w is)" using s False by auto
    moreover have "i \<notin> ?T w is" using Cons.prems(2) by simp
    ultimately have "card (?T w (i # is)) = Suc (card (?T w is))" by simp
    moreover have "sent_to io sb (?T w is) ?w1 = sent_to io sb (insert i (?T w is)) w"
      by (rule sent_to_insert [where io = io, OF _ s s1]) (use Cons.prems(2) in simp)
    ultimately show ?thesis using IH unfolding T by simp
  qed
qed

text \<open>The sessions a chat line for a room is meant for.\<close>

definition room_audience :: "world \<Rightarrow> int \<Rightarrow> sid set" where
  "room_audience w r = {i. \<exists>s. w_sessions w i = Some s \<and> ss_is_connect s \<and> ss_enter_room_id s = r}"

lemma account_sessions_distinct:
  assumes "world_inv run w"
  shows "distinct (map snd (sm_account_sessions (w_manager w)))"
    and "set (map snd (sm_account_sessions (w_manager w))) = {i. \<exists>s. w_sessions w i = Some s \<and> gs_is_login s}"
proof -
  let ?m = "sm_account_sessions (w_manager w)"
  have ix: "index_ok (profiles w) (w_manager w)" using world_tables [OF assms] by (simp add: tables_inv_def)
  then have wf: "om_wf ?m" by (simp add: index_ok_def manager_inv_def)
  have find: "(a, i) \<in> set ?m \<longleftrightarrow> (\<exists>s. w_sessions w i = Some s \<and> gs_is_login s \<and> ss_account_idx s = a)" for a i
    using ix unfolding om_find_in_set [OF wf] index_ok_def holds_account_session by blast
  have "inj_on snd (set ?m)"
    by (rule inj_onI) (metis find option.inject prod.collapse)
  moreover have "distinct ?m" using om_wf_distinct [OF wf] by (simp add: distinct_map)
  ultimately show "distinct (map snd ?m)" by (simp add: distinct_map)
  show "set (map snd ?m) = {i. \<exists>s. w_sessions w i = Some s \<and> gs_is_login s}"
    using find by (force simp: image_iff)
qed

lemma room_audience_sessions:
  assumes "world_inv run w" "0 \<le> r"
  shows "set (filter (in_room w r) (map snd (sm_account_sessions (w_manager w)))) = room_audience w r"
proof -
  have "gs_is_login s" if "w_sessions w i = Some s" "ss_enter_room_id s = r" for i s
    using world_profile [OF assms(1) that(1)] that(2) assms(2) by (auto simp: profile_ok_def split: if_splits)
  then show ?thesis
    unfolding set_filter account_sessions_distinct(2) [OF assms(1)]
    by (auto simp: room_audience_def in_room_def split: option.splits)
qed

end
