(* ===== verification/GameChat.thy ===== *)
theory GameChat
  imports GameProps
begin

text \<open>
  Who receives a chat line.  The sending loops of the session manager reach exactly the audience of
  the line, and the sender is told how many they were.
\<close>

section \<open>Audiences\<close>

text \<open>The sessions a request is meant for: those in the room, all that are in a room, or the one with
  the name.\<close>

definition chat_audience :: "server_ext \<Rightarrow> REQ_CHAT \<Rightarrow> world \<Rightarrow> sid set" where
  "chat_audience x pkt w =
     (if req_chat_chat_state pkt = CHAT_NORMAL then room_audience w (req_chat_room_id pkt)
      else if req_chat_chat_state pkt = CHAT_ALL
      then {i. \<exists>s. w_sessions w i = Some s \<and> ss_is_connect s \<and> \<not> ss_close_after_send s \<and> 0 \<le> ss_enter_room_id s}
      else {i. \<exists>s. w_sessions w i = Some s \<and> ss_is_connect s \<and> gs_is_login s \<and>
              ss_user_name s = Utf8ToWString (ext_win x) (req_chat_target_name pkt)})"

text \<open>The requests that are not refused.\<close>

definition chat_allowed :: "server_ext \<Rightarrow> REQ_CHAT \<Rightarrow> GameSession \<Rightarrow> world \<Rightarrow> bool" where
  "chat_allowed x pkt s w \<longleftrightarrow> req_chat_message pkt \<noteq> [] \<and> length (req_chat_message pkt) \<le> 256 \<and>
     (if req_chat_chat_state pkt = CHAT_NORMAL
      then 0 \<le> ss_enter_room_id s \<and> req_chat_room_id pkt = ss_enter_room_id s
      else if req_chat_chat_state pkt = CHAT_ALL then True
      else req_chat_chat_state pkt = CHAT_WHISPER \<and> req_chat_target_name pkt \<noteq> [] \<and>
        length (req_chat_target_name pkt) \<le> 32 \<and>
        is_whisper_target_find (Utf8ToWString (ext_win x) (req_chat_target_name pkt)) (w_manager w))"

lemma normal_chat_exact:
  assumes w: "world_inv run w" and sb: "sb_ok sb" and r: "0 \<le> r"
  shows "normal_chat io r sb w = Some (int (card (room_audience w r)), sent_to io sb (room_audience w r) w)"
proof -
  let ?is = "filter (in_room w r) (map snd (sm_account_sessions (w_manager w)))"
  obtain n w' where c: "normal_chat io r sb w = Some (n, w')" using chats_calmly(3) [OF w sb] by blast
  have "distinct ?is" using account_sessions_distinct(1) [OF w] by (rule distinct_filter)
  moreover have "{i \<in> set ?is. \<exists>s. w_sessions w i = Some s \<and> \<not> False} = room_audience w r"
    unfolding room_audience_sessions [OF w r] by (auto simp: room_audience_def)
  ultimately show ?thesis using send_all_exact [of io "\<lambda>_. False" sb ?is 0 w n w'] c unfolding normal_chat_def by simp
qed

lemma all_chat_exact:
  assumes w: "world_inv run w" and sb: "sb_ok sb"
  defines "T \<equiv> {i. \<exists>s. w_sessions w i = Some s \<and> ss_is_connect s \<and> \<not> ss_close_after_send s \<and> 0 \<le> ss_enter_room_id s}"
  shows "all_chat io sb w = Some (int (card T), sent_to io sb T w)"
proof -
  let ?is = "sm_sessions (w_manager w)" and ?skip = "\<lambda>s. \<not> ss_is_connect s \<or> ss_enter_room_id s < 0"
  obtain n w' where c: "all_chat io sb w = Some (n, w')" using chats_calmly(1) [OF w sb] by blast
  have ok: "members_ok (profiles w) (w_manager w)" "manager_inv (w_manager w)"
    using world_tables [OF w] by (simp_all add: tables_inv_def index_ok_def)
  then have "distinct ?is" by (simp add: manager_inv_def strict_sorted_iff)
  moreover have "{i \<in> set ?is. \<exists>s. w_sessions w i = Some s \<and> \<not> ?skip s} = T"
  proof -
    have "pf_was (profile_of s) \<and> \<not> pf_done (profile_of s)"
      if "w_sessions w i = Some s" "0 \<le> ss_enter_room_id s" for i s
      using world_profile [OF w that(1)] that(2) by (auto simp: profile_ok_def split: if_splits)
    then show ?thesis using ok(1) by (fastforce simp: members_ok_def profiles_def T_def)
  qed
  ultimately show ?thesis using send_all_exact [of io ?skip sb ?is 0 w n w'] c unfolding all_chat_def by simp
qed

lemma whisper_chat_exact:
  assumes w: "world_inv run w" and sb: "sb_ok sb" and name: "is_whisper_target_find name (w_manager w)"
  defines "T \<equiv> {i. \<exists>s. w_sessions w i = Some s \<and> ss_is_connect s \<and> gs_is_login s \<and> ss_user_name s = name}"
  shows "whisper_chat io name sb w = Some (int (card T), sent_to io sb T w)"
proof -
  have ix: "index_ok (profiles w) (w_manager w)" using world_tables [OF w] by (simp add: tables_inv_def)
  have find: "om_find (sm_name_sessions (w_manager w)) name = Some i \<longleftrightarrow>
      (\<exists>s. w_sessions w i = Some s \<and> gs_is_login s \<and> ss_user_name s = name \<and> name \<noteq> [])" for i
    using ix by (auto simp: index_ok_def profiles_def)
  obtain i where i: "om_find (sm_name_sessions (w_manager w)) name = Some i"
    using name by (auto simp: is_whisper_target_find_def)
  then obtain s where s: "w_sessions w i = Some s" "gs_is_login s" "ss_user_name s = name" "name \<noteq> []" using find by blast
  have T: "T = (if ss_is_connect s then {i} else {})"
    using s find i unfolding T_def by (auto simp: set_eq_iff) (metis find option.inject)+
  show ?thesis
  proof (cases "ss_is_connect s")
    case True
    obtain s' where s': "send (io i) sb s = Some s'"
      using send_inv [OF sessions_okD [OF world_sessions [OF w] s(1)] _ sb, of "io i"] by auto
    have "w\<lparr>w_sessions := (w_sessions w)(i \<mapsto> s')\<rparr> = sent_to io sb {i} w"
      by (rule world.equality) (use s(1) s' in \<open>auto simp: sent_to_def fun_eq_iff\<close>)
    with True i s(1) s' T show ?thesis by (simp add: whisper_chat_def with_session_def)
  next
    case False
    have "sent_to io sb {} w = w" by (simp add: sent_to_def)
    with False i s(1) T show ?thesis by (simp add: whisper_chat_def)
  qed
qed

section \<open>Chat requests\<close>

lemma job_started_inv: "sess_inv io 0 s \<Longrightarrow> sess_inv io 1 (s\<lparr>ss_pending_jobs := ss_pending_jobs s + 1\<rparr>)"
  by (simp add: sess_inv_def sess_base_def send_ok_def recv_ok_def owners_def)

text \<open>A connected session whose job is running, and one that is in a room.\<close>

lemma job_world_exists:
  "\<exists>w s. world_inv (Some 3) w \<and> w_sessions w 3 = Some s \<and> \<not> gs_is_login s \<and> ss_is_connect s \<and>
     ss_enter_room_id s = - 1 \<and> w_login w = Login_new \<and> w_rooms w = RoomManager_new"
proof -
  have w0: "world_inv None one_session" by (rule server_reachable_inv [OF one_session_reachable]) simp
  have s0: "w_sessions one_session 3 = Some (GameSession_new True)" by (simp add: one_session_def)
  obtain w1 where w1: "accept_connection ref_ext 3 one_session = Some w1" "world_inv None w1"
    using ref_ext.accept_world [OF w0 s0 new_unconnected] by blast
  have fields: "w_sessions w1 = [3 \<mapsto> new_connection]" "w_login w1 = Login_new" "w_rooms w1 = RoomManager_new"
    using w1(1) by (auto simp: accept_connection_def add_session_def one_session_def world_new_def
        SessionManager_new_def with_session_def process_connect_new)
  let ?s1 = new_connection
  let ?s2 = "?s1\<lparr>ss_pending_jobs := ss_pending_jobs ?s1 + 1\<rparr>"
  let ?w2 = "w1\<lparr>w_sessions := [3 \<mapsto> ?s2]\<rparr>"
  have "sess_inv 0 0 ?s1" using sessions_okD [OF world_sessions [OF w1(2)]] fields(1) by simp
  then have s2: "sess_inv 0 1 ?s2" by (rule job_started_inv)
  have "profiles ?w2 = profiles w1" using fields(1) by (simp add: fun_eq_iff profiles_def)
  moreover have "sessions_ok (Some 3) ?w2" using s2 by (simp add: sessions_ok_def)
  ultimately have "world_inv (Some 3) ?w2" using w1(2) by (simp add: world_inv_def)
  with fields show ?thesis by (intro exI [of _ ?w2] exI [of _ ?s2]) simp
qed

lemma chat_world_exists:
  "\<exists>w s. world_inv (Some 3) w \<and> w_sessions w 3 = Some s \<and> gs_is_login s \<and> ss_is_connect s \<and>
     ss_enter_room_id s = 2 \<and> ss_user_name s = [97]"
proof -
  obtain w2 s2 where w2: "world_inv (Some 3) w2" "w_sessions w2 3 = Some s2" "\<not> gs_is_login s2" "ss_is_connect s2"
    and f2: "ss_enter_room_id s2 = - 1" "w_login w2 = Login_new" "w_rooms w2 = RoomManager_new"
    using job_world_exists by blast
  obtain lg where c: "create_account ''a'' ''p'' [97] 0 Login_new = (LOGIN_SUCCESS, 1, lg)"
    by (simp add: create_account_def Login_new_def Let_def)
  have "grants 1 [97] (w_login w2) lg"
    using create_grants [OF login_inv_new _ _ _ c] by (simp add: f2 names_short_def) (simp add: Login_new_def)
  then obtain w3 where w3: "register_login 3 1 [97] (w2\<lparr>w_login := lg\<rparr>) = Some w3" "world_inv (Some 3) w3"
    using register_login_world [OF w2] by blast
  let ?s3 = "s2\<lparr>gs_is_login := True, ss_account_idx := 1, ss_user_name := [97]\<rparr>"
  have f3: "w_sessions w3 3 = Some ?s3" "w_rooms w3 = RoomManager_new"
    using w3(1) w2(2) f2(3) by (auto simp: register_login_def with_session_def Let_def split: if_splits)
  have r3: "ss_enter_room_id ?s3 = - 1" using f2(1) by simp
  have "fst (enter_room 2 1 (Some 3) RoomManager_new)"
    using enter_room_ok [of 2 1 3 RoomManager_new] rooms_inv_new
    by (simp add: RoomManager_new_def create_room_def upto.simps om_emplace_def Room_new_def)
  then obtain rm where "enter_room 2 (ss_account_idx ?s3) (Some 3) (w_rooms w3) = (True, rm)"
    by (cases "enter_room 2 1 (Some 3) RoomManager_new") (simp add: f3)
  from enter_world(3) [OF w3(2) f3(1) _ _ this] r3
  have "world_inv (Some 3) (w3\<lparr>w_rooms := rm, w_sessions := (w_sessions w3)(3 \<mapsto> ?s3\<lparr>ss_enter_room_id := 2\<rparr>)\<rparr>)" by simp
  then show ?thesis
    by (intro exI [of _ "w3\<lparr>w_rooms := rm, w_sessions := (w_sessions w3)(3 \<mapsto> ?s3\<lparr>ss_enter_room_id := 2\<rparr>)\<rparr>"]
        exI [of _ "?s3\<lparr>ss_enter_room_id := 2\<rparr>"]) (simp add: w2(4))
qed

lemma send_chat_buffer_made:
  assumes "server_runtime x" "world_inv run w" "w_sessions w i = Some s" "length (req_chat_message pkt) \<le> 256"
  obtains sb where "send_chat_buffer x s pkt = Some sb" "sb_ok sb"
proof -
  have "ack_short (P_ACK_SEND_CHAT (ACK_SEND_CHAT_new\<lparr>ack_send_chat_user_name := WStringToUtf8 (ext_win x) (ss_user_name s),
      ack_send_chat_message := req_chat_message pkt\<rparr>))"
    using assms(4) server_runtime.name_le [OF assms(1) world_name [OF assms(2,3)]] by (simp add: ack_new_defs)
  then show ?thesis
    using that server_runtime.make_ack_made [OF assms(1)] unfolding send_chat_buffer_def by blast
qed





end
