(* ===== verification/GameLife.thy ===== *)
theory GameLife
  imports GameChat
begin

text \<open>
  The life of a connection on the server: from the bytes of the client to the queued requests, logging
  in, the heartbeat, the server that is full, the end of the connection and the shutdown.
\<close>

section \<open>From the client's requests to the server's jobs\<close>

text \<open>The buffers of the client's requests, one after the other.\<close>

definition request_stream :: "pb_lib \<Rightarrow> (nat \<Rightarrow> nat) \<Rightarrow> req_packet list \<Rightarrow> byte list option" where
  "request_stream L room rs =
     (if list_all (\<lambda>r. make_req L room r \<noteq> None) rs
      then Some (concat (map (\<lambda>r. sb_data (the (make_req L room r))) rs)) else None)"

lemma map_filter_Some: "list_all (\<lambda>x. f (g x) = Some x) xs \<Longrightarrow> List.map_filter f (map g xs) = xs"
  by (induction xs) (simp_all add: map_filter_simps)



section \<open>Outgoing bytes\<close>

lemma sess_run_total:
  assumes "\<forall>(env, op) \<in> set ops. op_ok op \<and> op \<noteq> Op_job" "sess_inv 0 0 s"
  shows "\<exists>s' acc' conf'. sess_run (GameSession_on_recv_packet L) ops s acc conf = Some (s', acc', conf')"
  using assms
proof (induction ops arbitrary: s acc conf)
  case (Cons eo ops)
  obtain env op where eo: "eo = (env, op)" by fastforce
  have ok: "op_ok op" "op \<noteq> Op_job" using Cons.prems(1) eo by auto
  obtain s1 where s1: "sess_step (GameSession_on_recv_packet L) env op s = Some s1" "sess_inv 0 0 s1"
    using gs.sess_step_other [OF Cons.prems(2) ok] by blast
  have "\<exists>s' acc' conf'. sess_run (GameSession_on_recv_packet L) ops s1 (acc @ newly_accepted op s) (conf @ newly_confirmed op s)
      = Some (s', acc', conf')"
    by (rule Cons.IH) (use Cons.prems(1) s1(2) in simp_all)
  with eo s1(1) show ?case by simp
qed simp

text \<open>C12: outgoing bytes.  Whatever a connection goes through - sends, partial or failed completions, received
  bytes, disconnects, a shutdown - the bytes confirmed as sent are a prefix of the bytes of the buffers
  accepted by \<open>send\<close>, in the order of the calls; and while it is connected what is missing is exactly
  what it still holds.  No byte is lost, repeated or reordered.\<close>

theorem outgoing_bytes_in_order:
  assumes "\<forall>(env, op) \<in> set ops. op_ok op \<and> op \<noteq> Op_job" "sess_inv 0 0 s" "send_stream s = []"
  shows "\<exists>s' acc conf rest. sess_run (GameSession_on_recv_packet L) ops s [] [] = Some (s', acc, conf) \<and>
    acc = conf @ rest \<and> (ss_is_connect s' \<longrightarrow> rest = send_stream s')"
proof -
  obtain s' acc conf where r: "sess_run (GameSession_on_recv_packet L) ops s [] [] = Some (s', acc, conf)"
    using sess_run_total [OF assms(1,2)] by blast
  have "\<forall>(env, op) \<in> set ops. op_ok op" using assms(1) by auto
  from gs.run_stream [OF r this assms(2), of "[]"] assms(3) r show ?thesis by auto
qed

theorem outgoing_bytes_in_order_witness:
  "\<exists>s' acc conf rest. sess_run (GameSession_on_recv_packet ref_lib)
     [(ext_io ref_ext 0 0, Op_send (packed 1001 [8, 1])), (ext_io ref_ext 0 0, Op_sent True 4)] new_connection [] []
     = Some (s', acc, conf) \<and> acc = conf @ rest"
proof -
  let ?ops = "[(ext_io ref_ext 0 0, Op_send (packed 1001 [8, 1])), (ext_io ref_ext 0 0, Op_sent True 4)]"
  have ok: "\<forall>(env, op) \<in> set ?ops. op_ok op \<and> op \<noteq> Op_job"
    by (simp add: op_ok_def int32_range_def HEADER_SIZE_def)
  have "send_stream new_connection = []"
    by (simp add: send_stream_def new_connection_def new_session_defs SendEvent_new_def se_pending_def)
  from outgoing_bytes_in_order [OF ok new_connection_inv this] show ?thesis by blast
qed

section \<open>The end of a connection\<close>



text \<open>A cleaned-up session is in no table.\<close>

lemma done_released:
  assumes w: "world_inv run w" "w_sessions w i = Some s" "ss_cleanup_done s" "\<not> gs_is_login s"
  shows "i \<notin> set (sm_sessions (w_manager w))" "om_find (sm_account_sessions (w_manager w)) a \<noteq> Some i"
    "om_find (sm_name_sessions (w_manager w)) m \<noteq> Some i" "occupant (w_rooms w) r a \<noteq> Some i"
proof -
  have ok: "index_ok (profiles w) (w_manager w)" "members_ok (profiles w) (w_manager w)" "rooms_ok (profiles w) (w_rooms w)"
    using world_tables [OF w(1)] by (simp_all add: tables_inv_def)
  note p = profiles_Some [OF w(2)]
  show "i \<notin> set (sm_sessions (w_manager w))" using ok(2) p w(3) by (simp add: members_ok_def)
  show "om_find (sm_account_sessions (w_manager w)) a \<noteq> Some i"
    using ok(1) p w(4) by (simp add: index_ok_def holds_account_def)
  show "om_find (sm_name_sessions (w_manager w)) m \<noteq> Some i" using ok(1) p w(4) by (simp add: index_ok_def)
  show "occupant (w_rooms w) r a \<noteq> Some i" using rooms_okD [OF ok(3)] p w(4) by simp
qed

text \<open>C13: a lost connection leaves nothing behind.  When the cleanup job of a session has run, the session is
  in none of the tables of the session manager and in no room, and the account it was logged in to is
  free again, so that the next login with it is not refused as already logged in.\<close>

theorem cleanup_releases_everything:
  assumes "0 \<le> n" "reachable n w" "within_limits w" "w_sessions w i = Some s" "ss_logic_queue s = Cleanup # jobs"
  shows "\<exists>v. execute_job x i w = Some v \<and> i \<notin> set (sm_sessions (w_manager v)) \<and>
    (\<forall>a. om_find (sm_account_sessions (w_manager v)) a \<noteq> Some i) \<and>
    (\<forall>m. om_find (sm_name_sessions (w_manager v)) m \<noteq> Some i) \<and> (\<forall>r a. occupant (w_rooms v) r a \<noteq> Some i) \<and>
    (gs_is_login s \<longrightarrow> ss_account_idx s \<notin> set (lg_login_list (w_login v)))"
proof -
  have w: "world_inv None w" by (rule server_reachable_inv [OF assms(2,1)])
  have pop: "logic_pop s = Some (Cleanup, s\<lparr>ss_logic_queue := jobs\<rparr>)" using assms(5) by (simp add: logic_pop_def)
  have "length (ss_logic_queue s) < 2 ^ 32 - 1" using assms(3,4) by (auto simp: within_limits_def)
  from execute_cleanup [OF w assms(4) pop this] obtain v where v: "execute_job x i w = Some v" "world_inv None v"
    "profiles v = (profiles w)(i \<mapsto> (logged_out ((profile_of s)\<lparr>pf_room := - 1\<rparr>))\<lparr>pf_done := True\<rparr>)" by blast
  then have "profiles v i = Some ((logged_out ((profile_of s)\<lparr>pf_room := - 1\<rparr>))\<lparr>pf_done := True\<rparr>)" by simp
  then obtain t where t: "w_sessions v i = Some t"
    "profile_of t = (logged_out ((profile_of s)\<lparr>pf_room := - 1\<rparr>))\<lparr>pf_done := True\<rparr>" by (auto simp: profiles_def)
  have off: "ss_cleanup_done t" "\<not> gs_is_login t"
    using arg_cong [OF t(2), of pf_done] arg_cong [OF t(2), of pf_login] by simp_all
  have "ss_account_idx s \<notin> set (lg_login_list (w_login v))" if "gs_is_login s"
  proof -
    have ok: "login_ok (profiles w) (w_login w)" "login_ok (profiles v) (w_login v)"
      using world_tables [OF w] world_tables [OF v(2)] by (simp_all add: tables_inv_def)
    have "\<not> holds_account (profiles v) j (ss_account_idx s)" for j
      using holders_unique [OF ok(1), of j "ss_account_idx s" i] that profiles_Some [OF assms(4)]
      by (cases "j = i") (auto simp: v(3) holds_account_update, auto simp: holds_account_def)
    with ok(2) show ?thesis by (simp add: login_ok_def)
  qed
  with v(1) done_released [OF v(2) t(1) off] show ?thesis by blast
qed

text \<open>A session that is shut down before it was connected.\<close>

definition one_shutdown :: world where
  "one_shutdown = one_session\<lparr>w_sessions := [3 \<mapsto> begin_shutdown (GameSession_new True)]\<rparr>"

lemma one_shutdown_reachable: "reachable 5 one_shutdown" "within_limits one_shutdown"
proof -
  have "server_step ref_ext (Ev_shutdown 3) one_session = Some one_shutdown"
    by (simp add: one_shutdown_def one_session_def with_session_def)
  from reachable.step [OF one_session_reachable one_session_limits ref_ext.server_runtime_axioms this]
  show "reachable 5 one_shutdown" .
  show "within_limits one_shutdown"
    by (simp add: one_shutdown_def one_session_def within_limits_def world_new_def Login_new_def new_session_defs
        begin_shutdown_def process_disconnect_def queue_logic_def)
qed

theorem cleanup_releases_everything_witness:
  "reachable 5 one_shutdown \<and> within_limits one_shutdown \<and>
   (\<exists>v. execute_job ref_ext 3 one_shutdown = Some v \<and> 3 \<notin> set (sm_sessions (w_manager v)))"
proof -
  have "w_sessions one_shutdown 3 = Some (begin_shutdown (GameSession_new True))"
    "ss_logic_queue (begin_shutdown (GameSession_new True)) = Cleanup # []"
    by (simp_all add: one_shutdown_def new_session_defs begin_shutdown_def process_disconnect_def queue_logic_def)
  from cleanup_releases_everything [OF _ one_shutdown_reachable this, of ref_ext] one_shutdown_reachable
  show ?thesis by auto
qed

end
