(* ===== verification/ConfigFiles.thy ===== *)
theory ConfigFiles
  imports GameRuntime
begin

text \<open>
  The configuration of the two programs: \<^verbatim>\<open>ServerCore/Utils/ConfigReader.cpp\<close> with the checks at the start
  of \<open>main\<close> in \<^verbatim>\<open>GameServer/Main/GameServer.cpp\<close>, and \<^verbatim>\<open>TestClient/Utils/ConfigReader.cpp\<close> with
  \<^verbatim>\<open>TestClient/Utils/ClientConfig.h\<close>.  A file is its text as the stream delivers it; \<open>None\<close> is a file that
  cannot be opened.  The methods of \<open>std::string\<close> and \<open>std::stoi\<close> are modelled as the standard
  describes them.  An exit code of \<open>main\<close> is \<open>Inl\<close>.
\<close>

section \<open>The standard library\<close>

abbreviation newline :: char where "newline \<equiv> CHR 0x0A"

definition whitespace :: "char list" where
  "whitespace = [CHR 0x20, CHR 0x09, CHR 0x0D, newline]"

definition find_first_not_of :: "char list \<Rightarrow> string \<Rightarrow> nat option" where
  "find_first_not_of cs s = find (\<lambda>i. s ! i \<notin> set cs) [0..<length s]"

definition find_last_not_of :: "char list \<Rightarrow> string \<Rightarrow> nat option" where
  "find_last_not_of cs s = find (\<lambda>i. s ! i \<notin> set cs) (rev [0..<length s])"

definition find_char :: "'a \<Rightarrow> 'a list \<Rightarrow> nat option" where
  "find_char c s = find (\<lambda>i. s ! i = c) [0..<length s]"

definition substr :: "nat \<Rightarrow> nat \<Rightarrow> 'a list \<Rightarrow> 'a list" where
  "substr pos n s = take n (drop pos s)"

text \<open>The lines that repeated calls of \<open>getline\<close> deliver.\<close>

function getlines :: "string \<Rightarrow> string list" where
  "getlines cs =
     (if cs = [] then []
      else takeWhile (\<lambda>c. c \<noteq> newline) cs # getlines (tl (dropWhile (\<lambda>c. c \<noteq> newline) cs)))"
  by pat_completeness auto
termination
proof (relation "measure length")
  fix cs :: string
  assume "cs \<noteq> []"
  moreover have "length (dropWhile (\<lambda>c. c \<noteq> newline) cs) \<le> length cs" by (rule length_dropWhile_le)
  ultimately show "(tl (dropWhile (\<lambda>c. c \<noteq> newline) cs), cs) \<in> measure length"
    by (cases cs) (auto simp: less_Suc_eq_le)
qed simp

declare getlines.simps [simp del]

definition is_space :: "nat \<Rightarrow> bool" where
  "is_space c \<longleftrightarrow> c = 32 \<or> 9 \<le> c \<and> c \<le> 13"

definition is_digit :: "nat \<Rightarrow> bool" where
  "is_digit c \<longleftrightarrow> 48 \<le> c \<and> c \<le> 57"

definition digits_value :: "nat list \<Rightarrow> nat" where
  "digits_value ds = foldl (\<lambda>n c. 10 * n + (c - 48)) 0 ds"

text \<open>\<open>stoi\<close> on the character codes: the number at the start of the string and the index behind it; \<open>None\<close> is
  one of the two exceptions, no digits or not an \<open>int\<close>.\<close>

definition stoi :: "nat list \<Rightarrow> (int \<times> nat) option" where
  "stoi s =
     (let blank = length (takeWhile is_space s);
          r = drop blank s;
          sign = (if r \<noteq> [] \<and> (hd r = 43 \<or> hd r = 45) then 1 else 0);
          ds = takeWhile is_digit (drop sign r);
          n = (if sign = 1 \<and> hd r = 45 then - int (digits_value ds) else int (digits_value ds)) in
      if ds = [] \<or> \<not> int32_range n then None else Some (n, blank + sign + length ds))"

abbreviation codes :: "string \<Rightarrow> nat list" where
  "codes s \<equiv> map of_char s"

section \<open>Reading a file\<close>

type_synonym sections = "string \<rightharpoonup> (string \<rightharpoonup> string)"

definition server_trim :: "string \<Rightarrow> string" where
  "server_trim v =
     (case find_first_not_of whitespace v of
        None \<Rightarrow> []
      | Some start \<Rightarrow>
          let last = the (find_last_not_of whitespace v) in
          substr start (last - start + 1) v)"

definition client_trim :: "string \<Rightarrow> string" where
  "client_trim v =
     (case find_first_not_of whitespace v of
        None \<Rightarrow> []
      | Some start \<Rightarrow>
          let start = (if length v \<ge> start + 3 \<and> v ! start = CHR 0xEF \<and> v ! (start + 1) = CHR 0xBB \<and>
                          v ! (start + 2) = CHR 0xBF then start + 3 else start);
              last = the (find_last_not_of whitespace v) in
          if start > last then [] else substr start (last - start + 1) v)"

text \<open>One round of the loop of \<open>load\<close>, which the two programs share but for \<open>trim\<close>.\<close>

definition load_line :: "(string \<Rightarrow> string) \<Rightarrow> string \<Rightarrow> string \<times> sections \<Rightarrow> string \<times> sections" where
  "load_line trim line st =
     (let (current_section, sections) = st; line = trim line in
      if line = [] then st
      else if hd line = CHR ''#'' \<or> hd line = CHR '';'' then st
      else if hd line = CHR ''['' \<and> last line = CHR '']''
      then (trim (substr 1 (length line - 2) line), sections)
      else case find_char (CHR ''='') line of
        None \<Rightarrow> st
      | Some equal_pos \<Rightarrow>
          let key = trim (substr 0 equal_pos line);
              val = trim (drop (equal_pos + 1) line) in
          if current_section = [] \<or> key = [] then st
          else (current_section,
                sections(current_section \<mapsto>
                  (case sections current_section of None \<Rightarrow> Map.empty | Some m \<Rightarrow> m)(key \<mapsto> val))))"

definition server_load :: "string option \<Rightarrow> sections option" where
  "server_load file = map_option (\<lambda>text. snd (fold (load_line server_trim) (getlines text) ([], Map.empty))) file"

definition client_load :: "string option \<Rightarrow> sections option" where
  "client_load file = map_option (\<lambda>text. snd (fold (load_line client_trim) (getlines text) ([], Map.empty))) file"

definition get_string :: "sections \<Rightarrow> string \<Rightarrow> string \<Rightarrow> string \<Rightarrow> string" where
  "get_string cfg section key default_value =
     (case cfg section of
        None \<Rightarrow> default_value
      | Some entries \<Rightarrow> (case entries key of None \<Rightarrow> default_value | Some v \<Rightarrow> v))"

definition get_wstring :: "win_lib \<Rightarrow> sections \<Rightarrow> string \<Rightarrow> string \<Rightarrow> wstring \<Rightarrow> wstring" where
  "get_wstring W cfg section key default_value =
     (let v = get_string cfg section key [] in
      if v = [] then default_value else Utf8ToWString W (map (\<lambda>c. word_of_nat (of_char c)) v))"

definition get_int :: "sections \<Rightarrow> string \<Rightarrow> string \<Rightarrow> int \<Rightarrow> int" where
  "get_int cfg section key default_value =
     (let v = get_string cfg section key [] in
      if v = [] then default_value
      else case stoi (codes v) of None \<Rightarrow> default_value | Some (n, _) \<Rightarrow> n)"

section \<open>Settings of the server\<close>

record server_settings =
  srv_ip :: wstring
  srv_port :: uint16
  srv_session_max_count :: int
  srv_worker_thread_count :: int

definition server_main_settings :: "win_lib \<Rightarrow> string option \<Rightarrow> int + server_settings" where
  "server_main_settings W file =
     (case server_load file of
        None \<Rightarrow> Inl 1
      | Some cfg \<Rightarrow>
          let server_ip = get_wstring W cfg ''server'' ''ip'' [];
              port_value = (word_of_int (get_int cfg ''server'' ''port'' 0) :: uint16);
              session_max_count = get_int cfg ''server'' ''session_max_count'' 0;
              worker_thread_count = get_int cfg ''server'' ''work_thread_count'' 0 in
          if uint port_value \<le> 0 \<or> uint port_value > 65535 then Inl 0
          else if session_max_count \<le> 0 then Inl 0
          else if worker_thread_count \<le> 0 then Inl 0
          else Inr \<lparr>srv_ip = server_ip, srv_port = port_value, srv_session_max_count = session_max_count,
                    srv_worker_thread_count = worker_thread_count\<rparr>)"

section \<open>Settings of the client\<close>

text \<open>The result and the reference parameter \<open>value\<close>.\<close>

definition get_int_checked :: "sections \<Rightarrow> string \<Rightarrow> string \<Rightarrow> int \<Rightarrow> bool \<times> int" where
  "get_int_checked cfg section key default_value =
     (case cfg section of
        None \<Rightarrow> (True, default_value)
      | Some entries \<Rightarrow>
          (case entries key of
             None \<Rightarrow> (True, default_value)
           | Some v \<Rightarrow>
               (case stoi (codes v) of
                  None \<Rightarrow> (False, default_value)
                | Some (parsed, end) \<Rightarrow> if end \<noteq> length v then (False, default_value) else (True, parsed))))"

definition client_get_int :: "sections \<Rightarrow> string \<Rightarrow> string \<Rightarrow> int \<Rightarrow> int" where
  "client_get_int cfg section key default_value =
     (let (ok, v) = get_int_checked cfg section key default_value in if ok then v else default_value)"

definition read_range :: "sections \<Rightarrow> string \<Rightarrow> string \<Rightarrow> int \<Rightarrow> int \<Rightarrow> int \<Rightarrow> int option" where
  "read_range cfg section key minimum maximum default_value =
     (let (ok, v) = get_int_checked cfg section key default_value in
      if \<not> ok \<or> v < minimum \<or> v > maximum then None else Some v)"

record ClientConfig =
  cc_server_ip :: wstring
  cc_port :: uint16
  cc_session_count :: int
  cc_worker_thread_count :: int
  cc_bot_thread_count :: int
  cc_chat_interval_ms :: int
  cc_bot_room_count :: int
  cc_all_chat_interval :: int
  cc_whisper_interval :: int

definition ClientConfig_load :: "win_lib \<Rightarrow> sections \<Rightarrow> bool \<Rightarrow> ClientConfig option" where
  "ClientConfig_load W cfg load_test =
     (let server_ip = get_wstring W cfg ''server'' ''ip'' [] in
      if server_ip = [] then None
      else Option.bind (read_range cfg ''server'' ''port'' 1 65535 0) (\<lambda>port_value.
        let c = \<lparr>cc_server_ip = server_ip, cc_port = word_of_int port_value, cc_session_count = 0,
              cc_worker_thread_count = 0, cc_bot_thread_count = 0, cc_chat_interval_ms = 0, cc_bot_room_count = 0,
              cc_all_chat_interval = 0, cc_whisper_interval = 0\<rparr> in
        if \<not> load_test then Some c
        else Option.bind (read_range cfg ''client'' ''session_count'' 1 100000 0) (\<lambda>session_count.
          Option.bind (read_range cfg ''client'' ''worker_thread_count'' 1 256 0) (\<lambda>worker_thread_count.
          Option.bind (read_range cfg ''client'' ''bot_thread_count'' 1 256 0) (\<lambda>bot_thread_count.
          Option.bind (read_range cfg ''client'' ''chat_interval_ms'' 1 60000 0) (\<lambda>chat_interval_ms.
          Option.bind (read_range cfg ''client'' ''bot_room_count'' 1 256 10) (\<lambda>bot_room_count.
          Option.bind (read_range cfg ''client'' ''all_chat_interval'' 1 2147483647 10) (\<lambda>all_chat_interval.
          map_option (\<lambda>whisper_interval. c\<lparr>cc_session_count := session_count,
              cc_worker_thread_count := worker_thread_count, cc_bot_thread_count := bot_thread_count,
              cc_chat_interval_ms := chat_interval_ms, cc_bot_room_count := bot_room_count,
              cc_all_chat_interval := all_chat_interval, cc_whisper_interval := whisper_interval\<rparr>)
            (read_range cfg ''client'' ''whisper_interval'' 1 2147483647 15)))))))))"

section \<open>Written files\<close>

text \<open>A file as one writes it: sections with their entries, and the assignments in it.\<close>

type_synonym ini = "(string \<times> (string \<times> string) list) list"

definition ini_lines :: "ini \<Rightarrow> string list" where
  "ini_lines f = concat (map (\<lambda>(section, entries).
     ([CHR ''[''] @ section @ [CHR '']'']) # map (\<lambda>(key, val). key @ [CHR ''=''] @ val) entries) f)"

definition ini_text :: "ini \<Rightarrow> string" where
  "ini_text f = concat (map (\<lambda>line. line @ [newline]) (ini_lines f))"

definition assignments :: "ini \<Rightarrow> ((string \<times> string) \<times> string) list" where
  "assignments f = concat (map (\<lambda>(section, entries). map (\<lambda>(key, val). ((section, key), val)) entries) f)"

text \<open>The value a reader should find: that of the last assignment.\<close>

definition ini_value :: "ini \<Rightarrow> string \<Rightarrow> string \<Rightarrow> string option" where
  "ini_value f section key = map_of (rev (assignments f)) (section, key)"

definition trimmed :: "string \<Rightarrow> bool" where
  "trimmed v \<longleftrightarrow> newline \<notin> set v \<and>
     (v \<noteq> [] \<longrightarrow> hd v \<notin> set whitespace \<and> hd v \<noteq> CHR 0xEF \<and> List.last v \<notin> set whitespace)"

definition ini_ok :: "ini \<Rightarrow> bool" where
  "ini_ok f \<longleftrightarrow> list_all (\<lambda>(section, entries). section \<noteq> [] \<and> trimmed section \<and>
     list_all (\<lambda>(key, val). key \<noteq> [] \<and> trimmed key \<and> trimmed val \<and> CHR ''='' \<notin> set key \<and>
       hd key \<notin> {CHR ''#'', CHR '';'', CHR ''[''}) entries) f"

section \<open>Lemmas on strings\<close>

lemma find_first_0: "v \<noteq> [] \<Longrightarrow> hd v \<notin> set cs \<Longrightarrow> find_first_not_of cs v = Some 0"
  by (simp add: find_first_not_of_def upt_conv_Cons hd_conv_nth)

lemma find_last_length: "v \<noteq> [] \<Longrightarrow> List.last v \<notin> set cs \<Longrightarrow> find_last_not_of cs v = Some (length v - 1)"
  by (cases v rule: rev_cases) (simp_all add: find_last_not_of_def)

lemma trim_trimmed:
  assumes "trimmed v"
  shows "server_trim v = v" "client_trim v = v"
proof -
  consider "v = []" | "v \<noteq> []" "find_first_not_of whitespace v = Some 0"
      "find_last_not_of whitespace v = Some (length v - 1)" "v ! 0 \<noteq> CHR 0xEF"
    using assms by (auto simp: trimmed_def find_first_0 find_last_length hd_conv_nth)
  then have "server_trim v = v \<and> client_trim v = v"
  proof cases
    case 2
    then have "0 < length v" by simp
    with 2 show ?thesis by (simp add: server_trim_def client_trim_def substr_def Let_def)
  qed (simp add: server_trim_def client_trim_def find_first_not_of_def)
  then show "server_trim v = v" "client_trim v = v" by simp_all
qed

lemma find_append: "find P (xs @ ys) = (case find P xs of None \<Rightarrow> find P ys | Some x \<Rightarrow> Some x)"
  by (induction xs) simp_all

lemma find_char_append: "c \<notin> set xs \<Longrightarrow> find_char c (xs @ c # ys) = Some (length xs)"
proof -
  assume c: "c \<notin> set xs"
  have "[0..<length (xs @ c # ys)] = [0..<length xs] @ length xs # [Suc (length xs)..<length (xs @ c # ys)]"
    using upt_add_eq_append [of 0 "length xs" "length (c # ys)"] upt_conv_Cons [of "length xs" "length (xs @ c # ys)"]
    by simp
  moreover have "find (\<lambda>i. (xs @ c # ys) ! i = c) [0..<length xs] = None"
    using c by (auto simp: find_None_iff nth_append)
  ultimately show ?thesis
    unfolding find_char_def by (simp add: find_append del: upt_Suc length_append)
qed

lemma getlines_line: "newline \<notin> set l \<Longrightarrow> getlines (l @ newline # cs) = l # getlines cs"
  by (subst getlines.simps) (simp add: takeWhile_append dropWhile_append)

lemma getlines_text: "\<forall>l \<in> set ls. newline \<notin> set l \<Longrightarrow> getlines (concat (map (\<lambda>line. line @ [newline]) ls)) = ls"
  by (induction ls) (simp_all add: getlines_line, simp add: getlines.simps)

section \<open>Reading what was written\<close>

text \<open>What a lookup in the loaded sections gives.\<close>

definition stored :: "sections \<Rightarrow> string \<times> string \<Rightarrow> string option" where
  "stored m sk = Option.bind (m (fst sk)) (\<lambda>entries. entries (snd sk))"

locale trimming =
  fixes trim :: "string \<Rightarrow> string"
  assumes trim_id: "trimmed v \<Longrightarrow> trim v = v"
begin

lemma load_section:
  assumes "section \<noteq> []" "trimmed section"
  shows "load_line trim ([CHR ''[''] @ section @ [CHR '']'']) (cur, m) = (section, m)"
proof -
  have "trimmed ([CHR ''[''] @ section @ [CHR '']''])" using assms by (simp add: trimmed_def whitespace_def)
  from trim_id [OF this] trim_id [OF assms(2)] show ?thesis
    by (simp add: load_line_def substr_def)
qed

lemma load_entry:
  assumes "section \<noteq> []" "key \<noteq> []" "trimmed key" "trimmed val" "CHR ''='' \<notin> set key"
    "hd key \<notin> {CHR ''#'', CHR '';'', CHR ''[''}"
  shows "\<exists>m'. load_line trim (key @ [CHR ''=''] @ val) (section, m) = (section, m') \<and>
    stored m' = (stored m)((section, key) \<mapsto> val)"
proof -
  have line: "trimmed (key @ [CHR ''=''] @ val)" using assms by (auto simp: trimmed_def whitespace_def)
  let ?m = "m(section \<mapsto> (case m section of None \<Rightarrow> Map.empty | Some es \<Rightarrow> es)(key \<mapsto> val))"
  have "load_line trim (key @ [CHR ''=''] @ val) (section, m) = (section, ?m)"
    using assms trim_id [OF line] trim_id [OF assms(3)] trim_id [OF assms(4)]
      find_char_append [OF assms(5), of val]
    by (simp add: load_line_def substr_def Let_def)
  moreover have "stored ?m = (stored m)((section, key) \<mapsto> val)"
    by (auto simp: stored_def fun_eq_iff split: option.split)
  ultimately show ?thesis by blast
qed

lemma load_entries:
  assumes "section \<noteq> []" "list_all (\<lambda>(key, val). key \<noteq> [] \<and> trimmed key \<and> trimmed val \<and> CHR ''='' \<notin> set key \<and>
       hd key \<notin> {CHR ''#'', CHR '';'', CHR ''[''}) entries"
  shows "\<exists>m'. fold (load_line trim) (map (\<lambda>(key, val). key @ [CHR ''=''] @ val) entries) (section, m) = (section, m') \<and>
    stored m' = stored m ++ map_of (rev (map (\<lambda>(key, val). ((section, key), val)) entries))"
  using assms(2)
proof (induction entries arbitrary: m)
  case (Cons e entries)
  obtain key val where e: "e = (key, val)" by (cases e)
  from Cons.prems e load_entry [OF assms(1), of key val m] obtain m' where m':
    "load_line trim (key @ [CHR ''=''] @ val) (section, m) = (section, m')"
    "stored m' = (stored m)((section, key) \<mapsto> val)" by auto
  from Cons.IH [of m'] Cons.prems obtain m'' where m'':
    "fold (load_line trim) (map (\<lambda>(key, val). key @ [CHR ''=''] @ val) entries) (section, m') = (section, m'')"
    "stored m'' = stored m' ++ map_of (rev (map (\<lambda>(key, val). ((section, key), val)) entries))" by auto
  have "stored m'' = stored m ++ map_of (rev (map (\<lambda>(key, val). ((section, key), val)) (e # entries)))"
    unfolding m''(2) m'(2) e by (simp add: map_add_upd)
  with m'(1) m''(1) e show ?case by auto
qed simp

lemma load_file:
  assumes "ini_ok f"
  shows "\<exists>cur' m'. fold (load_line trim) (ini_lines f) (cur, m) = (cur', m') \<and>
    stored m' = stored m ++ map_of (rev (assignments f))"
  using assms
proof (induction f arbitrary: cur m)
  case Nil
  then show ?case by (simp add: ini_lines_def assignments_def)
next
  case (Cons x f)
  obtain sec entries where x: "x = (sec, entries)" by (cases x)
  from Cons.prems x have ok: "sec \<noteq> []" "trimmed sec" "list_all (\<lambda>(key, val). key \<noteq> [] \<and> trimmed key \<and>
      trimmed val \<and> CHR ''='' \<notin> set key \<and> hd key \<notin> {CHR ''#'', CHR '';'', CHR ''[''}) entries" "ini_ok f"
    by (simp_all add: ini_ok_def)
  obtain m' where m': "fold (load_line trim) (map (\<lambda>(key, val). key @ [CHR ''=''] @ val) entries) (sec, m) = (sec, m')"
    "stored m' = stored m ++ map_of (rev (map (\<lambda>(key, val). ((sec, key), val)) entries))"
    using load_entries [OF ok(1,3)] by blast
  obtain cur'' m'' where m'': "fold (load_line trim) (ini_lines f) (sec, m') = (cur'', m'')"
    "stored m'' = stored m' ++ map_of (rev (assignments f))" using Cons.IH [OF ok(4)] by blast
  have "fold (load_line trim) (ini_lines (x # f)) (cur, m) = (cur'', m'')"
    using load_section [OF ok(1,2), of cur m] m'(1) m''(1) x by (simp add: ini_lines_def)
  moreover have "stored m'' = stored m ++ map_of (rev (assignments (x # f)))"
    using m'(2) m''(2) x by (simp add: assignments_def map_add_assoc)
  ultimately show ?case by blast
qed

lemma load_written:
  assumes "ini_ok f"
  shows "stored (snd (fold (load_line trim) (getlines (ini_text f)) ([], Map.empty))) (section, key) = ini_value f section key"
proof -
  have "\<forall>l \<in> set (ini_lines f). newline \<notin> set l"
    using assms by (fastforce simp: ini_lines_def ini_ok_def list_all_iff trimmed_def)
  then have "getlines (ini_text f) = ini_lines f" by (simp add: ini_text_def getlines_text)
  moreover obtain cur' m' where "fold (load_line trim) (ini_lines f) ([], Map.empty) = (cur', m')"
    "stored m' = stored Map.empty ++ map_of (rev (assignments f))" using load_file [OF assms] by blast
  ultimately show ?thesis by (simp add: stored_def ini_value_def map_add_def split: option.splits)
qed

end

interpretation server_reader: trimming server_trim
  by unfold_locales (rule trim_trimmed)

interpretation client_reader: trimming client_trim
  by unfold_locales (rule trim_trimmed)

section \<open>Numbers\<close>

text \<open>\<open>std::to_string\<close>.\<close>

fun digits :: "nat \<Rightarrow> string" where
  "digits n = (if n < 10 then [char_of (48 + n)] else digits (n div 10) @ [char_of (48 + n mod 10)])"

declare digits.simps [simp del]

definition decimal :: "int \<Rightarrow> string" where
  "decimal z = (if z < 0 then CHR ''-'' # digits (nat (- z)) else digits (nat z))"

lemma digits_codes:
  "codes (digits n) \<noteq> [] \<and> list_all is_digit (codes (digits n)) \<and> digits_value (codes (digits n)) = n"
proof (induction n rule: digits.induct)
  case (1 n)
  show ?case
  proof (cases "n < 10")
    case True
    then show ?thesis by (simp add: digits.simps [of n] is_digit_def digits_value_def)
  next
    case False
    with 1 show ?thesis by (simp add: digits.simps [of n] is_digit_def digits_value_def)
  qed
qed

lemma stoi_digits:
  assumes "ds \<noteq> []" "list_all is_digit ds"
  shows "int32_range (int (digits_value ds)) \<Longrightarrow> stoi ds = Some (int (digits_value ds), length ds)"
    "int32_range (- int (digits_value ds)) \<Longrightarrow> stoi (45 # ds) = Some (- int (digits_value ds), Suc (length ds))"
proof -
  obtain d ds' where ds: "ds = d # ds'" using assms(1) by (cases ds) auto
  have d: "\<not> is_space d" "d \<noteq> 43" "d \<noteq> 45" "\<not> is_space 45" using assms(2) ds by (auto simp: is_digit_def is_space_def)
  have "takeWhile is_digit ds = ds" using assms(2) by (simp add: takeWhile_eq_all_conv list_all_iff)
  with d show "int32_range (int (digits_value ds)) \<Longrightarrow> stoi ds = Some (int (digits_value ds), length ds)"
    "int32_range (- int (digits_value ds)) \<Longrightarrow> stoi (45 # ds) = Some (- int (digits_value ds), Suc (length ds))"
    by (simp_all add: stoi_def ds)
qed

lemma stoi_decimal: "int32_range z \<Longrightarrow> stoi (codes (decimal z)) = Some (z, length (decimal z))"
  using stoi_digits [of "codes (digits (nat z))"] stoi_digits [of "codes (digits (nat (- z)))"]
    digits_codes [of "nat z"] digits_codes [of "nat (- z)"]
  by (auto simp: decimal_def)

lemma decimal_not_Nil [simp]: "decimal z \<noteq> []"
  using digits_codes [of "nat z"] by (auto simp: decimal_def)

lemma get_string_stored: "get_string cfg section key d = (case stored cfg (section, key) of None \<Rightarrow> d | Some v \<Rightarrow> v)"
  by (simp add: get_string_def stored_def split: option.split)

lemma get_int_stored:
  "stored cfg (section, key) = Some (decimal z) \<Longrightarrow> int32_range z \<Longrightarrow> get_int cfg section key d = z"
  by (simp add: get_int_def get_string_stored stoi_decimal)

lemma read_range_stored:
  assumes "stored cfg (section, key) = Some (decimal z)" "int32_range z"
  shows "read_range cfg section key minimum maximum d = (if minimum \<le> z \<and> z \<le> maximum then Some z else None)"
proof -
  from assms(1) obtain entries where "cfg section = Some entries" "entries key = Some (decimal z)"
    by (auto simp: stored_def bind_eq_Some_conv)
  with assms(2) show ?thesis by (simp add: read_range_def get_int_checked_def stoi_decimal)
qed

section \<open>Properties\<close>


text \<open>A file for both programs.\<close>

definition sample_ini :: "int \<Rightarrow> ini" where
  "sample_ini port = [(''server'', [(''ip'', ''127.0.0.1''), (''port'', ''7777''), (''port'', decimal port),
     (''work_thread_count'', ''4''), (''session_max_count'', ''2000'')])]"

lemma sample_ini_facts:
  "ini_ok (sample_ini 70000)" "ini_value (sample_ini 70000) ''server'' ''port'' = Some (decimal 70000)"
  "ini_value (sample_ini 70000) ''server'' ''session_max_count'' = Some (decimal 2000)"
  "ini_value (sample_ini 70000) ''server'' ''work_thread_count'' = Some (decimal 4)"
  by (simp_all add: sample_ini_def ini_ok_def trimmed_def whitespace_def ini_value_def assignments_def decimal_def
      digits.simps char_of_def bit_0)


text \<open>C38: ports outside 1 to 65535.  The client refuses them.  The server converts the number to 16 bits
  before it checks the range, so it refuses only the multiples of 65536 and starts on the port modulo
  65536 otherwise.\<close>

theorem port_checks:
  assumes f: "ini_ok f" and port: "ini_value f ''server'' ''port'' = Some (decimal p)" "int32_range p"
    and session_max: "ini_value f ''server'' ''session_max_count'' = Some (decimal m)" "int32_range m" "0 < m"
    and worker: "ini_value f ''server'' ''work_thread_count'' = Some (decimal t)" "int32_range t" "0 < t"
  shows "server_main_settings W (Some (ini_text f)) =
      (if p mod 65536 = 0 then Inl 0
       else Inr \<lparr>srv_ip = get_wstring W (the (server_load (Some (ini_text f)))) ''server'' ''ip'' [],
                 srv_port = word_of_int p, srv_session_max_count = m, srv_worker_thread_count = t\<rparr>) \<and>
    (ClientConfig_load W (the (client_load (Some (ini_text f)))) False \<noteq> None \<longleftrightarrow>
      1 \<le> p \<and> p \<le> 65535 \<and> get_wstring W (the (client_load (Some (ini_text f)))) ''server'' ''ip'' [] \<noteq> [])"
proof (rule conjI)
  obtain cfg where cfg: "server_load (Some (ini_text f)) = Some cfg" by (simp add: server_load_def)
  obtain cfg' where cfg': "client_load (Some (ini_text f)) = Some cfg'" by (simp add: client_load_def)
  have s: "stored cfg (sec, key) = ini_value f sec key" for sec key
    using server_reader.load_written [OF f] cfg by (auto simp: server_load_def)
  have c: "stored cfg' (sec, key) = ini_value f sec key" for sec key
    using client_reader.load_written [OF f] cfg' by (auto simp: client_load_def)
  have v: "get_int cfg ''server'' ''port'' 0 = p" "get_int cfg ''server'' ''session_max_count'' 0 = m"
    "get_int cfg ''server'' ''work_thread_count'' 0 = t"
    using get_int_stored s port session_max worker by simp_all
  have "uint (word_of_int p :: uint16) = p mod 65536" by (simp add: uint_word_of_int)
  with v session_max(3) worker(3) pos_mod_bound [of 65536 p] pos_mod_sign [of 65536 p]
  show "server_main_settings W (Some (ini_text f)) =
      (if p mod 65536 = 0 then Inl 0
       else Inr \<lparr>srv_ip = get_wstring W (the (server_load (Some (ini_text f)))) ''server'' ''ip'' [],
                 srv_port = word_of_int p, srv_session_max_count = m, srv_worker_thread_count = t\<rparr>)"
    by (simp add: server_main_settings_def cfg)
  show "ClientConfig_load W (the (client_load (Some (ini_text f)))) False \<noteq> None \<longleftrightarrow>
      1 \<le> p \<and> p \<le> 65535 \<and> get_wstring W (the (client_load (Some (ini_text f)))) ''server'' ''ip'' [] \<noteq> []"
    using read_range_stored [OF c [of "''server''" "''port''", unfolded port(1)] port(2), of 1 65535 0]
    by (auto simp: ClientConfig_load_def cfg' Let_def split: if_splits)
qed

theorem port_checks_witness:
  "\<exists>ip. server_main_settings ref_win (Some (ini_text (sample_ini 70000))) =
     Inr \<lparr>srv_ip = ip, srv_port = 4464, srv_session_max_count = 2000, srv_worker_thread_count = 4\<rparr>"
  using port_checks [OF sample_ini_facts(1,2) _ sample_ini_facts(3) _ _ sample_ini_facts(4), of ref_win]
  by (simp add: int32_range_def)

lemma ClientConfig_ranges:
  assumes "ClientConfig_load W cfg True = Some c"
  shows "cc_server_ip c \<noteq> [] \<and> cc_port c \<noteq> 0 \<and> cc_session_count c \<in> {1..100000} \<and>
    cc_worker_thread_count c \<in> {1..256} \<and> cc_bot_thread_count c \<in> {1..256} \<and> cc_chat_interval_ms c \<in> {1..60000} \<and>
    cc_bot_room_count c \<in> {1..256} \<and> cc_all_chat_interval c \<in> {1..2147483647} \<and>
    cc_whisper_interval c \<in> {1..2147483647}"
proof -
  have range: "read_range cfg sec key lo hi d = Some v \<Longrightarrow> lo \<le> v \<and> v \<le> hi" for sec key lo hi d v
    by (auto simp: read_range_def split: prod.splits if_splits)
  have "(word_of_int p :: uint16) \<noteq> 0" if "1 \<le> p" "p \<le> 65535" for p
  proof
    assume "(word_of_int p :: uint16) = 0"
    then have "uint (word_of_int p :: uint16) = 0" by simp
    then show False using that by (simp add: uint_word_of_int)
  qed
  with assms range show ?thesis
    by (auto simp: ClientConfig_load_def Let_def bind_eq_Some_conv split: if_splits)
qed

text \<open>C37: the client's settings.  Whatever the file contains, settings that \<open>ClientConfig::load\<close> accepts for a
  load test have a port and an address, and every count and interval lies in its range; in particular
  the divisors of the bot loop are not zero.\<close>

theorem client_settings_in_range:
  assumes "ClientConfig_load W cfg True = Some c"
  shows "cc_server_ip c \<noteq> [] \<and> cc_port c \<noteq> 0 \<and> cc_session_count c \<in> {1..100000} \<and>
    cc_worker_thread_count c \<in> {1..256} \<and> cc_bot_thread_count c \<in> {1..256} \<and> cc_chat_interval_ms c \<in> {1..60000} \<and>
    cc_bot_room_count c \<in> {1..256} \<and> cc_all_chat_interval c \<in> {1..2147483647} \<and>
    cc_whisper_interval c \<in> {1..2147483647}"
  using assms by (rule ClientConfig_ranges)

text \<open>The file that comes with the client.\<close>

definition example_ini :: ini where
  "example_ini = [(''client'', [(''session_count'', ''1000''), (''bot_thread_count'', ''4''), (''worker_thread_count'', ''4''),
     (''chat_interval_ms'', ''2500''), (''bot_room_count'', ''10''), (''all_chat_interval'', ''10''),
     (''whisper_interval'', ''15'')]), (''server'', [(''ip'', ''127.0.0.1''), (''port'', ''7777'')])]"

lemma example_settings:
  obtains c where "ClientConfig_load ref_win (the (client_load (Some (ini_text example_ini)))) True = Some c"
    "cc_session_count c = 1000" "cc_port c = 7777"
proof -
  have "map_option (\<lambda>c. (cc_session_count c, cc_port c))
      (ClientConfig_load ref_win (the (client_load (Some (ini_text example_ini)))) True) = Some (1000, 7777)"
    by code_simp
  then show ?thesis using that by auto
qed

theorem client_settings_in_range_witness:
  "\<exists>c. ClientConfig_load ref_win (the (client_load (Some (ini_text example_ini)))) True = Some c \<and>
     cc_whisper_interval c \<in> {1..2147483647} \<and> cc_session_count c = 1000"
proof -
  obtain c where c: "ClientConfig_load ref_win (the (client_load (Some (ini_text example_ini)))) True = Some c"
    "cc_session_count c = 1000" by (rule example_settings)
  with client_settings_in_range [OF c(1)] show ?thesis by simp
qed

end
