(* ===== verification/GameBystanders.thy ===== *)
theory GameBystanders
  imports GameHandlers
begin

text \<open>
  What an event of one session does to the others: it creates and removes no session, and a session that
  is not connected and not the subject of the event stays exactly as it is.
\<close>

definition bystanders :: "sid \<Rightarrow> world \<Rightarrow> world \<Rightarrow> bool" where
  "bystanders j w w' \<longleftrightarrow> (\<forall>i. (w_sessions w' i = None) = (w_sessions w i = None)) \<and>
     (\<forall>i s. i \<noteq> j \<longrightarrow> w_sessions w i = Some s \<longrightarrow> \<not> ss_is_connect s \<longrightarrow> w_sessions w' i = Some s)"

lemma bystanders_refl [simp]: "bystanders j w w"
  by (simp add: bystanders_def)

lemma bystanders_trans: "bystanders j u v \<Longrightarrow> bystanders j v w \<Longrightarrow> bystanders j u w"
  by (simp add: bystanders_def)

lemma bystanders_frame [simp]:
  "bystanders j w (w'\<lparr>w_manager := m\<rparr>) = bystanders j w w'" "bystanders j w (w'\<lparr>w_login := l\<rparr>) = bystanders j w w'"
  "bystanders j w (w'\<lparr>w_rooms := r\<rparr>) = bystanders j w w'" "bystanders j w (w'\<lparr>w_stats := st\<rparr>) = bystanders j w w'"
  "bystanders j (w\<lparr>w_manager := m\<rparr>) w' = bystanders j w w'" "bystanders j (w\<lparr>w_login := l\<rparr>) w' = bystanders j w w'"
  "bystanders j (w\<lparr>w_rooms := r\<rparr>) w' = bystanders j w w'" "bystanders j (w\<lparr>w_stats := st\<rparr>) w' = bystanders j w w'"
  by (simp_all add: bystanders_def)

lemma bystanders_put: "w_sessions w j = Some s \<Longrightarrow> bystanders j w (w\<lparr>w_sessions := (w_sessions w)(j \<mapsto> t)\<rparr>)"
  by (simp add: bystanders_def)

lemma bystanders_with_session:
  assumes "with_session i f w = Some w'" "i = j \<or> (\<forall>s. \<not> ss_is_connect s \<longrightarrow> f s = Some s)"
  shows "bystanders j w w'"
  using assms by (auto simp: with_session_def bystanders_def split: option.splits if_splits)

lemma off_unchanged [simp]:
  "\<not> ss_is_connect s \<Longrightarrow> send env sb s = Some s"
  "\<not> ss_is_connect s \<Longrightarrow> disconnect env s = Some s"
  by (simp_all add: send_def disconnect_def)

lemma bystanders_send: "with_session i (send env sb) w = Some w' \<Longrightarrow> bystanders j w w'"
  by (erule bystanders_with_session) simp

lemma bystanders_disconnect: "with_session i (disconnect env) w = Some w' \<Longrightarrow> bystanders j w w'"
  by (erule bystanders_with_session) simp

lemma bystanders_send_packet: "send_packet x k i pkt w = Some w' \<Longrightarrow> bystanders j w w'"
  by (auto simp: send_packet_def bind_eq_Some_conv intro: bystanders_send)

lemma bystanders_send_all: "send_all io skip sb is n w = Some (m, w') \<Longrightarrow> bystanders j w w'"
proof (induction "is" arbitrary: n w)
  case (Cons i "is")
  then show ?case
    by (auto simp: bind_eq_Some_conv split: option.splits if_splits dest!: bystanders_send [of i _ _ _ _ j]
        intro: bystanders_trans)
qed simp

lemma bystanders_heartbeat: "heartbeat_loop x now is w = Some w' \<Longrightarrow> bystanders j w w'"
proof (induction "is" arbitrary: w)
  case (Cons i "is")
  have ping: "bystanders j w v" if "send_ping x now i w = Some v" "w_sessions w i = Some s" "ss_is_connect s" for v s
  proof -
    let ?t = "s\<lparr>ss_last_ping_tick := now, ss_waiting_pong := True\<rparr>"
    let ?u = "w\<lparr>w_sessions := (w_sessions w)(i \<mapsto> ?t)\<rparr>"
    have "bystanders j w ?u" using that(2,3) by (auto simp: bystanders_def)
    moreover have "bystanders j ?u v"
      using that(1,2) by (auto simp: send_ping_def with_session_def intro: bystanders_send_packet)
    ultimately show ?thesis by (rule bystanders_trans)
  qed
  from Cons show ?case
    by (auto simp: bind_eq_Some_conv split: option.splits if_splits intro: bystanders_trans
        dest!: bystanders_disconnect [of i _ _ _ j] ping)
qed simp

section \<open>Handlers\<close>

lemma bystanders_register_login: "register_login j idx n w = Some w' \<Longrightarrow> bystanders j w w'"
  by (auto simp: register_login_def Let_def dest!: bystanders_with_session [where j = j])

lemma bystanders_login:
  assumes "login_request x ack (Some j) is_create uid pw name w = Some (b, w')"
  shows "bystanders j w w'"
  using assms
  by (auto simp: login_request_def Let_def bind_eq_Some_conv split: if_splits option.splits prod.splits
      dest!: bystanders_register_login bystanders_disconnect [where j = j] bystanders_send_packet [where j = j]
      intro: bystanders_trans)

lemma bystanders_chat:
  "normal_chat io r sb w = Some (n, w') \<Longrightarrow> bystanders j w w'"
  "all_chat io sb w = Some (n, w') \<Longrightarrow> bystanders j w w'"
  "whisper_chat io name sb w = Some (n, w') \<Longrightarrow> bystanders j w w'"
  by (auto simp: normal_chat_def all_chat_def whisper_chat_def split: option.splits if_splits
      intro: bystanders_send_all bystanders_send)

lemma bystanders_chat_sent:
  assumes "chat_sent x i (n, w) = Some (b, w')"
  shows "bystanders j w w'"
  using assms by (auto simp: chat_sent_def Let_def dest!: bystanders_send_packet [where j = j])

lemmas bystanders_dests = bystanders_disconnect [where j = j for j] bystanders_send_packet [where j = j for j]

lemma bystanders_rooms:
  "Handle_REQ_GET_ROOM_INFO x (Some j) pkt1 w = Some (b, w') \<Longrightarrow> bystanders j w w'"
  "Handle_REQ_ENTER_ROOM x (Some j) pkt2 w = Some (b, w') \<Longrightarrow> bystanders j w w'"
  "Handle_REQ_EXIT_ROOM x (Some j) pkt3 w = Some (b, w') \<Longrightarrow> bystanders j w w'"
  by (auto simp: Handle_REQ_GET_ROOM_INFO_def Handle_REQ_ENTER_ROOM_def Handle_REQ_EXIT_ROOM_def Let_def
      bind_eq_Some_conv split: if_splits option.splits prod.splits
      dest!: bystanders_dests [where j = j] bystanders_with_session [where i = j and j = j] intro: bystanders_trans)

lemma bystanders_logout:
  assumes "Handle_REQ_LOGOUT x (Some j) pkt w = Some (b, w')"
  shows "bystanders j w w'"
proof -
  have put: "bystanders j w v" if "w_sessions v = (w_sessions w)(j \<mapsto> t)" "w_sessions w j \<noteq> None" for v t
    using that by (auto simp: bystanders_def)
  have send: "bystanders j w v'" if "send_packet x 0 j a v = Some v'" "w_sessions v = (w_sessions w)(j \<mapsto> t)"
      "w_sessions w j \<noteq> None" for a v v' t
    by (rule bystanders_trans [OF put [OF that(2,3)] bystanders_send_packet [OF that(1)]])
  from assms show ?thesis
    by (auto simp: Handle_REQ_LOGOUT_def Let_def split: if_splits option.splits prod.splits
        dest: bystanders_disconnect [where j = j] intro: send)
qed

lemma bystanders_Handle_CHAT:
  assumes "Handle_REQ_CHAT x (Some j) pkt w = Some (b, w')"
  shows "bystanders j w w'"
proof -
  have sent: "bystanders j w v'" if "chat_sent x j r = Some (b, v')" "f = Some r"
      "\<And>n v. f = Some (n, v) \<Longrightarrow> bystanders j w v" for f r v'
    using that bystanders_chat_sent [of x j "fst r" "snd r"] by (metis prod.collapse bystanders_trans)
  from assms show ?thesis
    by (auto simp: Handle_REQ_CHAT_def Let_def bind_eq_Some_conv split: if_splits option.splits
        dest: bystanders_dests [where j = j] intro: bystanders_chat elim!: sent)
qed

lemma bystanders_handle_packet: "handle_packet x (Some j) pkt w = Some (b, w') \<Longrightarrow> bystanders j w w'"
  by (cases pkt)
    (auto simp: Handle_REQ_LOGIN_def Handle_REQ_BOT_LOGIN_def Handle_REQ_CONNECT_PONG_def
      intro: bystanders_login bystanders_rooms bystanders_logout bystanders_Handle_CHAT
      dest: bystanders_with_session [where i = j and j = j])

section \<open>Events\<close>

lemma bystanders_cleanup:
  assumes "cleanup_job j w = Some w'"
  shows "bystanders j w w'"
  using assms
  by (auto simp: cleanup_job_def on_disconnect_def with_session_def bystanders_def Let_def
      split: option.splits if_splits prod.splits)

lemma bystanders_job:
  assumes "execute_job x j w = Some w'"
  shows "bystanders j w w'"
proof (cases "w_sessions w j")
  case (Some s)
  show ?thesis
  proof (cases "logic_pop s")
    case pop: (Some r)
    obtain job t where r: "r = (job, t)" by fastforce
    let ?u = "w\<lparr>w_sessions := (w_sessions w)(j \<mapsto> t)\<rparr>"
    from assms Some pop r obtain v where v:
      "(case job of Callback pkt \<Rightarrow> packet_job x j pkt ?u | Cleanup \<Rightarrow> cleanup_job j ?u) = Some v"
      "with_session j logic_done v = Some w'" by (auto simp: execute_job_def Let_def bind_eq_Some_conv)
    have "bystanders j ?u v"
      using v(1) by (auto simp: packet_job_def split: logic_job.splits if_splits
          intro: bystanders_cleanup bystanders_handle_packet)
    then show ?thesis
      using bystanders_put [OF Some, of t] bystanders_with_session [OF v(2), of j] by (blast intro: bystanders_trans)
  qed (use assms Some in \<open>simp add: execute_job_def\<close>)
qed (use assms in \<open>simp add: execute_job_def\<close>)

lemma bystanders_accept:
  assumes "accept_connection x j w = Some w'"
  shows "bystanders j w w'"
  using assms
  by (auto simp: accept_connection_def Let_def split: if_splits option.splits prod.splits
      dest!: bystanders_with_session [where i = j and j = j])

text \<open>A session nothing refers to but the tables.  Such a session stays as it is through every event but its
  own creation, acceptance and shutdown.\<close>

definition dormant :: "GameSession \<Rightarrow> bool" where
  "dormant s \<longleftrightarrow> \<not> ss_is_connect s \<and> owners s = 0 \<and> ss_logic_queue s = []"

fun runtime_event :: "server_event \<Rightarrow> bool" where
  "runtime_event (Ev_create i) = False"
| "runtime_event (Ev_accepted i) = False"
| "runtime_event (Ev_shutdown i) = False"
| "runtime_event _ = True"

lemma dormant_unchanged:
  assumes "server_step x ev w = Some w'" "runtime_event ev" "w_sessions w i = Some s" "dormant s"
  shows "w_sessions w' i = Some s"
proof -
  have off: "\<not> ss_is_connect s" "\<not> ss_recv_owner s" "\<not> ss_send_owner s" "\<not> ss_disconnect_owner s" "ss_logic_queue s = []"
    using assms(4) by (auto simp: dormant_def owners_def)
  have b: "bystanders j w v \<Longrightarrow> j \<noteq> i \<Longrightarrow> w_sessions v i = Some s" for j v
    using assms(3) off(1) by (simp add: bystanders_def)
  show ?thesis
  proof (cases ev)
    case (Ev_received j bs)
    then show ?thesis
      using assms(1,3) off by (auto simp: receive_bytes_def with_session_def split: option.splits if_splits)
  next
    case (Ev_completed j e ok n)
    then show ?thesis
      using assms(1,3) off by (auto simp: io_completion_def iocp_dispatch_def get_owner_def Let_def
          split: option.splits if_splits EventType.splits)
  next
    case (Ev_job j)
    then show ?thesis
    proof (cases "j = i")
      case True
      then show ?thesis using assms(1,3) Ev_job off by (simp add: execute_job_def logic_pop_def)
    next
      case False
      then show ?thesis using assms(1,3) Ev_job b [OF bystanders_job, of x j] by (auto split: option.splits)
    qed
  next
    case Ev_heartbeat
    then have "bystanders (Suc i) w w'" using assms(1) by (simp add: check_heartbeat_def bystanders_heartbeat)
    from b [OF this] show ?thesis by simp
  qed (use assms(2) in simp_all)
qed

lemma runtime_event_dom:
  assumes "server_step x ev w = Some w'" "runtime_event ev"
  shows "(w_sessions w' i = None) = (w_sessions w i = None)"
  using assms
  by (cases ev) (auto simp: receive_bytes_def with_session_def io_completion_def check_heartbeat_def bystanders_def
      split: option.splits if_splits dest!: bystanders_job bystanders_heartbeat [where j = 0])

end
