(* ===== verification/AcceptLoop.thy ===== *)
theory AcceptLoop
  imports GameServerRun GameBystanders
begin

text \<open>
  \<^verbatim>\<open>NetWork/Listener.{h,cpp}\<close> and \<^verbatim>\<open>NetWork/Service.{h,cpp}\<close>: the accept slots, the register of live
  sessions and the shutdown of the server.  The state \<open>service\<close> holds the listener, the flag and the
  table of \<open>Service\<close>, and the game server behind it.  An \<open>AcceptEvent\<close> is named by its index in
  \<open>_accept_events\<close>; the timers of the retry queue are the indices whose retry is still to come.  The
  results of the socket calls and the address of a new session are read from an environment
  \<open>accept_env\<close>, one per call of \<open>register_accept\<close> and of \<open>process_accept\<close>.  A reference that is dropped as the
  last one destroys its session, which takes it out of the table.  \<open>None\<close> is a crash, or a caller
  that is still blocked in the two waits of \<open>close_service\<close>.
\<close>

section \<open>State\<close>

record accept_env =
  ae_session :: sid
  ae_create_socket :: bool
  ae_Register :: bool
  ae_AcceptEx :: io_result
  ae_set_update_accept_socket :: bool
  ae_getpeername :: bool

record AcceptEvent =
  ac_session :: "sid option"
  ac_owner :: bool

definition AcceptEvent_new :: AcceptEvent where
  "AcceptEvent_new = \<lparr>ac_session = None, ac_owner = False\<rparr>"

record Listener =
  ln_socket_open :: bool
  ln_accept_stopped :: bool
  ln_pending_io :: uint32
  ln_accept_events :: "AcceptEvent list"
  ln_accept_retry :: "nat list"

definition Listener_new :: Listener where
  "Listener_new = \<lparr>ln_socket_open = False, ln_accept_stopped = False, ln_pending_io = 0,
     ln_accept_events = [], ln_accept_retry = []\<rparr>"

datatype ServiceType = ST_NONE | ST_SERVER | ST_CLIENT

text \<open>\<open>sv_iocp_core\<close> and \<open>sv_session_manager\<close> tell whether the two pointers are set.\<close>

record service =
  sv_service_type :: ServiceType
  sv_iocp_core :: bool
  sv_session_manager :: bool
  sv_listener :: Listener
  sv_closing :: bool
  sv_live_sessions :: "sid list"
  sv_world :: world

definition Service_new :: "int \<Rightarrow> service" where
  "Service_new session_max_count = \<lparr>sv_service_type = ST_SERVER, sv_iocp_core = True, sv_session_manager = True,
     sv_listener = Listener_new, sv_closing = False, sv_live_sessions = [],
     sv_world = world_new session_max_count\<rparr>"

definition ACCEPT_COUNT :: nat where "ACCEPT_COUNT = 32"

definition WSAEMFILE :: int where "WSAEMFILE = 10024"
definition WSAECONNABORTED :: int where "WSAECONNABORTED = 10053"
definition WSAECONNRESET :: int where "WSAECONNRESET = 10054"
definition WSAENOBUFS :: int where "WSAENOBUFS = 10055"

abbreviation on_listener :: "(Listener \<Rightarrow> Listener) \<Rightarrow> service \<Rightarrow> service" where
  "on_listener f sv \<equiv> sv\<lparr>sv_listener := f (sv_listener sv)\<rparr>"

definition set_event :: "nat \<Rightarrow> AcceptEvent \<Rightarrow> Listener \<Rightarrow> Listener" where
  "set_event k ev l = l\<lparr>ln_accept_events := (ln_accept_events l)[k := ev]\<rparr>"

section \<open>Sessions of the service\<close>

definition release_live_session :: "sid \<Rightarrow> service \<Rightarrow> service" where
  "release_live_session i sv = sv\<lparr>sv_live_sessions := removeAll i (sv_live_sessions sv)\<rparr>"

definition create_session :: "accept_env \<Rightarrow> service \<Rightarrow> sid option \<times> service" where
  "create_session e sv =
     (if sv_closing sv then (None, sv)
      else if \<not> ae_create_socket e then (None, sv)
      else if \<not> ae_Register e then (None, sv)
      else (Some (ae_session e),
            sv\<lparr>sv_world := (sv_world sv)\<lparr>w_sessions := (w_sessions (sv_world sv))(ae_session e \<mapsto> GameSession_new True)\<rparr>,
               sv_live_sessions := ae_session e # sv_live_sessions sv\<rparr>))"

section \<open>Accepting\<close>

definition reserve_accept_retry :: "nat \<Rightarrow> service \<Rightarrow> service" where
  "reserve_accept_retry k sv = on_listener (\<lambda>l. l\<lparr>ln_accept_retry := ln_accept_retry l @ [k]\<rparr>) sv"

definition register_accept :: "accept_env \<Rightarrow> nat \<Rightarrow> service \<Rightarrow> service option" where
  "register_accept e k sv =
     (if ln_accept_stopped (sv_listener sv) \<or> \<not> ln_socket_open (sv_listener sv) then Some sv
      else case create_session e sv of
        (None, sv) \<Rightarrow> Some (reserve_accept_retry k (on_listener (set_event k AcceptEvent_new) sv))
      | (Some i, sv) \<Rightarrow>
          let sv = on_listener (set_event k \<lparr>ac_session = Some i, ac_owner = True\<rparr>) sv;
              sv = on_listener (\<lambda>l. l\<lparr>ln_pending_io := begin_io (ln_pending_io l)\<rparr>) sv in
          case ae_AcceptEx e of
            IO_OK \<Rightarrow> Some sv
          | IO_ERR errorCode \<Rightarrow>
              if errorCode = WSA_IO_PENDING then Some sv
              else
                let sv = release_live_session i (on_listener (set_event k AcceptEvent_new) sv) in
                map_option (\<lambda>n.
                  let sv = on_listener (\<lambda>l. l\<lparr>ln_pending_io := n\<rparr>) sv in
                  if errorCode \<in> {WSAENOBUFS, WSAEMFILE, WSAECONNRESET, WSAECONNABORTED}
                  then reserve_accept_retry k sv else sv)
                (finish_io (ln_pending_io (sv_listener sv))))"

definition process_accept ::
  "server_ext \<Rightarrow> accept_env \<Rightarrow> accept_env \<Rightarrow> nat \<Rightarrow> service \<Rightarrow> service option" where
  "process_accept x e e' k sv =
     (let session = ac_session (ln_accept_events (sv_listener sv) ! k);
          sv = on_listener (set_event k AcceptEvent_new) sv in
      case session of
        None \<Rightarrow> Some sv
      | Some i \<Rightarrow>
          if ln_accept_stopped (sv_listener sv) \<or> \<not> ln_socket_open (sv_listener sv)
          then Some (release_live_session i sv)
          else if \<not> ae_set_update_accept_socket e then Some (release_live_session i (reserve_accept_retry k sv))
          else if \<not> ae_getpeername e then Some (release_live_session i (reserve_accept_retry k sv))
          else Option.bind (accept_connection x i (sv_world sv)) (\<lambda>w.
            register_accept e' k (sv\<lparr>sv_world := w\<rparr>)))"

text \<open>A dequeued completion of an accept, with the bookkeeping of \<open>IocpCore::dispatch\<close>.\<close>

definition accept_completion ::
  "server_ext \<Rightarrow> accept_env \<Rightarrow> accept_env \<Rightarrow> nat \<Rightarrow> service \<Rightarrow> service option" where
  "accept_completion x e e' k sv =
     (if \<not> ac_owner (ln_accept_events (sv_listener sv) ! k) then Some sv
      else Option.bind (process_accept x e e' k sv) (\<lambda>sv.
        map_option (\<lambda>n. on_listener (\<lambda>l. l\<lparr>ln_pending_io := n\<rparr>) sv) (finish_io (ln_pending_io (sv_listener sv)))))"

text \<open>The job of the retry queue.\<close>

definition accept_retry :: "accept_env \<Rightarrow> nat \<Rightarrow> service \<Rightarrow> service option" where
  "accept_retry e k sv = register_accept e k (on_listener (\<lambda>l. l\<lparr>ln_accept_retry := remove1 k (ln_accept_retry l)\<rparr>) sv)"

definition close_socket :: "Listener \<Rightarrow> Listener" where
  "close_socket l =
     (if ln_accept_stopped l then l else l\<lparr>ln_accept_stopped := True, ln_socket_open := False\<rparr>)"

text \<open>The calls that prepare the listening socket, in their order.\<close>

record listen_env =
  le_create_socket :: bool
  le_Register :: bool
  le_set_resuse_address :: bool
  le_set_linger :: bool
  le_bind :: bool
  le_listen :: bool

fun register_all :: "(nat \<Rightarrow> accept_env) \<Rightarrow> nat \<Rightarrow> service \<Rightarrow> service option" where
  "register_all es 0 sv = Some sv"
| "register_all es (Suc n) sv =
     Option.bind (register_all es n sv) (\<lambda>sv.
       register_accept (es n) n
         (on_listener (\<lambda>l. l\<lparr>ln_accept_events := ln_accept_events l @ [AcceptEvent_new]\<rparr>) sv))"

definition start_accept :: "listen_env \<Rightarrow> (nat \<Rightarrow> accept_env) \<Rightarrow> service \<Rightarrow> (bool \<times> service) option" where
  "start_accept le es sv =
     (if \<not> le_create_socket le then Some (False, sv)
      else
        let sv = on_listener (\<lambda>l. l\<lparr>ln_socket_open := True\<rparr>) sv in
        if \<not> sv_iocp_core sv then Some (False, sv)
        else if \<not> le_Register le then Some (False, sv)
        else if \<not> le_set_resuse_address le then Some (False, sv)
        else if \<not> le_set_linger le then Some (False, sv)
        else if \<not> le_bind le then Some (False, sv)
        else if \<not> le_listen le then Some (False, sv)
        else map_option (Pair True) (register_all es ACCEPT_COUNT sv))"

section \<open>Starting and closing the service\<close>

definition can_start :: "service \<Rightarrow> bool" where
  "can_start sv = (if sv_service_type sv = ST_NONE \<or> \<not> sv_iocp_core sv \<or> \<not> sv_session_manager sv then False else True)"

definition ServerService_start ::
  "listen_env \<Rightarrow> (nat \<Rightarrow> accept_env) \<Rightarrow> service \<Rightarrow> (bool \<times> service) option" where
  "ServerService_start le es sv =
     (if \<not> can_start sv then Some (False, sv)
      else map_option (\<lambda>(ok, sv). if ok then (True, sv) else (False, on_listener close_socket sv))
             (start_accept le es (sv\<lparr>sv_listener := Listener_new\<rparr>)))"

text \<open>\<open>ServerService::close_service\<close> in the three parts between its waits.\<close>

definition close_listener :: "service \<Rightarrow> service" where
  "close_listener sv = on_listener close_socket sv"

fun shutdown_all :: "sid list \<Rightarrow> world \<Rightarrow> world option" where
  "shutdown_all [] w = Some w"
| "shutdown_all (i # sessions) w = Option.bind (set_session i begin_shutdown w) (shutdown_all sessions)"

definition close_sessions :: "service \<Rightarrow> service option" where
  "close_sessions sv =
     (if \<not> wait_for_io (ln_pending_io (sv_listener sv)) then None
      else map_option (\<lambda>w. sv\<lparr>sv_closing := True, sv_world := w\<rparr>)
             (shutdown_all (sv_live_sessions sv) (sv_world sv)))"

fun wait_all :: "sid list \<Rightarrow> world \<Rightarrow> world option" where
  "wait_all [] w = Some w"
| "wait_all (i # sessions) w = Option.bind (with_session i wait_for_shutdown w) (wait_all sessions)"

definition close_finish :: "service \<Rightarrow> service option" where
  "close_finish sv = map_option (\<lambda>w. sv\<lparr>sv_world := w\<rparr>) (wait_all (sv_live_sessions sv) (sv_world sv))"

section \<open>Events of the service\<close>

text \<open>A session to which no reference is left: not in a table, nothing outstanding, nothing queued.\<close>

definition unreferenced :: "service \<Rightarrow> sid \<Rightarrow> bool" where
  "unreferenced sv i \<longleftrightarrow> (\<forall>ev \<in> set (ln_accept_events (sv_listener sv)). ac_session ev \<noteq> Some i) \<and>
     i \<notin> set (sm_sessions (w_manager (sv_world sv))) \<and>
     (case w_sessions (sv_world sv) i of None \<Rightarrow> False | Some s \<Rightarrow> dormant s \<and> \<not> gs_is_login s)"

definition new_address :: "accept_env \<Rightarrow> service \<Rightarrow> bool" where
  "new_address e sv \<longleftrightarrow> w_sessions (sv_world sv) (ae_session e) = None"

datatype service_event =
    S_accept nat accept_env accept_env
  | S_retry nat accept_env
  | S_server server_event
  | S_destroy sid
  | S_close

fun service_step :: "server_ext \<Rightarrow> service_event \<Rightarrow> service \<Rightarrow> service option" where
  "service_step x (S_accept k e e') sv =
     (if k < length (ln_accept_events (sv_listener sv)) \<and> new_address e' sv
      then accept_completion x e e' k sv else Some sv)"
| "service_step x (S_retry k e) sv =
     (if k \<in> set (ln_accept_retry (sv_listener sv)) \<and> new_address e sv then accept_retry e k sv else Some sv)"
| "service_step x (S_server ev) sv =
     (if runtime_event ev then map_option (\<lambda>w. sv\<lparr>sv_world := w\<rparr>) (server_step x ev (sv_world sv)) else Some sv)"
| "service_step x (S_destroy i) sv = Some (if unreferenced sv i then release_live_session i sv else sv)"
| "service_step x S_close sv = Some (close_listener sv)"

section \<open>Invariant\<close>

definition slots :: "Listener \<Rightarrow> nat set" where
  "slots l = {k. k < length (ln_accept_events l) \<and> ac_owner (ln_accept_events l ! k)}"

text \<open>Every slot is outstanding, with a session of its own, or waiting for its one retry, or idle; the
  counter counts the outstanding ones and the \<open>io\<close> completions being dispatched.\<close>

definition listener_inv :: "nat \<Rightarrow> Listener \<Rightarrow> bool" where
  "listener_inv io l \<longleftrightarrow> length (ln_accept_events l) \<le> ACCEPT_COUNT \<and>
     ln_pending_io l = of_nat (card (slots l) + io) \<and>
     (\<forall>ev \<in> set (ln_accept_events l). ac_owner ev = (ac_session ev \<noteq> None)) \<and>
     (\<forall>k \<in> slots l. \<forall>k' \<in> slots l. ac_session (ln_accept_events l ! k) = ac_session (ln_accept_events l ! k') \<longrightarrow> k = k') \<and>
     distinct (ln_accept_retry l) \<and> set (ln_accept_retry l) \<inter> slots l = {} \<and>
     (\<forall>k \<in> set (ln_accept_retry l). k < length (ln_accept_events l))"

text \<open>A session that was destroyed: it takes part in nothing any more.\<close>

definition gone :: "GameSession \<Rightarrow> bool" where
  "gone s \<longleftrightarrow> dormant s \<and> \<not> gs_is_login s \<and> (ss_was_connected s \<and> \<not> ss_close_after_send s \<longrightarrow> ss_cleanup_done s)"

definition accepting :: "GameSession \<Rightarrow> bool" where
  "accepting s \<longleftrightarrow> unconnected s \<and> dormant s \<and> \<not> gs_is_login s"

definition sessions_inv :: "service \<Rightarrow> bool" where
  "sessions_inv sv \<longleftrightarrow>
     (\<forall>k \<in> slots (sv_listener sv). \<exists>i s. ac_session (ln_accept_events (sv_listener sv) ! k) = Some i \<and>
        i \<in> set (sv_live_sessions sv) \<and> w_sessions (sv_world sv) i = Some s \<and> accepting s) \<and>
     (\<forall>i \<in> set (sv_live_sessions sv). w_sessions (sv_world sv) i \<noteq> None) \<and>
     (\<forall>i s. w_sessions (sv_world sv) i = Some s \<longrightarrow> i \<notin> set (sv_live_sessions sv) \<longrightarrow> gone s)"

definition service_inv :: "nat \<Rightarrow> service \<Rightarrow> bool" where
  "service_inv io sv \<longleftrightarrow> world_inv None (sv_world sv) \<and> listener_inv io (sv_listener sv) \<and> sessions_inv sv"

section \<open>Lemmas on the slots\<close>

lemma finite_slots [simp]: "finite (slots l)"
  by (rule finite_subset [of _ "{..<length (ln_accept_events l)}"]) (auto simp: slots_def)

lemma card_slots: "card (slots l) \<le> length (ln_accept_events l)"
  using card_mono [of "{..<length (ln_accept_events l)}" "slots l"] by (auto simp: slots_def)

lemma slots_frame [simp]:
  "slots (l\<lparr>ln_pending_io := n\<rparr>) = slots l" "slots (l\<lparr>ln_accept_retry := r\<rparr>) = slots l"
  "slots (l\<lparr>ln_socket_open := b\<rparr>) = slots l" "slots (l\<lparr>ln_accept_stopped := b\<rparr>) = slots l"
  by (simp_all add: slots_def)

lemma set_event_sel [simp]:
  "ln_pending_io (set_event k ev l) = ln_pending_io l" "ln_accept_retry (set_event k ev l) = ln_accept_retry l"
  "ln_socket_open (set_event k ev l) = ln_socket_open l" "ln_accept_stopped (set_event k ev l) = ln_accept_stopped l"
  "length (ln_accept_events (set_event k ev l)) = length (ln_accept_events l)"
  by (simp_all add: set_event_def)

lemma nth_set_event:
  "k < length (ln_accept_events l) \<Longrightarrow>
   ln_accept_events (set_event k ev l) ! j = (if j = k then ev else ln_accept_events l ! j)"
  by (simp add: set_event_def nth_list_update)

lemma slots_set_event:
  "k < length (ln_accept_events l) \<Longrightarrow>
   slots (set_event k ev l) = (if ac_owner ev then insert k (slots l) else slots l - {k})"
  by (auto simp: slots_def nth_set_event)

lemma listener_release:
  assumes "listener_inv io l" "k \<in> slots l"
  shows "listener_inv (Suc io) (set_event k AcceptEvent_new l)"
proof -
  have k: "k < length (ln_accept_events l)" using assms(2) by (simp add: slots_def)
  have "card (slots l) = Suc (card (slots l - {k}))"
    using card_Suc_Diff1 [OF finite_slots assms(2)] by simp
  moreover have "set (ln_accept_events (set_event k AcceptEvent_new l)) \<subseteq> insert AcceptEvent_new (set (ln_accept_events l))"
    unfolding set_event_def by (simp add: set_update_subset_insert)
  ultimately show ?thesis
    using assms k
    by (auto simp: listener_inv_def slots_set_event nth_set_event AcceptEvent_new_def)
qed

lemma listener_clear:
  assumes "listener_inv io l" "k < length (ln_accept_events l)" "k \<notin> slots l"
  shows "listener_inv io (set_event k AcceptEvent_new l)"
proof -
  have "set (ln_accept_events (set_event k AcceptEvent_new l)) \<subseteq> insert AcceptEvent_new (set (ln_accept_events l))"
    unfolding set_event_def by (simp add: set_update_subset_insert)
  then show ?thesis
    using assms by (auto simp: listener_inv_def slots_set_event nth_set_event AcceptEvent_new_def)
qed

lemma listener_acquire:
  assumes "listener_inv io l" "k < length (ln_accept_events l)" "k \<notin> slots l" "k \<notin> set (ln_accept_retry l)"
    and new: "\<forall>k' \<in> slots l. ac_session (ln_accept_events l ! k') \<noteq> Some i"
  shows "listener_inv io ((set_event k \<lparr>ac_session = Some i, ac_owner = True\<rparr> l)\<lparr>ln_pending_io := begin_io (ln_pending_io l)\<rparr>)"
proof -
  have sub: "set (ln_accept_events (set_event k \<lparr>ac_session = Some i, ac_owner = True\<rparr> l))
      \<subseteq> insert \<lparr>ac_session = Some i, ac_owner = True\<rparr> (set (ln_accept_events l))"
    unfolding set_event_def by (simp add: set_update_subset_insert)
  have "ac_session (ln_accept_events l ! k') \<noteq> Some i" if "k' \<in> slots l" for k' using new that by blast
  with sub assms(1-4) show ?thesis
    by (auto simp: listener_inv_def slots_set_event nth_set_event begin_io_def) metis+
qed

lemma listener_reserve:
  assumes "listener_inv io l" "k < length (ln_accept_events l)" "k \<notin> slots l" "k \<notin> set (ln_accept_retry l)"
  shows "listener_inv io (l\<lparr>ln_accept_retry := ln_accept_retry l @ [k]\<rparr>)"
  using assms by (auto simp: listener_inv_def)

lemma listener_finish:
  assumes "listener_inv (Suc io) l" "io \<le> 1"
  shows "\<exists>n. finish_io (ln_pending_io l) = Some n \<and> listener_inv io (l\<lparr>ln_pending_io := n\<rparr>)"
proof -
  have "card (slots l) + io < 2 ^ 32 - 1"
    using assms card_slots [of l] by (simp add: listener_inv_def ACCEPT_COUNT_def)
  from finish_io_of_nat [OF this] assms(1) show ?thesis by (simp add: listener_inv_def)
qed

section \<open>The operations keep the invariant\<close>

lemma new_session_accepting: "accepting (GameSession_new True)"
  by (simp add: accepting_def unconnected_def dormant_def owners_def GameSession_new_def Session.extend_def
      Session_new_def GameSession.fields_def SendEvent_new_def rb_data_new) (simp add: RecvBuffer_new_def free_size_def)

lemma accepting_gone: "accepting s \<Longrightarrow> gone s"
  by (simp add: accepting_def gone_def unconnected_def)

lemma service_listener:
  assumes "service_inv io sv" "listener_inv io' l" "slots l \<subseteq> slots (sv_listener sv)"
    "\<And>k. k \<in> slots l \<Longrightarrow> ac_session (ln_accept_events l ! k) = ac_session (ln_accept_events (sv_listener sv) ! k)"
  shows "service_inv io' (sv\<lparr>sv_listener := l\<rparr>)"
  using assms by (auto simp: service_inv_def sessions_inv_def)

lemma service_drop:
  assumes "service_inv io sv" "w_sessions (sv_world sv) i = Some s" "gone s"
    "\<forall>k \<in> slots (sv_listener sv). ac_session (ln_accept_events (sv_listener sv) ! k) \<noteq> Some i"
  shows "service_inv io (release_live_session i sv)"
proof -
  have "\<exists>j t. ac_session (ln_accept_events (sv_listener sv) ! k) = Some j \<and> j \<in> set (removeAll i (sv_live_sessions sv)) \<and>
      w_sessions (sv_world sv) j = Some t \<and> accepting t" if "k \<in> slots (sv_listener sv)" for k
    using assms(1,4) that by (fastforce simp: service_inv_def sessions_inv_def)
  with assms show ?thesis by (auto simp: service_inv_def sessions_inv_def release_live_session_def)
qed

lemma create_session_inv:
  assumes sv: "service_inv io sv" "new_address e sv" and c: "create_session e sv = (Some i, sv')"
  shows "service_inv io sv'" "i = ae_session e" "sv_listener sv' = sv_listener sv"
    "i \<in> set (sv_live_sessions sv')" "w_sessions (sv_world sv') i = Some (GameSession_new True)"
    "\<forall>k \<in> slots (sv_listener sv). ac_session (ln_accept_events (sv_listener sv) ! k) \<noteq> Some i"
proof -
  let ?w = "(sv_world sv)\<lparr>w_sessions := (w_sessions (sv_world sv))(ae_session e \<mapsto> GameSession_new True)\<rparr>"
  have eq: "i = ae_session e" "sv' = sv\<lparr>sv_world := ?w, sv_live_sessions := ae_session e # sv_live_sessions sv\<rparr>"
    using c by (auto simp: create_session_def split: if_splits)
  have new: "w_sessions (sv_world sv) i = None" using sv(2) eq(1) by (simp add: new_address_def)
  have "world_inv None ?w" using create_world sv(1) new eq(1) by (simp add: service_inv_def)
  moreover have "sessions_inv sv'" using sv(1) new by (fastforce simp: eq service_inv_def sessions_inv_def)
  ultimately show "service_inv io sv'" using sv(1) by (simp add: service_inv_def eq)
  show "i = ae_session e" "sv_listener sv' = sv_listener sv" "i \<in> set (sv_live_sessions sv')"
    "w_sessions (sv_world sv') i = Some (GameSession_new True)" by (simp_all add: eq)
  show "\<forall>k \<in> slots (sv_listener sv). ac_session (ln_accept_events (sv_listener sv) ! k) \<noteq> Some i"
    using sv(1) new by (fastforce simp: service_inv_def sessions_inv_def)
qed

lemma create_session_None: "create_session e sv = (None, sv') \<Longrightarrow> sv' = sv"
  by (auto simp: create_session_def split: if_splits)

lemma service_acquire:
  assumes sv: "service_inv io sv" and k: "k < length (ln_accept_events (sv_listener sv))" "k \<notin> slots (sv_listener sv)"
      "k \<notin> set (ln_accept_retry (sv_listener sv))"
    and i: "i \<in> set (sv_live_sessions sv)" "w_sessions (sv_world sv) i = Some s" "accepting s"
      "\<forall>k' \<in> slots (sv_listener sv). ac_session (ln_accept_events (sv_listener sv) ! k') \<noteq> Some i"
  shows "service_inv io (on_listener (\<lambda>l. l\<lparr>ln_pending_io := begin_io (ln_pending_io l)\<rparr>)
    (on_listener (set_event k \<lparr>ac_session = Some i, ac_owner = True\<rparr>) sv))"
proof -
  have "listener_inv io ((set_event k \<lparr>ac_session = Some i, ac_owner = True\<rparr> (sv_listener sv))
      \<lparr>ln_pending_io := begin_io (ln_pending_io (sv_listener sv))\<rparr>)"
    by (rule listener_acquire) (use sv k i in \<open>auto simp: service_inv_def\<close>)
  moreover have "sessions_inv (on_listener (set_event k \<lparr>ac_session = Some i, ac_owner = True\<rparr>) sv)"
    using sv k i by (auto simp: service_inv_def sessions_inv_def slots_set_event nth_set_event)
  ultimately show ?thesis using sv by (simp add: service_inv_def sessions_inv_def)
qed

lemma register_accept_inv:
  assumes sv: "service_inv io sv" "io \<le> 1" "new_address e sv"
    and k: "k < length (ln_accept_events (sv_listener sv))" "k \<notin> slots (sv_listener sv)"
      "k \<notin> set (ln_accept_retry (sv_listener sv))"
  shows "\<exists>sv'. register_accept e k sv = Some sv' \<and> service_inv io sv'"
proof (cases "ln_accept_stopped (sv_listener sv) \<or> \<not> ln_socket_open (sv_listener sv)")
  case False
  have li: "listener_inv io (sv_listener sv)" using sv(1) by (simp add: service_inv_def)
  let ?clear = "set_event k AcceptEvent_new (sv_listener sv)"
  have clear: "listener_inv io ?clear" by (rule listener_clear [OF li k(1,2)])
  have slots: "slots ?clear = slots (sv_listener sv)" using k by (simp add: slots_set_event AcceptEvent_new_def)
  have reserve: "listener_inv io (?clear\<lparr>ln_accept_retry := ln_accept_retry (sv_listener sv) @ [k]\<rparr>)"
    using listener_reserve [OF clear] k slots by simp
  have ev: "ac_session (ln_accept_events ?clear ! j) = ac_session (ln_accept_events (sv_listener sv) ! j)"
    if "j \<in> slots (sv_listener sv)" for j
    using that k by (auto simp: nth_set_event)
  obtain r sv1 where c: "create_session e sv = (r, sv1)" by fastforce
  show ?thesis
  proof (cases r)
    case None
    then have "sv1 = sv" using create_session_None c by blast
    moreover have "service_inv io (sv\<lparr>sv_listener := ?clear\<lparr>ln_accept_retry := ln_accept_retry (sv_listener sv) @ [k]\<rparr>\<rparr>)"
      by (rule service_listener [OF sv(1) reserve]) (simp_all add: slots ev)
    ultimately show ?thesis
      using False None c by (simp add: register_accept_def reserve_accept_retry_def)
  next
    case (Some i)
    note n = create_session_inv [OF sv(1,3) c [unfolded Some]]
    let ?l = "set_event k \<lparr>ac_session = Some i, ac_owner = True\<rparr> (sv_listener sv)"
    let ?sv = "on_listener (\<lambda>l. l\<lparr>ln_pending_io := begin_io (ln_pending_io l)\<rparr>)
        (on_listener (set_event k \<lparr>ac_session = Some i, ac_owner = True\<rparr>) sv1)"
    have got: "service_inv io ?sv"
      by (rule service_acquire [OF n(1) _ _ _ n(4,5) new_session_accepting]) (use k n(3,6) in simp_all)
    have failed: "\<exists>sv'. register_accept e k sv = Some sv' \<and> service_inv io sv'" if f: "ae_AcceptEx e = IO_ERR err" "err \<noteq> WSA_IO_PENDING" for err
    proof -
      have "card (slots (sv_listener sv)) + io < 2 ^ 32 - 1"
        using sv(2) card_slots [of "sv_listener sv"] li by (simp add: listener_inv_def ACCEPT_COUNT_def)
      then have fin: "finish_io (begin_io (ln_pending_io (sv_listener sv))) = Some (ln_pending_io (sv_listener sv))"
        using finish_io_of_nat [of "card (slots (sv_listener sv)) + io"] li
        by (simp add: listener_inv_def begin_io_def add.commute add.left_commute)
      have over: "set_event k AcceptEvent_new (?l\<lparr>ln_pending_io := p\<rparr>) = ?clear\<lparr>ln_pending_io := p\<rparr>" for p
        by (simp add: set_event_def)
      have drop: "service_inv io (release_live_session i sv1)"
        by (rule service_drop [OF n(1,5) accepting_gone [OF new_session_accepting]]) (use n(3,6) in simp)
      have "service_inv io ((release_live_session i sv1)\<lparr>sv_listener := ?clear\<rparr>)"
        "service_inv io ((release_live_session i sv1)\<lparr>sv_listener := ?clear\<lparr>ln_accept_retry := ln_accept_retry (sv_listener sv) @ [k]\<rparr>\<rparr>)"
        by (intro service_listener [OF drop clear] service_listener [OF drop reserve];
            simp add: slots ev n(3) release_live_session_def)+
      moreover have keep: "?clear\<lparr>ln_pending_io := ln_pending_io (sv_listener sv)\<rparr> = ?clear" by (simp add: set_event_def)
      ultimately show ?thesis
        using False c Some f fin
        by (simp add: register_accept_def n(3) over keep release_live_session_def reserve_accept_retry_def Let_def)
    qed
    have "register_accept e k sv = Some ?sv" if "ae_AcceptEx e = IO_OK \<or> ae_AcceptEx e = IO_ERR WSA_IO_PENDING"
      using False c Some that by (auto simp: register_accept_def Let_def)
    with got failed show ?thesis by (cases "ae_AcceptEx e") blast+
  qed
qed (use sv in \<open>simp add: register_accept_def\<close>)

context server_runtime
begin

lemma process_accept_inv:
  assumes sv: "service_inv 0 sv" "k \<in> slots (sv_listener sv)" "new_address e' sv"
  shows "\<exists>sv'. process_accept x e e' k sv = Some sv' \<and> service_inv 1 sv'"
proof -
  let ?l = "set_event k AcceptEvent_new (sv_listener sv)" and ?sv = "on_listener (set_event k AcceptEvent_new) sv"
  have k: "k < length (ln_accept_events (sv_listener sv))" using sv(2) by (simp add: slots_def)
  have li: "listener_inv 0 (sv_listener sv)" using sv(1) by (simp add: service_inv_def)
  have slots: "slots ?l = slots (sv_listener sv) - {k}" using k by (simp add: slots_set_event AcceptEvent_new_def)
  have retry: "k \<notin> set (ln_accept_retry (sv_listener sv))" using li sv(2) by (auto simp: listener_inv_def)
  obtain i s where i: "ac_session (ln_accept_events (sv_listener sv) ! k) = Some i" "i \<in> set (sv_live_sessions sv)"
    "w_sessions (sv_world sv) i = Some s" "accepting s"
    using sv(1,2) by (auto simp: service_inv_def sessions_inv_def)
  have other: "ac_session (ln_accept_events (sv_listener sv) ! j) \<noteq> Some i" if "j \<in> slots (sv_listener sv)" "j \<noteq> k" for j
    using li that sv(2) i(1) unfolding listener_inv_def by metis
  have l1: "listener_inv 1 ?l" using listener_release [OF li sv(2)] by simp
  have sv1: "service_inv 1 ?sv"
    by (rule service_listener [OF sv(1) l1]) (use k in \<open>auto simp: slots nth_set_event\<close>)
  have sv2: "service_inv 1 (reserve_accept_retry k ?sv)"
    unfolding reserve_accept_retry_def
    by (rule service_listener [OF sv1 listener_reserve]) (use l1 k slots retry in simp_all)
  have drop: "service_inv 1 (release_live_session i ?sv)" "service_inv 1 (release_live_session i (reserve_accept_retry k ?sv))"
    by (intro service_drop [OF sv1] service_drop [OF sv2];
        use i(3) accepting_gone [OF i(4)] slots other k in \<open>auto simp: reserve_accept_retry_def nth_set_event\<close>)+
  have "world_inv None (sv_world sv)" "unconnected s" using sv(1) i(4) by (simp_all add: service_inv_def accepting_def)
  then obtain w where w: "accept_connection x i (sv_world sv) = Some w" "world_inv None w"
    using accept_world [OF _ i(3)] by blast
  have bys: "bystanders i (sv_world sv) w" by (rule bystanders_accept [OF w(1)])
  have keep: "w_sessions w j = Some t" if "w_sessions (sv_world sv) j = Some t" "dormant t" "j \<noteq> i" for j t
    using bys that by (simp add: bystanders_def dormant_def)
  have before: "\<exists>t. w_sessions (sv_world sv) j = Some t" if "w_sessions w j = Some t'" for j t'
    using bys that by (metis bystanders_def option.exhaust option.distinct(1))
  have "sessions_inv (?sv\<lparr>sv_world := w\<rparr>)"
    unfolding sessions_inv_def
  proof (intro conjI ballI allI impI)
    fix j assume "j \<in> slots (sv_listener (?sv\<lparr>sv_world := w\<rparr>))"
    then have j: "j \<in> slots (sv_listener sv)" "j \<noteq> k" using slots by simp_all
    then obtain h t where h: "ac_session (ln_accept_events (sv_listener sv) ! j) = Some h" "h \<in> set (sv_live_sessions sv)"
      "w_sessions (sv_world sv) h = Some t" "accepting t" using sv(1) by (auto simp: service_inv_def sessions_inv_def)
    then have "w_sessions w h = Some t" using keep other [OF j] by (auto simp: accepting_def)
    with h j k show "\<exists>i s. ac_session (ln_accept_events (sv_listener (?sv\<lparr>sv_world := w\<rparr>)) ! j) = Some i \<and>
        i \<in> set (sv_live_sessions (?sv\<lparr>sv_world := w\<rparr>)) \<and> w_sessions (sv_world (?sv\<lparr>sv_world := w\<rparr>)) i = Some s \<and> accepting s"
      by (auto simp: nth_set_event)
  next
    fix j assume "j \<in> set (sv_live_sessions (?sv\<lparr>sv_world := w\<rparr>))"
    with sv(1) bys show "w_sessions (sv_world (?sv\<lparr>sv_world := w\<rparr>)) j \<noteq> None"
      by (simp add: service_inv_def sessions_inv_def bystanders_def)
  next
    fix j t assume j: "w_sessions (sv_world (?sv\<lparr>sv_world := w\<rparr>)) j = Some t" "j \<notin> set (sv_live_sessions (?sv\<lparr>sv_world := w\<rparr>))"
    then have "j \<noteq> i" using i(2) by auto
    moreover obtain t' where "w_sessions (sv_world sv) j = Some t'" using before j(1) by auto
    moreover from this have "gone t'" using sv(1) j(2) by (simp add: service_inv_def sessions_inv_def)
    ultimately show "gone t" using keep [of j t'] j(1) by (simp add: gone_def)
  qed
  then have sv3: "service_inv 1 (?sv\<lparr>sv_world := w\<rparr>)" using l1 w(2) by (simp add: service_inv_def)
  have new: "new_address e' (?sv\<lparr>sv_world := w\<rparr>)" using sv(3) bys by (simp add: new_address_def bystanders_def)
  obtain sv' where "register_accept e' k (?sv\<lparr>sv_world := w\<rparr>) = Some sv'" "service_inv 1 sv'"
    using register_accept_inv [OF sv3 _ new, of k] k slots retry by auto
  with drop i(1) w(1) show ?thesis by (simp add: process_accept_def Let_def)
qed

lemma accept_completion_inv:
  assumes "service_inv 0 sv" "new_address e' sv" "k < length (ln_accept_events (sv_listener sv))"
  shows "\<exists>sv'. accept_completion x e e' k sv = Some sv' \<and> service_inv 0 sv'"
proof (cases "ac_owner (ln_accept_events (sv_listener sv) ! k)")
  case True
  then have "k \<in> slots (sv_listener sv)" using assms(3) by (simp add: slots_def)
  from process_accept_inv [OF assms(1) this assms(2)] obtain sv' where
    sv': "process_accept x e e' k sv = Some sv'" "service_inv 1 sv'" by blast
  then have "listener_inv (Suc 0) (sv_listener sv')" by (simp add: service_inv_def)
  from listener_finish [OF this] obtain n where
    "finish_io (ln_pending_io (sv_listener sv')) = Some n" "listener_inv 0 ((sv_listener sv')\<lparr>ln_pending_io := n\<rparr>)" by auto
  with True sv' service_listener [OF sv'(2), of 0 "(sv_listener sv')\<lparr>ln_pending_io := n\<rparr>"] show ?thesis
    by (simp add: accept_completion_def)
qed (use assms in \<open>simp add: accept_completion_def\<close>)

end

lemma accept_retry_inv:
  assumes sv: "service_inv 0 sv" "new_address e sv" and k: "k \<in> set (ln_accept_retry (sv_listener sv))"
  shows "\<exists>sv'. accept_retry e k sv = Some sv' \<and> service_inv 0 sv'"
proof -
  let ?l = "(sv_listener sv)\<lparr>ln_accept_retry := remove1 k (ln_accept_retry (sv_listener sv))\<rparr>"
  have li: "listener_inv 0 (sv_listener sv)" using sv(1) by (simp add: service_inv_def)
  then have "distinct (ln_accept_retry (sv_listener sv))" by (simp add: listener_inv_def)
  then have l: "listener_inv 0 ?l" using li by (auto simp: listener_inv_def set_remove1_eq)
  have "service_inv 0 (sv\<lparr>sv_listener := ?l\<rparr>)" by (rule service_listener [OF sv(1) l]) simp_all
  moreover have "k \<notin> set (ln_accept_retry ?l)" "k < length (ln_accept_events ?l)" "k \<notin> slots ?l"
    using li k by (auto simp: listener_inv_def set_remove1_eq)
  moreover have "new_address e (sv\<lparr>sv_listener := ?l\<rparr>)" using sv(2) by (simp add: new_address_def)
  ultimately show ?thesis
    using register_accept_inv [of 0 "sv\<lparr>sv_listener := ?l\<rparr>" e k] by (simp add: accept_retry_def)
qed

lemma service_destroy:
  assumes sv: "service_inv io sv" and u: "unreferenced sv i"
  shows "service_inv io (release_live_session i sv)"
proof -
  obtain s where s: "w_sessions (sv_world sv) i = Some s" "dormant s" "\<not> gs_is_login s" "i \<notin> set (sm_sessions (w_manager (sv_world sv)))"
    using u by (auto simp: unreferenced_def split: option.splits)
  have "members_ok (profiles (sv_world sv)) (w_manager (sv_world sv))"
    using sv by (auto simp: service_inv_def tables_inv_def dest: world_tables)
  then have "gone s" using s profiles_Some [OF s(1)] by (auto simp: gone_def members_ok_def)
  moreover have "\<forall>k \<in> slots (sv_listener sv). ac_session (ln_accept_events (sv_listener sv) ! k) \<noteq> Some i"
    using u by (auto simp: unreferenced_def slots_def)
  ultimately show ?thesis using service_drop [OF sv s(1)] by blast
qed

context server_runtime
begin

lemma service_server_inv:
  assumes sv: "service_inv io sv" and lim: "within_limits (sv_world sv)" and ev: "runtime_event ev"
  shows "\<exists>w. server_step x ev (sv_world sv) = Some w \<and> service_inv io (sv\<lparr>sv_world := w\<rparr>)"
proof -
  have "world_inv None (sv_world sv)" using sv by (simp add: service_inv_def)
  then obtain w where w: "server_step x ev (sv_world sv) = Some w" "world_inv None w"
    using server_step_world [OF _ lim] by blast
  note dom = runtime_event_dom [OF w(1) ev] and keep = dormant_unchanged [OF w(1) ev]
  have "sessions_inv (sv\<lparr>sv_world := w\<rparr>)"
    unfolding sessions_inv_def
  proof (intro conjI ballI allI impI)
    fix k assume "k \<in> slots (sv_listener (sv\<lparr>sv_world := w\<rparr>))"
    then obtain i s where i: "ac_session (ln_accept_events (sv_listener sv) ! k) = Some i" "i \<in> set (sv_live_sessions sv)"
      "w_sessions (sv_world sv) i = Some s" "accepting s" using sv by (auto simp: service_inv_def sessions_inv_def)
    moreover from i(4) have "w_sessions w i = Some s" using keep [OF i(3)] by (simp add: accepting_def)
    ultimately show "\<exists>i s. ac_session (ln_accept_events (sv_listener (sv\<lparr>sv_world := w\<rparr>)) ! k) = Some i \<and>
        i \<in> set (sv_live_sessions (sv\<lparr>sv_world := w\<rparr>)) \<and> w_sessions (sv_world (sv\<lparr>sv_world := w\<rparr>)) i = Some s \<and> accepting s"
      by simp
  next
    fix i assume "i \<in> set (sv_live_sessions (sv\<lparr>sv_world := w\<rparr>))"
    with sv dom show "w_sessions (sv_world (sv\<lparr>sv_world := w\<rparr>)) i \<noteq> None" by (simp add: service_inv_def sessions_inv_def)
  next
    fix i t assume i: "w_sessions (sv_world (sv\<lparr>sv_world := w\<rparr>)) i = Some t" "i \<notin> set (sv_live_sessions (sv\<lparr>sv_world := w\<rparr>))"
    then obtain s where s: "w_sessions (sv_world sv) i = Some s" using dom [of i] by auto
    with sv i(2) have "gone s" by (simp add: service_inv_def sessions_inv_def)
    with keep [OF s] i(1) show "gone t" by (simp add: gone_def)
  qed
  with w sv show ?thesis by (simp add: service_inv_def)
qed

lemma service_step_inv:
  assumes sv: "service_inv 0 sv" and lim: "within_limits (sv_world sv)"
  shows "\<exists>sv'. service_step x ev sv = Some sv' \<and> service_inv 0 sv'"
proof (cases ev)
  case (S_accept k e e')
  with sv accept_completion_inv [OF sv] show ?thesis by simp
next
  case (S_retry k e)
  with sv accept_retry_inv [OF sv] show ?thesis by simp
next
  case (S_server ev')
  with sv service_server_inv [OF sv lim, of ev'] show ?thesis by auto
next
  case (S_destroy i)
  with sv service_destroy [OF sv] show ?thesis by simp
next
  case S_close
  have "listener_inv 0 (close_socket (sv_listener sv)) \<and> slots (close_socket (sv_listener sv)) = slots (sv_listener sv) \<and>
      ln_accept_events (close_socket (sv_listener sv)) = ln_accept_events (sv_listener sv)"
    using sv by (simp add: service_inv_def close_socket_def listener_inv_def)
  with S_close service_listener [OF sv, of 0 "close_socket (sv_listener sv)"] show ?thesis
    by (simp add: close_listener_def)
qed

end

section \<open>The start\<close>

lemma listener_append:
  assumes "listener_inv io l" "length (ln_accept_events l) < ACCEPT_COUNT"
  shows "listener_inv io (l\<lparr>ln_accept_events := ln_accept_events l @ [AcceptEvent_new]\<rparr>)"
    "slots (l\<lparr>ln_accept_events := ln_accept_events l @ [AcceptEvent_new]\<rparr>) = slots l"
proof -
  show s: "slots (l\<lparr>ln_accept_events := ln_accept_events l @ [AcceptEvent_new]\<rparr>) = slots l"
    by (auto simp: slots_def nth_append AcceptEvent_new_def less_Suc_eq)
  have "ac_session ((ln_accept_events l @ [AcceptEvent_new]) ! k) = ac_session (ln_accept_events l ! k)" if "k \<in> slots l" for k
    using that by (simp add: slots_def nth_append)
  with s assms show "listener_inv io (l\<lparr>ln_accept_events := ln_accept_events l @ [AcceptEvent_new]\<rparr>)"
    by (auto simp: listener_inv_def AcceptEvent_new_def less_Suc_eq)
qed

lemma register_accept_frame:
  assumes "register_accept e k sv = Some sv'"
  shows "length (ln_accept_events (sv_listener sv')) = length (ln_accept_events (sv_listener sv))"
    "set (ln_accept_retry (sv_listener sv')) \<subseteq> insert k (set (ln_accept_retry (sv_listener sv)))"
    "i \<noteq> ae_session e \<Longrightarrow> w_sessions (sv_world sv') i = w_sessions (sv_world sv) i"
  using assms
  by (auto simp: register_accept_def create_session_def reserve_accept_retry_def release_live_session_def Let_def
      split: if_splits io_result.splits prod.splits option.splits)

lemma register_all_inv:
  assumes "service_inv 0 sv" "ln_accept_events (sv_listener sv) = []" "ln_accept_retry (sv_listener sv) = []"
    and "inj_on (\<lambda>n. ae_session (es n)) {..<n}" "\<forall>m < n. w_sessions (sv_world sv) (ae_session (es m)) = None"
    and "n \<le> ACCEPT_COUNT"
  shows "\<exists>sv'. register_all es n sv = Some sv' \<and> service_inv 0 sv' \<and> length (ln_accept_events (sv_listener sv')) = n \<and>
    (\<forall>k \<in> set (ln_accept_retry (sv_listener sv')). k < n) \<and>
    (\<forall>i. (\<forall>m < n. i \<noteq> ae_session (es m)) \<longrightarrow> w_sessions (sv_world sv') i = w_sessions (sv_world sv) i)"
  using assms(4-6)
proof (induction n)
  case 0
  with assms(1-3) show ?case by simp
next
  case (Suc n)
  have "inj_on (\<lambda>n. ae_session (es n)) {..<n}" by (rule inj_on_subset [OF Suc.prems(1)]) auto
  moreover have "\<forall>m < n. w_sessions (sv_world sv) (ae_session (es m)) = None" "n \<le> ACCEPT_COUNT"
    using Suc.prems(2,3) by simp_all
  ultimately obtain sv1 where sv1: "register_all es n sv = Some sv1" "service_inv 0 sv1"
    "length (ln_accept_events (sv_listener sv1)) = n" "\<forall>k \<in> set (ln_accept_retry (sv_listener sv1)). k < n"
    "\<And>i. \<forall>m < n. i \<noteq> ae_session (es m) \<Longrightarrow> w_sessions (sv_world sv1) i = w_sessions (sv_world sv) i"
    using Suc.IH by blast
  let ?sv = "on_listener (\<lambda>l. l\<lparr>ln_accept_events := ln_accept_events l @ [AcceptEvent_new]\<rparr>) sv1"
  have l: "listener_inv 0 (sv_listener sv1)" using sv1(2) by (simp add: service_inv_def)
  have n: "length (ln_accept_events (sv_listener sv1)) < ACCEPT_COUNT" using sv1(3) Suc.prems(3) by simp
  have inv: "service_inv 0 ?sv"
    by (rule service_listener [OF sv1(2) listener_append(1) [OF l n]])
      (simp_all add: listener_append(2) [OF l n], simp add: slots_def nth_append)
  have "\<forall>m < n. ae_session (es n) \<noteq> ae_session (es m)"
    using Suc.prems(1) inj_onD [OF Suc.prems(1), of n] by fastforce
  then have "new_address (es n) ?sv" using sv1(5) [of "ae_session (es n)"] Suc.prems(2) by (simp add: new_address_def)
  moreover have "n \<notin> slots (sv_listener sv1)" using sv1(3) by (simp add: slots_def)
  moreover have "n \<notin> set (ln_accept_retry (sv_listener sv1))" using sv1(4) by blast
  ultimately obtain sv' where sv': "register_accept (es n) n ?sv = Some sv'" "service_inv 0 sv'"
    using register_accept_inv [OF inv, of "es n" n] sv1(3) listener_append(2) [OF l n] by auto
  note fr = register_accept_frame [OF sv'(1)]
  have "\<forall>k \<in> set (ln_accept_retry (sv_listener sv')). k < Suc n" using fr(2) sv1(4) by (auto simp: less_Suc_eq)
  moreover have "w_sessions (sv_world sv') i = w_sessions (sv_world sv) i" if "\<forall>m < Suc n. i \<noteq> ae_session (es m)" for i
    using fr(3) [of i] sv1(5) [of i] that by simp
  ultimately show ?case using sv1(1,3) sv' fr(1) by simp
qed

end
