(* ===== verification/ServiceRun.thy ===== *)
theory ServiceRun
  imports AcceptLoop GameProps
begin

text \<open>
  Runs of the service: from \<open>ServerService::start\<close> on, accepts and retries, completions, jobs and the end of
  sessions.  The listener and the service do to the game server nothing but steps of the event model of
  \<open>GameHandlers\<close>, so that what is proved of its runs holds of the service.
\<close>

inductive service_reachable :: "int \<Rightarrow> service \<Rightarrow> bool" for n where
  start: "ServerService_start le es (Service_new n) = Some (True, sv) \<Longrightarrow>
    inj_on (\<lambda>k. ae_session (es k)) {..<ACCEPT_COUNT} \<Longrightarrow> service_reachable n sv"
| step: "service_reachable n sv \<Longrightarrow> within_limits (sv_world sv) \<Longrightarrow> server_runtime x \<Longrightarrow>
    service_step x ev sv = Some sv' \<Longrightarrow> service_reachable n sv'"

lemma start_inv:
  assumes s: "ServerService_start le es (Service_new n) = Some (True, sv)" and n: "0 \<le> n"
    and inj: "inj_on (\<lambda>k. ae_session (es k)) {..<ACCEPT_COUNT}"
  shows "service_inv 0 sv" "register_all es ACCEPT_COUNT ((Service_new n)\<lparr>sv_listener := Listener_new\<lparr>ln_socket_open := True\<rparr>\<rparr>) = Some sv"
proof -
  let ?sv = "(Service_new n)\<lparr>sv_listener := Listener_new\<lparr>ln_socket_open := True\<rparr>\<rparr>"
  have "listener_inv 0 (Listener_new\<lparr>ln_socket_open := True\<rparr>)" by (simp add: listener_inv_def Listener_new_def slots_def)
  then have "service_inv 0 ?sv"
    using world_new_inv [OF n] by (simp add: service_inv_def sessions_inv_def Service_new_def slots_def Listener_new_def)
      (simp add: world_new_def)
  moreover have none: "\<forall>m < ACCEPT_COUNT. w_sessions (sv_world ?sv) (ae_session (es m)) = None"
    by (simp add: Service_new_def world_new_def)
  ultimately obtain sv' where sv': "register_all es ACCEPT_COUNT ?sv = Some sv'" "service_inv 0 sv'"
    using register_all_inv [OF _ _ _ inj none] by (auto simp: Listener_new_def)
  have "start_accept le es ((Service_new n)\<lparr>sv_listener := Listener_new\<rparr>) = Some (True, sv)"
    using s by (auto simp: ServerService_start_def can_start_def Service_new_def split: if_splits)
  then have "register_all es ACCEPT_COUNT ?sv = Some sv"
    by (auto simp: start_accept_def Let_def split: if_splits)
  with sv' show "service_inv 0 sv" "register_all es ACCEPT_COUNT ?sv = Some sv" by simp_all
qed

lemma service_reachable_inv:
  assumes "service_reachable n sv" "0 \<le> n"
  shows "service_inv 0 sv"
  using assms
proof (induction rule: service_reachable.induct)
  case (start le es sv)
  then show ?case using start_inv(1) by blast
next
  case (step sv x ev sv')
  then show ?case using server_runtime.service_step_inv [of x sv ev] by auto
qed

section \<open>Refinement\<close>

lemma within_limits_create:
  "within_limits w \<Longrightarrow> within_limits (w\<lparr>w_sessions := (w_sessions w)(i \<mapsto> GameSession_new True)\<rparr>)"
  by (simp add: within_limits_def new_session_defs)

lemma register_accept_refines:
  assumes r: "register_accept e k sv = Some sv'" and new: "new_address e sv"
    and w: "reachable n (sv_world sv)" "within_limits (sv_world sv)"
  shows "reachable n (sv_world sv') \<and> within_limits (sv_world sv')"
proof -
  let ?w = "(sv_world sv)\<lparr>w_sessions := (w_sessions (sv_world sv))(ae_session e \<mapsto> GameSession_new True)\<rparr>"
  have "sv_world sv' = sv_world sv \<or> sv_world sv' = ?w"
    using r by (auto simp: register_accept_def create_session_def reserve_accept_retry_def release_live_session_def Let_def
        split: if_splits io_result.splits)
  moreover have "server_step ref_ext (Ev_create (ae_session e)) (sv_world sv) = Some ?w"
    using new by (simp add: new_address_def)
  ultimately show ?thesis
    using w reachable.step [OF w ref_ext.server_runtime_axioms] within_limits_create [OF w(2)] by metis
qed

lemma accept_connection_effect:
  assumes a: "accept_connection x i w = Some w'" and s: "w_sessions w i = Some s"
  shows "\<exists>s'. w_sessions w' = (w_sessions w)(i \<mapsto> s') \<and> w_login w' = w_login w \<and>
    length (ss_logic_queue s') \<le> Suc (length (ss_logic_queue s))"
proof -
  have conn: "length (ss_logic_queue s') \<le> Suc (length (ss_logic_queue s))" if "process_connect env s = Some s'" for env s'
  proof -
    let ?s = "s\<lparr>ss_was_connected := True, ss_is_connect := True\<rparr>"
    have "quiet ?s s'"
      using that by (auto simp: process_connect_def register_recv_def Let_def bind_eq_Some_conv handle_error_def
          split: if_splits elim!: disconnect_quiet session_finish_io_quiet)
    from quiet_queue [OF this] show ?thesis by simp
  qed
  have rej: "length (ss_logic_queue s') \<le> Suc (length (ss_logic_queue s))" if "reject_connection env notice s = Some s'" for env notice s'
  proof -
    let ?s = "s\<lparr>ss_is_connect := True, ss_was_connected := True, ss_close_after_send := True\<rparr>"
    have "quiet ?s s' \<or> s' = s"
      using that by (auto simp: reject_connection_def Let_def split: if_splits option.splits
          elim: disconnect_quiet dest: send_quiet)
    then show ?thesis using quiet_queue [of ?s s'] by auto
  qed
  consider "w' = w" | env s' where "process_connect env s = Some s'" "w_sessions w' = (w_sessions w)(i \<mapsto> s')" "w_login w' = w_login w"
    | env notice s' where "reject_connection env notice s = Some s'" "w_sessions w' = (w_sessions w)(i \<mapsto> s')" "w_login w' = w_login w"
    using a s by (auto simp: accept_connection_def with_session_def Let_def split: if_splits prod.splits)
  then show ?thesis
  proof cases
    case 1
    have "w_sessions w = (w_sessions w)(i \<mapsto> s)" using s by auto
    with 1 show ?thesis by (intro exI [of _ s]) simp
  qed (use conn rej in blast)+
qed

lemma accept_limits:
  assumes a: "accept_connection x i w = Some w'" and s: "w_sessions w i = Some s" "ss_logic_queue s = []"
    and lim: "within_limits w"
  shows "within_limits w'"
proof -
  obtain s' where "w_sessions w' = (w_sessions w)(i \<mapsto> s')" "w_login w' = w_login w" "length (ss_logic_queue s') \<le> 1"
    using accept_connection_effect [OF a s(1)] s(2) by auto
  with lim show ?thesis by (auto simp: within_limits_def)
qed

lemma accept_completion_refines:
  assumes a: "accept_completion x e e' k sv = Some sv'" and x: "server_runtime x" and inv: "service_inv 0 sv"
    and k: "k < length (ln_accept_events (sv_listener sv))" and new: "new_address e' sv"
    and w: "reachable n (sv_world sv)" "within_limits (sv_world sv)"
  shows "reachable n (sv_world sv')"
proof (cases "k \<in> slots (sv_listener sv)")
  case True
  then obtain i s where i: "ac_session (ln_accept_events (sv_listener sv) ! k) = Some i"
    "w_sessions (sv_world sv) i = Some s" "accepting s" using inv by (auto simp: service_inv_def sessions_inv_def)
  let ?sv = "on_listener (set_event k AcceptEvent_new) sv"
  obtain sv1 where sv1: "process_accept x e e' k sv = Some sv1" "sv_world sv' = sv_world sv1"
    using a True by (auto simp: accept_completion_def slots_def bind_eq_Some_conv)
  have "sv_world sv1 = sv_world sv \<or>
      (\<exists>v. accept_connection x i (sv_world sv) = Some v \<and> register_accept e' k (?sv\<lparr>sv_world := v\<rparr>) = Some sv1)"
    using sv1(1) i(1) by (auto simp: process_accept_def Let_def bind_eq_Some_conv release_live_session_def
        reserve_accept_retry_def split: if_splits)
  then show ?thesis
  proof
    assume "\<exists>v. accept_connection x i (sv_world sv) = Some v \<and> register_accept e' k (?sv\<lparr>sv_world := v\<rparr>) = Some sv1"
    then obtain v where v: "accept_connection x i (sv_world sv) = Some v" "register_accept e' k (?sv\<lparr>sv_world := v\<rparr>) = Some sv1"
      by blast
    have "server_step x (Ev_accepted i) (sv_world sv) = Some v" using i(2,3) v(1) by (simp add: accepting_def)
    from reachable.step [OF w x this] have r: "reachable n (sv_world (?sv\<lparr>sv_world := v\<rparr>))" by simp
    have lim: "within_limits (sv_world (?sv\<lparr>sv_world := v\<rparr>))"
      using accept_limits [OF v(1) i(2)] i(3) w(2) by (simp add: accepting_def dormant_def)
    have "new_address e' (?sv\<lparr>sv_world := v\<rparr>)"
      using new bystanders_accept [OF v(1)] by (simp add: new_address_def bystanders_def)
    from register_accept_refines [OF v(2) this r lim] sv1(2) show ?thesis by simp
  qed (use w(1) sv1(2) in simp)
next
  case False
  with a k w(1) show ?thesis by (simp add: accept_completion_def slots_def)
qed

lemma register_all_refines:
  assumes "register_all es m sv = Some sv'" "inj_on (\<lambda>k. ae_session (es k)) {..<m}"
    "\<forall>k < m. w_sessions (sv_world sv) (ae_session (es k)) = None"
    and "reachable n (sv_world sv)" "within_limits (sv_world sv)"
  shows "reachable n (sv_world sv') \<and> within_limits (sv_world sv') \<and>
    (\<forall>i. (\<forall>k < m. i \<noteq> ae_session (es k)) \<longrightarrow> w_sessions (sv_world sv') i = w_sessions (sv_world sv) i)"
  using assms(1-3)
proof (induction m arbitrary: sv')
  case 0
  with assms(4,5) show ?case by simp
next
  case (Suc m)
  let ?app = "on_listener (\<lambda>l. l\<lparr>ln_accept_events := ln_accept_events l @ [AcceptEvent_new]\<rparr>)"
  obtain sv1 where sv1: "register_all es m sv = Some sv1" "register_accept (es m) m (?app sv1) = Some sv'"
    using Suc.prems(1) by (auto simp: bind_eq_Some_conv)
  have "inj_on (\<lambda>k. ae_session (es k)) {..<m}" by (rule inj_on_subset [OF Suc.prems(2)]) auto
  then have r: "reachable n (sv_world sv1)" "within_limits (sv_world sv1)"
    "\<And>i. \<forall>k < m. i \<noteq> ae_session (es k) \<Longrightarrow> w_sessions (sv_world sv1) i = w_sessions (sv_world sv) i"
    using Suc.IH [OF sv1(1)] Suc.prems(3) by auto
  have "\<forall>k < m. ae_session (es m) \<noteq> ae_session (es k)" using inj_onD [OF Suc.prems(2), of m] by fastforce
  then have "new_address (es m) (?app sv1)" using r(3) Suc.prems(3) by (simp add: new_address_def)
  from register_accept_refines [OF sv1(2) this] r(1,2) have "reachable n (sv_world sv')" "within_limits (sv_world sv')"
    by simp_all
  moreover have "w_sessions (sv_world sv') i = w_sessions (sv_world sv) i" if "\<forall>k < Suc m. i \<noteq> ae_session (es k)" for i
    using register_accept_frame(3) [OF sv1(2), of i] r(3) [of i] that by simp
  ultimately show ?case by blast
qed

lemma service_refines:
  assumes "service_reachable n sv" "0 \<le> n"
  shows "reachable n (sv_world sv)"
  using assms
proof (induction rule: service_reachable.induct)
  case (start le es sv)
  let ?sv = "(Service_new n)\<lparr>sv_listener := Listener_new\<lparr>ln_socket_open := True\<rparr>\<rparr>"
  have "sv_world ?sv = world_new n" "w_sessions (world_new n) = (\<lambda>_. None)" by (simp_all add: Service_new_def world_new_def)
  then show ?case
    using register_all_refines [OF start_inv(2) [OF start(1,3,2)] start(2)] reachable.start within_limits_new by simp
next
  case (step sv x ev sv')
  have inv: "service_inv 0 sv" by (rule service_reachable_inv [OF step(1) step(6)])
  note w = step.IH [OF step(6)] step(2)
  show ?case
  proof (cases ev)
    case (S_accept k e e')
    with step(4) accept_completion_refines [OF _ step(3) inv _ _ w] w(1) show ?thesis by (auto split: if_splits)
  next
    case (S_retry k e)
    let ?sv = "on_listener (\<lambda>l. l\<lparr>ln_accept_retry := remove1 k (ln_accept_retry l)\<rparr>) sv"
    show ?thesis
      using S_retry step(4) register_accept_refines [of e k ?sv sv' n] w
      by (auto simp: accept_retry_def new_address_def split: if_splits)
  next
    case (S_server ev')
    with step(4) reachable.step [OF w step(3), of ev'] w(1) show ?thesis by (auto split: if_splits)
  qed (use step(4) w(1) in \<open>auto simp: release_live_session_def close_listener_def\<close>)
qed

section \<open>No slot is lost\<close>

text \<open>\<open>AcceptEx\<close> succeeds, is pending, or fails with one of the errors the listener retries.\<close>

definition transient :: "accept_env \<Rightarrow> bool" where
  "transient e = (case ae_AcceptEx e of IO_OK \<Rightarrow> True
     | IO_ERR err \<Rightarrow> err \<in> {WSA_IO_PENDING, WSAENOBUFS, WSAEMFILE, WSAECONNRESET, WSAECONNABORTED})"

fun transient_event :: "service_event \<Rightarrow> bool" where
  "transient_event (S_accept k e e') = transient e'"
| "transient_event (S_retry k e) = transient e"
| "transient_event _ = True"

definition posted :: "Listener \<Rightarrow> bool" where
  "posted l \<longleftrightarrow> ln_accept_stopped l \<or> ln_socket_open l \<and>
     (\<forall>k < length (ln_accept_events l). k \<in> slots l \<or> k \<in> set (ln_accept_retry l))"

lemma register_accept_slots:
  assumes r: "register_accept e k sv = Some sv'" and k: "k < length (ln_accept_events (sv_listener sv))"
  shows "ln_accept_stopped (sv_listener sv') = ln_accept_stopped (sv_listener sv)"
    "ln_socket_open (sv_listener sv') = ln_socket_open (sv_listener sv)"
    "slots (sv_listener sv) - {k} \<subseteq> slots (sv_listener sv')"
    "set (ln_accept_retry (sv_listener sv)) \<subseteq> set (ln_accept_retry (sv_listener sv'))"
    "transient e \<Longrightarrow> \<not> ln_accept_stopped (sv_listener sv) \<Longrightarrow> ln_socket_open (sv_listener sv) \<Longrightarrow>
      k \<in> slots (sv_listener sv') \<or> k \<in> set (ln_accept_retry (sv_listener sv'))"
  using assms
  by (auto simp: register_accept_def create_session_def reserve_accept_retry_def release_live_session_def Let_def
      slots_set_event transient_def AcceptEvent_new_def split: if_splits io_result.splits)

lemma register_accept_posts:
  assumes r: "register_accept e k sv = Some sv'" "transient e" and k: "k < length (ln_accept_events (sv_listener sv))"
    and others: "ln_accept_stopped (sv_listener sv) \<or> ln_socket_open (sv_listener sv) \<and>
      (\<forall>j < length (ln_accept_events (sv_listener sv)). j \<noteq> k \<longrightarrow> j \<in> slots (sv_listener sv) \<or> j \<in> set (ln_accept_retry (sv_listener sv)))"
  shows "posted (sv_listener sv')"
  using register_accept_slots [OF r(1) k] register_accept_frame(1) [OF r(1)] r(2) others
  unfolding posted_def by (metis DiffI singletonD subsetD)

lemma posted_accept:
  assumes a: "accept_completion x e e' k sv = Some sv'" "transient e'" and k: "k < length (ln_accept_events (sv_listener sv))"
    and inv: "service_inv 0 sv" "posted (sv_listener sv)"
  shows "posted (sv_listener sv')"
proof (cases "k \<in> slots (sv_listener sv)")
  case True
  let ?sv = "on_listener (set_event k AcceptEvent_new) sv"
  obtain i where i: "ac_session (ln_accept_events (sv_listener sv) ! k) = Some i"
    using inv(1) True by (auto simp: service_inv_def sessions_inv_def)
  obtain sv1 n where sv1: "process_accept x e e' k sv = Some sv1" "sv_listener sv' = (sv_listener sv1)\<lparr>ln_pending_io := n\<rparr>"
    using a(1) True by (auto simp: accept_completion_def slots_def bind_eq_Some_conv)
  have others: "ln_accept_stopped (sv_listener ?sv) \<or> ln_socket_open (sv_listener ?sv) \<and>
      (\<forall>j < length (ln_accept_events (sv_listener ?sv)). j \<noteq> k \<longrightarrow> j \<in> slots (sv_listener ?sv) \<or> j \<in> set (ln_accept_retry (sv_listener ?sv)))"
    using inv(2) k by (auto simp: posted_def slots_set_event AcceptEvent_new_def)
  have "posted (sv_listener sv1)"
  proof (cases "ln_accept_stopped (sv_listener sv) \<or> \<not> ln_socket_open (sv_listener sv) \<or>
      \<not> ae_set_update_accept_socket e \<or> \<not> ae_getpeername e")
    case early: True
    with sv1(1) i others show ?thesis
      by (auto simp: process_accept_def posted_def reserve_accept_retry_def release_live_session_def Let_def split: if_splits)
  next
    case False
    then obtain w where "register_accept e' k (?sv\<lparr>sv_world := w\<rparr>) = Some sv1"
      using sv1(1) i by (auto simp: process_accept_def Let_def bind_eq_Some_conv)
    from register_accept_posts [OF this a(2)] k others show ?thesis by simp
  qed
  with sv1(2) show ?thesis by (simp add: posted_def)
next
  case False
  with a(1) k inv(2) show ?thesis by (simp add: accept_completion_def slots_def)
qed

lemma posted_register_all:
  assumes "register_all es m sv = Some sv'" "\<forall>k. transient (es k)" "ln_accept_events (sv_listener sv) = []"
    "ln_accept_retry (sv_listener sv) = []" "ln_socket_open (sv_listener sv)"
  shows "posted (sv_listener sv') \<and> length (ln_accept_events (sv_listener sv')) = m"
  using assms(1)
proof (induction m arbitrary: sv')
  case 0
  with assms(3-5) show ?case by (simp add: posted_def)
next
  case (Suc m)
  let ?app = "on_listener (\<lambda>l. l\<lparr>ln_accept_events := ln_accept_events l @ [AcceptEvent_new]\<rparr>)"
  obtain sv1 where sv1: "register_all es m sv = Some sv1" "register_accept (es m) m (?app sv1) = Some sv'"
    using Suc.prems by (auto simp: bind_eq_Some_conv)
  note ih = Suc.IH [OF sv1(1)]
  have "slots (sv_listener sv1) \<subseteq> slots (sv_listener (?app sv1))" by (auto simp: slots_def nth_append)
  then have "posted (sv_listener sv')"
    using ih by (intro register_accept_posts [OF sv1(2)]) (auto simp: assms(2) posted_def less_Suc_eq)
  with register_accept_frame(1) [OF sv1(2)] ih show ?case by simp
qed

section \<open>Properties\<close>

text \<open>C9: the listener and the service refine the event model.  In every run of the service, from its start through
  accepts, retries, completions, jobs and destroyed sessions, the game server is in a state its own event
  model reaches; what is proved of that model holds of the running program.\<close>

theorem service_refines_event_model:
  assumes "0 \<le> n" "service_reachable n sv"
  shows "reachable n (sv_world sv)"
  by (rule service_refines [OF assms(2,1)])

text \<open>C23: the accept slots.  In every run the counter of the listener counts the outstanding accepts; every
  outstanding accept has a session of its own that was never connected; a slot waits for at most one
  retry and not while it is outstanding; and no event of the service crashes.\<close>

theorem accept_slots_consistent:
  assumes "0 \<le> n" "service_reachable n sv" "server_runtime x" "within_limits (sv_world sv)"
  defines "l \<equiv> sv_listener sv"
  shows "ln_pending_io l = of_nat (card (slots l)) \<and>
    (\<forall>k \<in> slots l. \<exists>i s. ac_session (ln_accept_events l ! k) = Some i \<and> w_sessions (sv_world sv) i = Some s \<and>
       unconnected s \<and> (\<forall>k' \<in> slots l. ac_session (ln_accept_events l ! k') = Some i \<longrightarrow> k' = k)) \<and>
    distinct (ln_accept_retry l) \<and> set (ln_accept_retry l) \<inter> slots l = {} \<and> service_step x ev sv \<noteq> None"
proof -
  have inv: "service_inv 0 sv" by (rule service_reachable_inv [OF assms(2,1)])
  then have l: "listener_inv 0 l" by (simp add: service_inv_def l_def)
  have "\<exists>i s. ac_session (ln_accept_events l ! k) = Some i \<and> w_sessions (sv_world sv) i = Some s \<and>
       unconnected s \<and> (\<forall>k' \<in> slots l. ac_session (ln_accept_events l ! k') = Some i \<longrightarrow> k' = k)" if k: "k \<in> slots l" for k
  proof -
    obtain i s where i: "ac_session (ln_accept_events l ! k) = Some i" "w_sessions (sv_world sv) i = Some s" "accepting s"
      using inv k unfolding l_def by (auto simp: service_inv_def sessions_inv_def)
    moreover have "\<forall>k' \<in> slots l. ac_session (ln_accept_events l ! k') = Some i \<longrightarrow> k' = k"
      using l k i(1) unfolding listener_inv_def by metis
    ultimately show ?thesis by (auto simp: accepting_def)
  qed
  moreover obtain sv' where "service_step x ev sv = Some sv'" using server_runtime.service_step_inv [OF assms(3) inv assms(4)] by blast
  ultimately show ?thesis using l by (simp add: listener_inv_def)
qed

text \<open>C22: no accept slot is lost.  While \<open>AcceptEx\<close> fails at most with the errors the listener retries, every slot
  is outstanding or waits for its retry, after the start and after every event, until the listener is
  closed.\<close>

theorem accept_slots_kept:
  assumes "0 \<le> n" and sv: "service_reachable n sv" "posted (sv_listener sv)"
    and ev: "service_step x ev sv = Some sv'" "transient_event ev"
    and start: "ServerService_start le es (Service_new n) = Some (True, sv0)" "\<forall>k. transient (es k)"
      "inj_on (\<lambda>k. ae_session (es k)) {..<ACCEPT_COUNT}"
  shows "posted (sv_listener sv') \<and> posted (sv_listener sv0) \<and> length (ln_accept_events (sv_listener sv0)) = 32"
proof (intro conjI)
  have inv: "service_inv 0 sv" by (rule service_reachable_inv [OF sv(1) assms(1)])
  show "posted (sv_listener sv')"
  proof (cases ev)
    case (S_accept k e e')
    with ev sv(2) posted_accept [OF _ _ _ inv] show ?thesis by (auto split: if_splits)
  next
    case (S_retry k e)
    let ?sv = "on_listener (\<lambda>l. l\<lparr>ln_accept_retry := remove1 k (ln_accept_retry l)\<rparr>) sv"
    have "listener_inv 0 (sv_listener sv)" using inv by (simp add: service_inv_def)
    then have "k \<in> set (ln_accept_retry (sv_listener sv)) \<Longrightarrow> k < length (ln_accept_events (sv_listener sv))"
      by (simp add: listener_inv_def)
    with S_retry ev sv(2) register_accept_posts [of e k ?sv sv'] show ?thesis
      by (auto simp: accept_retry_def posted_def split: if_splits)
  qed (use ev sv(2) in \<open>auto simp: release_live_session_def close_listener_def close_socket_def posted_def split: if_splits\<close>)
  show "posted (sv_listener sv0)" "length (ln_accept_events (sv_listener sv0)) = 32"
    using posted_register_all [OF start_inv(2) [OF start(1) assms(1) start(3)] start(2)]
    by (simp_all add: ACCEPT_COUNT_def Listener_new_def)
qed

text \<open>A service that was started and accepts.\<close>

definition all_well :: "nat \<Rightarrow> accept_env" where
  "all_well k = \<lparr>ae_session = k, ae_create_socket = True, ae_Register = True, ae_AcceptEx = IO_ERR WSA_IO_PENDING,
     ae_set_update_accept_socket = True, ae_getpeername = True\<rparr>"

definition listening :: listen_env where
  "listening = \<lparr>le_create_socket = True, le_Register = True, le_set_resuse_address = True, le_set_linger = True,
     le_bind = True, le_listen = True\<rparr>"

definition started :: service where
  "started = snd (the (ServerService_start listening all_well (Service_new 5)))"

lemma started_facts:
  "ServerService_start listening all_well (Service_new 5) = Some (True, started)"
  "inj_on (\<lambda>k. ae_session (all_well k)) {..<ACCEPT_COUNT}" "service_reachable 5 started" "within_limits (sv_world started)"
proof -
  show inj: "inj_on (\<lambda>k. ae_session (all_well k)) {..<ACCEPT_COUNT}" by (simp add: inj_on_def all_well_def)
  let ?sv = "(Service_new 5)\<lparr>sv_listener := Listener_new\<lparr>ln_socket_open := True\<rparr>\<rparr>"
  have w: "sv_world ?sv = world_new 5" "w_sessions (world_new 5) = (\<lambda>_. None)" by (simp_all add: Service_new_def world_new_def)
  have "listener_inv 0 (Listener_new\<lparr>ln_socket_open := True\<rparr>)" by (simp add: listener_inv_def Listener_new_def slots_def)
  then have "service_inv 0 ?sv"
    using world_new_inv [of 5] by (simp add: service_inv_def sessions_inv_def Service_new_def slots_def Listener_new_def)
      (simp add: world_new_def)
  then obtain sv where sv: "register_all all_well ACCEPT_COUNT ?sv = Some sv"
    using register_all_inv [OF _ _ _ inj, of ?sv] w by (auto simp: Listener_new_def)
  then have "ServerService_start listening all_well (Service_new 5) = Some (True, sv)"
    by (simp add: ServerService_start_def start_accept_def listening_def can_start_def Service_new_def)
  then show s: "ServerService_start listening all_well (Service_new 5) = Some (True, started)" by (simp add: started_def)
  show "service_reachable 5 started" by (rule service_reachable.start [OF s inj])
  show "within_limits (sv_world started)"
    using register_all_refines [OF start_inv(2) [OF s _ inj] inj, of 5] w reachable.start [of 5] within_limits_new [of 5] by simp
qed

theorem service_refines_event_model_witness: "service_reachable 5 started \<and> reachable 5 (sv_world started)"
  using service_refines_event_model [OF _ started_facts(3)] started_facts(3) by simp

theorem accept_slots_consistent_witness:
  "service_reachable 5 started \<and> ln_pending_io (sv_listener started) = of_nat (card (slots (sv_listener started))) \<and>
   service_step ref_ext (S_accept 7 (all_well 0) (all_well 40)) started \<noteq> None"
  using accept_slots_consistent [OF _ started_facts(3) ref_ext.server_runtime_axioms started_facts(4),
      of "S_accept 7 (all_well 0) (all_well 40)"] started_facts(3) by simp

theorem accept_slots_kept_witness:
  "posted (sv_listener started) \<and> length (ln_accept_events (sv_listener started)) = 32"
proof -
  have t: "\<forall>k. transient (all_well k)" by (simp add: transient_def all_well_def)
  have p: "posted (sv_listener started)"
    using posted_register_all [OF start_inv(2) [OF started_facts(1) _ started_facts(2)] t] by (simp add: Listener_new_def)
  show ?thesis
    using accept_slots_kept [OF _ started_facts(3) p _ _ started_facts(1) t started_facts(2), of ref_ext S_close]
    by simp
qed

end
