(* ===== verification/ServiceClose.thy ===== *)
theory ServiceClose
  imports ServiceRun
begin

text \<open>
  The end of the server: \<open>ServerService::close_service\<close>.  Once the listener is closed its outstanding accepts
  come back one by one; once every live session has begun its shutdown, each completion and each job
  brings the end one step nearer, in whatever order they happen; and when nothing is outstanding the
  two waits return, with empty tables.
\<close>

section \<open>Sessions that are shut down\<close>

definition outstanding :: "GameSession \<Rightarrow> nat" where
  "outstanding s = owners s + length (ss_logic_queue s)"

definition outstanding_total :: "world \<Rightarrow> nat" where
  "outstanding_total w = (\<Sum>i \<in> dom (w_sessions w). outstanding (the (w_sessions w i)))"

text \<open>An event that completes an outstanding operation or runs a queued job.\<close>

fun busy_event :: "world \<Rightarrow> server_event \<Rightarrow> bool" where
  "busy_event w (Ev_received i bs) = (case w_sessions w i of None \<Rightarrow> False
     | Some s \<Rightarrow> ss_recv_owner s \<and> int (length bs) \<le> free_size (ss_recv_buffer s))"
| "busy_event w (Ev_completed i ev ok n) = (case w_sessions w i of None \<Rightarrow> False
     | Some s \<Rightarrow> get_owner ev s \<and> 0 \<le> n \<and> int32_range n \<and> (ev = Ev_Recv \<longrightarrow> \<not> ok))"
| "busy_event w (Ev_job i) = (case w_sessions w i of None \<Rightarrow> False | Some s \<Rightarrow> ss_logic_queue s \<noteq> [])"
| "busy_event w _ = False"

fun busy_run :: "server_ext \<Rightarrow> server_event list \<Rightarrow> world \<Rightarrow> world option" where
  "busy_run x [] w = Some w"
| "busy_run x (ev # evs) w = (if busy_event w ev then Option.bind (server_step x ev w) (busy_run x evs) else None)"

lemma closing_dispatch:
  assumes c: "closing s" and o: "get_owner ev s"
  shows "\<exists>s'. iocp_dispatch env h ev ok n s = Some (True, s') \<and> closing s' \<and> Suc (owners s') = owners s \<and>
    ss_logic_queue s' = ss_logic_queue s"
proof -
  have off: "\<not> ss_is_connect s" "ss_is_disconnect s" "ss_shutdown_started s" and inv: "sess_inv 0 0 s"
    using closing_disconnected [OF c] c by (simp_all add: closing_def)
  consider (recv) "ev = Ev_Recv" "ss_recv_owner s" | (send) "ev = Ev_send" "ss_send_owner s"
    | (disc) "ev = Ev_disconnect" "ss_disconnect_owner s"
    using o by (cases ev) (simp_all add: get_owner_def)
  then show ?thesis
  proof cases
    case recv
    have "sess_inv 1 0 (s\<lparr>ss_recv_owner := False\<rparr>)"
      using inv recv base_clear_recv_owner [of 0 s] off by (simp add: sess_inv_def not_connected_ok)
    from closing_finish [OF this] off recv show ?thesis
      by (auto simp: iocp_dispatch_def get_owner_def session_dispatch_def process_recv_def owners_def)
  next
    case send
    have "sess_inv 1 0 (s\<lparr>ss_send_owner := False, ss_send_event := send_Buffers_clear (ss_send_event s)\<rparr>)"
      using inv send send_completion(2) [of 0 s] off by (simp add: sess_inv_def not_connected_ok)
    from closing_finish [OF this] off send show ?thesis
      by (auto simp: iocp_dispatch_def get_owner_def session_dispatch_def process_send_def owners_def)
  next
    case disc
    let ?t = "s\<lparr>ss_disconnect_owner := False\<rparr>"
    have t: "process_disconnect ?t = ?t" using off by (simp add: process_disconnect_def)
    then have "sess_inv 1 0 ?t" using inv disc disconnected_inv [of 0 s] by simp
    from closing_finish [OF this] off disc t show ?thesis
      by (auto simp: iocp_dispatch_def get_owner_def session_dispatch_def owners_def)
  qed
qed

section \<open>A server that is shut down\<close>

text \<open>The live sessions have begun their shutdown, the others are gone.\<close>

definition closing_world :: "sid set \<Rightarrow> world \<Rightarrow> bool" where
  "closing_world live w \<longleftrightarrow> world_inv None w \<and> (\<forall>i \<in> live. w_sessions w i \<noteq> None) \<and>
     (\<forall>i s. w_sessions w i = Some s \<longrightarrow>
        (if i \<in> live then closing s \<and> length (ss_logic_queue s) < 2 ^ 32 - 1 else gone s))"

lemma closing_worldD:
  assumes "closing_world live w" "w_sessions w i = Some s"
  shows "i \<in> live \<Longrightarrow> closing s" "i \<in> live \<Longrightarrow> length (ss_logic_queue s) < 2 ^ 32 - 1" "i \<notin> live \<Longrightarrow> gone s"
  using assms unfolding closing_world_def by metis+

lemma closing_world_inv: "closing_world live w \<Longrightarrow> world_inv None w"
  by (simp add: closing_world_def)

lemma closing_world_off:
  assumes "closing_world live w" "w_sessions w i = Some s"
  shows "\<not> ss_is_connect s"
proof (cases "i \<in> live")
  case True
  from closing_disconnected [OF closing_worldD(1) [OF assms this]] show ?thesis by blast
next
  case False
  from closing_worldD(3) [OF assms this] show ?thesis by (simp add: gone_def dormant_def)
qed

lemma closing_world_busy:
  assumes "closing_world live w" "w_sessions w i = Some s" "0 < outstanding s"
  shows "closing s" "length (ss_logic_queue s) < 2 ^ 32 - 1" "i \<in> live"
proof -
  have "\<not> gone s" using assms(3) by (auto simp: outstanding_def gone_def dormant_def)
  then show l: "i \<in> live" using closing_worldD(3) [OF assms(1,2)] by blast
  show "closing s" "length (ss_logic_queue s) < 2 ^ 32 - 1" by (rule closing_worldD(1,2) [OF assms(1,2) l])+
qed

lemma total_update:
  assumes "world_inv None w" "w_sessions w i = Some s" "w_sessions w' = (w_sessions w)(i \<mapsto> s')"
    "Suc (outstanding s') = outstanding s"
  shows "Suc (outstanding_total w') = outstanding_total w"
proof -
  have "finite (dom (profiles w))" using assms(1) by (simp add: world_inv_def stats_ok_def)
  moreover have "dom (profiles w) = dom (w_sessions w)" by (auto simp: profiles_def)
  ultimately have fin: "finite (dom (w_sessions w))" by simp
  have i: "i \<in> dom (w_sessions w)" using assms(2) by auto
  have "outstanding_total w' = (\<Sum>j \<in> dom (w_sessions w) - {i}. outstanding (the (w_sessions w j))) + outstanding s'"
    unfolding outstanding_total_def assms(3) using i fin sum.remove [of "dom (w_sessions w)" i "\<lambda>j. outstanding (the (((w_sessions w)(i \<mapsto> s')) j))"]
    by (simp add: insert_absorb)
  moreover have "outstanding_total w = (\<Sum>j \<in> dom (w_sessions w) - {i}. outstanding (the (w_sessions w j))) + outstanding s"
    unfolding outstanding_total_def using sum.remove [OF fin i, of "\<lambda>j. outstanding (the (w_sessions w j))"] assms(2) by simp
  ultimately show ?thesis using assms(4) by simp
qed

lemma closing_world_update:
  assumes "closing_world live w" "w_sessions w i = Some s" "world_inv None w'" "w_sessions w' = (w_sessions w)(i \<mapsto> s')"
    "closing s'" "length (ss_logic_queue s') < 2 ^ 32 - 1" "Suc (outstanding s') = outstanding s"
  shows "closing_world live w' \<and> Suc (outstanding_total w') = outstanding_total w"
proof
  have "i \<in> live" using closing_world_busy(3) [OF assms(1,2)] assms(7) by simp
  with assms(1,3-6) show "closing_world live w'" unfolding closing_world_def by (metis fun_upd_apply option.distinct(1) option.inject)
  show "Suc (outstanding_total w') = outstanding_total w" by (rule total_update [OF closing_world_inv [OF assms(1)] assms(2,4,7)])
qed

text \<open>The three kinds of event.\<close>

lemma closing_received:
  assumes c: "closing_world live w" and b: "busy_event w (Ev_received i bs)"
  shows "\<exists>w'. server_step x (Ev_received i bs) w = Some w' \<and> closing_world live w' \<and> Suc (outstanding_total w') = outstanding_total w"
proof -
  obtain s where s: "w_sessions w i = Some s" "ss_recv_owner s" "int (length bs) \<le> free_size (ss_recv_buffer s)"
    using b by (auto split: option.splits)
  have pos: "0 < outstanding s" using s(2) by (simp add: outstanding_def owners_def)
  note cs = closing_world_busy [OF c s(1) pos]
  let ?s = "s\<lparr>ss_recv_buffer := recv_fill bs (ss_recv_buffer s)\<rparr>"
  have cf: "closing ?s" using fill_inv(1) [OF _ s(3), of 0] cs(1) by (simp add: closing_def)
  have o: "get_owner Ev_Recv ?s" "owners ?s = owners s" using s(2) by (simp_all add: get_owner_def owners_def)
  obtain s' where s': "feed (ext_io x 0 i) (GameSession_on_recv_packet (ext_pb x)) bs s = Some (True, s')" "closing s'"
    "Suc (owners s') = owners ?s" "ss_logic_queue s' = ss_logic_queue ?s"
    using closing_dispatch [OF cf o(1), of "ext_io x 0 i" "GameSession_on_recv_packet (ext_pb x)" True "int (length bs)"]
    unfolding feed_def by blast
  let ?w = "w\<lparr>w_sessions := (w_sessions w)(i \<mapsto> s')\<rparr>"
  have r: "receive_bytes x i bs w = Some ?w" using s(1) s'(1) by (simp add: receive_bytes_def with_session_def)
  moreover obtain v where "receive_bytes x i bs w = Some v" "world_inv None v"
    using receive_bytes_world [OF closing_world_inv [OF c] s(1,3)] by blast
  ultimately have "world_inv None ?w" by simp
  moreover have "Suc (outstanding s') = outstanding s" using s'(3,4) o(2) by (simp add: outstanding_def)
  moreover have "length (ss_logic_queue s') < 2 ^ 32 - 1" using cs(2) s'(4) by simp
  ultimately have "closing_world live ?w \<and> Suc (outstanding_total ?w) = outstanding_total w"
    by (intro closing_world_update [OF c s(1) _ _ s'(2)]) simp_all
  then show ?thesis using r s by simp
qed

lemma closing_completed:
  assumes c: "closing_world live w" and b: "busy_event w (Ev_completed i ev ok n)"
  shows "\<exists>w'. server_step x (Ev_completed i ev ok n) w = Some w' \<and> closing_world live w' \<and> Suc (outstanding_total w') = outstanding_total w"
proof -
  obtain s where s: "w_sessions w i = Some s" "get_owner ev s" "0 \<le> n" "int32_range n" "ev = Ev_Recv \<longrightarrow> \<not> ok"
    using b by (auto split: option.splits)
  have pos: "0 < outstanding s" using s(2) by (cases ev) (simp_all add: outstanding_def owners_def get_owner_def)
  note cs = closing_world_busy [OF c s(1) pos]
  obtain s' where s': "iocp_dispatch (ext_io x 0 i) (GameSession_on_recv_packet (ext_pb x)) ev ok n s = Some (True, s')"
    "closing s'" "Suc (owners s') = owners s" "ss_logic_queue s' = ss_logic_queue s"
    using closing_dispatch [OF cs(1) s(2)] by blast
  obtain w' where w': "io_completion x i ev ok n w = Some w'" "world_inv None w'"
    using io_completion_world [OF closing_world_inv [OF c] s(1,3,4)] by blast
  have "w_sessions w' = (w_sessions w)(i \<mapsto> s')" using w'(1) s(1) s'(1) by (auto simp: io_completion_def)
  moreover have "Suc (outstanding s') = outstanding s" using s'(3,4) by (simp add: outstanding_def)
  moreover have "length (ss_logic_queue s') < 2 ^ 32 - 1" using cs(2) s'(4) by simp
  ultimately have "closing_world live w' \<and> Suc (outstanding_total w') = outstanding_total w"
    by (intro closing_world_update [OF c s(1) w'(2) _ s'(2)])
  then show ?thesis using w'(1) s by simp
qed

lemma cleanup_job_session:
  assumes "cleanup_job i w = Some v" "w_sessions w i = Some s" "w_service w"
  shows "\<exists>s'. w_sessions v i = Some s' \<and> ss_logic_queue s' = ss_logic_queue s \<and> owners s' = owners s \<and>
    ss_shutdown_started s' = ss_shutdown_started s"
proof -
  have "w_sessions v i = Some (cleanup_fields (s\<lparr>gs_is_login := False\<rparr>)) \<or> w_sessions v i = Some (cleanup_fields s)"
  proof (cases "ss_was_connected s")
    case True
    from cleanup_job_was [OF assms(2,3) this] assms(1)
    have "w_sessions v = (w_sessions w)(i \<mapsto> cleanup_fields (s\<lparr>gs_is_login := False\<rparr>))" by (elim exE conjE) simp
    then show ?thesis by simp
  next
    case False
    then show ?thesis using cleanup_job_fresh [OF assms(2,3)] assms(1) by simp
  qed
  then show ?thesis
  proof
    assume "w_sessions v i = Some (cleanup_fields (s\<lparr>gs_is_login := False\<rparr>))"
    then show ?thesis by (intro exI conjI) (assumption, simp_all add: cleanup_fields_def owners_def)
  next
    assume "w_sessions v i = Some (cleanup_fields s)"
    then show ?thesis by (intro exI conjI) (assumption, simp_all add: cleanup_fields_def owners_def)
  qed
qed

lemma execute_job_session:
  assumes j: "execute_job x i w = Some w'" and s: "w_sessions w i = Some s" "ss_logic_queue s = job # jobs" "\<not> ss_is_connect s"
    and srv: "w_service w"
  shows "\<exists>s'. w_sessions w' i = Some s' \<and> ss_logic_queue s' = jobs \<and> owners s' = owners s \<and>
    ss_shutdown_started s' = ss_shutdown_started s"
proof -
  let ?t = "s\<lparr>ss_logic_queue := jobs\<rparr>"
  let ?u = "w\<lparr>w_sessions := (w_sessions w)(i \<mapsto> ?t)\<rparr>"
  have pop: "logic_pop s = Some (job, ?t)" using s(2) by (simp add: logic_pop_def)
  obtain v where v: "(case job of Callback pkt \<Rightarrow> packet_job x i pkt ?u | Cleanup \<Rightarrow> cleanup_job i ?u) = Some v"
    "with_session i logic_done v = Some w'"
    using j unfolding execute_job_def s(1) option.case pop prod.case Let_def bind_eq_Some_conv by blast
  have "\<exists>t'. w_sessions v i = Some t' \<and> ss_logic_queue t' = jobs \<and> owners t' = owners s \<and>
      ss_shutdown_started t' = ss_shutdown_started s"
  proof (cases job)
    case (Callback pkt)
    then have "v = ?u" using v(1) s(3) by (simp add: packet_job_def)
    then show ?thesis by (simp add: owners_def)
  next
    case Cleanup
    then have "cleanup_job i ?u = Some v" using v(1) by simp
    from cleanup_job_session [OF this, of ?t] srv show ?thesis by (simp add: owners_def)
  qed
  then obtain t' where t': "w_sessions v i = Some t'" "ss_logic_queue t' = jobs" "owners t' = owners s"
    "ss_shutdown_started t' = ss_shutdown_started s" by blast
  then obtain d where "logic_done t' = Some d" "w_sessions w' i = Some d" using v(2) by (auto simp: with_session_def)
  moreover from this(1) have "d = t'\<lparr>ss_pending_jobs := ss_pending_jobs t' - 1\<rparr>" by (simp add: logic_done_def split: if_splits)
  ultimately show ?thesis using t'(2-4) by (simp add: owners_def)
qed

lemma closing_job:
  assumes c: "closing_world live w" and b: "busy_event w (Ev_job i)"
  shows "\<exists>w'. server_step x (Ev_job i) w = Some w' \<and> closing_world live w' \<and> Suc (outstanding_total w') = outstanding_total w"
proof -
  obtain s job jobs where s: "w_sessions w i = Some s" "ss_logic_queue s = job # jobs"
    using b by (auto split: option.splits simp: neq_Nil_conv)
  have pos: "0 < outstanding s" using s(2) by (simp add: outstanding_def)
  note cs = closing_world_busy [OF c s(1) pos] and off = closing_world_off [OF c s(1)]
  have w: "world_inv None w" by (rule closing_world_inv [OF c])
  let ?t = "s\<lparr>ss_logic_queue := jobs\<rparr>"
  have pop: "logic_pop s = Some (job, ?t)" using s(2) by (simp add: logic_pop_def)
  have "\<exists>w'. execute_job x i w = Some w' \<and> world_inv None w'"
  proof (cases job)
    case Cleanup
    with execute_cleanup [OF w s(1) _ cs(2)] pop show ?thesis by blast
  next
    case (Callback pkt)
    obtain d where d: "run_job s = Some d" "sess_inv 0 0 d" using run_job_inv [of s] cs by (auto simp: closing_def)
    then have fin: "logic_done ?t = Some d" using pop Callback by (simp add: run_job_def)
    have p: "profile_of d = profile_of s" using logic_done_profile [OF fin] by (simp add: profile_of_def)
    have "world_inv None (w\<lparr>w_sessions := (w_sessions w)(i \<mapsto> d), w_stats := w_stats w\<rparr>)"
      by (rule world_same_profile [OF w s(1) d(2) p]) simp_all
    then show ?thesis
      using s(1) pop Callback fin off by (simp add: execute_job_def packet_job_def with_session_def)
  qed
  then obtain w' where w': "execute_job x i w = Some w'" "world_inv None w'" by blast
  obtain s' where s': "w_sessions w' i = Some s'" "ss_logic_queue s' = jobs" "owners s' = owners s" "ss_shutdown_started s'"
    using execute_job_session [OF w'(1) s off] cs(1) w by (auto simp: closing_def world_inv_def)
  have "sess_inv 0 0 s'" using sessions_okD [OF world_sessions [OF w'(2)] s'(1)] by simp
  then have cl: "closing s'" using s'(4) by (simp add: closing_def)
  have "w_sessions w' j = ((w_sessions w)(i \<mapsto> s')) j" for j
    using bystanders_job [OF w'(1)] s'(1) closing_world_off [OF c, of j] by (cases "w_sessions w j") (auto simp: bystanders_def)
  then have "w_sessions w' = (w_sessions w)(i \<mapsto> s')" by blast
  moreover have "Suc (outstanding s') = outstanding s" using s(2) s'(2,3) by (simp add: outstanding_def)
  moreover have "length (ss_logic_queue s') < 2 ^ 32 - 1" using cs(2) s(2) s'(2) by simp
  ultimately have "closing_world live w' \<and> Suc (outstanding_total w') = outstanding_total w"
    by (intro closing_world_update [OF c s(1) w'(2) _ cl])
  then show ?thesis using w'(1) s(1) by simp
qed

lemma closing_step:
  assumes "closing_world live w" "busy_event w ev"
  shows "\<exists>w'. server_step x ev w = Some w' \<and> closing_world live w' \<and> Suc (outstanding_total w') = outstanding_total w"
  using assms closing_received closing_completed closing_job by (cases ev) (simp_all del: server_step.simps)

lemma closing_run:
  assumes "closing_world live w" "busy_run x evs w = Some w'"
  shows "closing_world live w' \<and> length evs + outstanding_total w' = outstanding_total w"
  using assms
proof (induction evs arbitrary: w)
  case (Cons ev evs)
  then have b: "busy_event w ev" by (simp split: if_splits)
  obtain v where v: "server_step x ev w = Some v" "closing_world live v" "Suc (outstanding_total v) = outstanding_total w"
    using closing_step [OF Cons.prems(1) b] by blast
  with Cons.IH [OF v(2)] Cons.prems(2) b show ?case by simp
qed simp

section \<open>The end\<close>

lemma busy_exists:
  assumes "closing_world live w" "0 < outstanding_total w"
  shows "\<exists>ev. busy_event w ev"
proof -
  obtain i where "i \<in> dom (w_sessions w)" "outstanding (the (w_sessions w i)) \<noteq> 0"
    using sum.not_neutral_contains_not_neutral [of "\<lambda>i. outstanding (the (w_sessions w i))" "dom (w_sessions w)"] assms(2)
    by (auto simp: outstanding_total_def)
  then obtain s where s: "w_sessions w i = Some s" "0 < outstanding s" by auto
  then consider "ss_logic_queue s \<noteq> []" | ev where "get_owner ev s"
    unfolding outstanding_def owners_def using get_owner_def [of Ev_Recv s] get_owner_def [of Ev_send s]
      get_owner_def [of Ev_disconnect s] by (cases "ss_logic_queue s") (auto split: if_splits)
  then show ?thesis
  proof cases
    case 1
    with s(1) have "busy_event w (Ev_job i)" by simp
    then show ?thesis by blast
  next
    case (2 ev)
    with s(1) have "busy_event w (Ev_completed i ev False 0)" by (simp add: int32_range_def)
    then show ?thesis by blast
  qed
qed

definition ready :: "GameSession \<Rightarrow> bool" where
  "ready s \<longleftrightarrow> ss_pending_io s = 0 \<and> ss_cleanup_done s \<and> ss_pending_jobs s = 0"

lemma wait_all_ready:
  assumes "\<forall>i \<in> set is. \<exists>s. w_sessions w i = Some s \<and> ready s"
  shows "\<exists>w'. wait_all is w = Some w' \<and> w_manager w' = w_manager w \<and> w_login w' = w_login w \<and> w_rooms w' = w_rooms w"
  using assms
proof (induction "is" arbitrary: w)
  case (Cons i "is")
  then obtain s where s: "w_sessions w i = Some s" "ready s" by auto
  let ?s = "s\<lparr>ss_send_queue := [], ss_send_event := send_Buffers_clear (ss_send_event s)\<rparr>"
  let ?w = "w\<lparr>w_sessions := (w_sessions w)(i \<mapsto> ?s)\<rparr>"
  have "with_session i wait_for_shutdown w = Some ?w"
    using s by (simp add: with_session_def wait_for_shutdown_def wait_for_io_def ready_def)
  moreover have "ready ?s" using s(2) by (simp add: ready_def)
  then have "\<forall>j \<in> set is. \<exists>t. w_sessions ?w j = Some t \<and> ready t" using Cons.prems by auto
  ultimately show ?case using Cons.IH [of ?w] by simp
qed simp

lemma closing_world_end:
  assumes c: "closing_world live w" and z: "outstanding_total w = 0"
  shows "\<forall>i \<in> live. \<exists>s. w_sessions w i = Some s \<and> ready s" "sm_sessions (w_manager w) = []"
    "lg_login_list (w_login w) = []" "occupant (w_rooms w) r a = None"
proof -
  have w: "world_inv None w" by (rule closing_world_inv [OF c])
  have "finite (dom (profiles w))" using w by (simp add: world_inv_def stats_ok_def)
  moreover have "dom (profiles w) = dom (w_sessions w)" by (auto simp: profiles_def)
  ultimately have "\<forall>i \<in> dom (w_sessions w). outstanding (the (w_sessions w i)) = 0" using z by (simp add: outstanding_total_def)
  then have out: "outstanding s = 0" if "w_sessions w i = Some s" for i s using that by (metis domI option.sel)
  have live: "ready s \<and> \<not> gs_is_login s" if "w_sessions w i = Some s" "i \<in> live" for i s
  proof -
    have inv: "sess_base 0 0 s" "ss_is_disconnect s"
      using closing_worldD(1) [OF c that] closing_disconnected [of s] by (auto simp: closing_def sess_inv_def)
    then have "ready s" using out [OF that(1)] by (auto simp: ready_def sess_base_def outstanding_def split: if_splits)
    moreover have "profile_ok (w_login w) (profile_of s)" by (rule world_profile [OF w that(1)])
    ultimately show ?thesis by (auto simp: ready_def profile_ok_def split: if_splits)
  qed
  then have off: "\<not> gs_is_login s \<and> (ss_was_connected s \<and> \<not> ss_close_after_send s \<longrightarrow> ss_cleanup_done s)"
    if "w_sessions w i = Some s" for i s
    using closing_worldD(3) [OF c that] that by (cases "i \<in> live") (auto simp: gone_def ready_def)
  show "\<forall>i \<in> live. \<exists>s. w_sessions w i = Some s \<and> ready s"
    using c live unfolding closing_world_def by (metis not_None_eq)
  have t: "login_ok (profiles w) (w_login w)" "rooms_ok (profiles w) (w_rooms w)" "members_ok (profiles w) (w_manager w)"
    using world_tables [OF w] by (simp_all add: tables_inv_def)
  have p: "\<not> pf_login p \<and> (pf_was p \<and> \<not> pf_rejected p \<longrightarrow> pf_done p)" if "profiles w i = Some p" for i p
    using that off by (auto simp: profiles_def)
  have "i \<notin> set (sm_sessions (w_manager w))" for i using t(3) p [of i] by (auto simp: members_ok_def)
  then have "set (sm_sessions (w_manager w)) = {}" by (metis equals0I)
  then show "sm_sessions (w_manager w) = []" by simp
  have "\<not> holds_account (profiles w) i b" for i b using p [of i] by (auto simp: holds_account_def)
  then have "set (lg_login_list (w_login w)) = {}" using t(1) by (simp add: login_ok_def)
  then show "lg_login_list (w_login w) = []" by simp
  show "occupant (w_rooms w) r a = None"
    using rooms_okD [OF t(2)] p by (cases "occupant (w_rooms w) r a") fastforce+
qed

section \<open>Closing the listener\<close>

fun complete_accepts :: "server_ext \<Rightarrow> accept_env \<Rightarrow> accept_env \<Rightarrow> nat list \<Rightarrow> service \<Rightarrow> service option" where
  "complete_accepts x e e' [] sv = Some sv"
| "complete_accepts x e e' (k # ks) sv = Option.bind (accept_completion x e e' k sv) (complete_accepts x e e' ks)"

lemma closed_completion:
  assumes sv: "service_inv 0 sv" "ln_accept_stopped (sv_listener sv)" and k: "k \<in> slots (sv_listener sv)"
  shows "\<exists>sv'. accept_completion x e e' k sv = Some sv' \<and> service_inv 0 sv' \<and> ln_accept_stopped (sv_listener sv') \<and>
    slots (sv_listener sv') = slots (sv_listener sv) - {k} \<and> sv_world sv' = sv_world sv"
proof -
  let ?l = "set_event k AcceptEvent_new (sv_listener sv)" and ?sv = "on_listener (set_event k AcceptEvent_new) sv"
  have lt: "k < length (ln_accept_events (sv_listener sv))" and own: "ac_owner (ln_accept_events (sv_listener sv) ! k)"
    using k by (simp_all add: slots_def)
  have li: "listener_inv 0 (sv_listener sv)" using sv(1) by (simp add: service_inv_def)
  have slots: "slots ?l = slots (sv_listener sv) - {k}" using lt by (simp add: slots_set_event AcceptEvent_new_def)
  obtain i s where i: "ac_session (ln_accept_events (sv_listener sv) ! k) = Some i" "w_sessions (sv_world sv) i = Some s" "accepting s"
    using sv(1) k by (auto simp: service_inv_def sessions_inv_def)
  have other: "ac_session (ln_accept_events (sv_listener sv) ! j) \<noteq> Some i" if "j \<in> slots (sv_listener sv)" "j \<noteq> k" for j
    using li that k i(1) unfolding listener_inv_def by metis
  have l1: "listener_inv (Suc 0) ?l" by (rule listener_release [OF li k])
  have "service_inv (Suc 0) ?sv"
    by (rule service_listener [OF sv(1) l1]) (use lt in \<open>auto simp: slots nth_set_event\<close>)
  then have drop: "service_inv (Suc 0) (release_live_session i ?sv)"
    by (rule service_drop) (use i accepting_gone slots other lt in \<open>auto simp: nth_set_event\<close>)
  obtain n where n: "finish_io (ln_pending_io ?l) = Some n" "listener_inv 0 (?l\<lparr>ln_pending_io := n\<rparr>)"
    using listener_finish [OF l1] by auto
  let ?r = "on_listener (\<lambda>l. l\<lparr>ln_pending_io := n\<rparr>) (release_live_session i ?sv)"
  have "service_inv 0 ?r"
    by (rule service_listener [OF drop]) (use n(2) in \<open>simp_all add: release_live_session_def\<close>)
  moreover have "accept_completion x e e' k sv = Some ?r"
    using own i(1) sv(2) n(1) by (simp add: accept_completion_def process_accept_def release_live_session_def)
  moreover have "ln_accept_stopped (sv_listener ?r)" "slots (sv_listener ?r) = slots (sv_listener sv) - {k}"
    "sv_world ?r = sv_world sv"
    using sv(2) slots by (simp_all add: release_live_session_def)
  ultimately show ?thesis by blast
qed

lemma closed_completions:
  assumes "service_inv 0 sv" "ln_accept_stopped (sv_listener sv)" "distinct ks" "set ks = slots (sv_listener sv)"
  shows "\<exists>sv'. complete_accepts x e e' ks sv = Some sv' \<and> service_inv 0 sv' \<and> slots (sv_listener sv') = {} \<and>
    sv_world sv' = sv_world sv"
  using assms
proof (induction ks arbitrary: sv)
  case (Cons k ks)
  have "k \<in> slots (sv_listener sv)" using Cons.prems(4) by auto
  from closed_completion [OF Cons.prems(1,2) this] obtain sv1 where sv1: "accept_completion x e e' k sv = Some sv1" "service_inv 0 sv1"
    "ln_accept_stopped (sv_listener sv1)" "slots (sv_listener sv1) = slots (sv_listener sv) - {k}" "sv_world sv1 = sv_world sv"
    by blast
  moreover have "set ks = slots (sv_listener sv1)" using Cons.prems(3,4) sv1(4) by auto
  ultimately show ?case using Cons.IH [of sv1] Cons.prems(3) by auto
qed simp

section \<open>Closing the sessions\<close>

lemma begin_shutdown_idem: "begin_shutdown (begin_shutdown s) = begin_shutdown s"
  by (simp add: begin_shutdown_def)

lemma shutdown_all_eq:
  assumes "\<forall>i \<in> set is. w_sessions w i \<noteq> None"
  shows "shutdown_all is w = Some (w\<lparr>w_sessions := \<lambda>i. if i \<in> set is then map_option begin_shutdown (w_sessions w i) else w_sessions w i\<rparr>)"
  using assms
proof (induction "is" arbitrary: w)
  case (Cons i "is")
  then obtain s where s: "w_sessions w i = Some s" by auto
  let ?w = "w\<lparr>w_sessions := (w_sessions w)(i \<mapsto> begin_shutdown s)\<rparr>"
  have "\<forall>j \<in> set is. w_sessions ?w j \<noteq> None" using Cons.prems by simp
  from Cons.IH [OF this] s show ?case
    by (auto simp: with_session_def fun_eq_iff begin_shutdown_idem)
qed simp

lemma shutdown_all_inv:
  assumes "world_inv None w" "\<forall>i \<in> set is. w_sessions w i \<noteq> None"
  shows "\<exists>w'. shutdown_all is w = Some w' \<and> world_inv None w'"
  using assms
proof (induction "is" arbitrary: w)
  case (Cons i "is")
  then obtain s where s: "w_sessions w i = Some s" by auto
  let ?w = "w\<lparr>w_sessions := (w_sessions w)(i \<mapsto> begin_shutdown s)\<rparr>"
  have "sess_inv 0 0 (begin_shutdown s)"
    using begin_shutdown_inv sessions_okD [OF world_sessions [OF Cons.prems(1)] s] by auto
  from world_same_profile [OF Cons.prems(1) s this, of "w_stats w"] have "world_inv None ?w" by simp
  moreover have "\<forall>j \<in> set is. w_sessions ?w j \<noteq> None" using Cons.prems(2) by simp
  ultimately show ?case using Cons.IH [of ?w] s by (simp add: with_session_def)
qed simp

lemma close_sessions_closing:
  assumes sv: "service_inv 0 sv" "slots (sv_listener sv) = {}"
    and q: "\<forall>i s. w_sessions (sv_world sv) i = Some s \<longrightarrow> length (ss_logic_queue s) < 2 ^ 32 - 2"
  shows "\<exists>sv'. close_sessions sv = Some sv' \<and> closing_world (set (sv_live_sessions sv)) (sv_world sv') \<and>
    sv_live_sessions sv' = sv_live_sessions sv"
proof -
  let ?w = "sv_world sv" and ?L = "set (sv_live_sessions sv)"
  have w: "world_inv None ?w" and live: "\<forall>i \<in> ?L. w_sessions ?w i \<noteq> None"
    and dead: "\<And>i s. w_sessions ?w i = Some s \<Longrightarrow> i \<notin> ?L \<Longrightarrow> gone s"
    using sv(1) by (auto simp: service_inv_def sessions_inv_def)
  have "ln_pending_io (sv_listener sv) = 0" using sv by (simp add: service_inv_def listener_inv_def)
  moreover obtain v where v: "shutdown_all (sv_live_sessions sv) ?w = Some v" "world_inv None v"
    using shutdown_all_inv [OF w live] by blast
  moreover have ses: "w_sessions v i = (if i \<in> ?L then map_option begin_shutdown (w_sessions ?w i) else w_sessions ?w i)" for i
    using shutdown_all_eq [OF live] v(1) by auto
  have "closing t \<and> length (ss_logic_queue t) < 2 ^ 32 - 1" if t: "w_sessions v i = Some t" "i \<in> ?L" for i t
  proof -
    obtain s where s: "w_sessions ?w i = Some s" "t = begin_shutdown s" using t ses [of i] by auto
    have "closing t"
      using begin_shutdown_inv [of 0 s] sessions_okD [OF world_sessions [OF w] s(1)] s(2) by (simp add: closing_def)
    moreover have "length (ss_logic_queue t) \<le> Suc (length (ss_logic_queue s))"
      by (simp add: s(2) begin_shutdown_def process_disconnect_def queue_logic_def)
    moreover have "length (ss_logic_queue s) < 2 ^ 32 - 2" using q s(1) by blast
    ultimately show ?thesis by simp
  qed
  moreover have "gone t" if "w_sessions v i = Some t" "i \<notin> ?L" for i t using that ses [of i] dead by simp
  moreover have "\<forall>i \<in> ?L. w_sessions v i \<noteq> None" using ses live by simp
  ultimately have "closing_world ?L v" unfolding closing_world_def by simp
  with v(1) \<open>ln_pending_io (sv_listener sv) = 0\<close> show ?thesis by (simp add: close_sessions_def wait_for_io_def)
qed

section \<open>Property\<close>

text \<open>C6: closing the server ends.  When the listener has been closed, its outstanding accepts complete in any order
  and the first wait of \<open>close_service\<close> returns; the live sessions then begin their shutdown.  From there
  every completion and every job, whichever comes next, reduces what is outstanding by one, so at most
  so many can happen; as long as something is outstanding one can happen; and when nothing is, the
  waits for the sessions return, nobody is logged in, and the session tables and the rooms are empty.\<close>

theorem close_service_returns:
  assumes "0 \<le> n" "service_reachable n sv" "ln_accept_stopped (sv_listener sv)"
    and "\<forall>i s. w_sessions (sv_world sv) i = Some s \<longrightarrow> length (ss_logic_queue s) < 2 ^ 32 - 2"
    and "distinct ks" "set ks = slots (sv_listener sv)"
  shows "\<exists>sv1 sv2. complete_accepts x e e' ks sv = Some sv1 \<and> close_sessions sv1 = Some sv2 \<and>
    (\<forall>evs w. busy_run x evs (sv_world sv2) = Some w \<longrightarrow>
       length evs + outstanding_total w = outstanding_total (sv_world sv2) \<and>
       (if outstanding_total w = 0
        then close_finish (sv2\<lparr>sv_world := w\<rparr>) \<noteq> None \<and> sm_sessions (w_manager w) = [] \<and>
          lg_login_list (w_login w) = [] \<and> (\<forall>r a. occupant (w_rooms w) r a = None)
        else \<exists>ev w'. busy_event w ev \<and> server_step x ev w = Some w'))"
proof -
  have inv: "service_inv 0 sv" by (rule service_reachable_inv [OF assms(2,1)])
  obtain sv1 where sv1: "complete_accepts x e e' ks sv = Some sv1" "service_inv 0 sv1" "slots (sv_listener sv1) = {}"
    "sv_world sv1 = sv_world sv" using closed_completions [OF inv assms(3,5,6)] by blast
  obtain sv2 where sv2: "close_sessions sv1 = Some sv2" "closing_world (set (sv_live_sessions sv1)) (sv_world sv2)"
    "sv_live_sessions sv2 = sv_live_sessions sv1"
    using close_sessions_closing [OF sv1(2,3)] assms(4) sv1(4) by auto
  have "length evs + outstanding_total w = outstanding_total (sv_world sv2) \<and>
       (if outstanding_total w = 0
        then close_finish (sv2\<lparr>sv_world := w\<rparr>) \<noteq> None \<and> sm_sessions (w_manager w) = [] \<and>
          lg_login_list (w_login w) = [] \<and> (\<forall>r a. occupant (w_rooms w) r a = None)
        else \<exists>ev w'. busy_event w ev \<and> server_step x ev w = Some w')"
    if run: "busy_run x evs (sv_world sv2) = Some w" for evs w
  proof -
    have c: "closing_world (set (sv_live_sessions sv1)) w" and len: "length evs + outstanding_total w = outstanding_total (sv_world sv2)"
      using closing_run [OF sv2(2) run] by simp_all
    show ?thesis
    proof (cases "outstanding_total w = 0")
      case True
      note e = closing_world_end [OF c True]
      obtain v where "wait_all (sv_live_sessions sv1) w = Some v" using wait_all_ready [OF e(1)] by blast
      with e len True sv2(3) show ?thesis by (simp add: close_finish_def)
    next
      case False
      then obtain ev where ev: "busy_event w ev" using busy_exists [OF c] by blast
      moreover obtain w' where "server_step x ev w = Some w'" using closing_step [OF c ev] by blast
      ultimately show ?thesis using len False by auto
    qed
  qed
  with sv1(1) sv2(1) show ?thesis by blast
qed

lemma started_queues:
  assumes "register_all es m sv = Some sv'" "\<forall>i. w_sessions (sv_world sv) i = None" "w_sessions (sv_world sv') i = Some s"
  shows "s = GameSession_new True"
  using assms(1,3)
proof (induction m arbitrary: sv')
  case 0
  with assms(2) show ?case by simp
next
  case (Suc m)
  let ?app = "on_listener (\<lambda>l. l\<lparr>ln_accept_events := ln_accept_events l @ [AcceptEvent_new]\<rparr>)"
  obtain sv1 where sv1: "register_all es m sv = Some sv1" "register_accept (es m) m (?app sv1) = Some sv'"
    using Suc.prems by (auto simp: bind_eq_Some_conv)
  have "s = GameSession_new True \<or> w_sessions (sv_world sv1) i = Some s"
    using sv1(2) Suc.prems(2)
    by (auto simp: register_accept_def create_session_def reserve_accept_retry_def release_live_session_def Let_def
        split: if_splits io_result.splits)
  with Suc.IH [OF sv1(1)] show ?case by blast
qed

theorem close_service_returns_witness:
  "\<exists>ks sv1 sv2. complete_accepts ref_ext (all_well 0) (all_well 0) ks (close_listener started) = Some sv1 \<and>
     close_sessions sv1 = Some sv2"
proof -
  let ?sv = "close_listener started"
  have "service_step ref_ext S_close started = Some ?sv" by simp
  from service_reachable.step [OF started_facts(3,4) ref_ext.server_runtime_axioms this]
  have r: "service_reachable 5 ?sv" .
  have stop: "ln_accept_stopped (sv_listener ?sv)" by (simp add: close_listener_def close_socket_def)
  have "w_sessions (sv_world started) i = Some s \<Longrightarrow> s = GameSession_new True" for i s
    using started_queues [OF start_inv(2) [OF started_facts(1) _ started_facts(2)]] by (simp add: Service_new_def world_new_def)
  moreover have "ss_logic_queue (GameSession_new True) = []" by (simp add: new_session_defs)
  ultimately have q: "\<forall>i s. w_sessions (sv_world ?sv) i = Some s \<longrightarrow> length (ss_logic_queue s) < 2 ^ 32 - 2"
    by (auto simp: close_listener_def)
  let ?ks = "sorted_list_of_set (slots (sv_listener ?sv))"
  have ks: "distinct ?ks" "set ?ks = slots (sv_listener ?sv)" by simp_all
  from close_service_returns [OF _ r stop q ks, of ref_ext "all_well 0" "all_well 0"] show ?thesis by auto
qed

end
