(* ===== verification/ClientSession.thy ===== *)
theory ClientSession
  imports ConfigFiles "HOL-Library.Monad_Syntax"
begin

text \<open>
  The test client's connection: \<^verbatim>\<open>TestClient/Session/TestSession.{h,cpp}\<close>, the handlers of
  \<^verbatim>\<open>Packet/ClientPacketHandler.cpp\<close>, \<open>SendEvent::consume_sent_bytes\<close> of the client's
  \<^verbatim>\<open>NetWork/IocpEvent.h\<close> and the counters of \<^verbatim>\<open>Utils/GlobalData.h\<close>.  The client's \<open>RecvBuffer\<close>,
  \<open>SendBuffer\<close> and the rest of its \<open>SendEvent\<close> are the server's code, so their models are reused.

  A method is a function on the counters and the session's record and holds its lock to the end, so
  methods do not interleave.  The results of \<open>WSARecv\<close> and \<open>WSASend\<close> are read from \<open>client_io\<close>: a
  completion registers at most one receive and, because \<open>_is_send_register\<close> stays set until the send
  has completed, at most one send.  A failed \<open>assert\<close> and an index outside a vector are \<open>None\<close>.
  \<open>ts_recv_posted\<close> and \<open>ts_send_posted\<close> are the operating system's side: whether it holds the event.
  The handlers print on the console; what they print is kept in \<open>cg_console\<close>.
\<close>

section \<open>Outside the program\<close>

record client_ext =
  cx_pb :: pb_lib
  cx_win :: win_lib
  cx_room :: "nat \<Rightarrow> nat"

record client_io =
  ci_WSARecv :: io_result
  ci_WSASend :: io_result

section \<open>State\<close>

datatype ClientMode = MANUAL | LOAD_TEST

datatype console_line =
    C_login int
  | C_bot_login_failed int int
  | C_room_list "RoomInfo list"
  | C_entered bool
  | C_left bool
  | C_chat_failed
  | C_no_target
  | C_chat wstring wstring
  | C_server_full uint32
  | C_bad_login
  | C_bad_chat
  | C_bad_whisper
  | C_bad_choice
  | C_login_timeout
  | C_room_busy
  | C_bad_room
  | C_no_room
  | C_usage

record GlobalData =
  cg_connect_success :: uint64
  cg_login_success :: uint64
  cg_send_chat :: uint64
  cg_recv_chat :: uint64
  cg_expected_chat_recv :: uint64
  cg_disconnect :: uint64
  cg_mode :: ClientMode
  cg_console :: "console_line list"

definition GlobalData_new :: GlobalData where
  "GlobalData_new = \<lparr>cg_connect_success = 0, cg_login_success = 0, cg_send_chat = 0, cg_recv_chat = 0,
     cg_expected_chat_recv = 0, cg_disconnect = 0, cg_mode = LOAD_TEST, cg_console = []\<rparr>"

definition print :: "console_line \<Rightarrow> GlobalData \<Rightarrow> GlobalData" where
  "print l g = g\<lparr>cg_console := cg_console g @ [l]\<rparr>"

datatype TEST_SESSION_STATE = TS_NONE | TS_DISCONNECTED | TS_CONNECTED | TS_LOGIN_SEND | TS_LOGIN | TS_CHAT

datatype ROOM_REQUEST = ROOM_NONE | ROOM_ENTER | ROOM_EXIT

record TestSession =
  ts_is_connect :: bool
  ts_is_login :: bool
  ts_is_disconnect :: bool
  ts_recv_started :: bool
  ts_account_idx :: uint64
  ts_room_id :: int
  ts_test_session_state :: TEST_SESSION_STATE
  ts_bot_index :: int
  ts_login_pending :: bool
  ts_room_request :: ROOM_REQUEST
  ts_socket_open :: bool
  ts_recv_buffer :: RecvBuffer
  ts_send_queue :: "SendBuffer list"
  ts_is_send_register :: bool
  ts_send_event :: SendEvent
  ts_pending_io :: int
  ts_recv_posted :: bool
  ts_send_posted :: bool

definition TestSession_new :: TestSession where
  "TestSession_new =
     \<lparr>ts_is_connect = False, ts_is_login = False, ts_is_disconnect = False, ts_recv_started = False,
      ts_account_idx = 0, ts_room_id = - 1, ts_test_session_state = TS_NONE, ts_bot_index = 0,
      ts_login_pending = False, ts_room_request = ROOM_NONE, ts_socket_open = False,
      ts_recv_buffer = RecvBuffer_new 0x10000, ts_send_queue = [], ts_is_send_register = False,
      ts_send_event = SendEvent_new, ts_pending_io = 0, ts_recv_posted = False, ts_send_posted = False\<rparr>"

type_synonym 'a client_result = "('a \<times> GlobalData \<times> TestSession) option"

section \<open>Send events\<close>

text \<open>The client counts in \<open>uint32\<close> where the server uses \<open>int32\<close>.\<close>

function client_consume_loop :: "SendEvent \<Rightarrow> uint32 \<Rightarrow> SendEvent option" where
  "client_consume_loop ev num_bytes =
     (if num_bytes > 0 then
        if se_index ev < length (se_bufs ev) then
          let available = word_of_int (sb_write_size (se_bufs ev ! se_index ev) - se_offset ev) in
          if num_bytes < available then Some (ev\<lparr>se_offset := se_offset ev + sint num_bytes\<rparr>)
          else client_consume_loop (ev\<lparr>se_index := se_index ev + 1, se_offset := 0\<rparr>) (num_bytes - available)
        else None
      else Some ev)"
  by pat_completeness auto
termination
  by (relation "measure (\<lambda>(ev, n). length (se_bufs ev) - se_index ev)") auto

declare client_consume_loop.simps [simp del]

definition client_consume_sent_bytes :: "uint32 \<Rightarrow> SendEvent \<Rightarrow> (bool \<times> SendEvent) option" where
  "client_consume_sent_bytes num_bytes ev =
     (if num_bytes = 0 then Some (False, ev)
      else if ucast num_bytes > se_remaining ev then Some (False, ev)
      else map_option (Pair True) (client_consume_loop ev num_bytes))"

section \<open>Outstanding operations\<close>

definition TestSession_begin_io :: "TestSession \<Rightarrow> TestSession" where
  "TestSession_begin_io s = s\<lparr>ts_pending_io := ts_pending_io s + 1\<rparr>"

definition TestSession_finish_io :: "TestSession \<Rightarrow> TestSession option" where
  "TestSession_finish_io s =
     (if ts_pending_io s > 0 then Some (s\<lparr>ts_pending_io := ts_pending_io s - 1\<rparr>) else None)"

definition has_pending_io :: "TestSession \<Rightarrow> bool" where
  "has_pending_io s \<longleftrightarrow> ts_pending_io s \<noteq> 0"

section \<open>Connecting and disconnecting\<close>

definition TestSession_connect ::
  "bool \<Rightarrow> bool \<Rightarrow> GlobalData \<Rightarrow> TestSession \<Rightarrow> bool \<times> GlobalData \<times> TestSession" where
  "TestSession_connect WSASocket connect_ok g s =
     (if ts_is_connect s \<or> ts_is_disconnect s then (False, g, s)
      else if \<not> WSASocket then (False, g, s)
      else if \<not> connect_ok then (False, g, s\<lparr>ts_is_connect := False\<rparr>)
      else (True, g\<lparr>cg_connect_success := cg_connect_success g + 1\<rparr>,
        s\<lparr>ts_socket_open := True, ts_is_connect := True, ts_test_session_state := TS_CONNECTED\<rparr>))"

definition TestSession_disconnect :: "GlobalData \<Rightarrow> TestSession \<Rightarrow> GlobalData \<times> TestSession" where
  "TestSession_disconnect g s =
     (if \<not> ts_is_connect s then (g, s)
      else if ts_is_disconnect s then (g, s\<lparr>ts_is_connect := False\<rparr>)
      else (g\<lparr>cg_disconnect := cg_disconnect g + 1\<rparr>,
        s\<lparr>ts_is_connect := False, ts_is_disconnect := True, ts_test_session_state := TS_DISCONNECTED,
          ts_is_login := False, ts_account_idx := 0, ts_room_id := - 1, ts_login_pending := False,
          ts_room_request := ROOM_NONE, ts_is_send_register := False, ts_send_queue := [],
          ts_socket_open := False\<rparr>))"

text \<open>\<open>CreateIoCompletionPort\<close> for the socket.\<close>

definition register_iocp :: "bool \<Rightarrow> TestSession \<Rightarrow> bool" where
  "register_iocp port_ok s \<longleftrightarrow> ts_is_connect s \<and> ts_socket_open s \<and> port_ok"

definition TestSession_register_recv :: "client_io \<Rightarrow> GlobalData \<Rightarrow> TestSession \<Rightarrow> bool client_result" where
  "TestSession_register_recv e g s =
     (if \<not> ts_is_connect s then Some (False, g, s)
      else
        let s = TestSession_begin_io s in
        if io_failed (ci_WSARecv e)
        then do { s \<leftarrow> TestSession_finish_io s; Some (False, TestSession_disconnect g s) }
        else Some (True, g, s\<lparr>ts_recv_posted := True\<rparr>))"

definition TestSession_start :: "client_io \<Rightarrow> GlobalData \<Rightarrow> TestSession \<Rightarrow> bool client_result" where
  "TestSession_start e g s =
     (if \<not> ts_is_connect s then Some (False, TestSession_disconnect g s)
      else if ts_recv_started s then Some (False, g, s)
      else do {
        (registered, g, s) \<leftarrow> TestSession_register_recv e g (s\<lparr>ts_recv_started := True\<rparr>);
        if \<not> registered then Some (False, TestSession_disconnect g s) else Some (True, g, s) })"

section \<open>Sending\<close>

definition TestSession_register_send :: "client_io \<Rightarrow> GlobalData \<Rightarrow> TestSession \<Rightarrow> bool client_result" where
  "TestSession_register_send e g s =
     (if \<not> ts_is_connect s
      then Some (False, g, s\<lparr>ts_send_event := send_Buffers_clear (ts_send_event s), ts_is_send_register := False\<rparr>)
      else
        let s = (if has_pending_data (ts_send_event s) then s
                 else s\<lparr>ts_send_event := fold send_Buffers_push (ts_send_queue s) (ts_send_event s),
                        ts_send_queue := []\<rparr>) in
        if build_wsabufs (ts_send_event s) = []
        then Some (True, g, s\<lparr>ts_send_event := send_Buffers_clear (ts_send_event s), ts_is_send_register := False\<rparr>)
        else
          let s = TestSession_begin_io s in
          if io_failed (ci_WSASend e)
          then do {
            s \<leftarrow> TestSession_finish_io s;
            Some (False, TestSession_disconnect g (s\<lparr>ts_send_event := send_Buffers_clear (ts_send_event s)\<rparr>)) }
          else Some (True, g, s\<lparr>ts_send_posted := True\<rparr>))"

text \<open>\<open>None\<close> as buffer is the null pointer.\<close>

definition TestSession_send ::
  "client_io \<Rightarrow> SendBuffer option \<Rightarrow> GlobalData \<Rightarrow> TestSession \<Rightarrow> bool client_result" where
  "TestSession_send e send_buffer g s =
     (case send_buffer of
        None \<Rightarrow> Some (False, g, s)
      | Some sb \<Rightarrow>
          if sb_write_size sb \<le> 0 then Some (False, g, s)
          else if \<not> ts_is_connect s then Some (False, g, s)
          else
            let registerSend = (\<not> ts_is_send_register s);
                s = s\<lparr>ts_send_queue := ts_send_queue s @ [sb], ts_is_send_register := True\<rparr> in
            if registerSend then TestSession_register_send e g s else Some (True, g, s))"

definition TestSession_process_send ::
  "client_io \<Rightarrow> uint32 \<Rightarrow> GlobalData \<Rightarrow> TestSession \<Rightarrow> (GlobalData \<times> TestSession) option" where
  "TestSession_process_send e num_bytes g s =
     (if \<not> ts_is_connect s
      then Some (g, s\<lparr>ts_send_event := send_Buffers_clear (ts_send_event s), ts_is_send_register := False\<rparr>)
      else do {
        (accepted, ev) \<leftarrow> client_consume_sent_bytes num_bytes (ts_send_event s);
        if \<not> accepted then Some (TestSession_disconnect g (s\<lparr>ts_send_event := send_Buffers_clear ev\<rparr>))
        else if has_pending_data ev
        then map_option snd (TestSession_register_send e g (s\<lparr>ts_send_event := ev\<rparr>))
        else
          let s = s\<lparr>ts_send_event := send_Buffers_clear ev\<rparr> in
          if ts_send_queue s = [] then Some (g, s\<lparr>ts_is_send_register := False\<rparr>)
          else map_option snd (TestSession_register_send e g s) })"

section \<open>Requests\<close>

abbreviation make_request :: "client_ext \<Rightarrow> req_packet \<Rightarrow> SendBuffer option" where
  "make_request x \<equiv> make_req (cx_pb x) (cx_room x)"

text \<open>The bytes of a \<open>std::string\<close>.\<close>

definition bytes_of :: "string \<Rightarrow> byte list" where
  "bytes_of s = map (\<lambda>c. word_of_nat (of_char c)) s"

definition begin_login :: "TestSession \<Rightarrow> bool \<times> TestSession" where
  "begin_login s =
     (if \<not> ts_is_connect s \<or> ts_is_login s \<or> ts_login_pending s then (False, s)
      else (True, s\<lparr>ts_login_pending := True, ts_test_session_state := TS_LOGIN_SEND\<rparr>))"

definition complete_login :: "bool \<Rightarrow> uint64 \<Rightarrow> TestSession \<Rightarrow> TestSession" where
  "complete_login success account_idx s =
     (let s = (if ts_is_connect s
         then s\<lparr>ts_account_idx := (if success then account_idx else 0), ts_is_login := success,
                ts_test_session_state := (if success then TS_LOGIN else TS_CONNECTED)\<rparr>
         else s) in
      s\<lparr>ts_login_pending := False\<rparr>)"

definition TestSession_login ::
  "client_ext \<Rightarrow> client_io \<Rightarrow> bool \<Rightarrow> byte list \<Rightarrow> byte list \<Rightarrow> wstring \<Rightarrow> GlobalData \<Rightarrow> TestSession \<Rightarrow>
   bool client_result" where
  "TestSession_login x e is_create user_id pw name g s =
     (let user_name = WStringToUtf8 (cx_win x) name in
      if user_id = [] \<or> length user_id > 32 \<or> pw = [] \<or> length pw > 32 \<or>
         is_create \<and> (user_name = [] \<or> length user_name > 32)
      then Some (False, print C_bad_login g, s)
      else case begin_login s of
        (False, s) \<Rightarrow> Some (False, g, s)
      | (True, s) \<Rightarrow> do {
          (sent, g, s) \<leftarrow> TestSession_send e (make_request x (P_REQ_LOGIN
            \<lparr>req_login_is_create = is_create, req_login_id = user_id, req_login_pw = pw, req_login_name = user_name\<rparr>)) g s;
          if \<not> sent then Some (False, g, complete_login False 0 s) else Some (True, g, s) })"

definition test_login ::
  "client_ext \<Rightarrow> client_io \<Rightarrow> uint32 \<Rightarrow> bool \<Rightarrow> GlobalData \<Rightarrow> TestSession \<Rightarrow> bool client_result" where
  "test_login x e index is_create_has_account g s =
     (case begin_login s of
        (False, s) \<Rightarrow> Some (False, g, s)
      | (True, s) \<Rightarrow> do {
          (sent, g, s) \<leftarrow> TestSession_send e (make_request x (P_REQ_BOT_LOGIN
            \<lparr>req_bot_login_is_create = (\<not> is_create_has_account),
             req_bot_login_id = bytes_of (''bot_'' @ decimal (uint index)), req_bot_login_pw = bytes_of ''1234'',
             req_bot_login_name = bytes_of (''Bot_'' @ decimal (uint index))\<rparr>)) g s;
          if \<not> sent then Some (False, g, complete_login False 0 s) else Some (True, g, s) })"

text \<open>The conditions that end the waits, apart from the time limit.\<close>

definition wait_for_login :: "TestSession \<Rightarrow> bool" where
  "wait_for_login s \<longleftrightarrow> \<not> ts_login_pending s \<or> \<not> ts_is_connect s"

definition wait_for_disconnect :: "TestSession \<Rightarrow> bool" where
  "wait_for_disconnect s \<longleftrightarrow> \<not> ts_is_connect s"

definition TestSession_wait_for_io :: "TestSession \<Rightarrow> bool" where
  "TestSession_wait_for_io s \<longleftrightarrow> ts_pending_io s = 0"

definition TestSession_logout ::
  "client_ext \<Rightarrow> client_io \<Rightarrow> GlobalData \<Rightarrow> TestSession \<Rightarrow> (GlobalData \<times> TestSession) option" where
  "TestSession_logout x e g s =
     map_option snd (TestSession_send e (make_request x (P_REQ_LOGOUT \<lparr>req_logout_idx = ts_account_idx s\<rparr>)) g s)"

definition send_get_room_info ::
  "client_ext \<Rightarrow> client_io \<Rightarrow> GlobalData \<Rightarrow> TestSession \<Rightarrow> (GlobalData \<times> TestSession) option" where
  "send_get_room_info x e g s = map_option snd (TestSession_send e (make_request x (P_REQ_GET_ROOM_INFO ())) g s)"

definition complete_enter_room :: "bool \<Rightarrow> int \<Rightarrow> TestSession \<Rightarrow> TestSession" where
  "complete_enter_room success room_id s =
     (if ts_room_request s \<noteq> ROOM_ENTER then s
      else let s = (if ts_is_connect s \<and> success then s\<lparr>ts_room_id := room_id\<rparr> else s) in
        s\<lparr>ts_room_request := ROOM_NONE\<rparr>)"

definition complete_exit_room :: "bool \<Rightarrow> TestSession \<Rightarrow> TestSession" where
  "complete_exit_room success s =
     (if ts_room_request s \<noteq> ROOM_EXIT then s
      else let s = (if ts_is_connect s \<and> success then s\<lparr>ts_room_id := - 1\<rparr> else s) in
        s\<lparr>ts_room_request := ROOM_NONE\<rparr>)"

definition send_enter_room ::
  "client_ext \<Rightarrow> client_io \<Rightarrow> 8 word \<Rightarrow> GlobalData \<Rightarrow> TestSession \<Rightarrow> bool client_result" where
  "send_enter_room x e room_id g s =
     (if \<not> ts_is_connect s \<or> \<not> ts_is_login s \<or> ts_room_id s \<ge> 0 \<or> ts_room_request s \<noteq> ROOM_NONE
      then Some (False, g, s)
      else do {
        (sent, g, s) \<leftarrow> TestSession_send e (make_request x (P_REQ_ENTER_ROOM \<lparr>req_enter_room_room_id = uint room_id\<rparr>)) g
          (s\<lparr>ts_room_request := ROOM_ENTER\<rparr>);
        if \<not> sent then Some (False, g, complete_enter_room False (- 1) s) else Some (True, g, s) })"

definition send_exit_room :: "client_ext \<Rightarrow> client_io \<Rightarrow> GlobalData \<Rightarrow> TestSession \<Rightarrow> bool client_result" where
  "send_exit_room x e g s =
     (if \<not> ts_is_connect s \<or> \<not> ts_is_login s \<or> ts_room_id s < 0 \<or> ts_room_request s \<noteq> ROOM_NONE
      then Some (False, g, s)
      else do {
        (sent, g, s) \<leftarrow> TestSession_send e (make_request x (P_REQ_EXIT_ROOM ())) g (s\<lparr>ts_room_request := ROOM_EXIT\<rparr>);
        if \<not> sent then Some (False, g, complete_exit_room False s) else Some (True, g, s) })"

text \<open>Counting a chat that was sent, the end of \<open>send_chat\<close> and \<open>send_whisper_chat\<close>.\<close>

definition send_counted ::
  "client_ext \<Rightarrow> client_io \<Rightarrow> REQ_CHAT \<Rightarrow> GlobalData \<Rightarrow> TestSession \<Rightarrow> (GlobalData \<times> TestSession) option" where
  "send_counted x e pkt g s = do {
     (sent, g, s) \<leftarrow> TestSession_send e (make_request x (P_REQ_CHAT pkt)) g s;
     Some (if sent then g\<lparr>cg_send_chat := cg_send_chat g + 1\<rparr> else g, s) }"

definition send_chat ::
  "client_ext \<Rightarrow> client_io \<Rightarrow> wstring \<Rightarrow> int \<Rightarrow> int \<Rightarrow> GlobalData \<Rightarrow> TestSession \<Rightarrow> (GlobalData \<times> TestSession) option" where
  "send_chat x e message chat_state room_id g s =
     (let text = WStringToUtf8 (cx_win x) message in
      if text = [] \<or> length text > 256 then Some (print C_bad_chat g, s)
      else send_counted x e (REQ_CHAT_new\<lparr>req_chat_message := text, req_chat_chat_state := chat_state,
             req_chat_room_id := room_id\<rparr>) g s)"

definition send_whisper_chat ::
  "client_ext \<Rightarrow> client_io \<Rightarrow> wstring \<Rightarrow> wstring \<Rightarrow> int \<Rightarrow> int \<Rightarrow> GlobalData \<Rightarrow> TestSession \<Rightarrow>
   (GlobalData \<times> TestSession) option" where
  "send_whisper_chat x e target_name message chat_state room_id g s =
     (let target = WStringToUtf8 (cx_win x) target_name;
          text = WStringToUtf8 (cx_win x) message in
      if target = [] \<or> length target > 32 \<or> text = [] \<or> length text > 256 then Some (print C_bad_whisper g, s)
      else send_counted x e (REQ_CHAT_new\<lparr>req_chat_message := text, req_chat_chat_state := chat_state,
             req_chat_target_name := target\<rparr>) g s)"

section \<open>Handlers\<close>

definition Handle_ACK_LOGIN :: "ACK_LOGIN \<Rightarrow> GlobalData \<Rightarrow> TestSession \<Rightarrow> bool client_result" where
  "Handle_ACK_LOGIN pkt g s =
     Some (True, print (C_login (ack_login_result pkt)) g,
       complete_login (ack_login_result pkt = login_error_value LOGIN_SUCCESS) (ack_login_idx pkt) s)"

definition Handle_ACK_BOT_LOGIN ::
  "client_ext \<Rightarrow> client_io \<Rightarrow> ACK_BOT_LOGIN \<Rightarrow> GlobalData \<Rightarrow> TestSession \<Rightarrow> bool client_result" where
  "Handle_ACK_BOT_LOGIN x e pkt g s =
     (let success = (ack_bot_login_result pkt = login_error_value LOGIN_SUCCESS);
          s = complete_login success (ack_bot_login_idx pkt) s in
      if success then Some (True, g\<lparr>cg_login_success := cg_login_success g + 1\<rparr>, s)
      else if ack_bot_login_result pkt = login_error_value LOGIN_CREATE_HAS_ACCOUNT
      then map_option (\<lambda>(_, g, s). (True, g, s)) (test_login x e (word_of_int (ts_bot_index s)) True g s)
      else Some (True, TestSession_disconnect
             (print (C_bot_login_failed (ts_bot_index s) (ack_bot_login_result pkt)) g) s))"

definition Handle_ACK_LOGOUT :: "ACK_LOGOUT \<Rightarrow> GlobalData \<Rightarrow> TestSession \<Rightarrow> bool client_result" where
  "Handle_ACK_LOGOUT pkt g s = Some (True, TestSession_disconnect g s)"

definition Handle_ACK_GET_ROOM_INFO :: "ACK_GET_ROOM_INFO \<Rightarrow> GlobalData \<Rightarrow> TestSession \<Rightarrow> bool client_result" where
  "Handle_ACK_GET_ROOM_INFO pkt g s =
     (if cg_mode g \<noteq> MANUAL then Some (True, g, s)
      else Some (True, print (C_room_list (ack_get_room_info_room_info_list pkt)) g, s))"

definition Handle_ACK_ENTER_ROOM :: "ACK_ENTER_ROOM \<Rightarrow> GlobalData \<Rightarrow> TestSession \<Rightarrow> bool client_result" where
  "Handle_ACK_ENTER_ROOM pkt g s =
     (let success = (ack_enter_room_result pkt = ENTER_ROOM_SUCCESS);
          s = complete_enter_room success (ack_enter_room_room_id pkt) s in
      if success then Some (True, if cg_mode g = MANUAL then print (C_entered True) g else g, s)
      else Some (True, print (C_entered False) g, s))"

definition Handle_ACK_EXIT_ROOM :: "ACK_EXIT_ROOM \<Rightarrow> GlobalData \<Rightarrow> TestSession \<Rightarrow> bool client_result" where
  "Handle_ACK_EXIT_ROOM pkt g s =
     (let success = (ack_exit_room_result pkt = EXIT_ROOM_SUCCESS);
          s = complete_exit_room success s in
      if success then Some (True, if cg_mode g = MANUAL then print (C_left True) g else g, s)
      else if cg_mode g = MANUAL then Some (True, print (C_left False) g, s)
      else Some (True, g, s))"

definition Handle_ACK_CHAT :: "ACK_CHAT \<Rightarrow> GlobalData \<Rightarrow> TestSession \<Rightarrow> bool client_result" where
  "Handle_ACK_CHAT pkt g s =
     (let r = ack_chat_result pkt in
      if r = CHAT_ERROR_SUCCESS
      then Some (True, g\<lparr>cg_expected_chat_recv := cg_expected_chat_recv g + ucast (ack_chat_target_count pkt)\<rparr>, s)
      else if r = CHAT_ERROR_FAIL then Some (True, print C_chat_failed g, s)
      else if r = CHAT_ERROR_NOT_TARGET then Some (True, print C_no_target g, s)
      else Some (True, g, s))"

definition Handle_ACK_SEND_CHAT ::
  "client_ext \<Rightarrow> ACK_SEND_CHAT \<Rightarrow> GlobalData \<Rightarrow> TestSession \<Rightarrow> bool client_result" where
  "Handle_ACK_SEND_CHAT x pkt g s =
     (let g = (if cg_mode g = MANUAL \<and> ts_is_login s
         then print (C_chat (Utf8ToWString (cx_win x) (ack_send_chat_user_name pkt))
                            (Utf8ToWString (cx_win x) (ack_send_chat_message pkt))) g
         else g) in
      Some (True, g\<lparr>cg_recv_chat := cg_recv_chat g + 1\<rparr>, s))"

definition Handle_ACK_SEND_CONNECT_PING ::
  "client_ext \<Rightarrow> client_io \<Rightarrow> ACK_SEND_CONNECT_PING \<Rightarrow> GlobalData \<Rightarrow> TestSession \<Rightarrow> bool client_result" where
  "Handle_ACK_SEND_CONNECT_PING x e pkt g s =
     map_option (\<lambda>(_, g, s). (True, g, s))
       (TestSession_send e (make_request x (P_REQ_CONNECT_PONG
          \<lparr>req_connect_pong_server_tick = ack_send_connect_ping_server_tick pkt\<rparr>)) g s)"

definition Handle_ACK_SERVER_FULL :: "ACK_SERVER_FULL \<Rightarrow> GlobalData \<Rightarrow> TestSession \<Rightarrow> bool client_result" where
  "Handle_ACK_SERVER_FULL pkt g s =
     Some (True, TestSession_disconnect (print (C_server_full (ack_server_full_max_session_count pkt)) g)
       (s\<lparr>ts_account_idx := 0, ts_is_login := False\<rparr>))"

text \<open>The table of handlers; the session is never null, since \<open>process_recv\<close> passes itself.\<close>

fun Handle_ACK :: "client_ext \<Rightarrow> client_io \<Rightarrow> ack_packet \<Rightarrow> GlobalData \<Rightarrow> TestSession \<Rightarrow> bool client_result" where
  "Handle_ACK x e (P_ACK_LOGIN pkt) g s = Handle_ACK_LOGIN pkt g s"
| "Handle_ACK x e (P_ACK_BOT_LOGIN pkt) g s = Handle_ACK_BOT_LOGIN x e pkt g s"
| "Handle_ACK x e (P_ACK_LOGOUT pkt) g s = Handle_ACK_LOGOUT pkt g s"
| "Handle_ACK x e (P_ACK_GET_ROOM_INFO pkt) g s = Handle_ACK_GET_ROOM_INFO pkt g s"
| "Handle_ACK x e (P_ACK_ENTER_ROOM pkt) g s = Handle_ACK_ENTER_ROOM pkt g s"
| "Handle_ACK x e (P_ACK_EXIT_ROOM pkt) g s = Handle_ACK_EXIT_ROOM pkt g s"
| "Handle_ACK x e (P_ACK_CHAT pkt) g s = Handle_ACK_CHAT pkt g s"
| "Handle_ACK x e (P_ACK_SEND_CHAT pkt) g s = Handle_ACK_SEND_CHAT x pkt g s"
| "Handle_ACK x e (P_ACK_SEND_CONNECT_PING pkt) g s = Handle_ACK_SEND_CONNECT_PING x e pkt g s"
| "Handle_ACK x e (P_ACK_SERVER_FULL pkt) g s = Handle_ACK_SERVER_FULL pkt g s"

section \<open>Receiving\<close>

definition MAX_PACKET_SIZE :: nat where "MAX_PACKET_SIZE = 0x10000"

definition client_handle_packet ::
  "client_ext \<Rightarrow> client_io \<Rightarrow> byte list \<Rightarrow> GlobalData \<Rightarrow> TestSession \<Rightarrow> bool client_result" where
  "client_handle_packet x e buffer g s =
     (case client_HandlePacket (cx_pb x) buffer of
        None \<Rightarrow> Some (False, g, s)
      | Some pkt \<Rightarrow> Handle_ACK x e pkt g s)"

text \<open>The loop of \<open>process_recv\<close>: the bytes handled, or \<open>None\<close> where it disconnects and returns.\<close>

function recv_loop ::
  "client_ext \<Rightarrow> client_io \<Rightarrow> byte list \<Rightarrow> nat \<Rightarrow> GlobalData \<Rightarrow> TestSession \<Rightarrow> nat option client_result" where
  "recv_loop x e recv_buffer process_len g s =
     (let data_size = length recv_buffer - process_len in
      if data_size < HEADER_SIZE then Some (Some process_len, g, s)
      else let header = read_header (drop process_len recv_buffer); size = unat (hdr_size header) in
        if size < HEADER_SIZE then Some (None, TestSession_disconnect g s)
        else if size > MAX_PACKET_SIZE then Some (None, TestSession_disconnect g s)
        else if data_size < size then Some (Some process_len, g, s)
        else case client_handle_packet x e (block process_len size recv_buffer) g s of
            None \<Rightarrow> None
          | Some (handled, g, s) \<Rightarrow>
              if \<not> handled then Some (None, TestSession_disconnect g s)
              else if \<not> ts_is_connect s then Some (Some (process_len + size), g, s)
              else recv_loop x e recv_buffer (process_len + size) g s)"
  by pat_completeness auto
termination
  by (relation "measure (\<lambda>(x, e, buf, p, g, s). length buf - p)") (auto simp: HEADER_SIZE_def)

declare recv_loop.simps [simp del]

definition TestSession_process_recv ::
  "client_ext \<Rightarrow> client_io \<Rightarrow> uint32 \<Rightarrow> GlobalData \<Rightarrow> TestSession \<Rightarrow> (GlobalData \<times> TestSession) option" where
  "TestSession_process_recv x e num_bytes g s =
     (if \<not> ts_is_connect s then Some (g, s)
      else if num_bytes = 0 then Some (TestSession_disconnect g s)
      else let (written, rb) = on_write (sint num_bytes) (ts_recv_buffer s) in
        if \<not> written then Some (TestSession_disconnect g s)
        else do {
          (handled, g, s) \<leftarrow> recv_loop x e (rb_data rb) 0 g (s\<lparr>ts_recv_buffer := rb\<rparr>);
          case handled of
            None \<Rightarrow> Some (g, s)
          | Some process_len \<Rightarrow>
              if int process_len > data_size rb then Some (TestSession_disconnect g s)
              else let (taken, rb) = on_read (int process_len) (ts_recv_buffer s) in
                if \<not> taken then Some (TestSession_disconnect g s)
                else map_option snd (TestSession_register_recv e g (s\<lparr>ts_recv_buffer := clean rb\<rparr>)) })"

datatype ClientEvent = CE_RECV | CE_SEND

definition TestSession_dispatch ::
  "client_ext \<Rightarrow> client_io \<Rightarrow> ClientEvent \<Rightarrow> int \<Rightarrow> GlobalData \<Rightarrow> TestSession \<Rightarrow> (GlobalData \<times> TestSession) option" where
  "TestSession_dispatch x e iocp_event numOfbyte g s = do {
     (g, s) \<leftarrow> (case iocp_event of
        CE_SEND \<Rightarrow> TestSession_process_send e (word_of_int numOfbyte) g s
      | CE_RECV \<Rightarrow> TestSession_process_recv x e (word_of_int numOfbyte) g s);
     s \<leftarrow> TestSession_finish_io s;
     Some (g, s) }"

end
