(* ===== verification/ClientSafe.thy ===== *)
theory ClientSafe
  imports ClientSession
begin

text \<open>
  The client's session stays well-formed: \<open>ts_inv\<close> ties the flags, the request state and the counter of
  outstanding operations together, every method and every completion keeps it, and none of them fails
  an assertion or leaves a vector, whatever bytes the server sends.
\<close>

section \<open>Consuming sent bytes\<close>

lemma client_consume_loop_eq:
  assumes "se_inv ev" "uint n \<le> int (length (se_pending ev))"
  shows "client_consume_loop ev n = consume_loop ev (uint n)"
  using assms
proof (induction ev n rule: client_consume_loop.induct)
  case (1 ev n)
  show ?case
  proof (cases "n > 0 \<and> se_index ev < length (se_bufs ev)")
    case False
    then show ?thesis
      by (auto simp: client_consume_loop.simps [of ev n] consume_loop.simps [of ev "uint n"] word_less_def)
  next
    case True
    let ?sb = "se_bufs ev ! se_index ev"
    define available where "available = sb_write_size ?sb - se_offset ev"
    let ?ev = "ev\<lparr>se_index := se_index ev + 1, se_offset := 0\<rparr>"
    have sb: "sb_ok ?sb" using 1 True by (simp add: se_inv_def)
    have off: "0 \<le> se_offset ev" "se_offset ev < sb_write_size ?sb" using 1 True by (simp_all add: se_inv_def)
    have av: "0 < available" "available < 2 ^ 31" using sb off by (auto simp: available_def sb_ok_def)
    then have u: "uint (word_of_int available :: uint32) = available" by (simp add: uint_word_of_int)
    have lt: "n < word_of_int available \<longleftrightarrow> uint n < available" by (simp add: word_less_def u)
    show ?thesis
    proof (cases "uint n < available")
      case less: True
      then have "sint n = uint n"
        using av by (simp only: sint_uint) (rule signed_take_bit_int_eq_self; simp add: order_trans [OF _ uint_ge_0])
      with True less lt show ?thesis
        by (simp add: client_consume_loop.simps [of ev n] consume_loop.simps [of ev "uint n"] available_def
            word_less_def)
    next
      case False
      then have d: "uint (n - word_of_int available) = uint n - available"
        using u by (simp add: uint_sub_if')
      have inv: "se_inv ?ev" using 1 True by (auto simp: se_inv_def sb_ok_def)
      have pend: "se_pending ev = drop (nat (se_offset ev)) (sb_data ?sb) @ se_pending ?ev"
        using se_pending_Cons [OF 1(2)] True by (simp add: se_pending_def)
      have "int (length (drop (nat (se_offset ev)) (sb_data ?sb))) = available"
        using sb off by (simp add: available_def)
      with 1(3) pend have le: "uint (n - word_of_int available) \<le> int (length (se_pending ?ev))"
        by (simp add: d)
      have "client_consume_loop ?ev (n - word_of_int available) = consume_loop ?ev (uint (n - word_of_int available))"
        using True False lt inv le available_def by (intro "1.IH") auto
      with True False lt d show ?thesis
        by (simp add: client_consume_loop.simps [of ev n] consume_loop.simps [of ev "uint n"] available_def
            word_less_def)
    qed
  qed
qed

lemma remaining_le: "se_inv ev \<Longrightarrow> \<not> ucast n > se_remaining ev \<Longrightarrow> uint (n :: uint32) \<le> int (length (se_pending ev))"
proof -
  assume *: "se_inv ev" "\<not> ucast n > se_remaining ev"
  have "unat n < 2 ^ 32" using unsigned_less [of n] by simp
  then have "unat (ucast n :: uint64) = unat n" by (simp add: unsigned_ucast_eq take_bit_nat_eq_self)
  with * have "unat n \<le> length (se_pending ev) mod 2 ^ 64"
    by (simp add: se_remaining_eq not_less word_le_nat_alt unat_of_nat)
  also have "\<dots> \<le> length (se_pending ev)" by (rule mod_less_eq_dividend)
  finally show ?thesis by (metis of_nat_le_iff uint_nat)
qed

lemma client_consume_eq:
  assumes "se_inv ev"
  shows "client_consume_sent_bytes n ev = consume_sent_bytes (uint n) ev"
proof -
  have "word_of_int (uint n) = (ucast n :: uint64)" by (simp add: unsigned_ucast_eq)
  moreover have "uint n \<le> 0 \<longleftrightarrow> n = 0"
    using uint_ge_0 [of n] by (auto simp: uint_0_iff dest: antisym)
  ultimately show ?thesis
    using client_consume_loop_eq [OF assms remaining_le [OF assms]]
    by (simp add: client_consume_sent_bytes_def consume_sent_bytes_def)
qed

lemma client_consume_cases:
  assumes "se_inv ev"
  obtains "client_consume_sent_bytes n ev = Some (False, ev)"
  | ev' where "client_consume_sent_bytes n ev = Some (True, ev')" "se_inv ev'" "n \<noteq> 0"
      "se_pending ev' = drop (unat n) (se_pending ev)" "se_bufs ev' = se_bufs ev"
proof (cases "n = 0 \<or> ucast n > se_remaining ev")
  case True
  then have "client_consume_sent_bytes n ev = Some (False, ev)" by (auto simp: client_consume_sent_bytes_def)
  then show ?thesis by (rule that(1))
next
  case False
  then have le: "uint n \<le> int (length (se_pending ev))" using remaining_le [OF assms, of n] by blast
  from consume_loop_correct [OF assms uint_ge_0 le] client_consume_loop_eq [OF assms le] False
  obtain ev' where "client_consume_sent_bytes n ev = Some (True, ev')" "se_inv ev'"
    "se_pending ev' = drop (nat (uint n)) (se_pending ev)" "se_bufs ev' = se_bufs ev"
    by (auto simp: client_consume_sent_bytes_def)
  with False show ?thesis by (intro that(2) [of ev']) (simp_all flip: unat_eq_nat_uint)
qed

section \<open>Invariant\<close>

text \<open>\<open>io\<close> completions are being dispatched.  The state of the enumeration is determined by the flags, an idle
  session has neither account nor room nor open request, and a disconnected one is reset.\<close>

definition ts_base :: "nat \<Rightarrow> TestSession \<Rightarrow> bool" where
  "ts_base io s \<longleftrightarrow>
     rb_inv (ts_recv_buffer s) \<and> rb_Buffer_size (ts_recv_buffer s) = int BUFFER_SIZE \<and>
     se_inv (ts_send_event s) \<and> (\<forall>sb \<in> set (ts_send_queue s). sb_ok sb) \<and>
     ts_pending_io s = of_bool (ts_recv_posted s) + of_bool (ts_send_posted s) + int io \<and>
     ts_socket_open s = ts_is_connect s \<and>
     (ts_is_connect s \<longrightarrow> \<not> ts_is_disconnect s \<and> ts_test_session_state s \<in> {TS_CONNECTED, TS_LOGIN_SEND, TS_LOGIN}) \<and>
     (\<not> ts_is_connect s \<longrightarrow> ts_room_id s = - 1 \<and> ts_room_request s = ROOM_NONE \<and> \<not> ts_is_send_register s \<and>
        ts_send_queue s = [] \<and> ts_test_session_state s \<in> {TS_NONE, TS_DISCONNECTED}) \<and>
     ts_is_login s = (ts_test_session_state s = TS_LOGIN) \<and>
     ts_login_pending s = (ts_test_session_state s = TS_LOGIN_SEND) \<and>
     (\<not> ts_is_login s \<longrightarrow> ts_account_idx s = 0) \<and>
     (ts_room_request s = ROOM_ENTER \<longrightarrow> ts_room_id s < 0) \<and>
     (ts_room_request s = ROOM_EXIT \<longrightarrow> ts_room_id s \<ge> 0) \<and>
     (\<not> ts_recv_started s \<longrightarrow> \<not> ts_recv_posted s \<and> ts_recv_buffer s = RecvBuffer_new (int BUFFER_SIZE)) \<and>
     (\<not> ts_is_connect s \<and> \<not> ts_is_disconnect s \<longrightarrow>
        \<not> ts_recv_started s \<and> \<not> ts_send_posted s \<and> se_bufs (ts_send_event s) = [])"

definition ts_send_ok :: "TestSession \<Rightarrow> bool" where
  "ts_send_ok s \<longleftrightarrow> (ts_is_connect s \<longrightarrow> ts_is_send_register s = ts_send_posted s \<and>
     (if ts_send_posted s then has_pending_data (ts_send_event s)
      else ts_send_queue s = [] \<and> se_bufs (ts_send_event s) = []))"

definition ts_recv_ok :: "TestSession \<Rightarrow> bool" where
  "ts_recv_ok s \<longleftrightarrow> (ts_is_connect s \<and> ts_recv_started s \<longrightarrow>
     ts_recv_posted s \<and> rest_wf (rb_data (ts_recv_buffer s)) \<and> int BUFFER_SIZE \<le> free_size (ts_recv_buffer s))"

definition ts_inv :: "nat \<Rightarrow> TestSession \<Rightarrow> bool" where
  "ts_inv io s \<longleftrightarrow> ts_base io s \<and> ts_send_ok s \<and> ts_recv_ok s"

text \<open>What the methods a handler calls leave alone, and their contract while a completion is handled.\<close>

definition recv_frame :: "TestSession \<Rightarrow> TestSession \<Rightarrow> bool" where
  "recv_frame s s' \<longleftrightarrow> ts_recv_buffer s' = ts_recv_buffer s \<and> ts_recv_posted s' = ts_recv_posted s \<and>
     ts_recv_started s' = ts_recv_started s \<and> (ts_is_connect s' \<longrightarrow> ts_is_connect s) \<and>
     (ts_is_disconnect s \<longrightarrow> ts_is_disconnect s') \<and> (ts_is_connect s \<longrightarrow> ts_is_connect s' \<or> ts_is_disconnect s')"

definition tidy :: "nat \<Rightarrow> TestSession \<Rightarrow> TestSession \<Rightarrow> bool" where
  "tidy io s s' \<longleftrightarrow> ts_base io s' \<and> ts_send_ok s' \<and> recv_frame s s'"

definition keeps :: "nat \<Rightarrow> TestSession \<Rightarrow> 'a client_result \<Rightarrow> bool" where
  "keeps io s r \<longleftrightarrow> (\<exists>a g s'. r = Some (a, g, s') \<and> tidy io s s')"

lemma recv_frame_refl [simp]: "recv_frame s s"
  by (simp add: recv_frame_def)

lemma recv_frame_trans: "recv_frame s s' \<Longrightarrow> recv_frame s' s'' \<Longrightarrow> recv_frame s s''"
  by (auto simp: recv_frame_def)

lemma tidy_trans: "tidy io s s' \<Longrightarrow> tidy io s' s'' \<Longrightarrow> tidy io s s''"
  by (auto simp: tidy_def intro: recv_frame_trans)

lemma tidy_refl: "ts_base io s \<Longrightarrow> ts_send_ok s \<Longrightarrow> tidy io s s"
  by (simp add: tidy_def)

lemma tidyD: "tidy io s s' \<Longrightarrow> ts_base io s'" "tidy io s s' \<Longrightarrow> ts_send_ok s'" "tidy io s s' \<Longrightarrow> recv_frame s s'"
  by (simp_all add: tidy_def)

lemma keepsI: "tidy io s s' \<Longrightarrow> keeps io s (Some (a, g, s'))"
  by (simp add: keeps_def)

lemma tidy_inv:
  assumes "ts_inv io s" "tidy io s s'"
  shows "ts_inv io s'"
  using assms by (auto simp: ts_inv_def tidy_def ts_recv_ok_def recv_frame_def)

lemma send_ok_disconnected: "\<not> ts_is_connect s \<Longrightarrow> ts_send_ok s"
  by (simp add: ts_send_ok_def)

section \<open>Connecting and disconnecting\<close>

lemma new_buffer [simp]:
  "rb_inv (RecvBuffer_new (int BUFFER_SIZE))" "rb_Buffer_size (RecvBuffer_new (int BUFFER_SIZE)) = int BUFFER_SIZE"
  by (simp_all add: RecvBuffer_new_def BUFFER_SIZE_def rb_inv_def int32_range_def)

lemma new_inv: "ts_inv 0 TestSession_new"
  by (simp add: ts_inv_def ts_base_def ts_send_ok_def ts_recv_ok_def TestSession_new_def RecvBuffer_new_def
      BUFFER_SIZE_def rb_inv_def int32_range_def SendEvent_new_def se_inv_def)

lemma closedD:
  assumes "ts_base io s" "\<not> ts_is_connect s"
  shows "\<not> ts_is_login s \<and> \<not> ts_login_pending s \<and> ts_account_idx s = 0 \<and> ts_room_request s = ROOM_NONE \<and>
    \<not> ts_is_send_register s \<and> ts_send_queue s = [] \<and> ts_room_id s = - 1"
  using assms unfolding ts_base_def by (elim conjE) auto

lemma connected_inv:
  assumes "ts_inv io s" "\<not> ts_is_connect s" "\<not> ts_is_disconnect s"
  shows "ts_inv io (s\<lparr>ts_socket_open := True, ts_is_connect := True, ts_test_session_state := TS_CONNECTED\<rparr>)"
proof -
  have b: "ts_base io s" using assms(1) by (simp add: ts_inv_def)
  with closedD [OF b assms(2)] assms show ?thesis
    by (simp add: ts_inv_def ts_base_def ts_send_ok_def ts_recv_ok_def)
qed

lemma connect_inv:
  assumes "ts_inv io s" "TestSession_connect a b g s = (r, g', s')"
  shows "ts_inv io s'"
proof (cases "ts_is_connect s \<or> ts_is_disconnect s \<or> \<not> a \<or> \<not> b")
  case True
  have eq: "\<not> ts_is_connect s \<Longrightarrow> s\<lparr>ts_is_connect := False\<rparr> = s" by simp
  from True assms show ?thesis by (auto simp: TestSession_connect_def eq split: if_splits)
next
  case False
  then have "s' = s\<lparr>ts_socket_open := True, ts_is_connect := True, ts_test_session_state := TS_CONNECTED\<rparr>"
    using assms by (simp add: TestSession_connect_def)
  with connected_inv [OF assms(1)] False show ?thesis by simp
qed

lemma client_disconnect_eq:
  assumes "ts_base io s"
  shows "TestSession_disconnect g s =
    (if ts_is_connect s then (g\<lparr>cg_disconnect := cg_disconnect g + 1\<rparr>,
       s\<lparr>ts_is_connect := False, ts_is_disconnect := True, ts_test_session_state := TS_DISCONNECTED,
          ts_is_login := False, ts_account_idx := 0, ts_room_id := - 1, ts_login_pending := False,
          ts_room_request := ROOM_NONE, ts_is_send_register := False, ts_send_queue := [],
          ts_socket_open := False\<rparr>) else (g, s))"
  using assms by (simp add: TestSession_disconnect_def ts_base_def)

lemma disconnect_closed:
  "ts_base io s \<Longrightarrow> \<not> ts_is_connect (snd (TestSession_disconnect g s))"
  by (simp add: client_disconnect_eq)

lemma client_disconnect_base: "ts_base io s \<Longrightarrow> ts_base io (snd (TestSession_disconnect g s))"
  by (simp add: client_disconnect_eq) (simp add: ts_base_def)

lemma disconnect_frame: "recv_frame s (snd (TestSession_disconnect g s))"
  by (auto simp: TestSession_disconnect_def recv_frame_def)

lemma disconnect_tidy: "ts_base io s \<Longrightarrow> recv_frame s0 s \<Longrightarrow> tidy io s0 (snd (TestSession_disconnect g s))"
  by (simp add: tidy_def client_disconnect_base send_ok_disconnected disconnect_closed recv_frame_trans [OF _ disconnect_frame])

lemma disconnect_pair:
  assumes "ts_base io s"
  obtains g' s' where "TestSession_disconnect g s = (g', s')" "tidy io s s'" "\<not> ts_is_connect s'"
  using disconnect_tidy [OF assms recv_frame_refl, of g] disconnect_closed [OF assms, of g]
  by (metis prod.collapse)

lemma finish_begin: "0 \<le> ts_pending_io s \<Longrightarrow> TestSession_finish_io (TestSession_begin_io s) = Some s"
  by (simp add: TestSession_finish_io_def TestSession_begin_io_def)

lemma base_pending: "ts_base io s \<Longrightarrow> 0 \<le> ts_pending_io s"
  by (simp add: ts_base_def)

section \<open>Sending\<close>

lemma push_all:
  assumes "\<forall>sb \<in> set q. sb_ok sb" "se_inv ev"
  shows "se_inv (fold send_Buffers_push q ev) \<and> se_bufs (fold send_Buffers_push q ev) = se_bufs ev @ q \<and>
    se_index (fold send_Buffers_push q ev) = se_index ev"
  using assms by (induction q arbitrary: ev) (simp_all add: push_pending(1), simp_all add: send_Buffers_push_def)

lemma cleared [simp]: "se_bufs (send_Buffers_clear ev) = []"
  by (simp add: send_Buffers_clear_def)

text \<open>\<open>register_send\<close> is entered with the flag set and nothing outstanding.\<close>

definition loaded :: "TestSession \<Rightarrow> TestSession" where
  "loaded s = (if has_pending_data (ts_send_event s) then s
     else s\<lparr>ts_send_event := fold send_Buffers_push (ts_send_queue s) (ts_send_event s), ts_send_queue := []\<rparr>)"

lemma base_bufs: "ts_base io s \<Longrightarrow> se_inv (ts_send_event s) \<and> (\<forall>sb \<in> set (ts_send_queue s). sb_ok sb)"
  by (simp add: ts_base_def)

lemma loaded_base:
  assumes "ts_base io s"
  shows "ts_base io (loaded s)"
proof (cases "has_pending_data (ts_send_event s)")
  case False
  with assms push_all [of "ts_send_queue s" "ts_send_event s"] show ?thesis
    by (simp add: loaded_def ts_base_def)
qed (simp add: loaded_def assms)

lemma loaded_fields [simp]:
  "ts_is_connect (loaded s) = ts_is_connect s" "ts_is_send_register (loaded s) = ts_is_send_register s"
  "ts_send_posted (loaded s) = ts_send_posted s" "recv_frame s (loaded s)"
  by (simp_all add: loaded_def recv_frame_def)

lemma client_register_send_eq:
  assumes "ts_is_connect s"
  shows "TestSession_register_send e g s =
    (let s = loaded s in
     if build_wsabufs (ts_send_event s) = []
     then Some (True, g, s\<lparr>ts_send_event := send_Buffers_clear (ts_send_event s), ts_is_send_register := False\<rparr>)
     else if io_failed (ci_WSASend e)
     then do { s \<leftarrow> TestSession_finish_io (TestSession_begin_io s);
       Some (False, TestSession_disconnect g (s\<lparr>ts_send_event := send_Buffers_clear (ts_send_event s)\<rparr>)) }
     else Some (True, g, (TestSession_begin_io s)\<lparr>ts_send_posted := True\<rparr>))"
  using assms by (simp add: TestSession_register_send_def loaded_def Let_def)

lemma loaded_empty:
  assumes "ts_base io s" "build_wsabufs (ts_send_event (loaded s)) = []"
    "has_pending_data (ts_send_event s) \<or> se_bufs (ts_send_event s) = [] \<and> se_index (ts_send_event s) = 0"
  shows "ts_send_queue (loaded s) = []"
  using assms push_all [of "ts_send_queue s" "ts_send_event s"] base_bufs [OF assms(1)]
  by (auto simp: loaded_def build_wsabufs_Nil has_pending_data_def split: if_splits)

lemma register_send_keeps:
  assumes "ts_base io s" "ts_is_connect s" "ts_is_send_register s" "\<not> ts_send_posted s"
    "has_pending_data (ts_send_event s) \<or> se_bufs (ts_send_event s) = [] \<and> se_index (ts_send_event s) = 0"
  shows "keeps io s (TestSession_register_send e g s)"
proof -
  let ?s = "loaded s"
  have b: "ts_base io ?s" by (rule loaded_base [OF assms(1)])
  consider (empty) "build_wsabufs (ts_send_event ?s) = []"
    | (failed) "build_wsabufs (ts_send_event ?s) \<noteq> []" "io_failed (ci_WSASend e)"
    | (posted) "build_wsabufs (ts_send_event ?s) \<noteq> []" "\<not> io_failed (ci_WSASend e)" by blast
  then show ?thesis
  proof cases
    case empty
    let ?t = "?s\<lparr>ts_send_event := send_Buffers_clear (ts_send_event ?s), ts_is_send_register := False\<rparr>"
    have "ts_base io ?t" using b by (simp add: ts_base_def)
    moreover have "ts_send_ok ?t" using loaded_empty [OF assms(1) empty assms(5)] assms(4) by (simp add: ts_send_ok_def)
    moreover have "recv_frame s ?t" using loaded_fields(4) [of s] by (simp add: recv_frame_def)
    ultimately have "tidy io s ?t" by (simp add: tidy_def)
    with empty assms(2) show ?thesis by (simp add: client_register_send_eq Let_def keepsI)
  next
    case failed
    let ?t = "?s\<lparr>ts_send_event := send_Buffers_clear (ts_send_event ?s)\<rparr>"
    have "ts_base io ?t" using b by (simp add: ts_base_def)
    moreover have "recv_frame s ?t" using loaded_fields(4) [of s] by (simp add: recv_frame_def)
    ultimately have "tidy io s (snd (TestSession_disconnect g ?t))" by (rule disconnect_tidy)
    with failed assms(2) finish_begin [OF base_pending [OF b]] show ?thesis
      by (cases "TestSession_disconnect g ?t") (simp add: client_register_send_eq Let_def keepsI)
  next
    case posted
    let ?t = "(TestSession_begin_io ?s)\<lparr>ts_send_posted := True\<rparr>"
    have "ts_base io ?t" using b assms(2,4) by (simp add: ts_base_def TestSession_begin_io_def)
    moreover have "ts_send_ok ?t"
      using posted assms(3) by (simp add: ts_send_ok_def TestSession_begin_io_def build_wsabufs_Nil)
    moreover have "recv_frame s ?t" using loaded_fields(4) [of s] by (simp add: recv_frame_def TestSession_begin_io_def)
    ultimately have "tidy io s ?t" by (simp add: tidy_def)
    with posted assms(2) show ?thesis by (simp add: client_register_send_eq Let_def keepsI)
  qed
qed

lemma base_index:
  assumes "ts_base io s" "se_bufs (ts_send_event s) = []"
  shows "se_index (ts_send_event s) = 0"
  using base_bufs [OF assms(1)] assms(2) by (simp add: se_inv_def)

lemma send_okD:
  assumes "ts_send_ok s" "ts_is_connect s" "\<not> ts_is_send_register s"
  shows "\<not> ts_send_posted s" "ts_send_queue s = []" "se_bufs (ts_send_event s) = []"
  using assms by (auto simp: ts_send_ok_def split: if_splits)

text \<open>Rules for the contract, in the order in which a method is read.\<close>

lemma keeps_bind:
  assumes "keeps io s m" "\<And>a g s'. tidy io s s' \<Longrightarrow> keeps io s' (f a g s')"
  shows "keeps io s (m \<bind> (\<lambda>(a, g, s). f a g s))"
proof -
  obtain a g s' where m: "m = Some (a, g, s')" "tidy io s s'" using assms(1) by (auto simp: keeps_def)
  from assms(2) [OF m(2), of a g] obtain b g' s'' where "f a g s' = Some (b, g', s'')" "tidy io s' s''"
    by (auto simp: keeps_def)
  with m tidy_trans [OF m(2)] show ?thesis by (simp add: keeps_def)
qed

definition keeps_on :: "nat \<Rightarrow> TestSession \<Rightarrow> (GlobalData \<times> TestSession) option \<Rightarrow> bool" where
  "keeps_on io s r \<longleftrightarrow> (\<exists>g s'. r = Some (g, s') \<and> tidy io s s')"

lemma keeps_onI: "tidy io s s' \<Longrightarrow> keeps_on io s (Some (g, s'))"
  by (simp add: keeps_on_def)

lemma keeps_snd: "keeps io s r \<Longrightarrow> keeps_on io s (map_option snd r)"
  by (auto simp: keeps_def keeps_on_def)

lemma keeps_True: "keeps io s r \<Longrightarrow> keeps io s (map_option (\<lambda>(_, y). (True, y)) r)"
    "keeps io s r \<Longrightarrow> keeps io s (map_option (\<lambda>(_, g, s). (True, g, s)) r)"
  by (auto simp: keeps_def)

lemma keeps_from: "tidy io s s' \<Longrightarrow> keeps io s' r \<Longrightarrow> keeps io s r"
  by (auto simp: keeps_def intro: tidy_trans)

lemma disconnect_keeps: "ts_base io s \<Longrightarrow> keeps io s (Some (a, TestSession_disconnect g s))"
  by (cases "TestSession_disconnect g s") (metis disconnect_tidy keepsI recv_frame_refl snd_conv)

lemma send_keeps:
  assumes "ts_base io s" "ts_send_ok s" "\<And>sb. b = Some sb \<Longrightarrow> sb_ok sb"
  shows "keeps io s (TestSession_send e b g s)"
proof (cases "b = None \<or> \<not> ts_is_connect s")
  case True
  then show ?thesis
    using tidy_refl [OF assms(1,2)] by (auto simp: TestSession_send_def keepsI split: option.split)
next
  case False
  then obtain sb where sb: "b = Some sb" "sb_ok sb" "ts_is_connect s" using assms(3) by auto
  let ?s = "s\<lparr>ts_send_queue := ts_send_queue s @ [sb], ts_is_send_register := True\<rparr>"
  have base: "ts_base io ?s" using assms(1) sb by (simp add: ts_base_def)
  have frame: "recv_frame s ?s" by (simp add: recv_frame_def)
  show ?thesis
  proof (cases "ts_is_send_register s")
    case True
    then have "tidy io s ?s" using base frame assms(2) sb(3) by (auto simp: tidy_def ts_send_ok_def split: if_splits)
    with True sb show ?thesis by (auto simp: TestSession_send_def sb_ok_def keepsI Let_def)
  next
    case False
    note idle = send_okD [OF assms(2) sb(3) False]
    have "keeps io ?s (TestSession_register_send e g ?s)"
      using idle sb base base_index [OF assms(1) idle(3)] by (intro register_send_keeps) simp_all
    then have "keeps io s (TestSession_register_send e g ?s)"
      using frame by (auto simp: keeps_def tidy_def intro: recv_frame_trans)
    with False sb show ?thesis by (simp add: TestSession_send_def sb_ok_def Let_def)
  qed
qed

section \<open>Requests\<close>

lemmas req_serialize_defs = REQ_LOGIN_InternalSerialize_def REQ_BOT_LOGIN_InternalSerialize_def
  REQ_LOGOUT_InternalSerialize_def REQ_GET_ROOM_INFO_InternalSerialize_def REQ_ENTER_ROOM_InternalSerialize_def
  REQ_EXIT_ROOM_InternalSerialize_def REQ_CHAT_InternalSerialize_def REQ_CONNECT_PONG_InternalSerialize_def

lemmas req_size_defs = REQ_LOGIN_ByteSizeLong_def REQ_BOT_LOGIN_ByteSizeLong_def
  REQ_LOGOUT_ByteSizeLong_def REQ_GET_ROOM_INFO_ByteSizeLong_def REQ_ENTER_ROOM_ByteSizeLong_def
  REQ_EXIT_ROOM_ByteSizeLong_def REQ_CHAT_ByteSizeLong_def REQ_CONNECT_PONG_ByteSizeLong_def

lemma string_size_ge: "length s \<le> StringSize s"
  by (simp add: StringSize_def LengthDelimitedSize_def)

context pb_runtime
begin

lemma client_buffer_ok:
  assumes "byte_size pkt + HEADER_SIZE < 65536 \<Longrightarrow> length (serialize room pkt) = byte_size pkt"
    "client_MakeSendBuffer L byte_size serialize room pkt pkt_id = Some sb"
  shows "sb_ok sb"
proof (cases "byte_size pkt + HEADER_SIZE < 65536")
  case True
  with client_MakeSendBuffer_packed [of serialize room pkt byte_size pkt_id] assms show ?thesis
    by (simp add: packed_ok)
next
  case False
  then have "byte_size pkt > 65535 - HEADER_SIZE" by (simp add: HEADER_SIZE_def)
  with assms(2) show ?thesis by (simp add: client_MakeSendBuffer_def)
qed

lemma make_req_ok: "make_req L room r = Some sb \<Longrightarrow> sb_ok sb"
proof (cases r)
  case (P_REQ_LOGIN m)
  assume "make_req L room r = Some sb"
  with P_REQ_LOGIN show ?thesis
    using string_size_ge [of "req_login_id m"] string_size_ge [of "req_login_pw m"] string_size_ge [of "req_login_name m"]
    by (auto elim!: client_buffer_ok [rotated] simp: req_serialize_defs req_size_defs length_field length_string_field)
next
  case (P_REQ_BOT_LOGIN m)
  assume "make_req L room r = Some sb"
  with P_REQ_BOT_LOGIN show ?thesis
    using string_size_ge [of "req_bot_login_id m"] string_size_ge [of "req_bot_login_pw m"] string_size_ge [of "req_bot_login_name m"]
    by (auto elim!: client_buffer_ok [rotated] simp: req_serialize_defs req_size_defs length_field length_string_field)
next
  case (P_REQ_CHAT m)
  assume "make_req L room r = Some sb"
  with P_REQ_CHAT show ?thesis
    using string_size_ge [of "req_chat_message m"] string_size_ge [of "req_chat_target_name m"]
    by (auto elim!: client_buffer_ok [rotated] simp: req_serialize_defs req_size_defs length_field length_string_field)
qed (auto elim!: client_buffer_ok [rotated] simp: req_serialize_defs req_size_defs length_field)

end

declare make_req.simps [simp del]

lemma begin_login_tidy:
  assumes "ts_base io s" "ts_send_ok s" "begin_login s = (ok, s')"
  shows "tidy io s s'"
proof (cases ok)
  case True
  with assms(3) have s': "s' = s\<lparr>ts_login_pending := True, ts_test_session_state := TS_LOGIN_SEND\<rparr>"
    and c: "ts_is_connect s" "\<not> ts_is_login s" by (auto simp: begin_login_def split: if_splits)
  have "ts_base io s'" unfolding s' using assms(1) c by (simp add: ts_base_def)
  moreover have "ts_send_ok s'" unfolding s' using assms(2) by (simp add: ts_send_ok_def)
  ultimately show ?thesis unfolding s' by (simp add: tidy_def recv_frame_def)
qed (use assms tidy_refl in \<open>auto simp: begin_login_def split: if_splits\<close>)

lemma complete_login_eq:
  "complete_login success idx s =
    (if ts_is_connect s
     then s\<lparr>ts_account_idx := (if success then idx else 0), ts_is_login := success,
        ts_test_session_state := (if success then TS_LOGIN else TS_CONNECTED), ts_login_pending := False\<rparr>
     else s\<lparr>ts_login_pending := False\<rparr>)"
  by (simp add: complete_login_def Let_def)

lemma complete_login_tidy:
  assumes "ts_base io s" "ts_send_ok s"
  shows "tidy io s (complete_login success idx s)"
proof (cases "ts_is_connect s")
  case True
  have "ts_base io (complete_login success idx s)"
    using True assms(1) by (simp add: complete_login_eq ts_base_def)
  then show ?thesis
    using True assms(2) by (simp add: tidy_def complete_login_eq ts_send_ok_def recv_frame_def)
next
  case False
  have "s\<lparr>ts_login_pending := False\<rparr> = s" using closedD [OF assms(1) False] by simp
  then have "complete_login success idx s = s" using False by (simp only: complete_login_eq if_False)
  then show ?thesis by (simp add: tidy_refl assms)
qed

lemma complete_enter_room_tidy:
  assumes "ts_base io s" "ts_send_ok s"
  shows "tidy io s (complete_enter_room success room_id s)"
proof -
  have "ts_base io (complete_enter_room success room_id s)"
    using assms(1) by (simp add: complete_enter_room_def ts_base_def)
  then show ?thesis
    using assms(2) by (simp add: tidy_def complete_enter_room_def ts_send_ok_def recv_frame_def)
qed

lemma complete_exit_room_tidy:
  assumes "ts_base io s" "ts_send_ok s"
  shows "tidy io s (complete_exit_room success s)"
proof -
  have "ts_base io (complete_exit_room success s)"
    using assms(1) by (simp add: complete_exit_room_def ts_base_def)
  then show ?thesis
    using assms(2) by (simp add: tidy_def complete_exit_room_def ts_send_ok_def recv_frame_def)
qed

lemma room_request_tidy:
  assumes "ts_base io s" "ts_send_ok s" "ts_is_connect s"
    "r = ROOM_ENTER \<and> ts_room_id s < 0 \<or> r = ROOM_EXIT \<and> ts_room_id s \<ge> 0"
  shows "tidy io s (s\<lparr>ts_room_request := r\<rparr>)"
proof -
  have "ts_base io (s\<lparr>ts_room_request := r\<rparr>)" using assms by (elim disjE) (simp_all add: ts_base_def)
  then show ?thesis using assms(2) by (simp add: tidy_def ts_send_ok_def recv_frame_def)
qed

section \<open>Methods and handlers\<close>

text \<open>The client relies on the protobuf runtime only.\<close>

locale client_runtime =
  fixes x :: client_ext
  assumes pb: "pb_runtime (cx_pb x)"
begin

lemma request_keeps:
  "ts_base io s \<Longrightarrow> ts_send_ok s \<Longrightarrow> keeps io s (TestSession_send e (make_request x r) g s)"
  using pb_runtime.make_req_ok [OF pb] by (intro send_keeps)

text \<open>A request that is undone when it could not be sent.\<close>

lemma undo_keeps:
  assumes "tidy io s0 s" "\<And>s. ts_base io s \<Longrightarrow> ts_send_ok s \<Longrightarrow> tidy io s (undo s)"
  shows "keeps io s0 (do { (sent, g, s) \<leftarrow> TestSession_send e (make_request x r) g s;
    if \<not> sent then Some (False, g, undo s) else Some (True, g, s) })"
proof (rule keeps_from [OF assms(1)], rule keeps_bind [OF request_keeps])
  fix a g s' assume "tidy io s s'"
  then have "ts_base io s'" "ts_send_ok s'" by (rule tidyD)+
  then show "keeps io s' (if \<not> a then Some (False, g, undo s') else Some (True, g, s'))"
    using assms(2) by (simp add: keepsI tidy_refl)
qed (use assms(1) tidyD in blast)+

lemma login_keeps:
  assumes "ts_base io s" "ts_send_ok s"
  shows "keeps io s (TestSession_login x e is_create user_id pw name g s)"
  using undo_keeps [OF begin_login_tidy [OF assms] complete_login_tidy, of True] begin_login_tidy [OF assms, of False]
  by (auto simp: TestSession_login_def Let_def keepsI tidy_refl [OF assms] split: prod.split bool.split)

lemma test_login_keeps:
  assumes "ts_base io s" "ts_send_ok s"
  shows "keeps io s (test_login x e index has_account g s)"
  using undo_keeps [OF begin_login_tidy [OF assms] complete_login_tidy, of True] begin_login_tidy [OF assms, of False]
  by (auto simp: test_login_def keepsI split: prod.split bool.split)

lemma send_enter_room_keeps:
  assumes "ts_base io s" "ts_send_ok s"
  shows "keeps io s (send_enter_room x e room_id g s)"
proof (cases "\<not> ts_is_connect s \<or> \<not> ts_is_login s \<or> ts_room_id s \<ge> 0 \<or> ts_room_request s \<noteq> ROOM_NONE")
  case False
  then have "tidy io s (s\<lparr>ts_room_request := ROOM_ENTER\<rparr>)" by (intro room_request_tidy [OF assms]) auto
  from undo_keeps [OF this complete_enter_room_tidy] False show ?thesis by (simp add: send_enter_room_def)
qed (simp add: send_enter_room_def keepsI tidy_refl assms)

lemma send_exit_room_keeps:
  assumes "ts_base io s" "ts_send_ok s"
  shows "keeps io s (send_exit_room x e g s)"
proof (cases "\<not> ts_is_connect s \<or> \<not> ts_is_login s \<or> ts_room_id s < 0 \<or> ts_room_request s \<noteq> ROOM_NONE")
  case False
  then have "tidy io s (s\<lparr>ts_room_request := ROOM_EXIT\<rparr>)" by (intro room_request_tidy [OF assms]) auto
  from undo_keeps [OF this complete_exit_room_tidy] False show ?thesis by (simp add: send_exit_room_def)
qed (simp add: send_exit_room_def keepsI tidy_refl assms)

lemma send_counted_keeps:
  assumes "ts_base io s" "ts_send_ok s"
  shows "keeps_on io s (send_counted x e pkt g s)"
proof -
  obtain sent g' s' where "TestSession_send e (make_request x (P_REQ_CHAT pkt)) g s = Some (sent, g', s')" "tidy io s s'"
    using request_keeps [OF assms, of e "P_REQ_CHAT pkt" g] by (auto simp: keeps_def)
  then show ?thesis by (simp add: send_counted_def keeps_onI)
qed

lemma chat_keeps:
  assumes "ts_base io s" "ts_send_ok s"
  shows "keeps_on io s (send_chat x e message chat_state room_id g s)"
    "keeps_on io s (send_whisper_chat x e target message chat_state room_id g s)"
  by (simp_all add: send_chat_def send_whisper_chat_def Let_def keeps_onI tidy_refl [OF assms] send_counted_keeps [OF assms])

lemma request_on_keeps:
  assumes "ts_base io s" "ts_send_ok s"
  shows "keeps_on io s (TestSession_logout x e g s)" "keeps_on io s (send_get_room_info x e g s)"
  by (simp_all add: TestSession_logout_def send_get_room_info_def keeps_snd request_keeps [OF assms])

lemma Handle_ACK_BOT_LOGIN_keeps:
  assumes "ts_base io s" "ts_send_ok s"
  shows "keeps io s (Handle_ACK_BOT_LOGIN x e pkt g s)"
proof -
  let ?s = "complete_login (ack_bot_login_result pkt = login_error_value LOGIN_SUCCESS) (ack_bot_login_idx pkt) s"
  have t: "tidy io s ?s" by (rule complete_login_tidy [OF assms])
  note b = tidyD(1,2) [OF t]
  show ?thesis
    unfolding Handle_ACK_BOT_LOGIN_def Let_def
    by (simp only: split: if_split)
      (intro conjI impI keepsI [OF t] keeps_from [OF t] keeps_True(2) disconnect_keeps test_login_keeps b)
qed

lemma Handle_ACK_SERVER_FULL_keeps:
  assumes "ts_base io s" "ts_is_connect s"
  shows "keeps io s (Handle_ACK_SERVER_FULL pkt g s)"
proof -
  have eq: "snd (TestSession_disconnect g' (s\<lparr>ts_account_idx := 0, ts_is_login := False\<rparr>)) =
      snd (TestSession_disconnect g' s)" for g'
    using assms by (simp add: TestSession_disconnect_def ts_base_def)
  obtain g1 s1 where d: "TestSession_disconnect (print (C_server_full (ack_server_full_max_session_count pkt)) g)
     (s\<lparr>ts_account_idx := 0, ts_is_login := False\<rparr>) = (g1, s1)" by fastforce
  then have "tidy io s s1" using eq disconnect_tidy [OF assms(1) recv_frame_refl] by (metis snd_conv)
  with d show ?thesis by (simp add: Handle_ACK_SERVER_FULL_def keepsI)
qed

lemma Handle_ACK_keeps:
  assumes "ts_base io s" "ts_send_ok s" "ts_is_connect s"
  shows "keeps io s (Handle_ACK x e pkt g s)"
proof (cases pkt)
  case (P_ACK_BOT_LOGIN m)
  then show ?thesis by (simp add: Handle_ACK_BOT_LOGIN_keeps assms)
next
  case (P_ACK_SERVER_FULL m)
  then show ?thesis by (simp add: Handle_ACK_SERVER_FULL_keeps assms)
next
  case (P_ACK_SEND_CONNECT_PING m)
  then show ?thesis by (simp add: Handle_ACK_SEND_CONNECT_PING_def keeps_True request_keeps assms)
next
  case (P_ACK_LOGOUT m)
  then show ?thesis by (simp add: Handle_ACK_LOGOUT_def disconnect_keeps assms)
qed (simp_all add: Handle_ACK_LOGIN_def Handle_ACK_GET_ROOM_INFO_def Handle_ACK_ENTER_ROOM_def Handle_ACK_EXIT_ROOM_def
    Handle_ACK_CHAT_def Handle_ACK_SEND_CHAT_def Let_def keepsI tidy_refl complete_login_tidy complete_enter_room_tidy
    complete_exit_room_tidy assms)

lemma client_handle_packet_keeps:
  assumes "ts_base io s" "ts_send_ok s" "ts_is_connect s"
  shows "keeps io s (client_handle_packet x e buffer g s)"
  by (simp add: client_handle_packet_def keepsI tidy_refl Handle_ACK_keeps assms split: option.split)

end

end
