(* ===== verification/ClientFlow.thy ===== *)
theory ClientFlow
  imports ClientSafe
begin

text \<open>
  Completions of the client's session.  \<open>client_completion\<close> is a completion as the session sees it: the
  operating system gives the event back, a receive has stored its bytes, and \<open>dispatch\<close> runs.  Every
  completion of an outstanding operation keeps \<open>ts_inv\<close>, whatever bytes arrived.
\<close>

section \<open>Completions\<close>

definition ce_posted :: "ClientEvent \<Rightarrow> TestSession \<Rightarrow> bool" where
  "ce_posted ev s = (case ev of CE_RECV \<Rightarrow> ts_recv_posted s | CE_SEND \<Rightarrow> ts_send_posted s)"

definition returned :: "ClientEvent \<Rightarrow> TestSession \<Rightarrow> TestSession" where
  "returned ev s = (case ev of CE_RECV \<Rightarrow> s\<lparr>ts_recv_posted := False\<rparr> | CE_SEND \<Rightarrow> s\<lparr>ts_send_posted := False\<rparr>)"

text \<open>What the operating system reports for an operation: the bytes received, or a number of bytes sent.\<close>

definition client_completion ::
  "client_ext \<Rightarrow> client_io \<Rightarrow> ClientEvent \<Rightarrow> byte list \<Rightarrow> int \<Rightarrow> GlobalData \<Rightarrow> TestSession \<Rightarrow>
   (GlobalData \<times> TestSession) option" where
  "client_completion x e ev bytes num_bytes g s =
     (let s = returned ev s;
          s = (if ev = CE_RECV then s\<lparr>ts_recv_buffer := recv_fill bytes (ts_recv_buffer s)\<rparr> else s) in
      TestSession_dispatch x e ev num_bytes g s)"

text \<open>A number the system may report: a receive at most what was stored, a send any number of bytes.\<close>

definition reported :: "ClientEvent \<Rightarrow> byte list \<Rightarrow> int \<Rightarrow> TestSession \<Rightarrow> bool" where
  "reported ev bytes num_bytes s \<longleftrightarrow> int32_range num_bytes \<and> 0 \<le> num_bytes \<and>
     (ev = CE_RECV \<longrightarrow> int (length bytes) \<le> free_size (ts_recv_buffer s) \<and>
        (num_bytes = int (length bytes) \<or> num_bytes = 0))"

section \<open>Sends\<close>

lemma cleared_base:
  assumes "ts_base io s" "se_inv ev"
  shows "ts_base io (s\<lparr>ts_send_event := send_Buffers_clear ev\<rparr>)"
  using assms by (simp add: ts_base_def)

lemma event_base: "ts_base io s \<Longrightarrow> ts_is_connect s \<Longrightarrow> se_inv ev \<Longrightarrow> ts_base io (s\<lparr>ts_send_event := ev\<rparr>)"
  by (simp add: ts_base_def)

lemma frame_send [simp]: "recv_frame s (s\<lparr>ts_send_event := ev\<rparr>)"
  "recv_frame s (s\<lparr>ts_send_event := ev, ts_is_send_register := b\<rparr>)"
  by (simp_all add: recv_frame_def)

lemma keeps_on_from:
  "recv_frame s0 s \<Longrightarrow> keeps_on io s r \<Longrightarrow> keeps_on io s0 r"
  by (auto simp: keeps_on_def tidy_def intro: recv_frame_trans)

lemma disconnect_keeps_on: "ts_base io s \<Longrightarrow> keeps_on io s (Some (TestSession_disconnect g s))"
  by (cases "TestSession_disconnect g s") (metis disconnect_tidy keeps_onI recv_frame_refl snd_conv)

lemma process_send_keeps:
  assumes "ts_base io s" "\<not> ts_send_posted s"
    "ts_is_connect s \<Longrightarrow> ts_is_send_register s \<and> has_pending_data (ts_send_event s)"
  shows "keeps_on io s (TestSession_process_send e n g s)"
proof (cases "ts_is_connect s")
  case False
  have "ts_base io (s\<lparr>ts_send_event := send_Buffers_clear (ts_send_event s), ts_is_send_register := False\<rparr>)"
    using assms(1) False by (simp add: ts_base_def)
  then have "tidy io s (s\<lparr>ts_send_event := send_Buffers_clear (ts_send_event s), ts_is_send_register := False\<rparr>)"
    using False by (simp add: tidy_def ts_send_ok_def)
  with False show ?thesis by (simp add: TestSession_process_send_def keeps_onI)
next
  case True
  note reg = assms(3) [OF True]
  have inv: "se_inv (ts_send_event s)" using base_bufs [OF assms(1)] by blast
  from inv show ?thesis
  proof (cases rule: client_consume_cases [of _ n])
    case 1
    have "keeps_on io s (Some (TestSession_disconnect g (s\<lparr>ts_send_event := send_Buffers_clear (ts_send_event s)\<rparr>)))"
      by (rule keeps_on_from [OF frame_send(1) disconnect_keeps_on [OF cleared_base [OF assms(1) inv]]])
    with 1 True show ?thesis by (simp add: TestSession_process_send_def)
  next
    case (2 ev)
    let ?s = "s\<lparr>ts_send_event := ev\<rparr>" and ?c = "s\<lparr>ts_send_event := send_Buffers_clear ev\<rparr>"
    have base: "ts_base io ?s" "ts_base io ?c" using event_base cleared_base assms(1) True 2(2) by blast+
    have more: "keeps_on io s (map_option snd (TestSession_register_send e g ?s))" if "has_pending_data ev"
      by (rule keeps_on_from [OF frame_send(1) keeps_snd [OF register_send_keeps]])
        (use base(1) True reg assms(2) that in simp_all)
    have "keeps_on io s (map_option snd (TestSession_register_send e g ?c))"
      by (rule keeps_on_from [OF frame_send(1) keeps_snd [OF register_send_keeps]])
        (use base(2) True reg assms(2) base_index [OF base(2)] in simp_all)
    moreover have "tidy io s (?c\<lparr>ts_is_send_register := False\<rparr>)" if "ts_send_queue s = []"
    proof -
      have "ts_base io (?c\<lparr>ts_is_send_register := False\<rparr>)" using base(2) True by (simp add: ts_base_def)
      then show ?thesis using that assms(2) by (simp add: tidy_def ts_send_ok_def)
    qed
    ultimately show ?thesis
      using more 2 True by (simp add: TestSession_process_send_def Let_def keeps_onI)
  qed
qed

section \<open>Receives\<close>

lemma client_register_recv_inv:
  assumes "ts_base io s" "ts_send_ok s" "\<not> ts_recv_posted s" "ts_recv_started s"
    "ts_is_connect s \<Longrightarrow> rest_wf (rb_data (ts_recv_buffer s)) \<and> int BUFFER_SIZE \<le> free_size (ts_recv_buffer s)"
  shows "\<exists>ok g' s'. TestSession_register_recv e g s = Some (ok, g', s') \<and> ts_inv io s' \<and> ts_recv_started s' \<and>
    (ok \<longleftrightarrow> ts_is_connect s')"
proof (cases "ts_is_connect s")
  case False
  then have "TestSession_register_recv e g s = Some (False, g, s)" "ts_inv io s"
    using assms by (simp_all add: TestSession_register_recv_def ts_inv_def ts_recv_ok_def)
  with False assms(4) show ?thesis by blast
next
  case True
  show ?thesis
  proof (cases "io_failed (ci_WSARecv e)")
    case failed: True
    obtain gd sd where d: "TestSession_disconnect g s = (gd, sd)" "tidy io s sd" "\<not> ts_is_connect sd"
      using disconnect_pair [OF assms(1)] .
    then have "ts_inv io sd" "ts_recv_started sd"
      using assms(4) by (simp_all add: ts_inv_def tidy_def ts_recv_ok_def recv_frame_def)
    moreover have "TestSession_register_recv e g s = Some (False, gd, sd)"
      using d failed True finish_begin [OF base_pending [OF assms(1)]]
      by (simp add: TestSession_register_recv_def Let_def)
    ultimately show ?thesis using d(3) by blast
  next
    case ok: False
    let ?t = "(TestSession_begin_io s)\<lparr>ts_recv_posted := True\<rparr>"
    have "ts_base io ?t" using assms(1,3,4) by (simp add: ts_base_def TestSession_begin_io_def)
    moreover have "ts_send_ok ?t" using assms(2) by (simp add: ts_send_ok_def TestSession_begin_io_def)
    moreover have "ts_recv_ok ?t" using assms(5) [OF True] by (simp add: ts_recv_ok_def TestSession_begin_io_def)
    ultimately show ?thesis
      using ok True assms(4) by (auto simp: TestSession_register_recv_def Let_def ts_inv_def TestSession_begin_io_def)
  qed
qed

text \<open>The buffer after the packets up to \<open>n\<close> were taken out of it.\<close>

lemma taken_buffer:
  assumes rb: "rb_inv rb" "rb_Buffer_size rb = int BUFFER_SIZE" and n: "n \<le> length (rb_data rb)"
  defines "rb' \<equiv> clean (snd (on_read (int n) rb))"
  shows "fst (on_read (int n) rb)" "rb_inv rb'" "rb_Buffer_size rb' = int BUFFER_SIZE"
    "rb_data rb' = drop n (rb_data rb)" "rest_wf (drop n (rb_data rb)) \<Longrightarrow> int BUFFER_SIZE \<le> free_size rb'"
proof -
  let ?rd = "snd (on_read (int n) rb)"
  have le: "int n \<le> data_size rb" using n length_rb_data [OF rb(1)] by simp
  have inv: "rb_inv ?rd" using rb(1) by (intro rb_inv_on_read) simp_all
  have data: "rb_data ?rd = drop n (rb_data rb)" using rb_data_on_read [OF rb(1) _ le] by simp
  have size: "rb_Buffer_size ?rd = int BUFFER_SIZE" using rb(2) by (simp add: on_read_def)
  show "fst (on_read (int n) rb)" using le by (simp add: on_read_def)
  show "rb_inv rb'" unfolding rb'_def using inv by (rule rb_inv_clean)
  show "rb_Buffer_size rb' = int BUFFER_SIZE" using size by (simp add: rb'_def clean_def Let_def)
  show "rb_data rb' = drop n (rb_data rb)" unfolding rb'_def using rb_data_clean [OF inv] data by simp
  show "int BUFFER_SIZE \<le> free_size rb'" if "rest_wf (drop n (rb_data rb))"
    using free_size_clean [OF inv] size length_rb_data [OF inv] rest_wf_length [OF that] data
    by (simp add: rb'_def BUFFER_SIZE_def)
qed

lemma buffer_base:
  assumes "ts_base io s" "ts_recv_started s" "rb_inv rb" "rb_Buffer_size rb = int BUFFER_SIZE"
  shows "ts_base io (s\<lparr>ts_recv_buffer := rb\<rparr>)"
  using assms by (simp add: ts_base_def)

lemma buffer_send_ok [simp]: "ts_send_ok (s\<lparr>ts_recv_buffer := rb\<rparr>) = ts_send_ok s"
  by (simp add: ts_send_ok_def)

lemma closed_inv: "tidy io s s' \<Longrightarrow> \<not> ts_is_connect s' \<Longrightarrow> ts_inv io s'"
  by (simp add: ts_inv_def tidy_def ts_recv_ok_def)

section \<open>Finishing an operation\<close>

lemma started_flags: "ts_inv io s \<Longrightarrow> ts_recv_started s \<Longrightarrow> ts_is_connect s \<or> ts_is_disconnect s"
  unfolding ts_inv_def ts_base_def by blast

lemma tidy_recv_ok: "ts_recv_ok s \<Longrightarrow> tidy io s s' \<Longrightarrow> ts_inv io s'"
  by (auto simp: ts_inv_def tidy_def ts_recv_ok_def recv_frame_def)

lemma client_finish_inv:
  assumes "ts_inv (Suc io) s"
  obtains s' where "TestSession_finish_io s = Some s'" "ts_inv io s'" "s' = s\<lparr>ts_pending_io := ts_pending_io s - 1\<rparr>"
proof
  have "ts_base (Suc io) s" using assms by (simp add: ts_inv_def)
  then have "0 < ts_pending_io s" "ts_base io (s\<lparr>ts_pending_io := ts_pending_io s - 1\<rparr>)" by (simp_all add: ts_base_def)
  then show "TestSession_finish_io s = Some (s\<lparr>ts_pending_io := ts_pending_io s - 1\<rparr>)"
    "ts_inv io (s\<lparr>ts_pending_io := ts_pending_io s - 1\<rparr>)"
    using assms by (simp_all add: TestSession_finish_io_def ts_inv_def ts_send_ok_def ts_recv_ok_def)
qed simp

lemma returned_base: "ts_base io s \<Longrightarrow> ce_posted ev s \<Longrightarrow> ts_base (Suc io) (returned ev s)"
  by (cases ev) (simp add: ts_base_def ce_posted_def returned_def; blast)+

context client_runtime
begin

lemma recv_loop_keeps:
  assumes "ts_base io s" "ts_send_ok s" "ts_is_connect s" "p \<le> length buf"
  shows "\<exists>r g' s'. recv_loop x e buf p g s = Some (r, g', s') \<and> tidy io s s' \<and>
    (case r of None \<Rightarrow> \<not> ts_is_connect s'
     | Some n \<Rightarrow> n \<le> length buf \<and> (ts_is_connect s' \<longrightarrow> rest_wf (drop n buf)))"
  using assms
proof (induction "length buf - p" arbitrary: p g s rule: less_induct)
  case less
  let ?size = "unat (hdr_size (read_header (drop p buf)))"
  note t = tidy_refl [OF less.prems(1,2)]
  obtain gd sd where d: "TestSession_disconnect g s = (gd, sd)" "tidy io s sd" "\<not> ts_is_connect sd"
    using disconnect_pair [OF less.prems(1)] .
  consider (short) "length buf - p < HEADER_SIZE" | (bad) "HEADER_SIZE \<le> length buf - p" "?size < HEADER_SIZE"
    | (part) "HEADER_SIZE \<le> length buf - p" "HEADER_SIZE \<le> ?size" "length buf - p < ?size"
    | (packet) "HEADER_SIZE \<le> ?size" "?size \<le> length buf - p" by linarith
  then show ?case
  proof cases
    case packet
    obtain ok g1 s1 where h: "client_handle_packet x e (block p ?size buf) g s = Some (ok, g1, s1)" "tidy io s s1"
      using client_handle_packet_keeps [OF less.prems(1-3), of e "block p ?size buf" g] by (auto simp: keeps_def)
    note b = tidyD(1,2) [OF h(2)]
    obtain gd sd where d: "TestSession_disconnect g1 s1 = (gd, sd)" "tidy io s1 sd" "\<not> ts_is_connect sd"
      using disconnect_pair [OF b(1)] .
    have step: "recv_loop x e buf p g s =
      (if \<not> ok then Some (None, gd, sd) else if \<not> ts_is_connect s1 then Some (Some (p + ?size), g1, s1)
       else recv_loop x e buf (p + ?size) g1 s1)"
      using packet h d hdr_size_bound [of "read_header (drop p buf)"]
      by (subst recv_loop.simps) (simp add: Let_def MAX_PACKET_SIZE_def BUFFER_SIZE_def)
    show ?thesis
    proof (cases "ok \<and> ts_is_connect s1")
      case True
      then have "length buf - (p + ?size) < length buf - p" "p + ?size \<le> length buf"
        using packet by (auto simp: HEADER_SIZE_def)
      from less.hyps [OF this(1) b _ this(2), of g1] True obtain r g' s' where
        "recv_loop x e buf (p + ?size) g1 s1 = Some (r, g', s')" "tidy io s1 s'"
        "case r of None \<Rightarrow> \<not> ts_is_connect s' | Some n \<Rightarrow> n \<le> length buf \<and> (ts_is_connect s' \<longrightarrow> rest_wf (drop n buf))"
        by force
      with True step tidy_trans [OF h(2)] show ?thesis by auto
    next
      case False
      with step packet less.prems(4) h(2) d(2,3) tidy_trans [OF h(2) d(2)] show ?thesis by auto
    qed
  qed (use t d less.prems hdr_size_bound [of "read_header (drop p buf)"] in
      \<open>subst recv_loop.simps, auto simp: Let_def rest_wf_def MAX_PACKET_SIZE_def BUFFER_SIZE_def\<close>)+
qed

lemma client_process_recv_inv:
  assumes base: "ts_base io s" "ts_send_ok s" "\<not> ts_recv_posted s" "ts_recv_started s" and n: "int32_range n" "0 \<le> n"
  shows "\<exists>g' s'. TestSession_process_recv x e (word_of_int n) g s = Some (g', s') \<and> ts_inv io s' \<and> ts_recv_started s'"
proof -
  let ?rb = "snd (on_write n (ts_recv_buffer s))"
  have sint: "sint (word_of_int n :: uint32) = n"
    using n by (simp add: int32_range_def sint_sbintrunc' signed_take_bit_int_eq_self)
  obtain gd sd where d: "TestSession_disconnect g s = (gd, sd)" "tidy io s sd" "\<not> ts_is_connect sd"
    using disconnect_pair [OF base(1)] .
  have closed: "ts_inv io sd" "ts_recv_started sd"
    using closed_inv [OF d(2,3)] d(2) base(4) by (simp_all add: tidy_def recv_frame_def)
  show ?thesis
  proof (cases "ts_is_connect s \<and> (word_of_int n :: uint32) \<noteq> 0 \<and> fst (on_write n (ts_recv_buffer s))")
    case False
    then consider "\<not> ts_is_connect s" | "ts_is_connect s" "(word_of_int n :: uint32) = 0"
      | "ts_is_connect s" "(word_of_int n :: uint32) \<noteq> 0" "\<not> fst (on_write n (ts_recv_buffer s))" by blast
    then show ?thesis
    proof cases
      case 1
      then have "ts_inv io s" using base by (simp add: ts_inv_def ts_recv_ok_def)
      with 1 base(4) show ?thesis by (simp add: TestSession_process_recv_def)
    qed (use d closed sint in \<open>simp_all add: TestSession_process_recv_def split_beta\<close>)
  next
    case True
    have rb: "rb_inv ?rb" "rb_Buffer_size ?rb = int BUFFER_SIZE"
      using rb_inv_on_write [of "ts_recv_buffer s" n] n base(1) by (simp_all add: ts_base_def on_write_def)
    let ?s = "s\<lparr>ts_recv_buffer := ?rb\<rparr>"
    obtain r g1 s1 where l: "recv_loop x e (rb_data ?rb) 0 g ?s = Some (r, g1, s1)" "tidy io ?s s1"
      "case r of None \<Rightarrow> \<not> ts_is_connect s1
         | Some k \<Rightarrow> k \<le> length (rb_data ?rb) \<and> (ts_is_connect s1 \<longrightarrow> rest_wf (drop k (rb_data ?rb)))"
      using recv_loop_keeps [OF buffer_base [OF base(1,4) rb], of 0 "rb_data ?rb" e g] base(2) True by auto
    have started: "ts_recv_started s1" "ts_recv_buffer s1 = ?rb" "\<not> ts_recv_posted s1"
      using l(2) base by (simp_all add: tidy_def recv_frame_def)
    have step: "TestSession_process_recv x e (word_of_int n) g s =
      (case r of None \<Rightarrow> Some (g1, s1)
       | Some k \<Rightarrow> map_option snd (TestSession_register_recv e g1
           (s1\<lparr>ts_recv_buffer := clean (snd (on_read (int k) ?rb))\<rparr>)))"
      using True l taken_buffer(1) [OF rb] length_rb_data [OF rb(1)] started
      by (auto simp: TestSession_process_recv_def sint split_beta Let_def split: option.split)
    show ?thesis
    proof (cases r)
      case None
      with step l started show ?thesis using closed_inv [OF l(2)] by simp
    next
      case (Some k)
      note k = taken_buffer [OF rb, of k]
      from Some l(3) have "\<exists>ok g' s'. TestSession_register_recv e g1 (s1\<lparr>ts_recv_buffer := clean (snd (on_read (int k) ?rb))\<rparr>)
          = Some (ok, g', s') \<and> ts_inv io s' \<and> ts_recv_started s' \<and> (ok \<longleftrightarrow> ts_is_connect s')"
        by (intro client_register_recv_inv buffer_base) (use k tidyD(1,2) [OF l(2)] started in \<open>auto\<close>)
      with Some step show ?thesis by auto
    qed
  qed
qed

lemma completion_inv:
  assumes "ts_inv 0 s" "ce_posted ev s" "reported ev bytes n s"
  shows "\<exists>g' s'. client_completion x e ev bytes n g s = Some (g', s') \<and> ts_inv 0 s' \<and>
    (ts_is_connect s \<longrightarrow> ts_is_connect s' \<or> ts_is_disconnect s')"
proof -
  let ?r = "returned ev s"
  have base: "ts_base 1 ?r" using returned_base assms(1,2) by (simp add: ts_inv_def)
  have "\<exists>g1 s1. (case ev of CE_SEND \<Rightarrow> TestSession_process_send e (word_of_int n) g ?r
      | CE_RECV \<Rightarrow> TestSession_process_recv x e (word_of_int n) g
          (?r\<lparr>ts_recv_buffer := recv_fill bytes (ts_recv_buffer ?r)\<rparr>)) = Some (g1, s1) \<and> ts_inv 1 s1 \<and>
      (ts_is_connect s \<longrightarrow> ts_is_connect s1 \<or> ts_is_disconnect s1)"
  proof (cases ev)
    case CE_SEND
    then have "keeps_on 1 ?r (TestSession_process_send e (word_of_int n) g ?r)"
      using base assms by (intro process_send_keeps) (auto simp: ts_inv_def ts_send_ok_def returned_def ce_posted_def)
    moreover have "ts_recv_ok ?r" using assms(1) CE_SEND by (simp add: ts_inv_def ts_recv_ok_def returned_def)
    moreover have "ts_is_connect ?r = ts_is_connect s" using CE_SEND by (simp add: returned_def)
    ultimately show ?thesis using CE_SEND tidy_recv_ok by (auto simp: keeps_on_def tidy_def recv_frame_def)
  next
    case CE_RECV
    have started: "ts_recv_started s" using assms(1,2) CE_RECV by (auto simp: ts_inv_def ts_base_def ce_posted_def)
    have rb: "rb_inv (ts_recv_buffer s)" "rb_Buffer_size (ts_recv_buffer s) = int BUFFER_SIZE"
      using assms(1) by (simp_all add: ts_inv_def ts_base_def)
    have "rb_inv (recv_fill bytes (ts_recv_buffer s))"
      using rb_inv_fill [OF rb(1)] assms(3) CE_RECV by (simp add: reported_def)
    then have "ts_base 1 (?r\<lparr>ts_recv_buffer := recv_fill bytes (ts_recv_buffer ?r)\<rparr>)"
      using buffer_base [OF base] started rb(2) CE_RECV by (simp add: returned_def recv_fill_def)
    moreover have "ts_send_ok ?r" using assms(1) CE_RECV by (simp add: ts_inv_def ts_send_ok_def returned_def)
    ultimately have "\<exists>g1 s1. TestSession_process_recv x e (word_of_int n) g
        (?r\<lparr>ts_recv_buffer := recv_fill bytes (ts_recv_buffer ?r)\<rparr>) = Some (g1, s1) \<and> ts_inv 1 s1 \<and> ts_recv_started s1"
      using assms(3) started CE_RECV by (intro client_process_recv_inv) (simp_all add: reported_def returned_def)
    with CE_RECV started_flags show ?thesis by auto
  qed
  then obtain g1 s1 where r: "(case ev of CE_SEND \<Rightarrow> TestSession_process_send e (word_of_int n) g ?r
      | CE_RECV \<Rightarrow> TestSession_process_recv x e (word_of_int n) g
          (?r\<lparr>ts_recv_buffer := recv_fill bytes (ts_recv_buffer ?r)\<rparr>)) = Some (g1, s1)" "ts_inv (Suc 0) s1"
      "ts_is_connect s \<longrightarrow> ts_is_connect s1 \<or> ts_is_disconnect s1" by auto
  obtain s2 where "TestSession_finish_io s1 = Some s2" "ts_inv 0 s2" "s2 = s1\<lparr>ts_pending_io := ts_pending_io s1 - 1\<rparr>"
    using client_finish_inv [OF r(2)] .
  with r show ?thesis
    by (cases ev) (auto simp: client_completion_def TestSession_dispatch_def Let_def)
qed

end

end
