(* ===== verification/ClientNet.thy ===== *)
theory ClientNet
  imports ClientFlow
begin

text \<open>
  \<^verbatim>\<open>TestClient/NetWork/ClientServer.{h,cpp}\<close>: the completion port of the client, its worker threads and
  the sessions registered with it.  Sessions are objects behind shared pointers, so they live in a
  store \<open>cl_sessions\<close> and the vector \<open>_sessions\<close> holds their addresses.  \<open>dispatch_once\<close> takes what
  \<open>GetQueuedCompletionStatus\<close> returned.  \<open>stop\<close> blocks until every registered session has given its
  operations back, so it is split where it waits: \<open>stop_begin\<close>, the wait, \<open>stop_finish\<close>.

  \<open>client_step\<close> is one event of a running client: a call the program makes on a session, or a completion.
  Every event keeps \<open>client_inv\<close>, and once \<open>stop\<close> has begun the outstanding operations can only run out.
\<close>

section \<open>State\<close>

record ClientServer =
  cs_iocp_handle :: bool
  cs_stopped :: bool
  cs_worker_threads :: nat
  cs_sessions :: "nat list"

definition ClientServer_new :: ClientServer where
  "ClientServer_new = \<lparr>cs_iocp_handle = False, cs_stopped = False, cs_worker_threads = 0, cs_sessions = []\<rparr>"

record client_world =
  cl_server :: ClientServer
  cl_sessions :: "nat \<Rightarrow> TestSession option"
  cl_global :: GlobalData

definition client_new :: client_world where
  "client_new = \<lparr>cl_server = ClientServer_new, cl_sessions = (\<lambda>_. None), cl_global = GlobalData_new\<rparr>"

text \<open>A method on the session at address \<open>i\<close>; \<open>None\<close> is a failed assertion, or no session at all.\<close>

definition on_session ::
  "nat \<Rightarrow> (GlobalData \<Rightarrow> TestSession \<Rightarrow> 'a client_result) \<Rightarrow> client_world \<Rightarrow> ('a \<times> client_world) option" where
  "on_session i f c =
     (case cl_sessions c i of
        None \<Rightarrow> None
      | Some s \<Rightarrow> map_option (\<lambda>(a, g, s). (a, c\<lparr>cl_sessions := (cl_sessions c)(i \<mapsto> s), cl_global := g\<rparr>))
          (f (cl_global c) s))"

abbreviation do_on :: "nat \<Rightarrow> (GlobalData \<Rightarrow> TestSession \<Rightarrow> (GlobalData \<times> TestSession) option) \<Rightarrow> client_world \<Rightarrow> client_world option" where
  "do_on i f c \<equiv> map_option snd (on_session i (\<lambda>g s. map_option (Pair ()) (f g s)) c)"

section \<open>Operations\<close>

definition CreateIocpHandle :: "bool \<Rightarrow> ClientServer \<Rightarrow> bool \<times> ClientServer" where
  "CreateIocpHandle port_ok cs =
     (if cs_stopped cs then (False, cs)
      else if cs_iocp_handle cs then (True, cs)
      else if \<not> port_ok then (False, cs)
      else (True, cs\<lparr>cs_iocp_handle := True\<rparr>))"

definition register_socket :: "bool \<Rightarrow> nat option \<Rightarrow> client_world \<Rightarrow> (bool \<times> client_world) option" where
  "register_socket port_ok session c =
     (case session of
        None \<Rightarrow> Some (False, c)
      | Some i \<Rightarrow>
          if cs_stopped (cl_server c) \<or> \<not> cs_iocp_handle (cl_server c)
          then map_option (Pair False) (do_on i (\<lambda>g s. Some (TestSession_disconnect g s)) c)
          else if i \<in> set (cs_sessions (cl_server c)) then Some (True, c)
          else case cl_sessions c i of
              None \<Rightarrow> None
            | Some s \<Rightarrow>
                if \<not> register_iocp port_ok s
                then map_option (Pair False) (do_on i (\<lambda>g s. Some (TestSession_disconnect g s)) c)
                else Some (True, c\<lparr>cl_server := (cl_server c)\<lparr>cs_sessions := cs_sessions (cl_server c) @ [i]\<rparr>\<rparr>))"

text \<open>The address for \<open>connect\<close>; \<open>InetPtonW\<close> and \<open>htons\<close> belong to Winsock.\<close>

record SOCKADDR_IN =
  sin_family :: int
  sin_port :: uint16
  sin_addr :: uint32

definition AF_INET :: int where "AF_INET = 2"

definition start_server ::
  "(wstring \<Rightarrow> uint32 option) \<Rightarrow> (uint16 \<Rightarrow> uint16) \<Rightarrow> wstring \<Rightarrow> uint16 \<Rightarrow> SOCKADDR_IN option" where
  "start_server InetPtonW htons ip port =
     (if port = 0 then None
      else case InetPtonW ip of
        None \<Rightarrow> None
      | Some addr \<Rightarrow> Some \<lparr>sin_family = AF_INET, sin_port = htons port, sin_addr = addr\<rparr>)"

definition start_worker_thread :: "int \<Rightarrow> ClientServer \<Rightarrow> bool \<times> ClientServer" where
  "start_worker_thread thread_count cs =
     (if cs_stopped cs \<or> \<not> cs_iocp_handle cs \<or> thread_count < 1 \<or> thread_count > 256 then (False, cs)
      else (True, cs\<lparr>cs_worker_threads := cs_worker_threads cs + nat thread_count\<rparr>))"

section \<open>Completions\<close>

text \<open>What \<open>GetQueuedCompletionStatus\<close> gives: no event, with the result and the error code, or an event of
  the session behind the key.\<close>

definition WAIT_TIMEOUT :: int where "WAIT_TIMEOUT = 258"

datatype dequeued = No_event bool int | Event "nat option" ClientEvent bool int

definition dispatch_once ::
  "client_ext \<Rightarrow> client_io \<Rightarrow> dequeued \<Rightarrow> client_world \<Rightarrow> (bool \<times> client_world) option" where
  "dispatch_once x e q c =
     (case q of
        No_event result err \<Rightarrow> Some (\<not> result \<and> err = WAIT_TIMEOUT, c)
      | Event None iocp_event result num_bytes \<Rightarrow> Some (True, c)
      | Event (Some i) iocp_event result num_bytes \<Rightarrow>
          map_option (Pair True)
            (do_on i (TestSession_dispatch x e iocp_event (if result then num_bytes else 0)) c))"

text \<open>A completion together with the part of the operating system: it hands the event back and has stored
  the bytes of a receive.\<close>

definition complete ::
  "client_ext \<Rightarrow> client_io \<Rightarrow> nat \<Rightarrow> ClientEvent \<Rightarrow> byte list \<Rightarrow> bool \<Rightarrow> int \<Rightarrow> client_world \<Rightarrow> (bool \<times> client_world) option" where
  "complete x e i ev bytes result num_bytes c = do {
     c \<leftarrow> do_on i (\<lambda>g s. let s = returned ev s in
       Some (g, if ev = CE_RECV then s\<lparr>ts_recv_buffer := recv_fill bytes (ts_recv_buffer s)\<rparr> else s)) c;
     dispatch_once x e (Event (Some i) ev result num_bytes) c }"

section \<open>Stopping\<close>

text \<open>The loop of \<open>stop\<close> over the sessions.\<close>

fun disconnect_all :: "nat list \<Rightarrow> client_world \<Rightarrow> client_world option" where
  "disconnect_all [] c = Some c"
| "disconnect_all (i # is) c = do_on i (\<lambda>g s. Some (TestSession_disconnect g s)) c \<bind> disconnect_all is"

text \<open>\<open>None\<close> in the result is the early return of a second call.\<close>

definition stop_begin :: "client_world \<Rightarrow> (nat list option \<times> client_world) option" where
  "stop_begin c =
     (if cs_stopped (cl_server c) then Some (None, c)
      else let sessions = cs_sessions (cl_server c) in
        map_option (Pair (Some sessions))
          (disconnect_all sessions (c\<lparr>cl_server := (cl_server c)\<lparr>cs_stopped := True\<rparr>\<rparr>)))"

definition stop_waits :: "nat list \<Rightarrow> client_world \<Rightarrow> bool" where
  "stop_waits sessions c \<longleftrightarrow> (\<exists>i \<in> set sessions. \<exists>s. cl_sessions c i = Some s \<and> has_pending_io s)"

definition stop_finish :: "nat list \<Rightarrow> client_world \<Rightarrow> client_world option" where
  "stop_finish sessions c =
     (if stop_waits sessions c then None
      else Some (c\<lparr>cl_server := (cl_server c)\<lparr>cs_worker_threads := 0, cs_sessions := [], cs_iocp_handle := False\<rparr>\<rparr>))"

end
