(* ===== verification/ClientRun.thy ===== *)
theory ClientRun
  imports ClientNet
begin

text \<open>
  Runs of the client.  \<open>client_step\<close> is one event: the program creates a session, connects, registers or
  starts it, calls one of its methods or begins to stop, or an outstanding operation of a session
  completes.  \<open>client_inv\<close> holds in every state the client reaches; after \<open>stop\<close> has begun, every
  completion takes one off the outstanding operations and nothing adds to them.
\<close>

section \<open>Events\<close>

datatype client_call =
    Call_login bool "byte list" "byte list" wstring
  | Call_test_login uint32 bool
  | Call_logout
  | Call_rooms
  | Call_enter "8 word"
  | Call_exit
  | Call_chat wstring int int
  | Call_whisper wstring wstring int int
  | Call_disconnect

fun call ::
  "client_ext \<Rightarrow> client_io \<Rightarrow> client_call \<Rightarrow> GlobalData \<Rightarrow> TestSession \<Rightarrow> (GlobalData \<times> TestSession) option" where
  "call x e (Call_login is_create user_id pw name) g s = map_option snd (TestSession_login x e is_create user_id pw name g s)"
| "call x e (Call_test_login index has_account) g s = map_option snd (test_login x e index has_account g s)"
| "call x e Call_logout g s = TestSession_logout x e g s"
| "call x e Call_rooms g s = send_get_room_info x e g s"
| "call x e (Call_enter room_id) g s = map_option snd (send_enter_room x e room_id g s)"
| "call x e Call_exit g s = map_option snd (send_exit_room x e g s)"
| "call x e (Call_chat message chat_state room_id) g s = send_chat x e message chat_state room_id g s"
| "call x e (Call_whisper target message chat_state room_id) g s =
     send_whisper_chat x e target message chat_state room_id g s"
| "call x e Call_disconnect g s = Some (TestSession_disconnect g s)"

datatype client_event =
    N_create nat int
  | N_connect nat bool bool
  | N_register nat bool
  | N_start nat client_io
  | N_call nat client_io client_call
  | N_complete nat client_io ClientEvent "byte list" bool int
  | N_stop

text \<open>An event that can happen: the session exists, a completion belongs to an outstanding operation.\<close>

definition enabled :: "client_event \<Rightarrow> client_world \<Rightarrow> bool" where
  "enabled ev c = (case ev of
     N_create i b \<Rightarrow> cl_sessions c i = None
   | N_connect i a b \<Rightarrow> cl_sessions c i \<noteq> None
   | N_register i p \<Rightarrow> cl_sessions c i \<noteq> None
   | N_start i e \<Rightarrow> cl_sessions c i \<noteq> None
   | N_call i e f \<Rightarrow> cl_sessions c i \<noteq> None
   | N_complete i e ev bytes result n \<Rightarrow>
       (\<exists>s. cl_sessions c i = Some s \<and> ce_posted ev s \<and> reported ev bytes (if result then n else 0) s)
   | N_stop \<Rightarrow> True)"

fun client_step :: "client_ext \<Rightarrow> client_event \<Rightarrow> client_world \<Rightarrow> client_world option" where
  "client_step x (N_create i b) c = Some (c\<lparr>cl_sessions := (cl_sessions c)(i \<mapsto> TestSession_new\<lparr>ts_bot_index := b\<rparr>)\<rparr>)"
| "client_step x (N_connect i a b) c = do_on i (\<lambda>g s. Some (snd (TestSession_connect a b g s))) c"
| "client_step x (N_register i p) c = map_option snd (register_socket p (Some i) c)"
| "client_step x (N_start i e) c = do_on i (\<lambda>g s. map_option snd (TestSession_start e g s)) c"
| "client_step x (N_call i e f) c = do_on i (call x e f) c"
| "client_step x (N_complete i e ev bytes result n) c = map_option snd (complete x e i ev bytes result n c)"
| "client_step x N_stop c = map_option snd (stop_begin c)"

section \<open>Invariant\<close>

text \<open>A registered session was connected, and once the client is stopped it is closed.\<close>

definition registered_ok :: "bool \<Rightarrow> TestSession \<Rightarrow> bool" where
  "registered_ok stopped s \<longleftrightarrow> ts_is_disconnect s \<or> ts_is_connect s \<and> \<not> stopped"

definition client_inv :: "client_world \<Rightarrow> bool" where
  "client_inv c \<longleftrightarrow> (\<forall>i s. cl_sessions c i = Some s \<longrightarrow> ts_inv 0 s) \<and> distinct (cs_sessions (cl_server c)) \<and>
     (\<forall>i \<in> set (cs_sessions (cl_server c)). \<exists>s. cl_sessions c i = Some s \<and> registered_ok (cs_stopped (cl_server c)) s)"

lemma client_inv_session: "client_inv c \<Longrightarrow> cl_sessions c i = Some s \<Longrightarrow> ts_inv 0 s"
  by (simp add: client_inv_def)

lemma client_new_inv: "client_inv client_new"
  by (simp add: client_inv_def client_new_def ClientServer_new_def)

text \<open>What an event does to a session: a session that was connected stays connected or is closed, and the
  outstanding operations of a closed one change by \<open>k\<close>.\<close>

definition evolves :: "int \<Rightarrow> TestSession \<Rightarrow> TestSession \<Rightarrow> bool" where
  "evolves k s s' \<longleftrightarrow> ts_inv 0 s' \<and> (ts_is_connect s \<longrightarrow> ts_is_connect s' \<or> ts_is_disconnect s') \<and>
     (ts_is_disconnect s \<longrightarrow> ts_is_disconnect s' \<and> ts_pending_io s' = ts_pending_io s + k)"

lemma closed_iff: "ts_inv io s \<Longrightarrow> ts_is_disconnect s \<Longrightarrow> \<not> ts_is_connect s"
  by (auto simp: ts_inv_def ts_base_def)

lemma evolves_same: "ts_inv 0 s \<Longrightarrow> evolves 0 s s"
  by (simp add: evolves_def)

lemma evolves_trans: "evolves 0 s s' \<Longrightarrow> evolves 0 s' s'' \<Longrightarrow> evolves 0 s s''"
  by (auto simp: evolves_def)

lemma tidy_evolves:
  assumes "ts_inv 0 s" "tidy 0 s s'" "\<not> ts_is_connect s \<Longrightarrow> s' = s"
  shows "evolves 0 s s'"
proof (cases "ts_is_connect s")
  case True
  then show ?thesis
    using tidy_inv [OF assms(1,2)] assms(2) closed_iff [OF assms(1)] by (auto simp: evolves_def tidy_def recv_frame_def)
qed (use assms evolves_same in simp)

section \<open>The store\<close>

definition progress :: "nat \<Rightarrow> int \<Rightarrow> client_world \<Rightarrow> client_world \<Rightarrow> bool" where
  "progress i k c c' \<longleftrightarrow> client_inv c' \<and>
     (\<forall>j s. cl_sessions c j = Some s \<longrightarrow> (\<exists>s'. cl_sessions c' j = Some s' \<and> evolves (if j = i then k else 0) s s')) \<and>
     (cs_stopped (cl_server c) \<longrightarrow> cl_server c' = cl_server c)"

lemma progress_same: "client_inv c \<Longrightarrow> progress i 0 c c"
  by (simp add: progress_def evolves_same client_inv_session)

lemma registered_evolves: "registered_ok b s \<Longrightarrow> evolves k s s' \<Longrightarrow> ts_inv 0 s \<Longrightarrow> registered_ok b s'"
  by (auto simp: registered_ok_def evolves_def)

lemma update_progress:
  assumes inv: "client_inv c" and s: "cl_sessions c i = Some s" "evolves k s s'"
  shows "progress i k c (c\<lparr>cl_sessions := (cl_sessions c)(i \<mapsto> s'), cl_global := g\<rparr>)"
proof -
  have "\<exists>s1. ((cl_sessions c)(i \<mapsto> s')) j = Some s1 \<and> registered_ok (cs_stopped (cl_server c)) s1"
    if "j \<in> set (cs_sessions (cl_server c))" for j
    using that inv s registered_evolves [OF _ s(2) client_inv_session [OF inv s(1)]] by (auto simp: client_inv_def)
  moreover have "ts_inv 0 s1" if "((cl_sessions c)(i \<mapsto> s')) j = Some s1" for j s1
    using that s(2) client_inv_session [OF inv] by (auto simp: evolves_def split: if_splits)
  ultimately show ?thesis
    using inv s evolves_same client_inv_session [OF inv] by (auto simp: progress_def client_inv_def)
qed

lemma do_on_progress:
  assumes "client_inv c" "cl_sessions c i = Some s" "f (cl_global c) s = Some (g', s')" "evolves k s s'"
  shows "\<exists>c'. do_on i f c = Some c' \<and> progress i k c c' \<and> cl_server c' = cl_server c \<and> cl_sessions c' i = Some s'"
  using update_progress [OF assms(1,2,4), of g'] assms(2,3) by (simp add: on_session_def)

section \<open>Events on one session\<close>

lemma disconnect_evolves:
  assumes "ts_inv 0 s"
  shows "evolves 0 s (snd (TestSession_disconnect g s))"
proof (rule tidy_evolves [OF assms])
  show "tidy 0 s (snd (TestSession_disconnect g s))"
    using assms by (intro disconnect_tidy) (simp_all add: ts_inv_def)
qed (simp add: TestSession_disconnect_def)

lemma do_disconnect:
  assumes "client_inv c" "cl_sessions c i = Some s"
  shows "\<exists>c'. do_on i (\<lambda>g s. Some (TestSession_disconnect g s)) c = Some c' \<and> progress i 0 c c' \<and>
    cl_server c' = cl_server c \<and> cl_sessions c' i = Some (snd (TestSession_disconnect (cl_global c) s))"
  by (rule do_on_progress [OF assms _ disconnect_evolves [OF client_inv_session [OF assms]],
      where g' = "fst (TestSession_disconnect (cl_global c) s)"]) simp

lemma connect_evolves:
  assumes "ts_inv 0 s"
  shows "evolves 0 s (snd (snd (TestSession_connect a b g s)))"
proof -
  obtain r g' s' where c: "TestSession_connect a b g s = (r, g', s')" by (metis prod_cases3)
  have "ts_is_connect s \<or> ts_is_disconnect s \<Longrightarrow> s' = s"
    using c by (auto simp: TestSession_connect_def)
  with connect_inv [OF assms c] c show ?thesis by (auto simp: evolves_def)
qed

lemma new_buffer_room:
  "rest_wf (rb_data (RecvBuffer_new (int BUFFER_SIZE)))" "int BUFFER_SIZE \<le> free_size (RecvBuffer_new (int BUFFER_SIZE))"
  by (simp add: rb_data_new rest_wf_def HEADER_SIZE_def) (simp add: free_size_def RecvBuffer_new_def BUFFER_SIZE_def)

lemma start_evolves:
  assumes "ts_inv 0 s"
  shows "\<exists>r g' s'. TestSession_start e g s = Some (r, g', s') \<and> evolves 0 s s'"
proof (cases "ts_is_connect s \<and> \<not> ts_recv_started s")
  case False
  have "TestSession_start e g s = Some (False, g, s)"
    using False by (auto simp: TestSession_start_def TestSession_disconnect_def)
  with evolves_same [OF assms] show ?thesis by blast
next
  case True
  let ?s = "s\<lparr>ts_recv_started := True\<rparr>"
  have s: "ts_base 0 s" "ts_send_ok s" using assms by (simp_all add: ts_inv_def)
  then have b: "ts_base 0 ?s" "ts_send_ok ?s" "\<not> ts_recv_posted ?s" "ts_recv_buffer ?s = RecvBuffer_new (int BUFFER_SIZE)"
    using True by (simp_all add: ts_base_def ts_send_ok_def)
  have "\<exists>ok g' s'. TestSession_register_recv e g ?s = Some (ok, g', s') \<and> ts_inv 0 s' \<and> ts_recv_started s' \<and>
    (ok \<longleftrightarrow> ts_is_connect s')"
    using b new_buffer_room by (intro client_register_recv_inv) simp_all
  then obtain ok g' s' where r: "TestSession_register_recv e g ?s = Some (ok, g', s')" "ts_inv 0 s'" "ts_recv_started s'"
    "ok \<longleftrightarrow> ts_is_connect s'" by blast
  have "\<not> ts_is_connect s' \<Longrightarrow> TestSession_disconnect g' s' = (g', s')" by (simp add: TestSession_disconnect_def)
  then have "TestSession_start e g s = Some (ok, g', s')" using True r by (auto simp: TestSession_start_def)
  moreover have "evolves 0 s s'"
    using r(2,3) started_flags True closed_iff [OF assms] by (auto simp: evolves_def)
  ultimately show ?thesis by blast
qed

text \<open>On a closed session a call does nothing, and a completion only gives its operation back.\<close>

lemma send_closed: "\<not> ts_is_connect s \<Longrightarrow> TestSession_send e b g s = Some (False, g, s)"
  by (simp add: TestSession_send_def split: option.split)

lemma call_closed:
  assumes "\<not> ts_is_connect s"
  shows "\<exists>g'. call x e f g s = Some (g', s)"
  using assms
  by (cases f) (auto simp: TestSession_login_def begin_login_def test_login_def TestSession_logout_def send_closed
      send_get_room_info_def send_enter_room_def send_exit_room_def send_chat_def send_whisper_chat_def send_counted_def
      TestSession_disconnect_def Let_def)

lemma completion_closed:
  assumes "ts_inv 0 s" "\<not> ts_is_connect s" "ce_posted ev s"
  shows "\<exists>s'. client_completion x e ev bytes n g s = Some (g, s') \<and> ts_pending_io s' = ts_pending_io s - 1 \<and>
    ts_is_disconnect s' = ts_is_disconnect s"
proof -
  have "0 < ts_pending_io s"
    using assms(1,3) by (cases ev) (simp_all add: ts_inv_def ts_base_def ce_posted_def)
  with assms(2) show ?thesis
    by (cases ev) (simp_all add: client_completion_def returned_def TestSession_dispatch_def TestSession_process_send_def
        TestSession_process_recv_def TestSession_finish_io_def Let_def)
qed

context client_runtime
begin

lemma call_keeps: "ts_base io s \<Longrightarrow> ts_send_ok s \<Longrightarrow> keeps_on io s (call x e f g s)"
  by (cases f) (simp_all add: keeps_snd login_keeps test_login_keeps request_on_keeps send_enter_room_keeps
      send_exit_room_keeps chat_keeps disconnect_keeps_on)

lemma call_evolves:
  assumes "ts_inv 0 s"
  shows "\<exists>g' s'. call x e f g s = Some (g', s') \<and> evolves 0 s s'"
proof -
  obtain g' s' where c: "call x e f g s = Some (g', s')" "tidy 0 s s'"
    using call_keeps [of 0 s e f g] assms by (auto simp: ts_inv_def keeps_on_def)
  have "s' = s" if "\<not> ts_is_connect s" using call_closed [OF that, of x e f g] c(1) by auto
  with tidy_evolves [OF assms c(2)] c show ?thesis by blast
qed

lemma completion_evolves:
  assumes "ts_inv 0 s" "ce_posted ev s" "reported ev bytes n s"
  shows "\<exists>g' s'. client_completion x e ev bytes n g s = Some (g', s') \<and> evolves (- 1) s s'"
proof -
  obtain g' s' where c: "client_completion x e ev bytes n g s = Some (g', s')" "ts_inv 0 s'"
    "ts_is_connect s \<longrightarrow> ts_is_connect s' \<or> ts_is_disconnect s'"
    using completion_inv [OF assms] by blast
  show ?thesis
  proof (cases "ts_is_connect s")
    case False
    with completion_closed [OF assms(1) _ assms(2)] c show ?thesis by (fastforce simp: evolves_def)
  next
    case True
    with c closed_iff [OF assms(1)] show ?thesis by (auto simp: evolves_def)
  qed
qed

end

section \<open>Steps\<close>

lemma complete_eq:
  "complete x e i ev bytes result n c =
     map_option (Pair True) (do_on i (client_completion x e ev bytes (if result then n else 0)) c)"
  by (simp add: complete_def dispatch_once_def on_session_def client_completion_def Let_def option.map_comp comp_def
      split_beta split: option.split)

lemma progress_zero: "progress i 0 c c' \<Longrightarrow> progress j 0 c c'"
  by (simp add: progress_def)

lemma progress_trans: "progress i 0 c c' \<Longrightarrow> progress i 0 c' c'' \<Longrightarrow> progress i 0 c c''"
  unfolding progress_def by (simp; metis evolves_trans)

lemma create_progress:
  assumes "client_inv c" "cl_sessions c i = None"
  shows "progress j 0 c (c\<lparr>cl_sessions := (cl_sessions c)(i \<mapsto> TestSession_new\<lparr>ts_bot_index := b\<rparr>)\<rparr>)"
proof -
  have "ts_inv 0 (TestSession_new\<lparr>ts_bot_index := b\<rparr>)"
    using new_inv by (simp add: ts_inv_def ts_base_def ts_send_ok_def ts_recv_ok_def)
  moreover have "i \<notin> set (cs_sessions (cl_server c))" using assms by (auto simp: client_inv_def)
  ultimately show ?thesis
    using assms evolves_same by (auto simp: progress_def client_inv_def split: if_splits)
qed

lemma register_progress:
  assumes "client_inv c" "cl_sessions c i = Some s"
  shows "\<exists>r c'. register_socket p (Some i) c = Some (r, c') \<and> progress j 0 c c'"
proof -
  obtain c1 where d: "do_on i (\<lambda>g s. Some (TestSession_disconnect g s)) c = Some c1" "progress j 0 c c1"
    using do_disconnect [OF assms] progress_zero by blast
  have "progress j 0 c (c\<lparr>cl_server := (cl_server c)\<lparr>cs_sessions := cs_sessions (cl_server c) @ [i]\<rparr>\<rparr>)"
    if "\<not> cs_stopped (cl_server c)" "i \<notin> set (cs_sessions (cl_server c))" "register_iocp p s"
    using that assms evolves_same by (auto simp: progress_def client_inv_def registered_ok_def register_iocp_def)
  with d assms progress_same [OF assms(1)] show ?thesis
    by (cases "cs_stopped (cl_server c) \<or> \<not> cs_iocp_handle (cl_server c)"; cases "register_iocp p s")
      (auto simp: register_socket_def)
qed

text \<open>The loop of \<open>stop\<close>: every session of the list is closed afterwards.\<close>

definition was_connected :: "TestSession \<Rightarrow> bool" where
  "was_connected s \<longleftrightarrow> ts_is_connect s \<or> ts_is_disconnect s"

lemma disconnect_was_connected:
  "was_connected s \<Longrightarrow> ts_is_disconnect (snd (TestSession_disconnect g s))"
  by (auto simp: was_connected_def TestSession_disconnect_def)

lemma progress_session:
  assumes "progress i 0 c c'" "cl_sessions c j = Some s"
  obtains s' where "cl_sessions c' j = Some s'" "evolves 0 s s'"
  using assms by (auto simp: progress_def)

lemma disconnect_all_progress:
  assumes "client_inv c" "\<forall>i \<in> set is. \<exists>s. cl_sessions c i = Some s \<and> was_connected s"
  shows "\<exists>c'. disconnect_all is c = Some c' \<and> progress j 0 c c' \<and> cl_server c' = cl_server c \<and>
    (\<forall>i \<in> set is. \<exists>s. cl_sessions c' i = Some s \<and> ts_is_disconnect s)"
  using assms
proof (induction "is" arbitrary: c)
  case Nil
  then show ?case by (simp add: progress_same)
next
  case (Cons i "is")
  then obtain s where s: "cl_sessions c i = Some s" "was_connected s" by auto
  let ?s = "snd (TestSession_disconnect (cl_global c) s)"
  obtain c1 where c1: "do_on i (\<lambda>g s. Some (TestSession_disconnect g s)) c = Some c1" "progress j 0 c c1"
    "cl_server c1 = cl_server c" "cl_sessions c1 i = Some ?s"
    using do_disconnect [OF Cons.prems(1) s(1)] progress_zero by blast
  have "\<exists>s. cl_sessions c1 k = Some s \<and> was_connected s" if k: "k \<in> set is" for k
  proof -
    obtain t where t: "cl_sessions c k = Some t" "was_connected t" using k Cons.prems(2) by (meson list.set_intros(2))
    obtain t' where "cl_sessions c1 k = Some t'" "evolves 0 t t'" using progress_session [OF c1(2) t(1)] .
    with t(2) show ?thesis by (auto simp: evolves_def was_connected_def)
  qed
  moreover have "client_inv c1" using c1(2) by (simp add: progress_def)
  ultimately obtain c2 where c2: "disconnect_all is c1 = Some c2" "progress j 0 c1 c2" "cl_server c2 = cl_server c1"
    "\<forall>i \<in> set is. \<exists>s. cl_sessions c2 i = Some s \<and> ts_is_disconnect s"
    using Cons.IH [of c1] by blast
  obtain s2 where "cl_sessions c2 i = Some s2" "evolves 0 ?s s2" using progress_session [OF c2(2) c1(4)] .
  then have "\<exists>s. cl_sessions c2 i = Some s \<and> ts_is_disconnect s"
    using disconnect_was_connected [OF s(2)] by (simp add: evolves_def)
  with c1 c2 progress_trans [OF c1(2) c2(2)] show ?case by simp
qed

lemma disconnect_all_server:
  "disconnect_all is (c\<lparr>cl_server := v\<rparr>) = map_option (\<lambda>c. c\<lparr>cl_server := v\<rparr>) (disconnect_all is c)"
proof (induction "is" arbitrary: c)
  case (Cons i "is")
  show ?case
  proof (cases "do_on i (\<lambda>g s. Some (TestSession_disconnect g s)) c")
    case (Some c1)
    then have "do_on i (\<lambda>g s. Some (TestSession_disconnect g s)) (c\<lparr>cl_server := v\<rparr>) = Some (c1\<lparr>cl_server := v\<rparr>)"
      by (auto simp: on_session_def split: option.splits prod.splits)
    with Some Cons.IH show ?thesis by simp
  next
    case None
    then show ?thesis by (auto simp: on_session_def split: option.splits prod.splits)
  qed
qed simp

lemma registered_was_connected:
  "client_inv c \<Longrightarrow> \<forall>i \<in> set (cs_sessions (cl_server c)). \<exists>s. cl_sessions c i = Some s \<and> was_connected s"
  unfolding client_inv_def registered_ok_def was_connected_def by blast

lemma stop_begin_progress:
  assumes "client_inv c"
  shows "\<exists>ss c'. stop_begin c = Some (ss, c') \<and> progress j 0 c c' \<and> cs_stopped (cl_server c') \<and>
    (\<not> cs_stopped (cl_server c) \<longrightarrow> ss = Some (cs_sessions (cl_server c)) \<and>
       cs_sessions (cl_server c') = cs_sessions (cl_server c))"
proof (cases "cs_stopped (cl_server c)")
  case True
  then show ?thesis using progress_same [OF assms] by (simp add: stop_begin_def)
next
  case False
  let ?ss = "cs_sessions (cl_server c)" and ?v = "(cl_server c)\<lparr>cs_stopped := True\<rparr>"
  obtain c1 where c1: "disconnect_all ?ss c = Some c1" "progress j 0 c c1" "cl_server c1 = cl_server c"
    "\<forall>i \<in> set ?ss. \<exists>s. cl_sessions c1 i = Some s \<and> ts_is_disconnect s"
    using disconnect_all_progress [OF assms, of ?ss j] registered_was_connected [OF assms] by blast
  have "client_inv (c1\<lparr>cl_server := ?v\<rparr>)"
    using c1 by (simp add: progress_def client_inv_def registered_ok_def)
  then have "progress j 0 c (c1\<lparr>cl_server := ?v\<rparr>)" using c1(2) False by (simp add: progress_def)
  moreover have "stop_begin c = Some (Some ?ss, c1\<lparr>cl_server := ?v\<rparr>)"
    using False c1(1) by (simp add: stop_begin_def Let_def disconnect_all_server)
  ultimately show ?thesis by simp
qed

fun completed :: "client_event \<Rightarrow> nat option" where
  "completed (N_complete i e ev bytes result n) = Some i"
| "completed _ = None"

context client_runtime
begin

lemma step_progress:
  assumes inv: "client_inv c" and en: "enabled ev c"
  shows "\<exists>c'. client_step x ev c = Some c' \<and>
    (case completed ev of None \<Rightarrow> progress 0 0 c c' | Some i \<Rightarrow> progress i (- 1) c c')"
proof (cases ev)
  case (N_create i b)
  with create_progress [OF inv, of i 0 b] en show ?thesis by (simp add: enabled_def)
next
  case (N_connect i a b)
  then obtain s where s: "cl_sessions c i = Some s" using en by (auto simp: enabled_def)
  obtain r g' s' where "TestSession_connect a b (cl_global c) s = (r, g', s')" "evolves 0 s s'"
    using connect_evolves [OF client_inv_session [OF inv s], of a b "cl_global c"] by (metis prod.collapse)
  from do_on_progress [OF inv s _ this(2), of "\<lambda>g s. Some (snd (TestSession_connect a b g s))" g'] this
  show ?thesis using N_connect progress_zero by fastforce
next
  case (N_register i p)
  then obtain s where s: "cl_sessions c i = Some s" using en by (auto simp: enabled_def)
  from register_progress [OF inv s, of p 0] N_register show ?thesis by auto
next
  case (N_start i e)
  then obtain s where s: "cl_sessions c i = Some s" using en by (auto simp: enabled_def)
  obtain r g' s' where "TestSession_start e (cl_global c) s = Some (r, g', s')" "evolves 0 s s'"
    using start_evolves [OF client_inv_session [OF inv s]] by blast
  from do_on_progress [OF inv s _ this(2), of "\<lambda>g s. map_option snd (TestSession_start e g s)" g'] this
  show ?thesis using N_start progress_zero by fastforce
next
  case (N_call i e f)
  then obtain s where s: "cl_sessions c i = Some s" using en by (auto simp: enabled_def)
  obtain g' s' where "call x e f (cl_global c) s = Some (g', s')" "evolves 0 s s'"
    using call_evolves [OF client_inv_session [OF inv s]] by blast
  from do_on_progress [OF inv s _ this(2), of "call x e f" g'] this show ?thesis using N_call progress_zero by fastforce
next
  case (N_complete i e ev' bytes result n)
  then obtain s where s: "cl_sessions c i = Some s" "ce_posted ev' s" "reported ev' bytes (if result then n else 0) s"
    using en by (auto simp: enabled_def)
  obtain g' s' where "client_completion x e ev' bytes (if result then n else 0) (cl_global c) s = Some (g', s')"
    "evolves (- 1) s s'"
    using completion_evolves [OF client_inv_session [OF inv s(1)] s(2,3)] by blast
  from do_on_progress [OF inv s(1) _ this(2), of "client_completion x e ev' bytes (if result then n else 0)" g'] this
  show ?thesis using N_complete by (fastforce simp: complete_eq)
next
  case N_stop
  with stop_begin_progress [OF inv, of 0] show ?thesis by auto
qed

end

section \<open>Runs\<close>

inductive client_reachable :: "client_ext \<Rightarrow> client_world \<Rightarrow> bool" for x where
  start: "CreateIocpHandle p ClientServer_new = (True, cs) \<Longrightarrow> start_worker_thread k cs = (True, cs') \<Longrightarrow>
     client_reachable x (client_new\<lparr>cl_server := cs', cl_global := GlobalData_new\<lparr>cg_mode := mode\<rparr>\<rparr>)"
| step: "client_reachable x c \<Longrightarrow> enabled ev c \<Longrightarrow> client_step x ev c = Some c' \<Longrightarrow> client_reachable x c'"

lemma started_server:
  assumes "CreateIocpHandle p ClientServer_new = (True, cs)" "start_worker_thread k cs = (True, cs')"
  shows "client_inv (client_new\<lparr>cl_server := cs', cl_global := g\<rparr>) \<and> \<not> cs_stopped cs' \<and> 0 < cs_worker_threads cs'"
  using assms
  by (auto simp: CreateIocpHandle_def start_worker_thread_def ClientServer_new_def client_inv_def client_new_def
      split: if_splits)

inductive client_run :: "client_ext \<Rightarrow> client_event list \<Rightarrow> client_world \<Rightarrow> client_world \<Rightarrow> bool" for x where
  none: "client_run x [] c c"
| more: "enabled ev c \<Longrightarrow> client_step x ev c = Some c1 \<Longrightarrow> client_run x evs c1 c' \<Longrightarrow> client_run x (ev # evs) c c'"

inductive_cases client_run_Cons: "client_run x (ev # evs) c c'"

text \<open>The operations that \<open>stop\<close> waits for, and the completions among some events that belong to it.\<close>

definition pending_at :: "client_world \<Rightarrow> nat \<Rightarrow> int" where
  "pending_at c i = (case cl_sessions c i of None \<Rightarrow> 0 | Some s \<Rightarrow> ts_pending_io s)"

definition waited_for :: "nat list \<Rightarrow> client_world \<Rightarrow> int" where
  "waited_for ss c = sum_list (map (pending_at c) ss)"

definition completions :: "nat list \<Rightarrow> client_event list \<Rightarrow> nat" where
  "completions ss evs = length (filter (\<lambda>ev. \<exists>i \<in> set ss. completed ev = Some i) evs)"

lemma inv_pending:
  "ts_inv io s \<Longrightarrow> ts_pending_io s = of_bool (ts_recv_posted s) + of_bool (ts_send_posted s) + int io"
  "ts_inv io s \<Longrightarrow> 0 \<le> free_size (ts_recv_buffer s)"
  by (simp_all add: ts_inv_def ts_base_def rb_inv_def free_size_def)

lemma stop_waits_iff:
  assumes "client_inv c" "set ss \<subseteq> dom (cl_sessions c)"
  shows "stop_waits ss c \<longleftrightarrow> 0 < waited_for ss c"
proof -
  have p: "0 \<le> pending_at c i" for i
    using inv_pending(1) [OF client_inv_session [OF assms(1)]] by (auto simp: pending_at_def split: option.split)
  have "stop_waits ss c \<longleftrightarrow> (\<exists>i \<in> set ss. pending_at c i \<noteq> 0)"
    by (auto simp: stop_waits_def pending_at_def has_pending_io_def split: option.splits)
  also have "\<dots> \<longleftrightarrow> 0 < waited_for ss c"
  proof (induction ss)
    case (Cons i ss)
    have "0 \<le> waited_for ss c" using p by (auto simp: waited_for_def intro!: sum_list_nonneg)
    with Cons p [of i] show ?case by (auto simp: waited_for_def)
  qed (simp add: waited_for_def)
  finally show ?thesis .
qed

text \<open>A closed client: stopped, and every session of \<open>ss\<close> is closed.\<close>

definition closing_client :: "nat list \<Rightarrow> client_world \<Rightarrow> bool" where
  "closing_client ss c \<longleftrightarrow> client_inv c \<and> cs_stopped (cl_server c) \<and> cs_sessions (cl_server c) = ss"

lemma closing_closed:
  assumes "closing_client ss c" "i \<in> set ss"
  obtains s where "cl_sessions c i = Some s" "ts_is_disconnect s"
  using assms by (auto simp: closing_client_def client_inv_def registered_ok_def)

lemma closing_dom: "closing_client ss c \<Longrightarrow> set ss \<subseteq> dom (cl_sessions c)"
  using closing_closed by blast

lemma waited_for_change:
  assumes "distinct ss" "\<And>i. i \<in> set ss \<Longrightarrow> pending_at c' i = pending_at c i - (if Some i = k then 1 else 0)"
  shows "waited_for ss c' = waited_for ss c - of_bool (\<exists>i \<in> set ss. k = Some i)"
  using assms by (induction ss) (auto simp: waited_for_def)

context client_runtime
begin

lemma client_closing_step:
  assumes "closing_client ss c" "enabled ev c" "client_step x ev c = Some c'"
  shows "closing_client ss c' \<and> waited_for ss c' + int (completions ss [ev]) = waited_for ss c"
proof -
  have inv: "client_inv c" "cs_stopped (cl_server c)" "cs_sessions (cl_server c) = ss"
    using assms(1) by (simp_all add: closing_client_def)
  obtain i k where p: "progress i k c c'"
    "\<And>j. (if j = i then k else 0) = - (if Some j = completed ev then 1 else 0)"
  proof (cases "completed ev")
    case None
    with step_progress [OF inv(1) assms(2)] assms(3) show ?thesis by (intro that [of 0 0]) simp_all
  next
    case (Some j)
    with step_progress [OF inv(1) assms(2)] assms(3) show ?thesis by (intro that [of j "- 1"]) simp_all
  qed
  have "pending_at c' j = pending_at c j - (if Some j = completed ev then 1 else 0)" if j: "j \<in> set ss" for j
  proof -
    obtain s where s: "cl_sessions c j = Some s" "ts_is_disconnect s" using closing_closed [OF assms(1) j] .
    then obtain s' where s': "cl_sessions c' j = Some s'" "evolves (if j = i then k else 0) s s'"
      using p(1) unfolding progress_def by blast
    have "ts_pending_io s' = ts_pending_io s - (if Some j = completed ev then 1 else 0)"
      using s'(2) s(2) unfolding evolves_def p(2) by simp
    with s s' show ?thesis by (simp add: pending_at_def)
  qed
  then have "waited_for ss c' = waited_for ss c - of_bool (\<exists>i \<in> set ss. completed ev = Some i)"
    using inv by (intro waited_for_change) (auto simp: client_inv_def)
  moreover have "closing_client ss c'" using p(1) inv by (simp add: closing_client_def progress_def)
  ultimately show ?thesis by (simp add: completions_def)
qed

lemma client_closing_run:
  "client_run x evs c c' \<Longrightarrow> closing_client ss c \<Longrightarrow>
    closing_client ss c' \<and> waited_for ss c' + int (completions ss evs) = waited_for ss c"
proof (induction rule: client_run.induct)
  case (more ev c c1 evs c')
  note s = client_closing_step [OF more.prems more.hyps(1,2)]
  with more.IH have "waited_for ss c' + int (completions ss evs) = waited_for ss c1" "closing_client ss c'" by blast+
  moreover have "completions ss (ev # evs) = completions ss [ev] + completions ss evs" by (simp add: completions_def)
  ultimately show ?case using s by simp
qed (simp add: completions_def)

lemma closing_enabled:
  assumes "closing_client ss c" "0 < waited_for ss c"
  shows "\<exists>ev. enabled ev c \<and> completions ss [ev] = 1"
proof -
  have inv: "client_inv c" using assms(1) by (simp add: closing_client_def)
  obtain i s where i: "i \<in> set ss" "cl_sessions c i = Some s" "ts_pending_io s \<noteq> 0"
    using stop_waits_iff [OF inv closing_dom [OF assms(1)]] assms(2) by (auto simp: stop_waits_def has_pending_io_def)
  then have "ts_recv_posted s \<or> ts_send_posted s"
    using inv_pending(1) [OF client_inv_session [OF inv i(2)]] by (auto simp: of_bool_def split: if_splits)
  then have "ce_posted CE_RECV s \<or> ce_posted CE_SEND s" by (simp add: ce_posted_def)
  then obtain k where "ce_posted k s" by blast
  with i inv_pending(2) [OF client_inv_session [OF inv i(2)]] show ?thesis
    by (intro exI [of _ "N_complete i \<lparr>ci_WSARecv = IO_OK, ci_WSASend = IO_OK\<rparr> k [] False 0"])
      (auto simp: enabled_def reported_def completions_def int32_range_def)
qed

lemma reachable_client_inv: "client_reachable x c \<Longrightarrow> client_inv c"
proof (induction rule: client_reachable.induct)
  case (step c ev c')
  from step_progress [OF step.IH step.hyps(2)] step.hyps(3) show ?case
    by (auto simp: progress_def split: option.splits)
qed (use started_server in blast)

end

section \<open>Properties\<close>

text \<open>C11: the client's sessions stay well-formed.  In every state the client reaches, every event that can happen,
  be it a call of the program or a completion with whatever bytes the server sent, runs to its end
  without a failed assertion, and afterwards every session is well-formed: flags, state and requests
  agree, a closed session is reset, the receive buffer holds an incomplete packet only, and the counter of
  outstanding operations counts exactly the posted receive and send.\<close>

theorem client_sessions_typed:
  assumes "client_runtime x" "client_reachable x c" "enabled ev c"
  shows "\<exists>c'. client_step x ev c = Some c' \<and> (\<forall>i s. cl_sessions c' i = Some s \<longrightarrow> ts_inv 0 s)"
proof -
  have "client_inv c" using client_runtime.reachable_client_inv assms by blast
  from client_runtime.step_progress [OF assms(1) this assms(3)] show ?thesis
    by (auto simp: progress_def client_inv_def split: option.splits)
qed

text \<open>A client with one session that is connected and receives.\<close>

definition ref_client :: client_ext where
  "ref_client = \<lparr>cx_pb = ref_lib, cx_win = ref_win, cx_room = (\<lambda>_. 64)\<rparr>"

definition quiet_io :: client_io where
  "quiet_io = \<lparr>ci_WSARecv = IO_OK, ci_WSASend = IO_OK\<rparr>"

interpretation ref_client: client_runtime ref_client
  by (rule client_runtime.intro) (simp add: ref_client_def ref.pb_runtime_axioms)

definition live_session :: TestSession where
  "live_session = (TestSession_new\<lparr>ts_bot_index := 7, ts_socket_open := True, ts_is_connect := True,
     ts_test_session_state := TS_CONNECTED, ts_recv_started := True, ts_pending_io := 1, ts_recv_posted := True\<rparr>)"

definition live_client :: client_world where
  "live_client = \<lparr>cl_server = \<lparr>cs_iocp_handle = True, cs_stopped = False, cs_worker_threads = 4, cs_sessions = [1]\<rparr>,
     cl_sessions = [1 \<mapsto> live_session], cl_global = GlobalData_new\<lparr>cg_connect_success := 1\<rparr>\<rparr>"

lemma live_client_reachable: "client_reachable ref_client live_client"
proof -
  let ?s0 = "TestSession_new\<lparr>ts_bot_index := 7\<rparr>"
  let ?s1 = "?s0\<lparr>ts_socket_open := True, ts_is_connect := True, ts_test_session_state := TS_CONNECTED\<rparr>"
  let ?cs = "\<lparr>cs_iocp_handle = True, cs_stopped = False, cs_worker_threads = 4, cs_sessions = []\<rparr>"
  have f: "\<not> ts_is_connect TestSession_new" "\<not> ts_is_disconnect TestSession_new" "\<not> ts_recv_started TestSession_new"
    "ts_pending_io TestSession_new = 0" by (simp_all add: TestSession_new_def)
  have m: "GlobalData_new\<lparr>cg_mode := LOAD_TEST\<rparr> = GlobalData_new" by (simp add: GlobalData_new_def)
  have "client_reachable ref_client (client_new\<lparr>cl_server := ?cs, cl_global := GlobalData_new\<lparr>cg_mode := LOAD_TEST\<rparr>\<rparr>)"
    by (rule client_reachable.start [of True "\<lparr>cs_iocp_handle = True, cs_stopped = False, cs_worker_threads = 0, cs_sessions = []\<rparr>" 4])
      (simp_all add: CreateIocpHandle_def start_worker_thread_def ClientServer_new_def)
  then have "client_reachable ref_client \<lparr>cl_server = ?cs, cl_sessions = [1 \<mapsto> ?s0], cl_global = GlobalData_new\<rparr>"
    by (rule client_reachable.step [of _ _ "N_create 1 7"]) (simp_all add: enabled_def client_new_def m)
  then have "client_reachable ref_client \<lparr>cl_server = ?cs, cl_sessions = [1 \<mapsto> ?s1],
     cl_global = GlobalData_new\<lparr>cg_connect_success := 1\<rparr>\<rparr>"
    by (rule client_reachable.step [of _ _ "N_connect 1 True True"])
      (simp_all add: enabled_def on_session_def TestSession_connect_def f GlobalData_new_def)
  then have "client_reachable ref_client \<lparr>cl_server = ?cs\<lparr>cs_sessions := [1]\<rparr>, cl_sessions = [1 \<mapsto> ?s1],
     cl_global = GlobalData_new\<lparr>cg_connect_success := 1\<rparr>\<rparr>"
    by (rule client_reachable.step [of _ _ "N_register 1 True"])
      (simp_all add: enabled_def register_socket_def register_iocp_def)
  then show ?thesis
    by (rule client_reachable.step [of _ _ "N_start 1 quiet_io"])
      (simp_all add: enabled_def on_session_def TestSession_start_def TestSession_register_recv_def f
        TestSession_begin_io_def io_failed_def quiet_io_def live_client_def live_session_def)
qed

lemma live_enabled:
  "length bytes \<le> 65536 \<Longrightarrow> enabled (N_complete 1 e CE_RECV bytes True (int (length bytes))) live_client"
  by (simp add: enabled_def live_client_def ce_posted_def live_session_def reported_def int32_range_def TestSession_new_def
      free_size_def RecvBuffer_new_def)

theorem client_sessions_typed_witness:
  "\<exists>c'. client_step ref_client (N_complete 1 quiet_io CE_RECV [1, 2, 3, 4] True 4) live_client = Some c' \<and>
    (\<exists>s. cl_sessions c' 1 = Some s \<and> ts_inv 0 s)"
proof -
  have en: "enabled (N_complete 1 quiet_io CE_RECV [1, 2, 3, 4] True 4) live_client"
    using live_enabled [of "[1, 2, 3, 4]" quiet_io] by simp
  from client_sessions_typed [OF ref_client.client_runtime_axioms live_client_reachable en] obtain c' where
    c': "client_step ref_client (N_complete 1 quiet_io CE_RECV [1, 2, 3, 4] True 4) live_client = Some c'"
    "\<forall>i s. cl_sessions c' i = Some s \<longrightarrow> ts_inv 0 s" by blast
  then have "cl_sessions c' 1 \<noteq> None" by (auto simp: complete_eq on_session_def split: option.splits prod.splits)
  with c' show ?thesis by blast
qed

text \<open>C26: stopping the client ends.  When \<open>stop\<close> has begun, each completion of a registered session takes
  exactly one off the operations it waits for and no other event changes them; while it waits a
  completion is outstanding, and it goes on exactly when none is left.  So it returns after as many
  completions as were outstanding, in whatever order they come.\<close>

theorem client_stop_returns:
  assumes "client_runtime x" "client_reachable x c" "\<not> cs_stopped (cl_server c)"
  defines "ss \<equiv> cs_sessions (cl_server c)"
  shows "\<exists>c0. stop_begin c = Some (Some ss, c0) \<and>
    (\<forall>evs c'. client_run x evs c0 c' \<longrightarrow>
       waited_for ss c' + int (completions ss evs) = waited_for ss c0 \<and>
       (stop_finish ss c' = None \<longleftrightarrow> 0 < waited_for ss c') \<and>
       (0 < waited_for ss c' \<longrightarrow> (\<exists>ev. enabled ev c' \<and> completions ss [ev] = 1)))"
proof -
  have inv: "client_inv c" using client_runtime.reachable_client_inv assms by blast
  obtain c0 where c0: "stop_begin c = Some (Some ss, c0)" "closing_client ss c0"
    using stop_begin_progress [OF inv, of 0] assms(3) by (auto simp: closing_client_def progress_def ss_def)
  have "waited_for ss c' + int (completions ss evs) = waited_for ss c0 \<and>
      (stop_finish ss c' = None \<longleftrightarrow> 0 < waited_for ss c') \<and>
      (0 < waited_for ss c' \<longrightarrow> (\<exists>ev. enabled ev c' \<and> completions ss [ev] = 1))"
    if run: "client_run x evs c0 c'" for evs c'
  proof -
    note r = client_runtime.client_closing_run [OF assms(1) run c0(2)]
    then have "client_inv c'" by (simp add: closing_client_def)
    from stop_waits_iff [OF this closing_dom] r client_runtime.closing_enabled [OF assms(1)] show ?thesis
      by (auto simp: stop_finish_def)
  qed
  with c0 show ?thesis by blast
qed

theorem client_stop_returns_witness:
  "\<exists>c0. stop_begin live_client = Some (Some [1], c0) \<and> waited_for [1] c0 = 1 \<and> stop_finish [1] c0 = None"
proof -
  have l: "\<not> cs_stopped (cl_server live_client)" "cs_sessions (cl_server live_client) = [1]" by (simp_all add: live_client_def)
  from client_stop_returns [OF ref_client.client_runtime_axioms live_client_reachable l(1)] obtain c0 where
    c0: "stop_begin live_client = Some (Some [1], c0)" "\<forall>evs c'. client_run ref_client evs c0 c' \<longrightarrow>
       (stop_finish [1] c' = None \<longleftrightarrow> 0 < waited_for [1] c')" unfolding l(2) by blast
  have "waited_for [1] c0 = 1"
    using c0(1) by (auto simp: stop_begin_def live_client_def on_session_def TestSession_disconnect_def live_session_def
        waited_for_def pending_at_def TestSession_new_def Let_def split: option.splits)
  moreover have "stop_finish [1] c0 = None \<longleftrightarrow> 0 < waited_for [1] c0" using c0(2) client_run.none by blast
  ultimately show ?thesis using c0(1) by simp
qed

end
