(* ===== verification/ClientMain.thy ===== *)
theory ClientMain
  imports ClientRun "HOL-Library.Signed_Division"
begin

text \<open>
  \<^verbatim>\<open>TestClient/Main/main.cpp\<close>: the choice of the mode, the start of the client, the bots of the load test
  and the commands of the manual test.  Input lines, new objects and the results of the system calls are
  arguments.  The waits for an answer (\<open>wait_for_login\<close>, \<open>wait_for_disconnect\<close>) and the pause between two rounds of
  a bot thread change nothing; what happens meanwhile are events of \<open>ClientRun\<close>, and every action here is
  a sequence of calls on sessions.  The statistics printed once a second (floating point) are left out.
\<close>

section \<open>Starting\<close>

definition wide :: "string \<Rightarrow> wstring" where
  "wide s = map (\<lambda>c. of_nat (of_char c)) s"

datatype main_result = Exit int | Run ClientMode

definition client_main :: "bool \<Rightarrow> wstring option \<Rightarrow> int \<Rightarrow> main_result" where
  "client_main config_loaded input WSAStartup =
     (if \<not> config_loaded then Exit 1
      else case input of
        None \<Rightarrow> Exit 0
      | Some mode \<Rightarrow>
          if mode \<noteq> wide ''1'' \<and> mode \<noteq> wide ''2'' then Exit 1
          else if WSAStartup \<noteq> 0 then Exit 1
          else Run (if mode = wide ''1'' then MANUAL else LOAD_TEST))"

text \<open>The beginning of \<open>run_load_test\<close> and \<open>run_manual_test\<close>.\<close>

definition start_client ::
  "win_lib \<Rightarrow> (wstring \<Rightarrow> uint32 option) \<Rightarrow> (uint16 \<Rightarrow> uint16) \<Rightarrow> bool \<Rightarrow> sections \<Rightarrow> ClientMode \<Rightarrow>
   (ClientConfig \<times> SOCKADDR_IN \<times> client_world) option" where
  "start_client W InetPtonW htons port_ok config mode = do {
     settings \<leftarrow> ClientConfig_load W config (mode = LOAD_TEST);
     server_addr \<leftarrow> start_server InetPtonW htons (cc_server_ip settings) (cc_port settings);
     let (created, server) = CreateIocpHandle port_ok ClientServer_new;
     let (started, server) = start_worker_thread (if mode = LOAD_TEST then cc_worker_thread_count settings else 1) server;
     if \<not> created \<or> \<not> started then None
     else Some (settings, server_addr, client_new\<lparr>cl_server := server, cl_global := GlobalData_new\<lparr>cg_mode := mode\<rparr>\<rparr>) }"

section \<open>The load test\<close>

text \<open>What the system answers while one bot is set up, and the address of its session.\<close>

record bot_env =
  be_session :: nat
  be_WSASocket :: bool
  be_connect :: bool
  be_port :: bool
  be_start :: client_io
  be_login :: client_io

definition setup_bot ::
  "client_ext \<Rightarrow> (int \<Rightarrow> bot_env) \<Rightarrow> int \<Rightarrow> nat list \<times> client_world \<Rightarrow> (nat list \<times> client_world) option" where
  "setup_bot x env i st = (case st of (sessions, c) \<Rightarrow>
     let session = be_session (env i) in do {
       c \<leftarrow> client_step x (N_create session i) c;
       (connected, c) \<leftarrow> on_session session
         (\<lambda>g s. Some (TestSession_connect (be_WSASocket (env i)) (be_connect (env i)) g s)) c;
       if \<not> connected then Some (sessions, c) else do {
         (registered, c) \<leftarrow> register_socket (be_port (env i)) (Some session) c;
         if \<not> registered then Some (sessions, c) else do {
           (started, c) \<leftarrow> on_session session (TestSession_start (be_start (env i))) c;
           if \<not> started then Some (sessions, c) else do {
             (_, c) \<leftarrow> on_session session (test_login x (be_login (env i)) (word_of_int i) False) c;
             Some (sessions @ [session], c) } } } })"

fun setup_bots ::
  "client_ext \<Rightarrow> (int \<Rightarrow> bot_env) \<Rightarrow> int list \<Rightarrow> nat list \<times> client_world \<Rightarrow> (nat list \<times> client_world) option" where
  "setup_bots x env [] st = Some st"
| "setup_bots x env (i # is) st = setup_bot x env i st \<bind> setup_bots x env is"

text \<open>The body of a bot thread's loop; \<open>target\<close> is the bot index of the next session.  Division by zero is
  \<open>None\<close>.\<close>

definition bot_action ::
  "client_ext \<Rightarrow> client_io \<Rightarrow> ClientConfig \<Rightarrow> nat \<Rightarrow> int \<Rightarrow> GlobalData \<Rightarrow> TestSession \<Rightarrow> (GlobalData \<times> TestSession) option" where
  "bot_action x e settings session_number target g s =
     (if \<not> ts_is_login s then Some (g, s)
      else
        let bot_index = ts_bot_index s; room_id = ts_room_id s in
        if room_id < 0 then
          if cc_bot_room_count settings = 0 then None
          else map_option snd (send_enter_room x e (word_of_int (bot_index smod cc_bot_room_count settings)) g s)
        else if cc_all_chat_interval settings = 0 then None
        else if bot_index smod cc_all_chat_interval settings = 0
        then send_chat x e (wide ''bot all chat test'') CHAT_ALL room_id g s
        else if session_number > 1 \<and> cc_whisper_interval settings = 0 then None
        else if session_number > 1 \<and> bot_index smod cc_whisper_interval settings = 0
        then send_whisper_chat x e (wide ''Bot_'' @ wide (decimal target)) (wide ''bot whisper test'') CHAT_WHISPER room_id g s
        else send_chat x e (wide ''bot room chat test'') CHAT_NORMAL room_id g s)"

text \<open>The indices thread \<open>i\<close> visits; there is a thread only when \<open>bot_thread_count\<close> is positive.\<close>

function bot_indices :: "nat \<Rightarrow> nat \<Rightarrow> nat \<Rightarrow> nat list" where
  "bot_indices bot_thread_count session_number index =
     (if index < session_number \<and> 0 < bot_thread_count then index # bot_indices bot_thread_count session_number (index + bot_thread_count)
      else [])"
  by pat_completeness auto
termination
  by (relation "measure (\<lambda>(n, m, index). m - index)") auto

declare bot_indices.simps [simp del]

text \<open>One round of a bot thread; \<open>running\<close> is what \<open>control.running\<close> gives before each session.\<close>

fun bot_round ::
  "client_ext \<Rightarrow> (nat \<Rightarrow> client_io) \<Rightarrow> ClientConfig \<Rightarrow> (nat \<Rightarrow> bool) \<Rightarrow> nat list \<Rightarrow> nat list \<Rightarrow> client_world \<Rightarrow> client_world option" where
  "bot_round x io settings running sessions [] c = Some c"
| "bot_round x io settings running sessions (index # rest) c =
     (if \<not> running index then Some c
      else do {
        target \<leftarrow> cl_sessions c (sessions ! ((index + 1) mod length sessions));
        c \<leftarrow> do_on (sessions ! index) (bot_action x (io index) settings (length sessions) (ts_bot_index target)) c;
        bot_round x io settings running sessions rest c })"

section \<open>The manual test\<close>

text \<open>One pass of the login loop: the lines it reads from the input that is left, and whether it goes on,
  leaves, or waits for the answer.\<close>

datatype login_round = Again | Leave | Wait

definition login_prompt ::
  "client_ext \<Rightarrow> client_io \<Rightarrow> wstring list \<Rightarrow> GlobalData \<Rightarrow> TestSession \<Rightarrow> (login_round \<times> wstring list) client_result" where
  "login_prompt x e input g s =
     (case input of
        [] \<Rightarrow> Some ((Leave, []), g, s)
      | choice # input \<Rightarrow>
          if choice = wide ''3'' \<or> choice = wide ''/q'' then Some ((Leave, input), g, s)
          else if choice \<noteq> wide ''1'' \<and> choice \<noteq> wide ''2'' then Some ((Again, input), print C_bad_choice g, s)
          else case input of
            [] \<Rightarrow> Some ((Leave, []), g, s)
          | user_id # input \<Rightarrow> (case input of
              [] \<Rightarrow> Some ((Leave, []), g, s)
            | pw # input \<Rightarrow>
                let is_create = (choice = wide ''2'') in
                if is_create \<and> input = [] then Some ((Leave, []), g, s)
                else
                  let name = (if is_create then hd input else []); input = (if is_create then tl input else input) in
                  map_option (\<lambda>(sent, g, s). ((if sent then Wait else Again, input), g, s))
                    (TestSession_login x e is_create (WStringToUtf8 (cx_win x) user_id) (WStringToUtf8 (cx_win x) pw) name g s)))"

text \<open>After the wait: no answer within the time limit closes the connection.\<close>

definition login_answer :: "bool \<Rightarrow> GlobalData \<Rightarrow> TestSession \<Rightarrow> GlobalData \<times> TestSession" where
  "login_answer answered g s = (if answered then (g, s) else TestSession_disconnect (print C_login_timeout g) s)"

text \<open>One line of the command loop; the result tells whether the loop goes on.  \<open>wstoi\<close> is \<open>stoi\<close> on wide
  strings, with the number and the index behind it; \<open>None\<close> is an exception.\<close>

definition manual_command ::
  "client_ext \<Rightarrow> client_io \<Rightarrow> (wstring \<Rightarrow> (int \<times> nat) option) \<Rightarrow> wstring \<Rightarrow> GlobalData \<Rightarrow> TestSession \<Rightarrow> bool client_result" where
  "manual_command x e wstoi line g s =
     (let go_on = map_option (Pair True) in
      if line = wide ''/q'' then map_option (Pair False) (TestSession_logout x e g s)
      else if line = wide ''/rooms'' then go_on (send_get_room_info x e g s)
      else if take 7 line = wide ''/enter '' then
        (let input = drop 7 line in
         case wstoi input of
           None \<Rightarrow> Some (True, print C_bad_room g, s)
         | Some (room_id, stop) \<Rightarrow>
             if stop \<noteq> length input \<or> room_id < 0 \<or> room_id > 255 then Some (True, print C_bad_room g, s)
             else do {
               (sent, g, s) \<leftarrow> send_enter_room x e (word_of_int room_id) g s;
               Some (True, if \<not> sent then print C_room_busy g else g, s) })
      else if line = wide ''/exit'' then do {
        (sent, g, s) \<leftarrow> send_exit_room x e g s;
        Some (True, if \<not> sent then print C_no_room g else g, s) }
      else if take 5 line = wide ''/all '' then go_on (send_chat x e (drop 5 line) CHAT_ALL (ts_room_id s) g s)
      else if take 6 line = wide ''/chat '' then go_on (send_chat x e (drop 6 line) CHAT_NORMAL (ts_room_id s) g s)
      else if take 9 line = wide ''/whisper '' then
        (let body = drop 9 line in
         case find_char 32 body of
           None \<Rightarrow> Some (True, print C_usage g, s)
         | Some split \<Rightarrow> go_on (send_whisper_chat x e (substr 0 split body) (drop (split + 1) body) CHAT_WHISPER
             (ts_room_id s) g s))
      else Some (True, g, s))"

section \<open>The bots\<close>

lemma bot_indices_spec:
  assumes "0 < k"
  shows "set (bot_indices k n i) = {j. i \<le> j \<and> j < n \<and> j mod k = i mod k} \<and> sorted_wrt (<) (bot_indices k n i)"
  using assms
proof (induction k n i rule: bot_indices.induct)
  case (1 k n i)
  show ?case
  proof (cases "i < n \<and> 0 < k")
    case True
    have "j \<in> {j. i \<le> j \<and> j < n \<and> j mod k = i mod k} \<longleftrightarrow>
      j = i \<or> j \<in> {j. i + k \<le> j \<and> j < n \<and> j mod k = (i + k) mod k}" for j
    proof -
      have "i + k \<le> j" if ij: "i < j" "j mod k = i mod k"
      proof -
        obtain q where "j = i + k * q" using mod_eq_nat1E [OF ij(2)] ij(1) by auto
        with ij(1) show ?thesis by (cases q) auto
      qed
      with True show ?thesis by auto
    qed
    with 1 True show ?thesis
      by (subst (1 2) bot_indices.simps) (auto simp: set_eq_iff)
  qed (use 1 in \<open>auto simp: bot_indices.simps [of k n i]\<close>)
qed

lemma bot_thread_unique:
  assumes "0 < k" "j < n"
  shows "\<exists>!t. t < k \<and> j \<in> set (bot_indices k n t)"
proof (rule ex1I [of _ "j mod k"])
  show "j mod k < k \<and> j \<in> set (bot_indices k n (j mod k))" using assms by (simp add: bot_indices_spec)
qed (use assms in \<open>auto simp: bot_indices_spec\<close>)

text \<open>What a bot that is logged in does is one of the calls on its session.\<close>

definition bot_call :: "ClientConfig \<Rightarrow> nat \<Rightarrow> int \<Rightarrow> TestSession \<Rightarrow> client_call" where
  "bot_call settings session_number target s =
     (if ts_room_id s < 0 then Call_enter (word_of_int (ts_bot_index s smod cc_bot_room_count settings))
      else if ts_bot_index s smod cc_all_chat_interval settings = 0
      then Call_chat (wide ''bot all chat test'') CHAT_ALL (ts_room_id s)
      else if session_number > 1 \<and> ts_bot_index s smod cc_whisper_interval settings = 0
      then Call_whisper (wide ''Bot_'' @ wide (decimal target)) (wide ''bot whisper test'') CHAT_WHISPER (ts_room_id s)
      else Call_chat (wide ''bot room chat test'') CHAT_NORMAL (ts_room_id s))"

definition bot_settings :: "ClientConfig \<Rightarrow> bool" where
  "bot_settings settings \<longleftrightarrow> 0 < cc_bot_room_count settings \<and> 0 < cc_all_chat_interval settings \<and>
     0 < cc_whisper_interval settings \<and> 0 < cc_bot_thread_count settings"

lemma bot_action_call:
  "bot_settings settings \<Longrightarrow> bot_action x e settings n target g s =
     (if ts_is_login s then call x e (bot_call settings n target s) g s else Some (g, s))"
  by (simp add: bot_action_def bot_call_def bot_settings_def Let_def)

section \<open>Steps of the program\<close>

lemma reachable_run: "client_run x evs c c' \<Longrightarrow> client_reachable x c \<Longrightarrow> client_reachable x c'"
  by (induction rule: client_run.induct) (auto intro: client_reachable.step)

lemma on_session_do:
  assumes "do_on i (\<lambda>g s. map_option snd (f g s)) c = Some c'"
  shows "\<exists>r. on_session i f c = Some (r, c') \<and> dom (cl_sessions c') = dom (cl_sessions c)"
proof -
  obtain s where s: "cl_sessions c i = Some s" using assms by (auto simp: on_session_def split: option.splits)
  with assms obtain r g' s' where "f (cl_global c) s = Some (r, g', s')"
    "c' = c\<lparr>cl_sessions := (cl_sessions c)(i \<mapsto> s'), cl_global := g'\<rparr>" by (auto simp: on_session_def)
  with s show ?thesis by (auto simp: on_session_def)
qed

lemma start_client_started:
  assumes "start_client W InetPtonW htons port_ok config mode = Some (settings, addr, c)"
  shows "ClientConfig_load W config (mode = LOAD_TEST) = Some settings" "client_reachable x c" "cl_sessions c = Map.empty"
proof -
  obtain y addr' where y: "ClientConfig_load W config (mode = LOAD_TEST) = Some y"
    "start_server InetPtonW htons (cc_server_ip y) (cc_port y) = Some addr'"
    using assms by (auto simp: start_client_def bind_eq_Some_conv)
  obtain created cs where cs: "CreateIocpHandle port_ok ClientServer_new = (created, cs)" by fastforce
  obtain started cs' where cs': "start_worker_thread (if mode = LOAD_TEST then cc_worker_thread_count y else 1) cs
      = (started, cs')" by fastforce
  have "(if \<not> created \<or> \<not> started then None
      else Some (y, addr', client_new\<lparr>cl_server := cs', cl_global := GlobalData_new\<lparr>cg_mode := mode\<rparr>\<rparr>)) = Some (settings, addr, c)"
    using assms unfolding start_client_def y(1) Option.bind.bind_lunit y(2) cs Let_def prod.case cs' .
  then have c: "created" "started" "y = settings"
    "c = client_new\<lparr>cl_server := cs', cl_global := GlobalData_new\<lparr>cg_mode := mode\<rparr>\<rparr>" by (simp_all split: if_splits)
  with y(1) show "ClientConfig_load W config (mode = LOAD_TEST) = Some settings" by simp
  from c show "client_reachable x c" "cl_sessions c = Map.empty"
    using client_reachable.start [of port_ok cs _ cs' x mode] cs cs' by (simp_all add: client_new_def)
qed

context client_runtime
begin

lemma step_reachable:
  assumes "client_reachable x c" "enabled ev c"
  obtains c' where "client_step x ev c = Some c'" "client_reachable x c'" "dom (cl_sessions c) \<subseteq> dom (cl_sessions c')"
proof -
  obtain c' where c': "client_step x ev c = Some c'"
    "case completed ev of None \<Rightarrow> progress 0 0 c c' | Some i \<Rightarrow> progress i (- 1) c c'"
    using step_progress [OF reachable_client_inv [OF assms(1)] assms(2)] by blast
  then have "dom (cl_sessions c) \<subseteq> dom (cl_sessions c')" by (fastforce simp: progress_def split: option.splits)
  with that c'(1) client_reachable.step [OF assms c'(1)] show ?thesis by blast
qed

lemma on_session_reachable:
  assumes "client_reachable x c" "enabled ev c" "client_step x ev c = do_on i (\<lambda>g s. map_option snd (f g s)) c"
  obtains r c' where "on_session i f c = Some (r, c')" "client_reachable x c'" "dom (cl_sessions c') = dom (cl_sessions c)"
proof -
  obtain c' where "client_step x ev c = Some c'" "client_reachable x c'" using step_reachable [OF assms(1,2)] .
  moreover from this(1) obtain r where "on_session i f c = Some (r, c')" "dom (cl_sessions c') = dom (cl_sessions c)"
    using on_session_do [of i f c c'] assms(3) by metis
  ultimately show ?thesis using that by blast
qed

lemma run_dom:
  "client_run x evs c c' \<Longrightarrow> client_reachable x c \<Longrightarrow> dom (cl_sessions c) \<subseteq> dom (cl_sessions c')"
proof (induction rule: client_run.induct)
  case (more ev c c1 evs c')
  obtain c2 where "client_step x ev c = Some c2" "client_reachable x c2" "dom (cl_sessions c) \<subseteq> dom (cl_sessions c2)"
    using step_reachable [OF more.prems more.hyps(1)] .
  with more show ?case by auto
qed simp

lemma bot_round_runs:
  assumes "client_reachable x c" "bot_settings settings" "set sessions \<subseteq> dom (cl_sessions c)"
    "\<forall>j \<in> set is. j < length sessions"
  shows "\<exists>c'. bot_round x io settings running sessions is c = Some c' \<and> client_reachable x c'"
  using assms
proof (induction "is" arbitrary: c)
  case (Cons j "is")
  let ?i = "sessions ! j"
  have j: "j < length sessions" using Cons.prems(4) by simp
  then have "(j + 1) mod length sessions < length sessions" by (intro mod_less_divisor) linarith
  with j obtain t s where ts: "cl_sessions c (sessions ! ((j + 1) mod length sessions)) = Some t" "cl_sessions c ?i = Some s"
    using Cons.prems(3) nth_mem by blast
  let ?f = "bot_action x (io j) settings (length sessions) (ts_bot_index t)"
  have "\<exists>c1. do_on ?i ?f c = Some c1 \<and> client_reachable x c1 \<and> dom (cl_sessions c1) = dom (cl_sessions c)"
  proof (cases "ts_is_login s")
    case True
    let ?ev = "N_call ?i (io j) (bot_call settings (length sessions) (ts_bot_index t) s)"
    have en: "enabled ?ev c" using ts(2) by (simp add: enabled_def)
    obtain c1 where "client_step x ?ev c = Some c1" "client_reachable x c1" using step_reachable [OF Cons.prems(1) en] .
    moreover have "do_on ?i ?f c = client_step x ?ev c"
      using True ts(2) by (simp add: on_session_def bot_action_call [OF Cons.prems(2)])
    ultimately show ?thesis using ts(2) by (fastforce simp: on_session_def split: option.splits)
  next
    case False
    then have "do_on ?i ?f c = Some c"
      using ts(2) by (simp add: on_session_def bot_action_call [OF Cons.prems(2)] fun_upd_idem)
    with Cons.prems(1) show ?thesis by blast
  qed
  then obtain c1 where c1: "do_on ?i ?f c = Some c1" "client_reachable x c1" "dom (cl_sessions c1) = dom (cl_sessions c)"
    by blast
  obtain c' where "bot_round x io settings running sessions is c1 = Some c'" "client_reachable x c'"
    using Cons.IH [OF c1(2) Cons.prems(2)] c1(3) Cons.prems(3,4) by auto
  with Cons.prems(1) c1 ts(1) show ?case by (cases "running j") simp_all
qed simp

lemma register_reachable:
  assumes "client_reachable x c" "cl_sessions c i \<noteq> None"
  obtains r c' where "register_socket p (Some i) c = Some (r, c')" "client_reachable x c'"
    "dom (cl_sessions c') = dom (cl_sessions c)"
proof -
  have en: "enabled (N_register i p) c" using assms(2) by (simp add: enabled_def)
  obtain c' where c': "client_step x (N_register i p) c = Some c'" "client_reachable x c'"
    using step_reachable [OF assms(1) en] .
  then obtain r where r: "register_socket p (Some i) c = Some (r, c')" by auto
  obtain s where s: "cl_sessions c i = Some s" using assms(2) by auto
  then have "cl_sessions c' = cl_sessions c \<or> (\<exists>s'. cl_sessions c' = (cl_sessions c)(i \<mapsto> s'))"
    using r by (auto simp: register_socket_def on_session_def split: if_splits prod.splits)
  with s have "dom (cl_sessions c') = dom (cl_sessions c)" by (elim disjE exE) auto
  with that r c'(2) show ?thesis by blast
qed

lemma setup_bot_runs:
  assumes c: "client_reachable x c" "cl_sessions c (be_session (env i)) = None"
  shows "\<exists>more c'. setup_bot x env i (sessions, c) = Some (sessions @ more, c') \<and> client_reachable x c' \<and>
    (more = [] \<or> more = [be_session (env i)]) \<and>
    dom (cl_sessions c') = insert (be_session (env i)) (dom (cl_sessions c))"
proof -
  let ?i = "be_session (env i)" and ?D = "insert (be_session (env i)) (dom (cl_sessions c))"
  have en: "enabled (N_create ?i i) c" using c(2) by (simp add: enabled_def)
  obtain c0 where c0: "client_step x (N_create ?i i) c = Some c0" "client_reachable x c0"
    using step_reachable [OF c(1) en] .
  then have d0: "dom (cl_sessions c0) = ?D" by auto
  then have en1: "enabled (N_connect ?i (be_WSASocket (env i)) (be_connect (env i))) c0" by (auto simp: enabled_def)
  obtain r1 c1 where c1: "on_session ?i (\<lambda>g s. Some (TestSession_connect (be_WSASocket (env i)) (be_connect (env i)) g s)) c0
      = Some (r1, c1)" "client_reachable x c1" "dom (cl_sessions c1) = ?D"
    by (rule on_session_reachable [OF c0(2) en1, of ?i
        "\<lambda>g s. Some (TestSession_connect (be_WSASocket (env i)) (be_connect (env i)) g s)"]) (simp_all add: d0)
  have "cl_sessions c1 ?i \<noteq> None" using c1(3) by auto
  then obtain r2 c2 where c2: "register_socket (be_port (env i)) (Some ?i) c1 = Some (r2, c2)" "client_reachable x c2"
    "dom (cl_sessions c2) = ?D" using register_reachable [OF c1(2)] c1(3) by metis
  then have en3: "enabled (N_start ?i (be_start (env i))) c2" by (auto simp: enabled_def)
  obtain r3 c3 where c3: "on_session ?i (TestSession_start (be_start (env i))) c2 = Some (r3, c3)" "client_reachable x c3"
    "dom (cl_sessions c3) = ?D"
    by (rule on_session_reachable [OF c2(2) en3, of ?i "TestSession_start (be_start (env i))"]) (simp_all add: c2(3))
  then have en4: "enabled (N_call ?i (be_login (env i)) (Call_test_login (word_of_int i) False)) c3"
    by (auto simp: enabled_def)
  obtain r4 c4 where c4: "on_session ?i (test_login x (be_login (env i)) (word_of_int i) False) c3 = Some (r4, c4)"
    "client_reachable x c4" "dom (cl_sessions c4) = ?D"
    by (rule on_session_reachable [OF c3(2) en4, of ?i "test_login x (be_login (env i)) (word_of_int i) False"])
      (simp_all add: c3(3))
  have "setup_bot x env i (sessions, c) = Some (if r1 \<and> r2 \<and> r3 then (sessions @ [?i], c4)
      else (sessions @ [], if \<not> r1 then c1 else if \<not> r2 then c2 else c3))"
    using c0(1) c1(1) c2(1) c3(1) c4(1) by (auto simp: setup_bot_def Let_def)
  with c1 c2 c3 c4 show ?thesis by (cases "r1 \<and> r2 \<and> r3") auto
qed

lemma setup_bots_runs:
  assumes "client_reachable x c" "distinct is" "inj_on (\<lambda>i. be_session (env i)) (set is)"
    "\<forall>i \<in> set is. cl_sessions c (be_session (env i)) = None"
  shows "\<exists>more c'. setup_bots x env is (sessions, c) = Some (sessions @ more, c') \<and> client_reachable x c' \<and>
    distinct more \<and> set more \<subseteq> (\<lambda>i. be_session (env i)) ` set is \<and> set more \<subseteq> dom (cl_sessions c') \<and>
    length more \<le> length is \<and> dom (cl_sessions c) \<subseteq> dom (cl_sessions c')"
  using assms
proof (induction "is" arbitrary: c sessions)
  case (Cons i "is")
  obtain m1 c1 where c1: "setup_bot x env i (sessions, c) = Some (sessions @ m1, c1)" "client_reachable x c1"
    "m1 = [] \<or> m1 = [be_session (env i)]" "dom (cl_sessions c1) = insert (be_session (env i)) (dom (cl_sessions c))"
    using setup_bot_runs [OF Cons.prems(1), of env i sessions] Cons.prems(4) by auto
  have new: "be_session (env i) \<notin> (\<lambda>i. be_session (env i)) ` set is" using Cons.prems(2,3) by (auto simp: inj_on_def)
  have "\<forall>j \<in> set is. cl_sessions c1 (be_session (env j)) = None"
  proof
    fix j assume j: "j \<in> set is"
    then have "be_session (env j) \<noteq> be_session (env i)" using new by (metis imageI)
    moreover have "be_session (env j) \<notin> dom (cl_sessions c)" using j Cons.prems(4) by auto
    ultimately show "cl_sessions c1 (be_session (env j)) = None" using c1(4) by (metis domIff insert_iff)
  qed
  moreover have "distinct is" "inj_on (\<lambda>i. be_session (env i)) (set is)" using Cons.prems(2,3) by simp_all
  ultimately obtain m2 c2 where c2: "setup_bots x env is (sessions @ m1, c1) = Some ((sessions @ m1) @ m2, c2)"
    "client_reachable x c2" "distinct m2" "set m2 \<subseteq> (\<lambda>i. be_session (env i)) ` set is" "set m2 \<subseteq> dom (cl_sessions c2)"
    "length m2 \<le> length is" "dom (cl_sessions c1) \<subseteq> dom (cl_sessions c2)"
    using Cons.IH [OF c1(2), of "sessions @ m1"] by blast
  have "setup_bots x env (i # is) (sessions, c) = Some (sessions @ (m1 @ m2), c2)" using c1(1) c2(1) by simp
  moreover have "distinct (m1 @ m2)" using c1(3) c2(3,4) new by auto
  ultimately show ?case
    using c1(3,4) c2 by (intro exI [of _ "m1 @ m2"] exI [of _ c2]) auto
qed simp

end

section \<open>Commands\<close>

context client_runtime
begin

lemma go_on_keeps: "keeps_on io s r \<Longrightarrow> keeps io s (map_option (Pair b) r)"
  by (auto simp: keeps_on_def keeps_def)

lemma keeps_map: "keeps io s r \<Longrightarrow> keeps io s (map_option (\<lambda>(a, g, s). (h a, g, s)) r)"
  by (auto simp: keeps_def)

lemma told_keeps:
  assumes "keeps io s m"
  shows "keeps io s (m \<bind> (\<lambda>(sent, g, s). Some (True, if \<not> sent then print l g else g, s)))"
  by (rule keeps_bind [OF assms]) (auto intro: keepsI tidy_refl dest: tidyD)

lemma keeps_if: "(b \<Longrightarrow> keeps io s m) \<Longrightarrow> (\<not> b \<Longrightarrow> keeps io s n) \<Longrightarrow> keeps io s (if b then m else n)"
  by simp

lemma keeps_case:
  "keeps io s m \<Longrightarrow> (\<And>v. keeps io s (f v)) \<Longrightarrow> keeps io s (case r of None \<Rightarrow> m | Some v \<Rightarrow> f v)"
  "(\<And>v w. keeps io s (h v w)) \<Longrightarrow> keeps io s (case p of (v, w) \<Rightarrow> h v w)"
  by (simp_all split: option.split prod.split)

lemma manual_command_keeps:
  assumes "ts_base io s" "ts_send_ok s"
  shows "keeps io s (manual_command x e wstoi line g s)"
  unfolding manual_command_def Let_def
  by (intro keeps_if keeps_case told_keeps go_on_keeps keepsI tidy_refl request_on_keeps chat_keeps send_enter_room_keeps
      send_exit_room_keeps assms)

lemma login_prompt_keeps:
  assumes "ts_base io s" "ts_send_ok s"
  shows "keeps io s (login_prompt x e input g s)"
proof -
  have sent: "keeps io s (map_option (\<lambda>(sent, g, s). ((if sent then Wait else Again, rest), g, s))
      (TestSession_login x e is_create user_id pw name g s))" for rest is_create user_id pw name
    by (rule keeps_map [OF login_keeps [OF assms]])
  have cs: "keeps io s m \<Longrightarrow> (\<And>v vs. keeps io s (f v vs)) \<Longrightarrow> keeps io s (case l of [] \<Rightarrow> m | v # vs \<Rightarrow> f v vs)"
    for m :: "(login_round \<times> wstring list) client_result" and f and l :: "wstring list" by (cases l) simp_all
  show ?thesis
    unfolding login_prompt_def Let_def by (intro keeps_if cs sent keepsI tidy_refl assms)
qed

end

lemma take_wide [simp]: "take n (wide s) = wide (take n s)" "drop n (wide s) = wide (drop n s)" "length (wide s) = length s"
  by (simp_all add: wide_def take_map drop_map)

lemma wide_append: "wide (s @ t) = wide s @ wide t"
  by (simp add: wide_def)

lemma manual_enter:
  assumes "wstoi (wide input) = r"
  shows "manual_command x e wstoi (wide (''/enter '' @ input)) g s =
    (case r of
       Some (room_id, n) \<Rightarrow>
         if n = length input \<and> 0 \<le> room_id \<and> room_id \<le> 255
         then send_enter_room x e (word_of_int room_id) g s \<bind>
           (\<lambda>(sent, g, s). Some (True, if \<not> sent then print C_room_busy g else g, s))
         else Some (True, print C_bad_room g, s)
     | None \<Rightarrow> Some (True, print C_bad_room g, s))"
proof -
  have ne: "wide (''/enter '' @ input) \<noteq> wide ''/q''" "wide (''/enter '' @ input) \<noteq> wide ''/rooms''"
    by (rule notI, drule arg_cong [where f = length], simp)+
  show ?thesis
    using ne assms by (auto simp: manual_command_def split: option.split)
qed

section \<open>Properties\<close>

text \<open>C10: a load test runs.  From any configuration the client accepts, setting up the bots ends, whichever of
  the socket calls fail, with a list of distinct sessions; the bot threads share the list, every session
  belonging to exactly one of them; and in every state the client reaches from there each thread's round
  ends, with no division by zero and no failed assertion, in a state the client reaches.\<close>

theorem load_test_runs:
  assumes "client_runtime x" "start_client W InetPtonW htons port_ok config LOAD_TEST = Some (settings, addr, c)"
    "inj_on (\<lambda>i. be_session (env i)) {0..cc_session_count settings - 1}"
  shows "\<exists>sessions c1. setup_bots x env [0..cc_session_count settings - 1] ([], c) = Some (sessions, c1) \<and>
    distinct sessions \<and> int (length sessions) \<le> cc_session_count settings \<and>
    (\<forall>j < length sessions. \<exists>!t. t < nat (cc_bot_thread_count settings) \<and>
       j \<in> set (bot_indices (nat (cc_bot_thread_count settings)) (length sessions) t)) \<and>
    (\<forall>evs c2 t. client_run x evs c1 c2 \<longrightarrow> (\<exists>c3. bot_round x io settings running sessions
       (bot_indices (nat (cc_bot_thread_count settings)) (length sessions) t) c2 = Some c3 \<and> client_reachable x c3))"
proof -
  note load = start_client_started(1) [OF assms(2), simplified] and c = start_client_started(2,3) [OF assms(2)]
  note r = ClientConfig_ranges [OF load]
  then have ok: "bot_settings settings" by (simp add: bot_settings_def)
  obtain sessions c1 where s: "setup_bots x env [0..cc_session_count settings - 1] ([], c) = Some (sessions, c1)"
    "client_reachable x c1" "distinct sessions" "set sessions \<subseteq> dom (cl_sessions c1)"
    "length sessions \<le> length [0..cc_session_count settings - 1]"
    using client_runtime.setup_bots_runs [OF assms(1) c(1), of "[0..cc_session_count settings - 1]" env "[]"] assms(3) c(2)
    by auto
  have "\<exists>c3. bot_round x io settings running sessions
       (bot_indices (nat (cc_bot_thread_count settings)) (length sessions) t) c2 = Some c3 \<and> client_reachable x c3"
    if run: "client_run x evs c1 c2" for evs c2 t
    using client_runtime.bot_round_runs [OF assms(1) reachable_run [OF run s(2)] ok]
      client_runtime.run_dom [OF assms(1) run s(2)] s(4) bot_indices_spec ok by (auto simp: bot_settings_def)
  moreover have "int (length sessions) \<le> cc_session_count settings" using s(5) r by (simp add: le_nat_iff)
  ultimately show ?thesis
    using s(1,3) bot_thread_unique ok by (intro exI [of _ sessions] exI [of _ c1]) (simp add: bot_settings_def)
qed


lemma codes_wide: "map unat (wide s) = codes s"
proof -
  have "unat (of_nat (of_char c) :: 16 word) = of_char c" for c
    using order.strict_trans [OF nat_of_char_less_256 [of c], of 65536] by (simp add: unat_of_nat)
  then show ?thesis by (simp add: wide_def)
qed


text \<open>The file that comes with the client, an address for it, and bots whose connections succeed.\<close>

definition lan_bot :: "int \<Rightarrow> bot_env" where
  "lan_bot i = \<lparr>be_session = nat i, be_WSASocket = True, be_connect = True, be_port = True, be_start = quiet_io,
     be_login = quiet_io\<rparr>"

theorem load_test_runs_witness:
  "\<exists>settings addr c sessions c1. start_client ref_win (\<lambda>_. Some 0x0100007F) id True
     (the (client_load (Some (ini_text example_ini)))) LOAD_TEST = Some (settings, addr, c) \<and>
   setup_bots ref_client lan_bot [0..999] ([], c) = Some (sessions, c1) \<and> distinct sessions"
proof -
  obtain y where y: "ClientConfig_load ref_win (the (client_load (Some (ini_text example_ini)))) True = Some y"
    "cc_session_count y = 1000" "cc_port y = 7777" by (rule example_settings)
  have t: "\<not> (cc_worker_thread_count y < 1 \<or> cc_worker_thread_count y > 256)" using ClientConfig_ranges [OF y(1)] by auto
  obtain addr c where s: "start_client ref_win (\<lambda>_. Some 0x0100007F) id True
     (the (client_load (Some (ini_text example_ini)))) LOAD_TEST = Some (y, addr, c)"
    using t by (simp add: start_client_def y start_server_def CreateIocpHandle_def ClientServer_new_def start_worker_thread_def)
  have inj: "inj_on (\<lambda>i. be_session (lan_bot i)) {0..cc_session_count y - 1}" by (auto simp: lan_bot_def inj_on_def)
  obtain sessions c1 where "setup_bots ref_client lan_bot [0..999] ([], c) = Some (sessions, c1)" "distinct sessions"
    using load_test_runs [OF ref_client.client_runtime_axioms s inj, where io = "\<lambda>_. quiet_io" and running = "\<lambda>_. True"]
      y(2) by auto
  with s show ?thesis by blast
qed

end
