(* ===== verification/Dialogue.thy ===== *)
theory Dialogue
  imports GameLife ClientMain
begin

text \<open>
  The login dialogue between the test client and the server: the request the client packs, the handler
  that serves it, the answer and the client's handler of the answer.
\<close>

section \<open>The client's side\<close>

text \<open>The bytes a session of the client still has to send, as \<open>send_stream\<close> on the server.\<close>

definition client_stream :: "TestSession \<Rightarrow> byte list" where
  "client_stream s = se_pending (ts_send_event s) @ concat (map sb_data (ts_send_queue s))"

lemma loaded_stream:
  assumes "ts_base io s"
  shows "client_stream (loaded s) = client_stream s"
  using push_all_pending(2) base_bufs [OF assms] by (simp add: client_stream_def loaded_def)

lemma register_send_stream:
  assumes "ts_base io s" "ts_is_connect s"
    "has_pending_data (ts_send_event s) \<or> se_bufs (ts_send_event s) = [] \<and> se_index (ts_send_event s) = 0"
    "TestSession_register_send e g s = Some (a, g', s')" "ts_is_connect s'"
  shows "client_stream s' = client_stream s"
proof (cases "build_wsabufs (ts_send_event (loaded s)) = []")
  case True
  then have "client_stream (loaded s) = []"
    using loaded_empty [OF assms(1) True assms(3)] base_bufs [OF loaded_base [OF assms(1)]]
    by (simp add: client_stream_def build_wsabufs_Nil has_pending_data_def se_pending_def)
  with True assms loaded_stream [OF assms(1)] loaded_empty [OF assms(1) True assms(3)] show ?thesis
    by (auto simp: client_register_send_eq Let_def client_stream_def send_Buffers_clear_def se_pending_def)
next
  case False
  have "\<not> ts_is_connect (snd (TestSession_disconnect g ((loaded s)\<lparr>ts_send_event := ev\<rparr>)))" for ev
    by (simp add: TestSession_disconnect_def)
  moreover note finish_begin [OF base_pending [OF loaded_base [OF assms(1)]]]
  ultimately have "s' = (TestSession_begin_io (loaded s))\<lparr>ts_send_posted := True\<rparr>"
    using False assms(2,4,5) by (auto simp: client_register_send_eq Let_def split: if_splits) (metis snd_conv)
  with loaded_stream [OF assms(1)] show ?thesis by (simp add: client_stream_def TestSession_begin_io_def)
qed

lemma client_send_stream:
  assumes "ts_base io s" "ts_send_ok s" "sb_ok sb" "TestSession_send e (Some sb) g s = Some (True, g', s')" "ts_is_connect s'"
  shows "client_stream s' = client_stream s @ sb_data sb"
proof -
  let ?t = "s\<lparr>ts_send_queue := ts_send_queue s @ [sb], ts_is_send_register := True\<rparr>"
  have con: "ts_is_connect s" using assms(4) by (auto simp: TestSession_send_def split: if_splits)
  have stream: "client_stream ?t = client_stream s @ sb_data sb" by (simp add: client_stream_def)
  show ?thesis
  proof (cases "ts_is_send_register s")
    case True
    with assms(3,4) con have "s' = ?t" by (auto simp: TestSession_send_def sb_ok_def Let_def)
    with stream show ?thesis by simp
  next
    case False
    have "ts_base io ?t" using assms(1,3) con by (simp add: ts_base_def)
    moreover have "TestSession_register_send e g ?t = Some (True, g', s')"
      using False assms(3,4) con by (auto simp: TestSession_send_def sb_ok_def Let_def)
    ultimately show ?thesis
      using register_send_stream [of io ?t e g True g' s'] send_okD [OF assms(2) con False] con assms(5) stream
        base_index [OF assms(1)] by simp
  qed
qed

text \<open>What \<open>TestSession::login\<close> has sent when it reports success.\<close>

lemma client_login_sent:
  assumes y: "client_runtime y" and c: "ts_inv io c" "ts_is_connect c1"
    and l: "TestSession_login y e is_create uid pw name g c = Some (True, g1, c1)"
  defines "r \<equiv> P_REQ_LOGIN \<lparr>req_login_is_create = is_create, req_login_id = uid, req_login_pw = pw,
    req_login_name = WStringToUtf8 (cx_win y) name\<rparr>"
  shows "\<exists>sb. make_request y r = Some sb \<and> client_stream c1 = client_stream c @ sb_data sb"
    "\<not> (uid = [] \<or> length uid > 32)" "\<not> (pw = [] \<or> length pw > 32)"
    "\<not> (is_create \<and> (WStringToUtf8 (cx_win y) name = [] \<or> length (WStringToUtf8 (cx_win y) name) > 32))"
proof -
  show "\<not> (uid = [] \<or> length uid > 32)" "\<not> (pw = [] \<or> length pw > 32)"
    "\<not> (is_create \<and> (WStringToUtf8 (cx_win y) name = [] \<or> length (WStringToUtf8 (cx_win y) name) > 32))"
    using l by (auto simp: TestSession_login_def Let_def split: if_splits)
  obtain b c0 where b: "begin_login c = (b, c0)" by fastforce
  have b': b "TestSession_send e (make_request y r) g c0 = Some (True, g1, c1)"
    using l b by (auto simp: TestSession_login_def Let_def r_def bind_eq_Some_conv split: if_splits bool.splits)
  then have eq: "c0 = c\<lparr>ts_login_pending := True, ts_test_session_state := TS_LOGIN_SEND\<rparr>"
    using b by (auto simp: begin_login_def split: if_splits)
  have ok: "ts_base io c0" "ts_send_ok c0" "client_stream c0 = client_stream c"
    using begin_login_tidy [of io c] c(1) b b'(1) eq by (auto simp: tidy_def ts_inv_def client_stream_def)
  obtain sb where sb: "make_request y r = Some sb"
    using b'(2) by (cases "make_request y r") (auto simp: TestSession_send_def)
  moreover have "sb_ok sb" by (rule pb_runtime.make_req_ok [OF client_runtime.pb [OF y] sb])
  ultimately have "client_stream c1 = client_stream c @ sb_data sb"
    using client_send_stream [OF ok(1,2) _ _ c(2)] b'(2) ok(3) by simp
  with sb show "\<exists>sb. make_request y r = Some sb \<and> client_stream c1 = client_stream c @ sb_data sb" by blast
qed

section \<open>The server's side\<close>

text \<open>Serving a login request: the session is logged in exactly when the answer says so, with the account
  the answer names, and the answer is what it has to send next.\<close>

lemma login_served:
  assumes x: "server_runtime x" and w: "world_inv (Some i) w" "w_sessions w i = Some s" "ss_is_connect s" "\<not> gs_is_login s"
    and room: "length (lg_memory_login_info_db (w_login w)) < 2 ^ 64 - 2"
    and f: "\<not> (uid = [] \<or> length uid > 32)" "\<not> (pw = [] \<or> length pw > 32)"
      "\<not> (is_create \<and> (name = [] \<or> length name > 32))"
    and ack: "\<And>idx n e. length n \<le> 96 \<Longrightarrow> int32_range e \<Longrightarrow> ack_short (ack idx n e)"
  shows "\<exists>result idx n w' s' sb. login_request x ack (Some i) is_create uid pw name w = Some (True, w') \<and>
    w_sessions w' i = Some s' \<and> length n \<le> 32 \<and>
    make_ack (ext_pb x) (ext_room x) (ack idx (WStringToUtf8 (ext_win x) n) (login_error_value result)) = Some sb \<and>
    gs_is_login s' = (result = LOGIN_SUCCESS) \<and> (gs_is_login s' \<longrightarrow> ss_account_idx s' = idx) \<and>
    (ss_is_connect s' \<longrightarrow> send_stream s' = send_stream s @ sb_data sb)"
proof -
  obtain result idx n lg' where r: "attempt_login (ext_win x) is_create uid pw name (w_login w) = (result, idx, n, lg')"
    by (metis prod_cases4)
  have lg: "login_inv (w_login w)" "names_short (w_login w)"
    using world_tables [OF w(1)] by (simp_all add: tables_inv_def login_ok_def)
  have res: "length n \<le> 32" "if result = LOGIN_SUCCESS then grants idx n (w_login w) lg' else lg' = w_login w"
    using server_runtime.login_attempt [OF x lg room _ r] f(3) by auto
  define t where "t = (if result = LOGIN_SUCCESS then s\<lparr>gs_is_login := True, ss_account_idx := idx, ss_user_name := n\<rparr> else s)"
  let ?v = "if result = LOGIN_SUCCESS then register_login i idx n (w\<lparr>w_login := lg'\<rparr>) else Some (w\<lparr>w_login := lg'\<rparr>)"
  obtain v where v: "?v = Some v" "world_inv (Some i) v"
    using register_login_world [OF w(1,2,4,3), of idx n lg'] res(2) w(1) by (cases "result = LOGIN_SUCCESS") auto
  have vi: "w_sessions v i = Some t"
    using v(1) w(2) by (cases "result = LOGIN_SUCCESS") (auto simp: t_def register_login_def with_session_def Let_def)
  have "ack_short (ack idx (WStringToUtf8 (ext_win x) n) (login_error_value result))"
    by (rule ack [OF server_runtime.name_le [OF x res(1)] server_runtime.login_error_range [OF x]])
  then obtain sb where sb: "make_ack (ext_pb x) (ext_room x) (ack idx (WStringToUtf8 (ext_win x) n) (login_error_value result)) = Some sb"
    "sb_ok sb" using server_runtime.make_ack_made [OF x] by blast
  obtain s' where s': "send (ext_io x 0 i) sb t = Some s'" "ss_is_connect s' \<longrightarrow> send_stream s' = send_stream t @ sb_data sb"
    using send_inv [OF sessions_okD [OF world_sessions [OF v(2)] vi] _ sb(2)] by fastforce
  have p: "profile_of s' = profile_of t" by (rule quiet_profile [OF send_quiet [OF s'(1)]])
  have "gs_is_login s' = gs_is_login t" "ss_account_idx s' = ss_account_idx t"
    using arg_cong [OF p, of pf_login] arg_cong [OF p, of pf_account] by simp_all
  then have "gs_is_login s' = (result = LOGIN_SUCCESS)" "gs_is_login s' \<longrightarrow> ss_account_idx s' = idx"
    using w(4) by (simp_all add: t_def)
  moreover have "send_stream t = send_stream s" by (simp add: t_def send_stream_def)
  moreover have "login_request x ack (Some i) is_create uid pw name w =
      Some (True, v\<lparr>w_sessions := (w_sessions v)(i \<mapsto> s')\<rparr>)"
    unfolding login_request_eq [OF w(2,4) f r] v(1) using sb(1) vi s'(1) by (simp add: send_packet_def with_session_def)
  ultimately show ?thesis using res(1) sb(1) s'(2)
    by (intro exI [of _ result] exI [of _ idx] exI [of _ n] exI [of _ "v\<lparr>w_sessions := (w_sessions v)(i \<mapsto> s')\<rparr>"]
        exI [of _ s'] exI [of _ sb]) simp
qed

section \<open>The dialogue\<close>

lemma login_request_valid:
  assumes "win_conversions W" "\<forall>ws. lib_VerifyUTF8 L (WStringToUtf8 W ws)"
    "length (WStringToUtf8 W uid) \<le> 32" "length (WStringToUtf8 W pw) \<le> 32" "length (WStringToUtf8 W name) \<le> 32"
  shows "req_valid L (P_REQ_LOGIN \<lparr>req_login_is_create = b, req_login_id = WStringToUtf8 W uid,
    req_login_pw = WStringToUtf8 W pw, req_login_name = WStringToUtf8 W name\<rparr>)"
  using assms by (simp add: REQ_LOGIN_valid_def)

text \<open>The client's handler of the answer.\<close>

lemma login_answered:
  assumes "pb_runtime (cx_pb y)" "lib_VerifyUTF8 (cx_pb y) n" "length n \<le> 96"
    "make_ack (cx_pb y) room (P_ACK_LOGIN (ACK_LOGIN_new\<lparr>ack_login_idx := idx, ack_login_user_name := n,
       ack_login_result := login_error_value result\<rparr>)) = Some sb"
    "ts_is_connect c"
  shows "\<exists>g' c'. client_handle_packet y e (sb_data sb) g c = Some (True, g', c') \<and> \<not> ts_login_pending c' \<and>
    ts_is_login c' = (result = LOGIN_SUCCESS) \<and> (result = LOGIN_SUCCESS \<longrightarrow> ts_account_idx c' = idx)"
proof -
  let ?a = "P_ACK_LOGIN (ACK_LOGIN_new\<lparr>ack_login_idx := idx, ack_login_user_name := n,
    ack_login_result := login_error_value result\<rparr>)"
  have short: "ack_short ?a"
    using assms(3) server_runtime.login_error_range [OF ref_ext.server_runtime_axioms, of result] by (simp add: ack_new_defs)
  have "ack_valid (cx_pb y) ?a"
    using short assms(2) by (simp add: ACK_LOGIN_valid_def)
  moreover have "ack_size ?a + HEADER_SIZE < 65536" using ack_short_size [OF short] by (simp add: HEADER_SIZE_def)
  ultimately have "client_HandlePacket (cx_pb y) (sb_data sb) = Some ?a"
    using pb_runtime.make_ack_Some [OF assms(1), of ?a room] assms(4) by (metis option.inject)
  moreover have "login_error_value result = login_error_value LOGIN_SUCCESS \<longleftrightarrow> result = LOGIN_SUCCESS"
    by (cases result) simp_all
  ultimately show ?thesis
    using assms(5) by (simp add: client_handle_packet_def Handle_ACK_LOGIN_def complete_login_def Let_def)
qed


text \<open>A server and a client with the same libraries, and a client that creates an account.\<close>

definition dialogue_server :: server_ext where
  "dialogue_server = ref_ext\<lparr>ext_pb := any_utf8 ref_lib\<rparr>"

definition dialogue_client :: client_ext where
  "dialogue_client = ref_client\<lparr>cx_pb := any_utf8 ref_lib\<rparr>"

lemma dialogue_runtimes: "server_runtime dialogue_server" "client_runtime dialogue_client"
  by (simp_all add: server_runtime_def client_runtime_def dialogue_server_def dialogue_client_def ref_ext_def ref_client_def
      pb_runtime_any_utf8 ref.pb_runtime_axioms ref_win.win_conversions_axioms)

lemma live_session_inv: "ts_inv 0 live_session"
  by (simp add: live_session_def ts_inv_def ts_base_def ts_send_ok_def ts_recv_ok_def TestSession_new_def RecvBuffer_new_def
      BUFFER_SIZE_def rb_inv_def int32_range_def SendEvent_new_def se_inv_def rest_wf_def HEADER_SIZE_def free_size_def rb_data_def data_size_def)

lemma dialogue_login:
  "\<exists>g1 c1. TestSession_login dialogue_client quiet_io True (WStringToUtf8 ref_win [97]) (WStringToUtf8 ref_win [112]) [65]
     GlobalData_new live_session = Some (True, g1, c1) \<and> ts_is_connect c1"
proof -
  let ?U = "WStringToUtf8 ref_win"
  let ?r = "P_REQ_LOGIN \<lparr>req_login_is_create = True, req_login_id = ?U [97], req_login_pw = ?U [112], req_login_name = ?U [65]\<rparr>"
  have u: "?U [97] = [97]" "?U [112] = [112]" "?U [65] = [65]" by code_simp+
  have "req_valid (cx_pb dialogue_client) ?r" "req_size ?r + HEADER_SIZE < 65536"
    unfolding u by (simp_all add: dialogue_client_def REQ_LOGIN_valid_def REQ_LOGIN_ByteSizeLong_def StringSize_def
        LengthDelimitedSize_def VarintSize_eq varint_small HEADER_SIZE_def)
  then obtain sb where sb: "make_request dialogue_client ?r = Some sb"
    using pb_runtime.make_req_packed [OF client_runtime.pb [OF dialogue_runtimes(2)], of ?r "cx_room dialogue_client"] by auto
  have ok: "0 < sb_write_size sb"
    using pb_runtime.make_req_ok [OF client_runtime.pb [OF dialogue_runtimes(2)] sb] by (simp add: sb_ok_def)
  have w: "cx_win dialogue_client = ref_win" by (simp add: dialogue_client_def ref_client_def)
  show ?thesis
    using sb ok unfolding TestSession_login_def w Let_def u
    by (simp add: begin_login_def live_session_def TestSession_new_def TestSession_send_def Let_def
        TestSession_register_send_def has_pending_data_def SendEvent_new_def send_Buffers_push_def build_wsabufs_def
        wsabuf_of_def TestSession_begin_io_def quiet_io_def io_failed_def)
qed


end
