(* ===== verification/Spec2Isabelle.thy ===== *)
theory Spec2Isabelle
  imports RecvBuf PacketFraming SendBuf LoginDb Rooms JobQueues JobTimers SessionFlow Messages PacketCodec
    SessionMgr GameLife ConfigFiles ServiceClose Dialogue
begin

text \<open>
  A verification library of the IOCP game server and its test client.

  \<^bold>\<open>The program.\<close>  \<^verbatim>\<open>Server/ServerCore\<close> is a network and job library over Windows completion ports,
  \<^verbatim>\<open>Server/GameServer\<close> a chat server on top of it (accounts, ten rooms, room, global and whispered chat, a
  heartbeat), \<^verbatim>\<open>TestClient\<close> a client with a manual mode and a load test.  Both sides exchange packets: a header
  of two 16-bit numbers (size and id) and a protobuf message.  A listener keeps 32 accepts outstanding; an
  accepted connection becomes a \<open>GameSession\<close> of the session manager.  Completions of its socket operations
  are dispatched to the session, which cuts the received bytes into packets and posts one logic job per
  packet to its job queue; a handler runs as such a job, changes the accounts, the rooms and the indexes of
  the session manager, and sends its answers through the send queue of the sessions.  A session that loses its
  connection posts one last job, the cleanup.

  \<^bold>\<open>Conventions.\<close>  Unsigned integers are words of their width.  A signed \<open>int32\<close> is an \<open>int\<close>: its overflow is
  undefined behaviour in C++, so the invariants keep every such value inside \<open>int32_range\<close>.  A \<open>std::string\<close> is a
  \<open>string\<close> or a list of bytes, a \<open>std::wstring\<close> a list of 16-bit words.  A class is a record with the fields of the
  source (prefixed), an object behind a shared pointer is named by its address (\<open>sid\<close>) in a store, a null pointer is
  \<open>None\<close>.  A failed assertion, a null dereference or an access outside an array is \<open>None\<close> as result of the
  operation, so that a theorem that the result is \<open>Some\<close> says that the code does not crash.  What a method
  that runs under the lock of its object does is one function; where threads interleave between locks the steps
  are separate (\<open>JobQueues\<close>, \<open>JobTimers\<close>, the events of the server and of the client).

  \<^bold>\<open>Parameters.\<close>  Code that is only linked is an argument: the compiled part of protobuf (record \<open>pb_lib\<close>, its
  documented behaviour in the locale \<open>pb_runtime\<close>), the Windows string conversions (\<open>win_lib\<close>, locale
  \<open>win_conversions\<close>), \<open>std::priority_queue\<close> (locale \<open>timer_queue\<close>), and the results of Winsock calls, which are
  fields of the environments \<open>io_env\<close>, \<open>accept_env\<close>, \<open>client_io\<close>, \<open>bot_env\<close>, or arguments.  \<open>server_runtime\<close> and
  \<open>client_runtime\<close> collect what a whole program relies on.  \<open>ref_lib\<close>, \<open>ref_win\<close>, \<open>ref_ext\<close> and \<open>ref_client\<close> are
  computable instances of them, on which the locales are interpreted and the witnesses evaluate.

  \<^bold>\<open>Buffers and packets of the server.\<close>
  \<^item> \<open>ServerPrelude\<close>, \<open>OrdContainers\<close>: types, blocks of bytes, and the containers of the C++ library
    (\<open>std::map\<close> as a sorted association list with the laws of the locale \<open>ordered_map\<close>).
  \<^item> \<open>RecvBuf\<close> (\<^verbatim>\<open>NetWork/RecvBuffer\<close>): the cursors of the receive buffer.  It behaves as a byte queue
    (locale \<open>byte_pipe\<close>) and after \<open>clean\<close> has room for a whole packet.
  \<^item> \<open>PacketFraming\<close> (\<open>Session::on_recv\<close>): the framing loop does what the specification of the stream says.
  \<^item> \<open>SendBuf\<close> (\<^verbatim>\<open>NetWork/SendBuffer\<close>, the send event of \<^verbatim>\<open>NetWork/IocpEvent\<close>): gather lists and partial sends.

  \<^bold>\<open>Messages.\<close>
  \<^item> \<open>WireFormat\<close> (the inline functions of the protobuf headers): varints, fields, the loop of a parser.
  \<^item> \<open>Messages\<close> (\<^verbatim>\<open>Protobuf/Protocol.pb\<close>, \<^verbatim>\<open>Struct.pb\<close>): the 21 messages as the generated code has them.
  \<^item> \<open>MessageCodec\<close>: each of them is a \<open>message_codec\<close>: parsing undoes serializing.
  \<^item> \<open>PacketCodec\<close> (\<^verbatim>\<open>Packet/ServerPacketHandler.h\<close>, \<^verbatim>\<open>Packet/ClientPacketHandler.h\<close>): \<open>MakeSendBuffer\<close>,
    \<open>HandlePacket\<close> and their tables, in both directions.

  \<^bold>\<open>Jobs.\<close>
  \<^item> \<open>JobQueues\<close> (\<^verbatim>\<open>Utils/LockQueue\<close>, \<^verbatim>\<open>Job/JobQueue\<close>, \<^verbatim>\<open>Job/GlobalQueue\<close>, \<open>ThreadManager::do_global_queue_work\<close>): a
    transition system of any number of threads.  Jobs of a queue run one at a time and in order, and none is
    forgotten.
  \<^item> \<open>JobTimers\<close> (\<^verbatim>\<open>Job/JobTimer\<close>): each reserved job is pushed exactly once and never early.

  \<^bold>\<open>Sessions.\<close>
  \<^item> \<open>SessionCore\<close> (\<^verbatim>\<open>NetWork/Session\<close>, \<^verbatim>\<open>IocpObject\<close>, \<^verbatim>\<open>IocpCore\<close>): every method of a session and its
    invariant \<open>sess_inv\<close>, which ties flags, owners of the events and the counters of outstanding work together.
  \<^item> \<open>SessionFlow\<close>: sequences of operations.  Received segments, outgoing bytes, draining after a shutdown.  The
    packet handler enters through the locale \<open>packet_sink\<close>.
  \<^item> \<open>SessionMgr\<close> (\<^verbatim>\<open>NetWork/SessionManager\<close>): the table of sessions and the two indexes.

  \<^bold>\<open>The game.\<close>
  \<^item> \<open>LoginDb\<close> (\<^verbatim>\<open>Login/Login\<close>) and \<open>Rooms\<close> (\<^verbatim>\<open>Room/Room\<close>, \<^verbatim>\<open>RoomManager\<close>).
  \<^item> \<open>GameWorld\<close> (\<^verbatim>\<open>Main/GameSession\<close>, the sending loops and the heartbeat of the session manager, the cleanup job) and
    \<open>GameHandlers\<close> (\<^verbatim>\<open>Packet/ServerPacketHandler.cpp\<close>): the state \<open>world\<close>, every handler, the events and \<open>server_step\<close>.
  \<^item> \<open>GameFrame\<close>, \<open>GameRuntime\<close>, \<open>GameCalm\<close>, \<open>GameTables\<close>, \<open>GameInv\<close>, \<open>GameSafe\<close>, \<open>GameServerRun\<close>, \<open>GameBystanders\<close>:
    what each operation leaves alone, that the shared tables follow the sessions (\<open>world_inv\<close>), and that every
    event keeps this and has a result.
  \<^item> \<open>GameProps\<close>, \<open>GameChat\<close>, \<open>GameLife\<close>: the properties of reachable states, of chat, and of a connection from
    its first byte to its cleanup.
  \<^item> \<open>AcceptLoop\<close>, \<open>ServiceRun\<close>, \<open>ServiceClose\<close> (\<^verbatim>\<open>NetWork/Listener\<close>, \<^verbatim>\<open>NetWork/Service\<close>): the accept slots with
    their retries, the service around the game, and its shutdown.  The runs of the service refine the event
    model of the game, so its properties carry over; closing ends with empty tables.
  \<^item> \<open>ConfigFiles\<close> (both \<^verbatim>\<open>Utils/ConfigReader\<close>, \<^verbatim>\<open>Utils/ClientConfig.h\<close>, the checks in \<^verbatim>\<open>Main/GameServer.cpp\<close>): the two readers
    share the lemmas of the locale \<open>trimming\<close>.

  \<^bold>\<open>The client.\<close>
  \<^item> \<open>ClientSession\<close> (\<^verbatim>\<open>Session/TestSession\<close>, \<^verbatim>\<open>Packet/ClientPacketHandler.cpp\<close>, \<^verbatim>\<open>Utils/GlobalData\<close>): methods and handlers.
    The buffer classes and string conversions of the client are the same code as the server's and use the same
    definitions.
  \<^item> \<open>ClientSafe\<close>, \<open>ClientFlow\<close>: the invariant \<open>ts_inv\<close>, kept by every method, handler and completion.
  \<^item> \<open>ClientNet\<close> (\<^verbatim>\<open>NetWork/ClientServer\<close>) and \<open>ClientRun\<close>: the client as a transition system; no event crashes it, and
    \<open>stop\<close> returns.
  \<^item> \<open>ClientMain\<close> (\<^verbatim>\<open>Main/main.cpp\<close>): start, bots and commands.
  \<^item> \<open>Dialogue\<close>: the login from the client through the server and back.

  \<^bold>\<open>Bounds and fuel.\<close>  The loops of the program are recursive functions with termination proofs.  The two loops
  over \<open>std::priority_queue\<close> carry fuel, which the methods set to the size of the queue: each round removes one item.
  \<open>drain\<close> runs as many jobs as are queued.  The runs of the server are stated for states \<open>within_limits\<close>: fewer than
  \<open>2 ^ 32 - 1\<close> queued jobs per session and \<open>2 ^ 64 - 2\<close> accounts, where the counters of the program would wrap.

  \<^bold>\<open>Not modelled.\<close>
  \<^item> The database (\<^verbatim>\<open>DB/\<close>): its start is commented out in \<open>main\<close> and nothing calls it; it is a sequence of ODBC calls.
  \<^item> The log file (\<^verbatim>\<open>Utils/Logger\<close>) and the statistics printed once a second: output only.  The counters
    themselves are modelled.
  \<^item> \<^verbatim>\<open>Utils/SocketUtils\<close> and \<^verbatim>\<open>NetWork/NetAddress\<close>: each function is one Winsock call, whose result is a parameter
    where it is used.
  \<^item> Starting and joining threads (\<^verbatim>\<open>Thread/ThreadManager\<close>, \<open>StopSignal\<close>, \<open>LoadControl\<close>, the loops of the two \<open>main\<close>
    functions): the theorems hold for any number of threads and any order of the events.
  \<^item> Global objects, precompiled headers and an unused id generator (\<^verbatim>\<open>CoreGlobal\<close>, \<^verbatim>\<open>GameGlobal\<close>, \<^verbatim>\<open>CoreTLS\<close>,
    \<^verbatim>\<open>Singleton\<close>, \<^verbatim>\<open>ObjectUtils\<close>): construction and destruction only.
  \<^item> The rest of the protobuf headers under \<^verbatim>\<open>Libraries\<close> (reflection, arenas, descriptors, unknown fields): third-party
    code off the path of a message.
  \<^item> \<^verbatim>\<open>Tool/PacketGenerator\<close>, which writes the packet headers at build time, and the test programs.
\<close>

end
